(* ===== verification/Prelude.thy ===== *)
theory Prelude
  imports "HOL-Library.Word" "HOL-Library.Monad_Syntax"
begin

unbundle bit_operations_syntax

text \<open>
  Shared vocabulary of the development: the machine integers of \<open>include/types.h\<close>, the byte
  memory the kernel runs on, the page geometry of \<open>include/mm/types.h\<close> and
  \<open>include/mm/vma.h\<close>, the error numbers of \<open>include/errno.h\<close>, and the generic facts on
  words, lists and maps that several components use.

  Conventions.
  \<^item> A C object of type \<open>uint8_t\<close>, \<open>uint16_t\<close>, \<open>uint32_t\<close> is a word of that width, so
    arithmetic wraps as it does in C. A plain \<open>int\<close> return value is an HOL \<open>int\<close>.
  \<^item> A call of \<open>panic\<close> and a failed \<open>assert\<close> stop the machine (\<open>panic.c\<close>, \<open>assert.h\<close>,
    with \<open>DEBUG_ENABLE_ASSERTIONS\<close> set as in \<open>debug.h\<close>); the model of a function that can do so
    returns an \<open>option\<close>, with \<open>None\<close> for the stopped machine. Loops that can run
    forever have an \<open>option\<close> result too, and the text beside them says so.
  \<^item> A negative return value is the C error code itself, e.g. \<open>-ENOENT\<close>.
\<close>

section \<open>Machine integers and memory\<close>

type_synonym u8 = "8 word"
type_synonym u16 = "16 word"
type_synonym u32 = "32 word"
type_synonym u64 = "64 word"

text \<open>Byte-addressed memory with 32-bit addresses; address arithmetic wraps.\<close>

type_synonym mem = "u32 \<Rightarrow> u8"

named_theorems consts_defs "definitions of the numeric constants of the headers"

text \<open>\<open>bytes_at m a n\<close> is the list of the \<open>n\<close> bytes from address \<open>a\<close> upwards.\<close>

fun bytes_at :: "mem \<Rightarrow> u32 \<Rightarrow> nat \<Rightarrow> u8 list" where
  "bytes_at m a 0 = []"
| "bytes_at m a (Suc n) = m a # bytes_at m (a + 1) n"

lemma length_bytes_at [simp]: "length (bytes_at m a n) = n"
  by (induction m a n rule: bytes_at.induct) auto

lemma nth_bytes_at [simp]: "i < n \<Longrightarrow> bytes_at m a n ! i = m (a + of_nat i)"
  by (induction m a n arbitrary: i rule: bytes_at.induct)
    (auto simp: nth_Cons algebra_simps split: nat.splits)

lemma bytes_at_append: "bytes_at m a (k + n) = bytes_at m a k @ bytes_at m (a + of_nat k) n"
  by (induction k arbitrary: a) (auto simp: algebra_simps)

lemma bytes_at_eqI:
  "(\<And>i. i < n \<Longrightarrow> m (a + of_nat i) = m' (b + of_nat i)) \<Longrightarrow> bytes_at m a n = bytes_at m' b n"
  by (auto intro: nth_equalityI)

section \<open>Words\<close>

lemma unat_of_nat_small [simp]:
  "n < 2 ^ LENGTH('a) \<Longrightarrow> unat (of_nat n :: 'a::len word) = n"
  by (simp add: unat_of_nat take_bit_nat_eq_self)

lemma of_nat_inj_small:
  "i < 2 ^ LENGTH('a) \<Longrightarrow> j < 2 ^ LENGTH('a) \<Longrightarrow> (of_nat i :: 'a::len word) = of_nat j \<Longrightarrow> i = j"
  by (metis unat_of_nat_small)

lemma unat_add_small:
  fixes a b :: "'a::len word"
  shows "unat a + unat b < 2 ^ LENGTH('a) \<Longrightarrow> unat (a + b) = unat a + unat b"
  by (simp add: unat_word_ariths)

lemma unat_mult_small:
  fixes a b :: "'a::len word"
  shows "unat a * unat b < 2 ^ LENGTH('a) \<Longrightarrow> unat (a * b) = unat a * unat b"
  by (simp add: unat_word_ariths)

lemma unat_sub_small:
  fixes a b :: "'a::len word"
  shows "b \<le> a \<Longrightarrow> unat (a - b) = unat a - unat b"
  by (rule unat_sub)

text \<open>Counting loops \<open>for (i = 0; i < n; ++i)\<close> and \<open>while (--n)\<close> do not wrap.\<close>

lemma unat_Suc_lt: "i < (n :: 'a::len word) \<Longrightarrow> unat (i + 1) = Suc (unat i)"
proof -
  assume "i < n"
  moreover have "unat n < 2 ^ LENGTH('a)" by (rule unsigned_less)
  ultimately have "unat i + 1 < 2 ^ LENGTH('a)" unfolding word_less_nat_alt by linarith
  then show ?thesis by (subst unat_add_small) auto
qed

lemma unat_pred: "n \<noteq> (0 :: 'a::len word) \<Longrightarrow> Suc (unat (n - 1)) = unat n"
  by (metis Suc_pred' unat_gt_0 unat_minus_one)

lemma loop_up_measure:
  "i < (n :: 'a::len word) \<Longrightarrow> unat n - unat (i + 1) < unat n - unat i"
  by (simp add: unat_Suc_lt word_less_nat_alt diff_less_mono2)

lemma loop_down_measure: "n \<noteq> (0 :: 'a::len word) \<Longrightarrow> unat (n - 1) < unat n"
  using unat_pred [of n] by simp

lemma bytes_at_loop_step:
  "i < n \<Longrightarrow> bytes_at m (a + i) (unat n - unat i) = m (a + i) # bytes_at m (a + (i + 1)) (unat n - unat (i + 1))"
  using unat_Suc_lt [of i n]
  by (simp add: word_less_nat_alt Suc_diff_Suc [symmetric] algebra_simps)

lemma bytes_at_loop_done: "\<not> i < n \<Longrightarrow> bytes_at m a (unat n - unat i) = []"
  by (simp add: word_less_nat_alt)

lemmas bytes_at_step = bytes_at_loop_step [of _ _ _ 0, simplified]
lemmas bytes_at_done = bytes_at_loop_done

lemma unat_lt8: "unat (b :: u8) < 256"
  using unsigned_less [of b] by simp

lemma unat_lt16: "unat (b :: u16) < 65536"
  using unsigned_less [of b] by simp

lemma unat_lt32: "unat (b :: u32) < 4294967296"
  using unsigned_less [of b] by simp

section \<open>Page geometry\<close>

text \<open>\<open>include/mm/types.h\<close>, \<open>include/mm/vma.h\<close> and the constants of \<open>kernel/Makefile\<close>.\<close>

definition PAGE_SIZE :: u32 where [consts_defs]: "PAGE_SIZE = 4096"

definition VIRT_OFFSET :: u32 where [consts_defs]: "VIRT_OFFSET = 0xC0000000"

definition PFA_VIRT_OFFSET :: u32 where [consts_defs]: "PFA_VIRT_OFFSET = 0xD0000000"

definition PAGE_ROUND_UP :: "u32 \<Rightarrow> u32" where
  "PAGE_ROUND_UP x = (x + PAGE_SIZE - 1) AND NOT (PAGE_SIZE - 1)"

definition PAGE_ROUND_DN :: "u32 \<Rightarrow> u32" where
  "PAGE_ROUND_DN x = x AND NOT (PAGE_SIZE - 1)"

section \<open>Error numbers\<close>

text \<open>\<open>include/errno.h\<close>.\<close>

definition EPERM :: int where [consts_defs]: "EPERM = 1"
definition EINVAL :: int where [consts_defs]: "EINVAL = 2"
definition ENOENT :: int where [consts_defs]: "ENOENT = 3"
definition ENOSYS :: int where [consts_defs]: "ENOSYS = 4"
definition EEXIST :: int where [consts_defs]: "EEXIST = 5"
definition ENODEV :: int where [consts_defs]: "ENODEV = 6"
definition EBADF :: int where [consts_defs]: "EBADF = 7"
definition EISDIR :: int where [consts_defs]: "EISDIR = 8"
definition EIO :: int where [consts_defs]: "EIO = 9"
definition ENODATA :: int where [consts_defs]: "ENODATA = 10"
definition ENOTSUP :: int where [consts_defs]: "ENOTSUP = 11"
definition ENOMEM :: int where [consts_defs]: "ENOMEM = 12"
definition ENOTDIR :: int where [consts_defs]: "ENOTDIR = 13"
definition ENOSPC :: int where [consts_defs]: "ENOSPC = 14"
definition ENOEXEC :: int where [consts_defs]: "ENOEXEC = 15"

section \<open>Bit masks\<close>

text \<open>A mask of the form \<open>NOT (mask k)\<close> clears the low \<open>k\<close> bits.\<close>

lemma unat_take_bit: "unat (take_bit k (x :: 'a::len word)) = unat x mod 2 ^ k"
  by (simp add: unsigned_take_bit_eq flip: take_bit_eq_mod)

lemma and_not_mask_eq:
  fixes x :: "'a::len word"
  shows "x AND NOT (mask k) = x - take_bit k x"
proof -
  have "x - take_bit k x = x AND NOT (take_bit k x)"
    by (rule disjunctive_diff) (simp add: bit_simps)
  also have "\<dots> = x AND NOT (mask k)"
    by (auto simp: bit_eq_iff bit_simps)
  finally show ?thesis by simp
qed

lemma unat_and_not_mask:
  fixes x :: "'a::len word"
  shows "unat (x AND NOT (mask k)) = unat x - unat x mod 2 ^ k"
proof -
  have "take_bit k x \<le> x"
    by (simp add: word_le_nat_alt unat_take_bit)
  then show ?thesis
    by (simp only: and_not_mask_eq unat_sub unat_take_bit)
qed

end
