(* ===== verification/Cstring.thy ===== *)
theory Cstring
  imports Prelude
begin

text \<open>
  The memory and string routines of \<open>kernel/utils.c\<close>. Each routine is a loop over the byte
  memory, written with the loop's own control flow; loops that only stop at a NUL byte return
  an \<open>option\<close>, \<open>None\<close> when they never stop. The theorems compare each of them with a
  reference on byte lists; \<open>strlen\<close>, which tests four bytes at a time, is shown equal to the
  bytewise definition of a string's length.
\<close>

section \<open>Copying and filling\<close>

function memcpy_loop :: "mem \<Rightarrow> u32 \<Rightarrow> u32 \<Rightarrow> u32 \<Rightarrow> u32 \<Rightarrow> mem" where
  "memcpy_loop m dst src bytes i =
     (if i < bytes then memcpy_loop (m(dst + i := m (src + i))) dst src bytes (i + 1) else m)"
  by pat_completeness auto
termination
  by (relation "measure (\<lambda>(m, dst, src, bytes, i). unat bytes - unat i)")
    (auto intro: loop_up_measure)

declare memcpy_loop.simps [simp del]

definition memcpy :: "mem \<Rightarrow> u32 \<Rightarrow> u32 \<Rightarrow> u32 \<Rightarrow> mem" where
  "memcpy m dst src bytes = memcpy_loop m dst src bytes 0"

function memset_loop :: "mem \<Rightarrow> u32 \<Rightarrow> u8 \<Rightarrow> u32 \<Rightarrow> u32 \<Rightarrow> mem" where
  "memset_loop m dst c n i = (if i < n then memset_loop (m(dst + i := c)) dst c n (i + 1) else m)"
  by pat_completeness auto
termination
  by (relation "measure (\<lambda>(m, dst, c, n, i). unat n - unat i)") (auto intro: loop_up_measure)

declare memset_loop.simps [simp del]

definition memset :: "mem \<Rightarrow> u32 \<Rightarrow> u32 \<Rightarrow> u32 \<Rightarrow> mem" where
  "memset m dst c n = (if dst = 0 \<or> n = 0 then m else memset_loop m dst (ucast c) n 0)"

text \<open>\<open>strndup\<close> and \<open>strdup\<close> take the allocator as an argument: new memory and address.\<close>

definition strndup :: "(mem \<Rightarrow> u32 \<Rightarrow> mem \<times> u32) \<Rightarrow> mem \<Rightarrow> u32 \<Rightarrow> u32 \<Rightarrow> mem \<times> u32" where
  "strndup kmalloc m s n = (case kmalloc m (n + 1) of (m', copy) \<Rightarrow> (memcpy m' copy s n, copy))"

section \<open>Comparing\<close>

definition bdiff :: "u8 \<Rightarrow> u8 \<Rightarrow> int" where
  "bdiff x y = uint x - uint y"

partial_function (option) strcmp :: "mem \<Rightarrow> u32 \<Rightarrow> u32 \<Rightarrow> int option" where
  "strcmp m s1 s2 =
     (if m s1 = m s2
      then (if m s1 = 0 then Some 0 else strcmp m (s1 + 1) (s2 + 1))
      else Some (bdiff (m s1) (m s2)))"

function strncmp :: "mem \<Rightarrow> u32 \<Rightarrow> u32 \<Rightarrow> u32 \<Rightarrow> int" where
  "strncmp m s1 s2 n =
     (if n = 0 then 0
      else if m s1 \<noteq> m s2 then bdiff (m s1) (m s2)
      else if m s1 = 0 then 0
      else strncmp m (s1 + 1) (s2 + 1) (n - 1))"
  by pat_completeness auto
termination
  by (relation "measure (\<lambda>(m, s1, s2, n). unat n)") (auto intro: loop_down_measure)

declare strncmp.simps [simp del]

function memcmp :: "mem \<Rightarrow> u32 \<Rightarrow> u32 \<Rightarrow> u32 \<Rightarrow> int" where
  "memcmp m c1 c2 n =
     (if n = 0 then 0
      else if m c1 \<noteq> m c2 then bdiff (m c1) (m c2)
      else memcmp m (c1 + 1) (c2 + 1) (n - 1))"
  by pat_completeness auto
termination
  by (relation "measure (\<lambda>(m, c1, c2, n). unat n)") (auto intro: loop_down_measure)

declare memcmp.simps [simp del]

section \<open>Length\<close>

definition load32 :: "mem \<Rightarrow> u32 \<Rightarrow> u32" where
  \<comment> \<open>a little-endian 32-bit load\<close>
  "load32 m a = of_nat (unat (m a) + 256 * unat (m (a + 1)) + 65536 * unat (m (a + 2))
                        + 16777216 * unat (m (a + 3)))"

text \<open>The first loop leaves at a NUL byte (\<open>Inl\<close>) or when \<open>head\<close> is aligned (\<open>Inr\<close>).\<close>

partial_function (option) strlen_align :: "mem \<Rightarrow> u32 \<Rightarrow> (u32 + u32) option" where
  "strlen_align m head =
     (if head AND 3 \<noteq> 0
      then (if m head = 0 then Some (Inl head) else strlen_align m (head + 1))
      else Some (Inr head))"

definition has_zero_byte :: "u32 \<Rightarrow> bool" where
  "has_zero_byte block \<longleftrightarrow> (block - 0x01010101) AND (NOT block) AND 0x80808080 \<noteq> 0"

partial_function (option) strlen_words :: "mem \<Rightarrow> u32 \<Rightarrow> u32 option" where
  "strlen_words m head =
     (if has_zero_byte (load32 m head) then Some head else strlen_words m (head + 4))"

partial_function (option) strlen_tail :: "mem \<Rightarrow> u32 \<Rightarrow> u32 option" where
  "strlen_tail m head = (if m head \<noteq> 0 then strlen_tail m (head + 1) else Some head)"

definition strlen :: "mem \<Rightarrow> u32 \<Rightarrow> u32 option" where
  "strlen m str =
     (case strlen_align m str of
        None \<Rightarrow> None
      | Some (Inl head) \<Rightarrow> Some (head - str)
      | Some (Inr head) \<Rightarrow>
          do { head \<leftarrow> strlen_words m head; head \<leftarrow> strlen_tail m head; Some (head - str) })"

definition strdup :: "(mem \<Rightarrow> u32 \<Rightarrow> mem \<times> u32) \<Rightarrow> mem \<Rightarrow> u32 \<Rightarrow> (mem \<times> u32) option" where
  "strdup kmalloc m s = do { len \<leftarrow> strlen m s; Some (strndup kmalloc m s len) }"

text \<open>\<open>cstr m a xs\<close>: the NUL-terminated string at \<open>a\<close> is \<open>xs\<close>.\<close>

fun cstr :: "mem \<Rightarrow> u32 \<Rightarrow> u8 list \<Rightarrow> bool" where
  "cstr m a [] = (m a = 0)"
| "cstr m a (x # xs) = (x \<noteq> 0 \<and> m a = x \<and> cstr m (a + 1) xs)"

section \<open>Correctness of copying and filling\<close>

lemma memcpy_loop_eq:
  assumes "\<And>j k. i \<le> j \<Longrightarrow> j < k \<Longrightarrow> k < bytes \<Longrightarrow> dst + j \<noteq> src + k"
  shows "memcpy_loop m dst src bytes i =
    (\<lambda>a. if i \<le> a - dst \<and> a - dst < bytes then m (src + (a - dst)) else m a)"
  using assms
proof (induction m dst src bytes i rule: memcpy_loop.induct)
  case (1 m dst src bytes i)
  show ?case
  proof (cases "i < bytes")
    case True
    have i1: "i + 1 \<le> j \<longleftrightarrow> i < j" for j
      using True unat_Suc_lt [of i bytes]
      by (auto simp: word_le_nat_alt word_less_nat_alt)
    have noclash: "dst + i \<noteq> src + k" if "i < k" "k < bytes" for k
      using "1.prems" [of i k] that by simp
    have "memcpy_loop m dst src bytes i =
        memcpy_loop (m(dst + i := m (src + i))) dst src bytes (i + 1)"
      using True by (simp add: memcpy_loop.simps [of m])
    also have "\<dots> = (\<lambda>a. if i + 1 \<le> a - dst \<and> a - dst < bytes
         then (m(dst + i := m (src + i))) (src + (a - dst)) else (m(dst + i := m (src + i))) a)"
      using "1.IH" [OF True] "1.prems" i1 by (metis (no_types, lifting) less_imp_le)
    also have "\<dots> = (\<lambda>a. if i \<le> a - dst \<and> a - dst < bytes then m (src + (a - dst)) else m a)"
    proof
      fix a
      show "(if i + 1 \<le> a - dst \<and> a - dst < bytes
           then (m(dst + i := m (src + i))) (src + (a - dst)) else (m(dst + i := m (src + i))) a)
         = (if i \<le> a - dst \<and> a - dst < bytes then m (src + (a - dst)) else m a)"
        unfolding i1 using noclash [of "a - dst"] True
        by (cases "a = dst + i") (auto simp: le_less)
    qed
    finally show ?thesis .
  next
    case False
    then show ?thesis by (auto simp: fun_eq_iff memcpy_loop.simps [of m])
  qed
qed

text \<open>
  Copying upwards is safe unless the destination starts inside the source: the regions may be
  disjoint, equal, or overlap with the destination below the source.
\<close>

lemma copy_up_no_clash:
  fixes dst src :: u32
  assumes "dst = src \<or> bytes \<le> dst - src" "j < k" "k < bytes"
  shows "dst + j \<noteq> src + k"
proof
  assume "dst + j = src + k"
  then have "dst - src = k - j" by (simp add: algebra_simps)
  moreover have "k - j < bytes" "k - j \<noteq> 0"
    using assms(2,3) by (auto simp: word_less_nat_alt unat_sub word_le_nat_alt)
  ultimately show False using assms(1) by auto
qed

lemma memcpy_eq:
  assumes "dst = src \<or> bytes \<le> dst - src"
  shows "memcpy m dst src bytes =
    (\<lambda>a. if a - dst < bytes then m (src + (a - dst)) else m a)"
  unfolding memcpy_def
  by (subst memcpy_loop_eq) (use assms copy_up_no_clash in \<open>auto simp: fun_eq_iff\<close>)

lemma memset_loop_eq:
  "memset_loop m dst c n i = (\<lambda>a. if i \<le> a - dst \<and> a - dst < n then c else m a)"
proof (induction m dst c n i rule: memset_loop.induct)
  case (1 m dst c n i)
  show ?case
  proof (cases "i < n")
    case True
    have i1: "i + 1 \<le> j \<longleftrightarrow> i < j" for j
      using True unat_Suc_lt [of i n] by (auto simp: word_le_nat_alt word_less_nat_alt)
    have "memset_loop m dst c n i = memset_loop (m(dst + i := c)) dst c n (i + 1)"
      using True by (simp add: memset_loop.simps [of m])
    also have "\<dots> = (\<lambda>a. if i < a - dst \<and> a - dst < n then c else (m(dst + i := c)) a)"
      using "1.IH" [OF True] by (simp only: i1)
    also have "\<dots> = (\<lambda>a. if i \<le> a - dst \<and> a - dst < n then c else m a)"
      using True by (auto simp: fun_eq_iff le_less)
    finally show ?thesis .
  next
    case False
    then show ?thesis by (auto simp: fun_eq_iff memset_loop.simps [of m])
  qed
qed

lemma memset_eq:
  "dst \<noteq> 0 \<Longrightarrow> memset m dst c n = (\<lambda>a. if a - dst < n then ucast c else m a)"
  by (auto simp: memset_def memset_loop_eq fun_eq_iff)

section \<open>Strings in memory\<close>

lemma cstr_iff:
  "cstr m a xs \<longleftrightarrow> (\<forall>i<length xs. xs ! i \<noteq> 0 \<and> m (a + of_nat i) = xs ! i) \<and> m (a + of_nat (length xs)) = 0"
  by (induction xs arbitrary: a) (auto simp: All_less_Suc2 algebra_simps)

lemma cstr_unique: "cstr m a xs \<Longrightarrow> cstr m a ys \<Longrightarrow> xs = ys"
  by (induction m a xs arbitrary: ys rule: cstr.induct) (case_tac ys; auto)+

lemma bdiff_zero [simp]: "bdiff x y = 0 \<longleftrightarrow> x = y"
  by (simp add: bdiff_def word_uint_eq_iff)

lemma bdiff_neg [simp]: "bdiff x y < 0 \<longleftrightarrow> x < y"
  by (simp add: bdiff_def word_less_def)

lemma strcmp_cstr:
  assumes "cstr m a xs" "cstr m b ys"
  shows "\<exists>r. strcmp m a b = Some r \<and> (r = 0 \<longleftrightarrow> xs = ys) \<and> (r < 0 \<longleftrightarrow> ord_class.lexordp xs ys)"
  using assms
proof (induction xs arbitrary: a b ys)
  case Nil
  then show ?case
    by (cases ys) (auto simp: strcmp.simps [of m a] word_neq_0_conv)
next
  case (Cons x xs)
  show ?case
  proof (cases ys)
    case Nil
    with Cons.prems show ?thesis
      by (auto simp: strcmp.simps [of m a] word_neq_0_conv)
  next
    case (Cons y ys')
    with Cons.prems Cons.IH [of "a + 1" "b + 1" ys'] show ?thesis
      by (cases "x = y") (auto simp: strcmp.simps [of m a])
  qed
qed

lemma strncmp_cstr:
  assumes "cstr m a xs" "cstr m b ys"
  shows "strncmp m a b n = 0 \<longleftrightarrow> take (unat n) (xs @ [0]) = take (unat n) (ys @ [0])"
  using assms
proof (induction xs arbitrary: a b ys n)
  case Nil
  show ?case
  proof (cases "n = 0")
    case False
    then have "unat n = Suc (unat (n - 1))" by (simp add: unat_pred)
    with Nil False show ?thesis
      by (cases ys) (auto simp: strncmp.simps [of m a])
  qed (simp add: strncmp.simps [of m a])
next
  case (Cons x xs)
  show ?case
  proof (cases "n = 0")
    case False
    then have "unat n = Suc (unat (n - 1))" by (simp add: unat_pred)
    with Cons.prems False Cons.IH [of "a + 1" "b + 1" "tl ys" "n - 1"] show ?thesis
      by (cases ys) (auto simp: strncmp.simps [of m a])
  qed (simp add: strncmp.simps [of m a])
qed

lemma memcmp_bytes:
  "memcmp m a b n = 0 \<longleftrightarrow> bytes_at m a (unat n) = bytes_at m b (unat n)"
proof (induction m a b n rule: memcmp.induct)
  case (1 m a b n)
  show ?case
  proof (cases "n = 0")
    case False
    then have "unat n = Suc (unat (n - 1))" by (simp add: unat_pred)
    with False "1.IH" show ?thesis
      by (auto simp: memcmp.simps [of m a])
  qed (simp add: memcmp.simps [of m a])
qed

section \<open>The word-wise zero test of strlen\<close>

lemma and_80808080:
  "(x :: u32) AND 0x80808080 \<noteq> 0 \<longleftrightarrow> bit x 7 \<or> bit x 15 \<or> bit x 23 \<or> bit x 31"
proof -
  have "(0x80808080 :: u32) = push_bit 7 1 OR push_bit 15 1 OR push_bit 23 1 OR push_bit 31 1"
    by simp
  then have c: "bit (0x80808080 :: u32) n \<longleftrightarrow> n = 7 \<or> n = 15 \<or> n = 23 \<or> n = 31" for n
    by (simp only: bit_simps) auto
  have "y = 0 \<longleftrightarrow> (\<forall>n. \<not> bit y n)" for y :: u32
    by (auto intro: bit_word_eqI)
  then show ?thesis by (auto simp only: bit_and_iff c)
qed

lemma has_zero_byte_iff:
  "has_zero_byte x \<longleftrightarrow> (\<exists>n \<in> {7, 15, 23, 31}. bit (x - 0x01010101) n \<and> \<not> bit x n)"
  unfolding has_zero_byte_def and.assoc [symmetric] and_80808080
  by (simp add: bit_and_iff bit_not_iff)

text \<open>The sign bit of each base-256 digit, read off one digit at a time.\<close>

lemma odd_div_low: "odd ((r + 256 * z) div 128) \<longleftrightarrow> odd (r div (128 :: int))"
proof -
  have "r + 256 * z = r + 2 * z * 128" by simp
  then have "(r + 256 * z) div 128 = r div 128 + 2 * z"
    by (simp del: mult_2_right)
  then show ?thesis by simp
qed

lemma div_high:
  "0 \<le> r \<Longrightarrow> r < 256 \<Longrightarrow> 0 \<le> c \<Longrightarrow> (r + 256 * z) div (256 * c) = z div (c :: int)"
  by (simp add: zdiv_zmult2_eq)

lemma odd_div_digit:
  "-1 \<le> r \<Longrightarrow> r < 256 \<Longrightarrow> odd (r div 128) \<longleftrightarrow> 128 \<le> r \<or> r = (-1 :: int)"
proof -
  assume r: "-1 \<le> r" "r < 256"
  consider "r = -1" | "0 \<le> r" "r < 128" | "128 \<le> r" using r by linarith
  then show ?thesis
  proof cases
    case 3
    then have "r div 128 = 1 + (r - 128) div 128" by (simp add: div_pos_geq)
    also have "(r - 128) div 128 = 0" using 3 r by (intro div_pos_pos_trivial) auto
    finally show ?thesis using 3 by simp
  qed (auto simp: div_pos_pos_trivial)
qed

lemma div_high_consts:
  assumes "0 \<le> r" "r < 256"
  shows "(r + 256 * z) div 32768 = z div (128 :: int)"
    "(r + 256 * z) div 8388608 = z div (32768 :: int)"
    "(r + 256 * z) div 2147483648 = z div (8388608 :: int)"
  using div_high [OF assms, of 128 z] div_high [OF assms, of 32768 z]
    div_high [OF assms, of 8388608 z] by simp_all

lemma pow_consts:
  "2 ^ 7 = (128 :: int)" "2 ^ 15 = (32768 :: int)"
  "2 ^ 23 = (8388608 :: int)" "2 ^ 31 = (2147483648 :: int)"
  by simp_all

lemma digit_signs:
  fixes r s t u :: int
  defines "x \<equiv> r + 256 * (s + 256 * (t + 256 * u))"
  shows "odd (x div 2 ^ 7) \<longleftrightarrow> odd (r div 128)"
    and "0 \<le> r \<Longrightarrow> r < 256 \<Longrightarrow> odd (x div 2 ^ 15) \<longleftrightarrow> odd (s div 128)"
    and "0 \<le> r \<Longrightarrow> r < 256 \<Longrightarrow> 0 \<le> s \<Longrightarrow> s < 256 \<Longrightarrow> odd (x div 2 ^ 23) \<longleftrightarrow> odd (t div 128)"
    and "0 \<le> r \<Longrightarrow> r < 256 \<Longrightarrow> 0 \<le> s \<Longrightarrow> s < 256 \<Longrightarrow> 0 \<le> t \<Longrightarrow> t < 256 \<Longrightarrow>
      odd (x div 2 ^ 31) \<longleftrightarrow> odd (u div 128)"
  unfolding x_def pow_consts by (simp_all only: div_high_consts odd_div_low)

lemma sign_cases:
  fixes r s t u :: int
  assumes "a \<longleftrightarrow> 129 \<le> r \<or> r = 0" "r \<noteq> 0 \<Longrightarrow> b \<longleftrightarrow> 129 \<le> s \<or> s = 0"
    "r \<noteq> 0 \<Longrightarrow> s \<noteq> 0 \<Longrightarrow> c \<longleftrightarrow> 129 \<le> t \<or> t = 0"
    "r \<noteq> 0 \<Longrightarrow> s \<noteq> 0 \<Longrightarrow> t \<noteq> 0 \<Longrightarrow> d \<longleftrightarrow> 129 \<le> u \<or> u = 0"
  shows "(a \<and> \<not> 128 \<le> r) \<or> (b \<and> \<not> 128 \<le> s) \<or> (c \<and> \<not> 128 \<le> t) \<or> (d \<and> \<not> 128 \<le> u)
    \<longleftrightarrow> r = 0 \<or> s = 0 \<or> t = 0 \<or> u = 0"
  using assms by (cases "r = 0"; cases "s = 0"; cases "t = 0") auto

lemma zero_byte_digits:
  fixes r s t u :: int
  assumes "0 \<le> r" "r < 256" "0 \<le> s" "s < 256" "0 \<le> t" "t < 256" "0 \<le> u" "u < 256"
  defines "x \<equiv> r + 256 * (s + 256 * (t + 256 * u))"
    and "y \<equiv> (r - 1) + 256 * ((s - 1) + 256 * ((t - 1) + 256 * (u - 1)))"
  shows "(\<exists>n \<in> {7, 15, 23, 31 :: nat}. odd (y div 2 ^ n) \<and> \<not> odd (x div 2 ^ n))
    \<longleftrightarrow> r = 0 \<or> s = 0 \<or> t = 0 \<or> u = 0"
proof -
  have x: "odd (x div 2 ^ 7) \<longleftrightarrow> 128 \<le> r" "odd (x div 2 ^ 15) \<longleftrightarrow> 128 \<le> s"
    "odd (x div 2 ^ 23) \<longleftrightarrow> 128 \<le> t" "odd (x div 2 ^ 31) \<longleftrightarrow> 128 \<le> u"
    unfolding x_def using assms(1-8) by (subst digit_signs; simp add: odd_div_digit)+
  have y7: "odd (y div 2 ^ 7) \<longleftrightarrow> 129 \<le> r \<or> r = 0"
    unfolding y_def using assms(1-8) by (subst digit_signs) (auto simp: odd_div_digit)
  have y15: "odd (y div 2 ^ 15) \<longleftrightarrow> 129 \<le> s \<or> s = 0" if "r \<noteq> 0"
    unfolding y_def using assms(1-8) that by (subst digit_signs) (auto simp: odd_div_digit)
  have y23: "odd (y div 2 ^ 23) \<longleftrightarrow> 129 \<le> t \<or> t = 0" if "r \<noteq> 0" "s \<noteq> 0"
    unfolding y_def using assms(1-8) that by (subst digit_signs) (auto simp: odd_div_digit)
  have y31: "odd (y div 2 ^ 31) \<longleftrightarrow> 129 \<le> u \<or> u = 0" if "r \<noteq> 0" "s \<noteq> 0" "t \<noteq> 0"
    unfolding y_def using assms(1-8) that by (subst digit_signs) (auto simp: odd_div_digit)
  have "(\<exists>n \<in> {7, 15, 23, 31}. odd (y div 2 ^ n) \<and> \<not> odd (x div 2 ^ n)) \<longleftrightarrow>
      (odd (y div 2 ^ 7) \<and> \<not> 128 \<le> r) \<or> (odd (y div 2 ^ 15) \<and> \<not> 128 \<le> s) \<or>
      (odd (y div 2 ^ 23) \<and> \<not> 128 \<le> t) \<or> (odd (y div 2 ^ 31) \<and> \<not> 128 \<le> u)"
    unfolding x [symmetric] by blast
  also have "\<dots> \<longleftrightarrow> r = 0 \<or> s = 0 \<or> t = 0 \<or> u = 0"
    using y7 y15 y23 y31 by (rule sign_cases)
  finally show ?thesis .
qed

lemma has_zero_byte_load32:
  "has_zero_byte (load32 m a) \<longleftrightarrow> m a = 0 \<or> m (a + 1) = 0 \<or> m (a + 2) = 0 \<or> m (a + 3) = 0"
proof -
  let ?r = "uint (m a)" and ?s = "uint (m (a + 1))" and ?t = "uint (m (a + 2))"
    and ?u = "uint (m (a + 3))"
  have l: "load32 m a = of_int (?r + 256 * (?s + 256 * (?t + 256 * ?u)))"
    by (simp add: load32_def algebra_simps)
  have d: "load32 m a - 0x01010101 =
      of_int ((?r - 1) + 256 * ((?s - 1) + 256 * ((?t - 1) + 256 * (?u - 1))))"
    by (simp add: l algebra_simps)
  have b: "0 \<le> uint w \<and> uint w < 256" for w :: u8
    using uint_lt2p [of w] by simp
  have "bit (of_int k :: u32) n \<longleftrightarrow> odd (k div 2 ^ n)" if "n < 32" for k n
    using that by (simp only: bit_of_int_iff bit_iff_odd [of k] possible_bit_word) simp
  then have bits: "(bit (load32 m a - 0x01010101) n \<longleftrightarrow>
        odd (((?r - 1) + 256 * ((?s - 1) + 256 * ((?t - 1) + 256 * (?u - 1)))) div 2 ^ n)) \<and>
      (bit (load32 m a) n \<longleftrightarrow> odd ((?r + 256 * (?s + 256 * (?t + 256 * ?u))) div 2 ^ n))"
    if "n < 32" for n
    unfolding d unfolding l using that by blast
  have lt: "n < 32" if "n \<in> {7, 15, 23, 31}" for n :: nat
    using that by auto
  have "has_zero_byte (load32 m a) \<longleftrightarrow>
      (\<exists>n \<in> {7, 15, 23, 31 :: nat}.
        odd (((?r - 1) + 256 * ((?s - 1) + 256 * ((?t - 1) + 256 * (?u - 1)))) div 2 ^ n)
        \<and> \<not> odd ((?r + 256 * (?s + 256 * (?t + 256 * ?u))) div 2 ^ n))"
    unfolding has_zero_byte_iff using bits lt by blast
  also have "\<dots> \<longleftrightarrow> ?r = 0 \<or> ?s = 0 \<or> ?t = 0 \<or> ?u = 0"
    by (rule zero_byte_digits) (simp_all add: b)
  finally show ?thesis by (simp add: uint_0_iff)
qed

text \<open>
  The length of the string at \<open>a\<close> as a distance: no byte below it is NUL, the one at it is.
\<close>

definition is_len :: "mem \<Rightarrow> u32 \<Rightarrow> nat \<Rightarrow> bool" where
  "is_len m a n \<longleftrightarrow> (\<forall>k<n. m (a + of_nat k) \<noteq> 0) \<and> m (a + of_nat n) = 0"

lemma is_len_Suc: "is_len m a (Suc n) \<longleftrightarrow> m a \<noteq> 0 \<and> is_len m (a + 1) n"
  by (auto simp: is_len_def All_less_Suc2 algebra_simps)

lemma is_len_0: "is_len m a 0 \<longleftrightarrow> m a = 0"
  by (simp add: is_len_def)

lemma cstr_is_len: "cstr m a xs \<Longrightarrow> is_len m a (length xs)"
  by (auto simp: cstr_iff is_len_def)

lemma strlen_tail_len: "is_len m a n \<Longrightarrow> strlen_tail m a = Some (a + of_nat n)"
  by (induction n arbitrary: a) (auto simp: is_len_0 is_len_Suc strlen_tail.simps [of m])

lemma is_len_plus: "is_len m a (k + n) \<longleftrightarrow> (\<forall>i<k. m (a + of_nat i) \<noteq> 0) \<and> is_len m (a + of_nat k) n"
  by (induction k arbitrary: a) (auto simp: is_len_Suc All_less_Suc2 algebra_simps)

lemma strlen_words_len:
  "is_len m a n \<Longrightarrow> \<exists>k \<le> n. strlen_words m a = Some (a + of_nat k)"
proof (induction n arbitrary: a rule: less_induct)
  case (less n)
  show ?case
  proof (cases "has_zero_byte (load32 m a)")
    case True
    then show ?thesis by (intro exI [of _ 0]) (simp add: strlen_words.simps [of m a])
  next
    case False
    then have nz: "m (a + of_nat i) \<noteq> 0" if "i < 4" for i
      using that by (auto simp: has_zero_byte_load32 numeral_nat less_Suc_eq)
    then have "4 \<le> n" using less.prems by (auto simp: is_len_def not_le [symmetric])
    then have n: "n = 4 + (n - 4)" by simp
    then have "is_len m (a + 4) (n - 4)"
      using less.prems is_len_plus [of m a 4 "n - 4"] by simp
    with \<open>4 \<le> n\<close> obtain k where "k \<le> n - 4" "strlen_words m (a + 4) = Some (a + 4 + of_nat k)"
      using less.IH [of "n - 4" "a + 4"] by auto
    with False \<open>4 \<le> n\<close> show ?thesis
      by (intro exI [of _ "k + 4"]) (auto simp: strlen_words.simps [of m a])
  qed
qed

lemma strlen_align_len:
  "is_len m a n \<Longrightarrow> strlen_align m a = Some (Inl (a + of_nat n)) \<or>
     (\<exists>k \<le> n. strlen_align m a = Some (Inr (a + of_nat k)))"
proof (induction n arbitrary: a)
  case 0
  then show ?case by (auto simp: strlen_align.simps [of m a] is_len_0)
next
  case (Suc n)
  show ?case
  proof (cases "a AND 3 = 0")
    case True
    then show ?thesis by (auto simp: strlen_align.simps [of m a] intro: exI [of _ 0])
  next
    case False
    have "m a \<noteq> 0" "is_len m (a + 1) n" using Suc.prems by (auto simp: is_len_Suc)
    with False Suc.IH [of "a + 1"] show ?thesis
      by (auto simp: strlen_align.simps [of m a] algebra_simps intro: exI [of _ "Suc _"])
  qed
qed

lemma strlen_is_len:
  assumes "is_len m a n"
  shows "strlen m a = Some (of_nat n)"
  using strlen_align_len [OF assms]
proof (elim disjE exE conjE)
  fix k assume k: "k \<le> n" "strlen_align m a = Some (Inr (a + of_nat k))"
  have split: "is_len m (a + of_nat j) (n - j)" if "j \<le> n" for j
    using assms is_len_plus [of m a j "n - j"] that by simp
  obtain i where i: "i \<le> n - k" "strlen_words m (a + of_nat k) = Some (a + of_nat k + of_nat i)"
    using strlen_words_len [OF split [OF k(1)]] by blast
  have "strlen_tail m (a + of_nat (k + i)) = Some (a + of_nat (k + i) + of_nat (n - (k + i)))"
    by (rule strlen_tail_len, rule split) (use i k in simp)
  also have "a + of_nat (k + i) + of_nat (n - (k + i)) = a + of_nat n"
    using i k by (simp flip: of_nat_add add: add.assoc)
  finally show ?thesis
    using i k by (simp add: strlen_def algebra_simps)
qed (simp add: strlen_def)

section \<open>Claims\<close>

lemma cstr_length:
  assumes "cstr m a xs"
  shows "length xs < 2 ^ 32"
proof (rule ccontr)
  assume "\<not> length xs < 2 ^ 32"
  then obtain j where j: "length xs = j + 2 ^ 32" by (metis add.commute le_Suc_ex not_less)
  have "(of_nat (2 ^ 32) :: u32) = 0" by simp
  then have "of_nat (length xs) = (of_nat j :: u32)" by (simp only: j of_nat_add add_0_right)
  moreover have "j < length xs" by (simp add: j)
  ultimately show False using assms unfolding cstr_iff by metis
qed

text \<open>
  C19. On every NUL-terminated string, at any alignment, \<open>strlen\<close> returns, and what it returns is
  the number of bytes before the NUL: the test of four bytes at a time with
  \<open>(block - 0x01010101) & ~block & 0x80808080\<close> neither misses a NUL nor stops early.
\<close>

theorem strlen_cstr:
  assumes "cstr m str xs"
  shows "\<exists>n. strlen m str = Some n \<and> unat n = length xs"
  using strlen_is_len [OF cstr_is_len [OF assms]] cstr_length [OF assms] by simp

definition hello_mem :: mem where
  "hello_mem a = (if 0x1001 \<le> a \<and> a < 0x1007 then 0x80 else if a < 0x1001 then 1 else 0)"

theorem strlen_cstr_witness:
  "\<exists>n. strlen hello_mem 0x1001 = Some n \<and> unat n = 6"
proof -
  have "cstr hello_mem 0x1001 [0x80, 0x80, 0x80, 0x80, 0x80, 0x80]"
    by (simp add: hello_mem_def)
  from strlen_cstr [OF this] show ?thesis by (simp add: eval_nat_numeral)
qed

text \<open>
  C20. \<open>memcpy\<close> copies: when the destination does not start strictly inside the source region,
  every byte of the destination gets the byte the source held before the call, also where the
  two regions overlap, and no other byte changes.
\<close>

theorem memcpy_correct:
  assumes "dst = src \<or> bytes \<le> dst - src"
  shows "memcpy m dst src bytes = (\<lambda>a. if a - dst < bytes then m (src + (a - dst)) else m a)"
  using assms by (rule memcpy_eq)

theorem memcpy_correct_witness:
  "memcpy ucast 0x10 0x12 4 = (\<lambda>a. if a - 0x10 < 4 then ucast (0x12 + (a - 0x10)) else ucast a)"
  using memcpy_correct [of "0x10" "0x12" 4 ucast] by simp

text \<open>
  C21. On two NUL-terminated strings \<open>strcmp\<close> returns, its result is zero exactly when the strings
  are equal, and negative exactly when the first is lexicographically smaller by unsigned bytes.
\<close>

theorem strcmp_correct:
  assumes "cstr m a xs" "cstr m b ys"
  shows "\<exists>r. strcmp m a b = Some r \<and> (r = 0 \<longleftrightarrow> xs = ys) \<and> (r < 0 \<longleftrightarrow> ord_class.lexordp xs ys)"
  using assms by (rule strcmp_cstr)

theorem strcmp_correct_witness:
  "\<exists>r. strcmp hello_mem 0x1002 0x1001 = Some r \<and> r < 0"
  using strcmp_correct [of hello_mem "0x1002" "[0x80, 0x80, 0x80, 0x80, 0x80]" "0x1001"
      "[0x80, 0x80, 0x80, 0x80, 0x80, 0x80]"]
  by (auto simp: hello_mem_def)

end
