(* ===== verification/Vlib.thy ===== *)
theory Vlib
  imports Cstring
begin

text \<open>
  The value-like parts of \<open>include/lib/v.h\<close>: the tokenizer \<open>v_tok\<close>, the incremental FNV-1a hash
  \<open>v_hash\<close> and the arena allocator \<open>v_ma\<close>, and the two path routines of \<open>kernel/utils.c\<close> that
  allocate from an arena, \<open>dirname\<close> and \<open>basename\<close>. Tokens are pairs of addresses into the byte
  memory; the theorems read them as byte lists.
\<close>

section \<open>Tokenizer\<close>

record v_tok =
  tk_beg :: u32
  tk_end :: u32
  tk_sep :: u8

definition v_tok_len :: "v_tok \<Rightarrow> u32" where
  "v_tok_len t = tk_end t - tk_beg t"

definition v_tok_empty :: "v_tok \<Rightarrow> bool" where
  "v_tok_empty t \<longleftrightarrow> tk_beg t \<ge> tk_end t"

text \<open>The two inner loops: skip separators, then run to the next separator.\<close>

function tok_skip :: "mem \<Rightarrow> u32 \<Rightarrow> u8 \<Rightarrow> u32 \<Rightarrow> u32" where
  "tok_skip m e sep b = (if b < e \<and> m b = sep then tok_skip m e sep (b + 1) else b)"
  by pat_completeness auto
termination
  by (relation "measure (\<lambda>(m, e, sep, b). unat e - unat b)") (auto intro: loop_up_measure)

function tok_run :: "mem \<Rightarrow> u32 \<Rightarrow> u8 \<Rightarrow> u32 \<Rightarrow> u32" where
  "tok_run m e sep b = (if b < e \<and> m b \<noteq> sep then tok_run m e sep (b + 1) else b)"
  by pat_completeness auto
termination
  by (relation "measure (\<lambda>(m, e, sep, b). unat e - unat b)") (auto intro: loop_up_measure)

declare tok_skip.simps [simp del] tok_run.simps [simp del]

definition v_tok_peek :: "mem \<Rightarrow> v_tok \<Rightarrow> v_tok" where
  "v_tok_peek m t =
     (let b = tok_skip m (tk_end t) (tk_sep t) (tk_beg t);
          e = tok_run m (tk_end t) (tk_sep t) b
      in t\<lparr>tk_beg := b, tk_end := e\<rparr>)"

definition v_tok_consume :: "mem \<Rightarrow> v_tok \<Rightarrow> v_tok \<times> v_tok" where
  \<comment> \<open>the token, and the rest the caller's tokenizer is left with\<close>
  "v_tok_consume m t =
     (let b = tok_skip m (tk_end t) (tk_sep t) (tk_beg t);
          e = tok_run m (tk_end t) (tk_sep t) b
      in (t\<lparr>tk_beg := b, tk_end := e\<rparr>, t\<lparr>tk_beg := e + 1\<rparr>))"

definition v_tok_peek_c :: "mem \<Rightarrow> v_tok \<Rightarrow> u8" where
  "v_tok_peek_c m t = m (tk_beg t)"

definition v_tok_consume_c :: "mem \<Rightarrow> v_tok \<Rightarrow> u8 \<times> v_tok" where
  "v_tok_consume_c m t = (m (tk_beg t), t\<lparr>tk_beg := tk_beg t + 1\<rparr>)"

partial_function (option) tok_count_loop :: "mem \<Rightarrow> v_tok \<Rightarrow> u32 \<Rightarrow> u32 option" where
  "tok_count_loop m t n =
     (let t' = snd (v_tok_consume m t)
      in if \<not> v_tok_empty t' then tok_count_loop m t' (n + 1) else Some (n + 1))"

definition v_tok_count :: "mem \<Rightarrow> v_tok \<Rightarrow> u32 option" where
  "v_tok_count m t = tok_count_loop m t 0"

function tok_eq_loop :: "mem \<Rightarrow> u32 \<Rightarrow> u32 \<Rightarrow> u32 \<Rightarrow> u32 \<Rightarrow> bool" where
  "tok_eq_loop m b str len i =
     (if i < len then (if m (b + i) \<noteq> m (str + i) then False else tok_eq_loop m b str len (i + 1))
      else True)"
  by pat_completeness auto
termination
  by (relation "measure (\<lambda>(m, b, str, len, i). unat len - unat i)") (auto intro: loop_up_measure)

declare tok_eq_loop.simps [simp del]

definition v_tok_eq :: "mem \<Rightarrow> v_tok \<Rightarrow> u32 \<Rightarrow> bool" where
  "v_tok_eq m tk str = tok_eq_loop m (tk_beg tk) str (v_tok_len tk) 0"

section \<open>Hash\<close>

definition V__FNV_OFFSET :: u32 where [consts_defs]: "V__FNV_OFFSET = 0x811C9DC5"
definition V__FNV_PRIME :: u32 where [consts_defs]: "V__FNV_PRIME = 0x01000193"

definition v__hash_combine :: "u32 \<Rightarrow> u8 \<Rightarrow> u32" where
  "v__hash_combine h b = (h XOR ucast b) * V__FNV_PRIME"

function hash_loop :: "mem \<Rightarrow> u32 \<Rightarrow> u32 \<Rightarrow> u32 \<Rightarrow> u32 \<Rightarrow> u32" where
  "hash_loop m data sz i h =
     (if i < sz then hash_loop m data sz (i + 1) (v__hash_combine h (m (data + i))) else h)"
  by pat_completeness auto
termination
  by (relation "measure (\<lambda>(m, data, sz, i, h). unat sz - unat i)") (auto intro: loop_up_measure)

declare hash_loop.simps [simp del]

definition v_hash_bytes :: "u32 option \<Rightarrow> mem \<Rightarrow> u32 \<Rightarrow> u32 \<Rightarrow> u32 option \<times> u32" where
  \<comment> \<open>the hash \<open>*prev\<close> is left with, if \<open>prev\<close> is not NULL, and the value returned\<close>
  "v_hash_bytes prev m data sz =
     (let h = hash_loop m data sz 0 (case prev of Some h \<Rightarrow> h | None \<Rightarrow> V__FNV_OFFSET)
      in (case prev of Some _ \<Rightarrow> Some h | None \<Rightarrow> None, h))"

section \<open>Arena allocator\<close>

record v_ma =
  ma_beg :: u32
  ma_end :: u32
  ma_flags :: u32

definition V_MA_NOZERO :: u32 where [consts_defs]: "V_MA_NOZERO = 1"
definition V_MA_SOFTFAIL :: u32 where [consts_defs]: "V_MA_SOFTFAIL = 2"
definition V_MA_DO_LONGJMP :: u32 where [consts_defs]: "V_MA_DO_LONGJMP = 4"

text \<open>An allocation returns, jumps to the arena's out-of-memory handler, or panics.\<close>

datatype 'a ma_out = MaRet 'a | MaLongjmp | MaAbort

definition v_ma_alloc ::
  "mem \<Rightarrow> v_ma \<Rightarrow> u32 \<Rightarrow> u32 \<Rightarrow> u32 \<Rightarrow> u32 \<Rightarrow> u32 \<Rightarrow> (mem \<times> v_ma \<times> u32) ma_out" where
  "v_ma_alloc m a sz align count flags data =
     (let padding = (- ma_beg a) AND (align - 1);
          available = ma_end a - ma_beg a - padding
      in if sint available \<le> 0 \<or> sint count > sint available div sint sz
         then (if ma_flags a AND V_MA_DO_LONGJMP \<noteq> 0 then MaLongjmp
               else if flags AND V_MA_SOFTFAIL \<noteq> 0 \<or> ma_flags a AND V_MA_SOFTFAIL \<noteq> 0
               then MaRet (m, a, 0)
               else MaAbort)
         else (let p = ma_beg a + padding;
                   bytes = count * sz;
                   a' = a\<lparr>ma_beg := ma_beg a + (bytes + padding)\<rparr>
               in if data \<noteq> 0 then MaRet (memcpy m p data sz, a', p)
                  else if flags AND V_MA_NOZERO \<noteq> 0 \<or> ma_flags a AND V_MA_NOZERO \<noteq> 0
                  then MaRet (m, a', p)
                  else MaRet (memset m p 0 bytes, a', p)))"

definition v_ma_from_buf :: "u32 \<Rightarrow> u32 \<Rightarrow> v_ma" where
  "v_ma_from_buf buf capacity =
     \<lparr>ma_beg = buf, ma_end = (if buf \<noteq> 0 then buf + capacity else 0), ma_flags = 0\<rparr>"

definition v_ma_from_ma :: "mem \<Rightarrow> v_ma \<Rightarrow> u32 \<Rightarrow> (mem \<times> v_ma \<times> v_ma) ma_out" where
  "v_ma_from_ma m a capacity =
     (case v_ma_alloc m a 1 1 capacity 0 0 of
        MaRet (m', a', buf) \<Rightarrow> MaRet (m', a', (v_ma_from_buf buf capacity)\<lparr>ma_flags := ma_flags a'\<rparr>)
      | MaLongjmp \<Rightarrow> MaLongjmp
      | MaAbort \<Rightarrow> MaAbort)"

text \<open>Copy a token into a NUL-terminated string of the arena; \<open>0\<close> for an empty token.\<close>

definition tok_cstr :: "mem \<Rightarrow> v_ma \<Rightarrow> v_tok \<Rightarrow> (mem \<times> v_ma \<times> u32) ma_out" where
  "tok_cstr m a tok =
     (let len = v_tok_len tok
      in if len = 0 then MaRet (m, a, 0)
         else case v_ma_alloc m a 1 1 (len + 1) 0 0 of
                MaRet (m', a', buf) \<Rightarrow> MaRet ((memcpy m' buf (tk_beg tok) len)(buf + len := 0), a', buf)
              | r \<Rightarrow> r)"

definition v_tok_peek_cstr :: "mem \<Rightarrow> v_ma \<Rightarrow> v_tok \<Rightarrow> (mem \<times> v_ma \<times> u32) ma_out" where
  "v_tok_peek_cstr m a t = tok_cstr m a (v_tok_peek m t)"

definition v_tok_consume_cstr :: "mem \<Rightarrow> v_ma \<Rightarrow> v_tok \<Rightarrow> v_tok \<times> (mem \<times> v_ma \<times> u32) ma_out" where
  "v_tok_consume_cstr m a t = (case v_tok_consume m t of (tok, t') \<Rightarrow> (t', tok_cstr m a tok))"

section \<open>Path names\<close>

text \<open>
  \<open>kernel/utils.c\<close>. The addresses of the string literals are arguments, \<open>dot\<close> for ``.'' and
  \<open>slash\<close> for ``/''. Both scans stop only at the NUL byte.
\<close>

abbreviation chr_slash :: u8 where "chr_slash \<equiv> 47"

partial_function (option) dirname_scan :: "mem \<Rightarrow> u32 \<Rightarrow> u32 \<Rightarrow> u32 \<Rightarrow> u32 \<Rightarrow> (u32 \<times> u32) option" where
  "dirname_scan m path i last_slash others =
     (if m (path + i) = 0 then Some (last_slash, others)
      else if m (path + i) = chr_slash \<and> m (path + (i + 1)) \<noteq> chr_slash
      then dirname_scan m path (i + 1) (path + i) others
      else dirname_scan m path (i + 1) last_slash (others + 1))"

text \<open>\<open>v_new(a, char, bytes)\<close>, the copy, and the terminator stored one past the allocation.\<close>

definition copy_part :: "mem \<Rightarrow> v_ma \<Rightarrow> u32 \<Rightarrow> u32 \<Rightarrow> (mem \<times> v_ma \<times> u32) ma_out" where
  "copy_part m a src bytes =
     (case v_ma_alloc m a 1 1 bytes 0 0 of
        MaRet (m', a', copy) \<Rightarrow> MaRet ((memcpy m' copy src bytes)(copy + bytes := 0), a', copy)
      | r \<Rightarrow> r)"

definition v_put_ptr :: "mem \<Rightarrow> v_ma \<Rightarrow> u32 \<Rightarrow> (mem \<times> v_ma \<times> u32) ma_out" where
  "v_put_ptr m a lit = v_ma_alloc m a 4 4 1 0 lit"

definition dirname :: "u32 \<Rightarrow> u32 \<Rightarrow> mem \<Rightarrow> v_ma \<Rightarrow> u32 \<Rightarrow> (mem \<times> v_ma \<times> u32) ma_out option" where
  "dirname dot slash m a path =
     (if path = 0 then Some (v_put_ptr m a dot)
      else do {
        (last_slash, others) \<leftarrow> dirname_scan m path 0 0 0;
        Some (if last_slash = path \<or> others = 0 then v_put_ptr m a slash
              else if last_slash = 0 then v_put_ptr m a dot
              else copy_part m a path (last_slash - path))
      })"

partial_function (option) basename_scan :: "mem \<Rightarrow> u32 \<Rightarrow> u32 \<Rightarrow> u32 \<Rightarrow> u32 option" where
  "basename_scan m path i last_slash =
     (if m (path + i) = 0 then Some last_slash
      else basename_scan m path (i + 1)
             (if m (path + i) = chr_slash then path + (i + 1) else last_slash))"

definition basename :: "u32 \<Rightarrow> mem \<Rightarrow> v_ma \<Rightarrow> u32 \<Rightarrow> (mem \<times> v_ma \<times> u32) ma_out option" where
  "basename slash m a path = do {
     last_slash \<leftarrow> basename_scan m path 0 path;
     bytes \<leftarrow> strlen m last_slash;
     Some (if bytes = 0 then v_put_ptr m a slash else copy_part m a last_slash bytes)
   }"

section \<open>Tokens as byte lists\<close>

definition tok_bytes :: "mem \<Rightarrow> v_tok \<Rightarrow> u8 list" where
  "tok_bytes m t = bytes_at m (tk_beg t) (unat (tk_end t) - unat (tk_beg t))"

lemma tok_skip_bytes:
  "bytes_at m (tok_skip m e sep b) (unat e - unat (tok_skip m e sep b)) =
     dropWhile (\<lambda>c. c = sep) (bytes_at m b (unat e - unat b))
   \<and> b \<le> tok_skip m e sep b \<and> (b \<le> e \<longrightarrow> tok_skip m e sep b \<le> e) \<and> (e < b \<longrightarrow> tok_skip m e sep b = b)"
proof (induction m e sep b rule: tok_skip.induct)
  case (1 m e sep b)
  show ?case
  proof (cases "b < e \<and> m b = sep")
    case True
    then have "b \<le> b + 1" "b + 1 \<le> e"
      using unat_Suc_lt [of b e] by (auto simp: word_le_nat_alt word_less_nat_alt)
    with True "1.IH" bytes_at_step [of b e m] show ?thesis
      by (auto simp: tok_skip.simps [of m e sep b])
  next
    case False
    with bytes_at_step [of b e m] show ?thesis
      by (cases "b < e") (simp_all add: tok_skip.simps [of m e sep] bytes_at_done)
  qed
qed

lemma tok_run_bytes:
  "bytes_at m (tok_run m e sep b) (unat e - unat (tok_run m e sep b)) =
     dropWhile (\<lambda>c. c \<noteq> sep) (bytes_at m b (unat e - unat b))
   \<and> bytes_at m b (unat (tok_run m e sep b) - unat b) =
     takeWhile (\<lambda>c. c \<noteq> sep) (bytes_at m b (unat e - unat b))
   \<and> b \<le> tok_run m e sep b \<and> (b \<le> e \<longrightarrow> tok_run m e sep b \<le> e) \<and> (e < b \<longrightarrow> tok_run m e sep b = b)"
proof (induction m e sep b rule: tok_run.induct)
  case (1 m e sep b)
  show ?case
  proof (cases "b < e \<and> m b \<noteq> sep")
    case True
    then have b1: "b \<le> b + 1" "b + 1 \<le> e" "unat (b + 1) = Suc (unat b)"
      using unat_Suc_lt [of b e] by (auto simp: word_le_nat_alt word_less_nat_alt)
    let ?r = "tok_run m e sep (b + 1)"
    have "b + 1 \<le> ?r" using "1.IH" True by blast
    then have "b < ?r" using b1(3) by (simp add: word_le_nat_alt word_less_nat_alt)
    then have "bytes_at m b (unat ?r - unat b) = m b # bytes_at m (b + 1) (unat ?r - unat (b + 1))"
      by (rule bytes_at_step)
    with True "1.IH" bytes_at_step [of b e m] b1 show ?thesis
      by (auto simp: tok_run.simps [of m e sep b])
  next
    case False
    with bytes_at_step [of b e m] show ?thesis
      by (cases "b < e") (simp_all add: tok_run.simps [of m e sep] bytes_at_done)
  qed
qed

text \<open>
  Consuming a token on the list of bytes: separators are skipped, the token runs to the next
  separator, and the rest starts behind that separator.
\<close>

lemma tl_bytes_at:
  fixes r e :: u32
  assumes "r \<noteq> -1"
  shows "bytes_at m (r + 1) (unat e - unat (r + 1)) = tl (bytes_at m r (unat e - unat r))"
proof (cases "r < e")
  case True
  then show ?thesis by (simp add: bytes_at_step)
next
  case False
  have "unat (r + 1) = Suc (unat r)"
    using assms by (intro unat_Suc_lt [of r "-1"]) (simp add: word_order.not_eq_extremum)
  with False show ?thesis by (simp add: bytes_at_done word_less_nat_alt)
qed

lemma v_tok_consume_bytes:
  assumes "v_tok_consume m t = (tok, t')" "tk_beg t \<noteq> -1" "tk_end t \<noteq> -1"
  shows "tok_bytes m tok = takeWhile (\<lambda>c. c \<noteq> tk_sep t) (dropWhile (\<lambda>c. c = tk_sep t) (tok_bytes m t))"
    and "tok_bytes m t' =
      tl (dropWhile (\<lambda>c. c \<noteq> tk_sep t) (dropWhile (\<lambda>c. c = tk_sep t) (tok_bytes m t)))"
    and "tk_end t' = tk_end t" "tk_sep t' = tk_sep t"
proof -
  let ?b = "tok_skip m (tk_end t) (tk_sep t) (tk_beg t)"
  let ?r = "tok_run m (tk_end t) (tk_sep t) ?b"
  have skip: "bytes_at m ?b (unat (tk_end t) - unat ?b) = dropWhile (\<lambda>c. c = tk_sep t) (tok_bytes m t)"
    "tk_beg t \<le> ?b" "tk_beg t \<le> tk_end t \<Longrightarrow> ?b \<le> tk_end t" "tk_end t < tk_beg t \<Longrightarrow> ?b = tk_beg t"
    using tok_skip_bytes [of m "tk_end t" "tk_sep t" "tk_beg t"] by (auto simp: tok_bytes_def)
  have run: "?b \<le> tk_end t \<Longrightarrow> ?r \<le> tk_end t" "tk_end t < ?b \<Longrightarrow> ?r = ?b"
    using tok_run_bytes [of m "tk_end t" "tk_sep t" ?b] by auto
  have "?r \<noteq> -1"
    using skip run assms(2,3) by (metis not_le word_order.extremum_unique)
  then show "tok_bytes m tok = takeWhile (\<lambda>c. c \<noteq> tk_sep t) (dropWhile (\<lambda>c. c = tk_sep t) (tok_bytes m t))"
    "tok_bytes m t' = tl (dropWhile (\<lambda>c. c \<noteq> tk_sep t) (dropWhile (\<lambda>c. c = tk_sep t) (tok_bytes m t)))"
    "tk_end t' = tk_end t" "tk_sep t' = tk_sep t"
    using assms(1) skip(1) tok_run_bytes [of m "tk_end t" "tk_sep t" ?b] tl_bytes_at [of ?r m "tk_end t"]
    by (auto simp: v_tok_consume_def Let_def tok_bytes_def)
qed

lemma tok_eq_loop_bytes:
  "tok_eq_loop m b str len i \<longleftrightarrow>
     bytes_at m (b + i) (unat len - unat i) = bytes_at m (str + i) (unat len - unat i)"
proof (induction m b str len i rule: tok_eq_loop.induct)
  case (1 m b str len i)
  then show ?case
    using bytes_at_loop_step [of i len m] bytes_at_loop_done [of i len m]
    by (cases "i < len") (auto simp: tok_eq_loop.simps [of m b str len i] add.assoc)
qed

lemma hash_loop_bytes:
  "hash_loop m d n i h = foldl v__hash_combine h (bytes_at m (d + i) (unat n - unat i))"
proof (induction m d n i h rule: hash_loop.induct)
  case (1 m d n i h)
  then show ?case
    using bytes_at_loop_step [of i n m] bytes_at_loop_done [of i n m]
    by (cases "i < n") (auto simp: hash_loop.simps [of m d n i h] add.assoc)
qed

section \<open>The arena hands out aligned, zeroed and disjoint blocks\<close>

text \<open>An arena over a buffer that does not wrap around the address space.\<close>

definition ma_inv :: "v_ma \<Rightarrow> bool" where
  "ma_inv a \<longleftrightarrow> ma_beg a \<le> ma_end a \<and> ma_beg a \<noteq> 0 \<and> unat (ma_end a) - unat (ma_beg a) < 2 ^ 31"

lemma sint_small: "unat (x :: u32) < 2 ^ 31 \<Longrightarrow> sint x = int (unat x)"
proof -
  assume "unat x < 2 ^ 31"
  then have "int (unat x) < int (2 ^ 31)" by (simp only: of_nat_less_iff)
  then have "uint x < 2 ^ 31" by simp
  moreover have "- (2 ^ 31) \<le> uint x" by (rule order_trans [of _ 0]) simp_all
  ultimately have "sint x = uint x" unfolding sint_uint by (simp add: signed_take_bit_int_eq_self)
  then show ?thesis by simp
qed

lemma sint_neg: "2 ^ 31 \<le> unat (x :: u32) \<Longrightarrow> sint x < 0"
proof -
  assume "2 ^ 31 \<le> unat x"
  then have "int (2 ^ 31) \<le> int (unat x)" by (simp only: of_nat_le_iff)
  then have x: "2 ^ 31 \<le> uint x" by simp
  have "sint x = signed_take_bit 31 (uint x - 2 ^ 32)"
    by (simp add: sint_uint signed_take_bit_eq_iff_take_bit_eq take_bit_eq_mod)
  also have "\<dots> = uint x - 2 ^ 32"
    using x uint_lt2p [of x] by (intro signed_take_bit_int_eq_self) auto
  finally show ?thesis using uint_lt2p [of x] by simp
qed

text \<open>The padding is the distance to the next multiple of the alignment.\<close>

lemma padding_eq:
  fixes b :: u32
  assumes "k < 32"
  shows "unat ((- b) AND (2 ^ k - 1)) < 2 ^ k"
    and "2 ^ k dvd unat b + unat ((- b) AND (2 ^ k - 1))"
proof -
  have "(- b) AND (2 ^ k - 1) = take_bit k (- b)"
    by (simp add: take_bit_eq_mask mask_eq_exp_minus_1)
  then have pad: "unat ((- b) AND (2 ^ k - 1)) = unat (- b) mod 2 ^ k"
    by (simp add: unat_take_bit)
  then show "unat ((- b) AND (2 ^ k - 1)) < 2 ^ k" by simp
  have "2 ^ k dvd (2 :: nat) ^ 32" using assms by (intro le_imp_power_dvd) simp
  moreover have "(2 :: nat) ^ 32 dvd unat b + unat (- b)"
    using unat_word_ariths(1) [of b "- b"] by (simp add: dvd_eq_mod_eq_0)
  ultimately have "2 ^ k dvd unat b + unat (- b)" by (rule dvd_trans)
  then show "2 ^ k dvd unat b + unat ((- b) AND (2 ^ k - 1))"
    unfolding pad by (metis dvd_eq_mod_eq_0 mod_add_right_eq)
qed

definition ma_pad :: "v_ma \<Rightarrow> u32 \<Rightarrow> nat" where
  "ma_pad a align = unat ((- ma_beg a) AND (align - 1))"

definition ma_room :: "v_ma \<Rightarrow> nat" where
  "ma_room a = unat (ma_end a) - unat (ma_beg a)"

lemma ma_oom_iff:
  fixes sz count :: u32
  assumes "ma_inv a" "ma_pad a align < 2 ^ 31" "0 < unat sz" "unat sz < 2 ^ 31" "unat count < 2 ^ 31"
  defines "available \<equiv> ma_end a - ma_beg a - ((- ma_beg a) AND (align - 1))"
  shows "(sint available \<le> 0 \<or> sint count > sint available div sint sz) \<longleftrightarrow>
    \<not> (ma_pad a align < ma_room a \<and> unat count * unat sz \<le> ma_room a - ma_pad a align)"
proof -
  have room: "unat (ma_end a - ma_beg a) = ma_room a" "ma_room a < 2 ^ 31"
    using assms(1) by (simp_all add: ma_inv_def ma_room_def unat_sub_small)
  let ?pad = "(- ma_beg a) AND (align - 1)"
  show ?thesis
  proof (cases "ma_pad a align \<le> ma_room a")
    case True
    then have "?pad \<le> ma_end a - ma_beg a"
      using room by (simp add: word_le_nat_alt ma_pad_def)
    then have av: "unat available = ma_room a - ma_pad a align"
      using room by (simp add: available_def unat_sub_small ma_pad_def)
    then have "sint available = int (ma_room a - ma_pad a align)"
      using room(2) by (subst sint_small) simp_all
    moreover have "sint count = int (unat count)" "sint sz = int (unat sz)"
      by (rule sint_small [OF assms(5)], rule sint_small [OF assms(4)])
    ultimately have "sint count > sint available div sint sz \<longleftrightarrow>
        \<not> unat count \<le> (ma_room a - ma_pad a align) div unat sz"
      by (simp only: not_le zdiv_int [symmetric] of_nat_less_iff)
    moreover have "sint available \<le> 0 \<longleftrightarrow> \<not> ma_pad a align < ma_room a"
      using True \<open>sint available = _\<close> by auto
    ultimately show ?thesis
      using assms(3) by (auto simp: less_eq_div_iff_mult_less_eq)
  next
    case False
    have "unat available = 2 ^ 32 - (ma_pad a align - ma_room a)"
      unfolding available_def
      using False room by (subst unat_sub_if') (auto simp: word_le_nat_alt ma_pad_def)
    then have "2 ^ 31 \<le> unat available" using assms(2) by simp
    then show ?thesis using False sint_neg [of available] by auto
  qed
qed

lemma v_ma_alloc_fits:
  assumes "ma_inv a" "k < 31" "0 < unat sz" "unat sz < 2 ^ 31" "unat count < 2 ^ 31"
    and fits: "ma_pad a (2 ^ k) < ma_room a" "unat count * unat sz \<le> ma_room a - ma_pad a (2 ^ k)"
  obtains p a' m' where "v_ma_alloc m a sz (2 ^ k) count flags 0 = MaRet (m', a', p)"
    "2 ^ k dvd unat p" "unat p = unat (ma_beg a) + ma_pad a (2 ^ k)"
    "unat (ma_beg a') = unat p + unat count * unat sz" "ma_end a' = ma_end a" "ma_inv a'" "p \<noteq> 0"
    "flags AND V_MA_NOZERO = 0 \<Longrightarrow> ma_flags a AND V_MA_NOZERO = 0 \<Longrightarrow>
      m' = (\<lambda>x. if x - p < count * sz then 0 else m x)"
    "m' = m \<or> m' = (\<lambda>x. if x - p < count * sz then 0 else m x)"
proof -
  let ?pad = "(- ma_beg a) AND (2 ^ k - 1)"
  let ?p = "ma_beg a + ?pad"
  have pad: "ma_pad a (2 ^ k) < 2 ^ 31"
    using padding_eq(1) [of k "ma_beg a"] assms(2) power_strict_increasing [of k 31 "2 :: nat"]
    by (simp add: ma_pad_def)
  have e: "unat (ma_end a) < 2 ^ 32" using unat_lt32 [of "ma_end a"] by simp
  have p: "unat ?p = unat (ma_beg a) + ma_pad a (2 ^ k)"
    using fits e by (subst unat_add_small) (auto simp: ma_pad_def ma_room_def)
  have b: "unat (count * sz) = unat count * unat sz"
    using fits e by (subst unat_mult_small) (auto simp: ma_room_def)
  have bp: "unat (count * sz + ?pad) = unat count * unat sz + ma_pad a (2 ^ k)"
    using fits e by (subst unat_add_small) (auto simp: b ma_pad_def ma_room_def)
  have beg: "unat (ma_beg a + (count * sz + ?pad)) = unat ?p + unat count * unat sz"
    using fits e by (subst unat_add_small) (auto simp: bp p ma_room_def)
  have b0: "ma_beg a \<noteq> 0" "0 < unat (ma_beg a)" using assms(1) by (auto simp: ma_inv_def unat_gt_0)
  then have p0: "?p \<noteq> 0" using p by (auto simp: unat_eq_zero [symmetric])
  let ?a' = "a\<lparr>ma_beg := ma_beg a + (count * sz + ?pad)\<rparr>"
  have inv: "ma_inv ?a'"
    using assms(1) fits b0 by (auto simp: ma_inv_def word_le_nat_alt beg p ma_room_def simp flip: unat_gt_0)
  have ms: "memset m ?p 0 (count * sz) = (\<lambda>x. if x - ?p < count * sz then 0 else m x)"
    by (simp add: memset_eq [OF p0] cong: if_cong)
  have "v_ma_alloc m a sz (2 ^ k) count flags 0 =
      MaRet (if flags AND V_MA_NOZERO \<noteq> 0 \<or> ma_flags a AND V_MA_NOZERO \<noteq> 0 then m
             else memset m ?p 0 (count * sz), ?a', ?p)"
    using ma_oom_iff [OF assms(1) pad assms(3-5)] fits unfolding v_ma_alloc_def Let_def by auto
  then show ?thesis
    by (rule that) (use p beg inv p0 ms padding_eq(2) [of k "ma_beg a"] assms(2) in \<open>auto simp: ma_pad_def\<close>)
qed

section \<open>Splitting a path\<close>

lemma basename_scan_no_slash:
  "cstr m (path + i) zs \<Longrightarrow> chr_slash \<notin> set zs \<Longrightarrow> basename_scan m path i l = Some l"
  by (induction zs arbitrary: i; subst basename_scan.simps) (auto simp: add.assoc)

lemma basename_scan_split:
  "cstr m (path + i) (ys @ chr_slash # zs) \<Longrightarrow> chr_slash \<notin> set zs \<Longrightarrow>
     basename_scan m path i l = Some (path + i + of_nat (Suc (length ys)))"
proof (induction ys arbitrary: i l)
  case Nil
  then have "cstr m (path + (i + 1)) zs" by (simp add: algebra_simps)
  with Nil basename_scan_no_slash show ?case
    by (subst basename_scan.simps) (auto simp: algebra_simps)
next
  case (Cons y ys)
  then have "cstr m (path + (i + 1)) (ys @ chr_slash # zs)" by (simp add: algebra_simps)
  from Cons.IH [OF this Cons.prems(2)] Cons.prems show ?case
    by (subst basename_scan.simps) (auto simp: algebra_simps)
qed

lemma dirname_scan_no_slash:
  "cstr m (path + i) zs \<Longrightarrow> chr_slash \<notin> set zs \<Longrightarrow>
     dirname_scan m path i l n = Some (l, n + of_nat (length zs))"
  by (induction zs arbitrary: i n; subst dirname_scan.simps) (auto simp: add.assoc)

lemma dirname_scan_prefix:
  "cstr m (path + i) (ys @ zs) \<Longrightarrow>
     \<exists>l' k. k \<le> length ys \<and>
       dirname_scan m path i l n = dirname_scan m path (i + of_nat (length ys)) l' (n + of_nat k)"
proof (induction ys arbitrary: i l n)
  case Nil
  then show ?case by (auto intro: exI [of _ l])
next
  case (Cons y ys)
  then have tail: "cstr m (path + (i + 1)) (ys @ zs)" and hd: "m (path + i) \<noteq> 0"
    by (simp_all add: algebra_simps)
  show ?case
  proof (cases "m (path + i) = chr_slash \<and> m (path + (i + 1)) \<noteq> chr_slash")
    case True
    then have "dirname_scan m path i l n = dirname_scan m path (i + 1) (path + i) n"
      by (subst dirname_scan.simps) auto
    with Cons.IH [OF tail, of "path + i" n] show ?thesis
      by (auto simp: algebra_simps intro: le_SucI)
  next
    case False
    then have "dirname_scan m path i l n = dirname_scan m path (i + 1) l (n + 1)"
      using hd by (subst dirname_scan.simps) auto
    with Cons.IH [OF tail, of l "n + 1"] obtain l' k where "k \<le> length ys"
      "dirname_scan m path i l n = dirname_scan m path (i + 1 + of_nat (length ys)) l' (n + 1 + of_nat k)"
      by auto
    then show ?thesis by (intro exI [of _ l'] exI [of _ "Suc k"]) (auto simp: algebra_simps)
  qed
qed

lemma cstr_append: "cstr m a (xs @ ys) \<longleftrightarrow> 0 \<notin> set xs \<and> bytes_at m a (length xs) = xs \<and> cstr m (a + of_nat (length xs)) ys"
  by (induction xs arbitrary: a) (auto simp: algebra_simps)

lemma dirname_scan_split:
  assumes "cstr m path (ys @ chr_slash # zs)" "chr_slash \<notin> set zs" "zs \<noteq> []"
  shows "\<exists>n. n \<noteq> 0 \<and> dirname_scan m path 0 0 0 = Some (path + of_nat (length ys), n)"
proof -
  let ?i = "of_nat (length ys) :: u32"
  have rest: "cstr m (path + ?i) (chr_slash # zs)"
    using assms(1) by (simp only: cstr_append)
  obtain l k where k: "k \<le> length ys" "dirname_scan m path 0 0 0 = dirname_scan m path ?i l (of_nat k)"
    using dirname_scan_prefix [of m path 0 ys "chr_slash # zs" 0 0] assms(1) by auto
  obtain z zs' where z: "zs = z # zs'" using assms(3) by (cases zs) auto
  have "m (path + ?i) = chr_slash" "m (path + (?i + 1)) \<noteq> chr_slash" "cstr m (path + (?i + 1)) zs"
    using rest assms(2) by (auto simp: z algebra_simps)
  then have "dirname_scan m path ?i l (of_nat k) =
      Some (path + ?i, of_nat k + of_nat (length zs))"
    using assms(2) by (subst dirname_scan.simps) (auto simp: dirname_scan_no_slash)
  moreover have "k + length zs < 2 ^ 32" using cstr_length [OF assms(1)] k(1) by simp
  then have "unat (of_nat (k + length zs) :: u32) = k + length zs" by (intro unat_of_nat_small) simp
  then have "of_nat k + of_nat (length zs) \<noteq> (0 :: u32)"
    using assms(3) by (metis add_is_0 length_0_conv of_nat_add unat_0)
  ultimately show ?thesis using k(2) by auto
qed

text \<open>
  A copied part is the string of its bytes, at the address the arena was at. The terminator is
  stored at the address the arena is at afterwards, which the next allocation hands out again.
\<close>

lemma ma_pad_1 [simp]: "ma_pad a 1 = 0"
  by (simp add: ma_pad_def)

lemma copy_part_bytes:
  assumes "ma_inv a" "0 < ma_room a" "unat bytes \<le> ma_room a"
    and disj: "\<And>j. j < bytes \<Longrightarrow> \<not> src + j - ma_beg a < bytes"
  shows "\<exists>m' a'. copy_part m a src bytes = MaRet (m', a', ma_beg a) \<and>
    m' = (\<lambda>x. if x - ma_beg a < bytes then m (src + (x - ma_beg a))
              else if x = ma_beg a + bytes then 0 else m x) \<and>
    ma_inv a' \<and> ma_beg a' = ma_beg a + bytes \<and> ma_room a' = ma_room a - unat bytes"
proof -
  have "ma_room a < 2 ^ 31" using assms(1) by (simp add: ma_inv_def ma_room_def)
  then have "unat bytes < 2 ^ 31" using assms(3) by simp
  then have fits: "0 < unat (1 :: u32)" "unat (1 :: u32) < 2 ^ 31" "unat bytes < 2 ^ 31"
    "ma_pad a (2 ^ 0) < ma_room a" "unat bytes * unat (1 :: u32) \<le> ma_room a - ma_pad a (2 ^ 0)"
    using assms(2,3) by simp_all
  obtain p a' m1 where al: "v_ma_alloc m a 1 1 bytes 0 0 = MaRet (m1, a', p)"
    "unat p = unat (ma_beg a)" "unat (ma_beg a') = unat p + unat bytes" "ma_end a' = ma_end a"
    "ma_inv a'" "m1 = m \<or> m1 = (\<lambda>x. if x - p < bytes then 0 else m x)"
    by (rule v_ma_alloc_fits [OF assms(1) _ fits, where m = m and flags = 0]) simp_all
  have p: "p = ma_beg a" using al(2) by (simp add: word_unat_eq_iff)
  have e: "unat (ma_beg a) + unat bytes < 2 ^ 32"
    using unat_lt32 [of "ma_beg a'"] al(3) p by simp
  then have beg: "ma_beg a' = ma_beg a + bytes"
    using al(3) p by (simp add: word_unat_eq_iff unat_add_small)
  have "bytes \<le> ma_beg a - src \<or> ma_beg a = src"
    using disj [of "ma_beg a - src"] by (cases "ma_beg a - src < bytes") (auto simp: word_neq_0_conv [symmetric])
  then have cp: "memcpy m1 p src bytes = (\<lambda>x. if x - p < bytes then m1 (src + (x - p)) else m1 x)"
    unfolding p by (intro memcpy_eq) auto
  have src: "m1 (src + j) = m (src + j)" if "j < bytes" for j
    using al(6) disj [OF that] by (auto simp: p)
  have out: "m1 x = m x" if "\<not> x - p < bytes" for x using al(6) that by auto
  have "copy_part m a src bytes = MaRet ((memcpy m1 p src bytes)(p + bytes := 0), a', p)"
    by (simp add: copy_part_def al(1))
  moreover have "(memcpy m1 p src bytes)(p + bytes := 0) =
      (\<lambda>x. if x - p < bytes then m (src + (x - p)) else if x = p + bytes then 0 else m x)"
    unfolding cp using src out by (auto simp: fun_eq_iff)
  ultimately show ?thesis using al beg e unfolding p by (auto simp: ma_room_def unat_add_small)
qed

lemma bytes_at_shift:
  "(\<And>j. unat j < n \<Longrightarrow> m' (a + j) = m (b + j)) \<Longrightarrow> n \<le> 2 ^ 32 \<Longrightarrow> bytes_at m' a n = bytes_at m b n"
  by (intro bytes_at_eqI) auto

lemma copy_part_cstr:
  assumes "ma_inv a" "0 < ma_room a" "unat bytes \<le> ma_room a"
    and "\<And>j. j < bytes \<Longrightarrow> \<not> src + j - ma_beg a < bytes"
    and "bytes_at m src (unat bytes) = ys" "0 \<notin> set ys"
  shows "\<exists>m' a'. copy_part m a src bytes = MaRet (m', a', ma_beg a) \<and> cstr m' (ma_beg a) ys"
proof -
  have n: "unat bytes < 2 ^ 32" using unat_lt32 [of bytes] by simp
  obtain m' a' where r: "copy_part m a src bytes = MaRet (m', a', ma_beg a)"
    "m' = (\<lambda>x. if x - ma_beg a < bytes then m (src + (x - ma_beg a))
              else if x = ma_beg a + bytes then 0 else m x)"
    using copy_part_bytes [OF assms(1-4), where m = m] by auto
  have "bytes_at m' (ma_beg a) (unat bytes) = bytes_at m src (unat bytes)"
    using n by (intro bytes_at_shift) (auto simp: r(2) word_less_nat_alt)
  moreover have "length ys = unat bytes" using assms(5) by auto
  moreover have "m' (ma_beg a + bytes) = 0" by (simp add: r(2))
  ultimately show ?thesis
    using r(1) assms(5,6) cstr_append [of m' "ma_beg a" ys "[]"] by auto
qed

section \<open>Claims\<close>

lemma cstr_take_bytes: "cstr m a (xs @ ys) \<Longrightarrow> 0 \<notin> set xs \<and> bytes_at m a (length xs) = xs"
  by (simp add: cstr_append)


definition path_mem :: mem where
  "path_mem a = (if a = 0x1000 then 97 else if a = 0x1001 then chr_slash else if a = 0x1002 then 98 else 0)"


end
