(* ===== verification/Ilist.thy ===== *)
theory Ilist
  imports Prelude
begin

text \<open>
  The intrusive doubly-linked list of \<open>include/lib/v.h\<close> (\<open>v_ilist\<close>), which the scheduler, the
  semaphores, the timers, the file systems and the memory allocators thread their objects on.
  The heap holds the two link fields of every node. \<open>ring h hd xs\<close> says that the nodes \<open>xs\<close>, in this
  order, hang off the list head \<open>hd\<close>; each operation of the header is shown to act on that list.
  The interface locale \<open>intrusive_list\<close> at the end is what the list's users rely on.
\<close>

section \<open>Operations\<close>

record links =
  prv :: "u32 \<Rightarrow> u32"
  nxt :: "u32 \<Rightarrow> u32"

definition set_next :: "u32 \<Rightarrow> u32 \<Rightarrow> links \<Rightarrow> links" where
  "set_next p v h = h\<lparr>nxt := (nxt h)(p := v)\<rparr>"

definition set_prev :: "u32 \<Rightarrow> u32 \<Rightarrow> links \<Rightarrow> links" where
  "set_prev p v h = h\<lparr>prv := (prv h)(p := v)\<rparr>"

definition v_ilist_init :: "u32 \<Rightarrow> links \<Rightarrow> links" where
  "v_ilist_init head h = set_next head head (set_prev head head h)"

definition V__ILIST_LINK :: "u32 \<Rightarrow> u32 \<Rightarrow> u32 \<Rightarrow> links \<Rightarrow> links" where
  "V__ILIST_LINK prev node next h =
     set_next node next (set_prev next node (set_prev node prev (set_next prev node h)))"

definition v_ilist_prepend :: "u32 \<Rightarrow> u32 \<Rightarrow> links \<Rightarrow> links" where
  "v_ilist_prepend node next h = V__ILIST_LINK (prv h next) node next h"

definition v_ilist_append :: "u32 \<Rightarrow> u32 \<Rightarrow> links \<Rightarrow> links" where
  "v_ilist_append node prev h = V__ILIST_LINK prev node (nxt h prev) h"

definition v_ilist_remove :: "u32 \<Rightarrow> links \<Rightarrow> links" where
  "v_ilist_remove node h =
     (if node = 0 then h
      else let prev = prv h node; next = nxt h node
           in v_ilist_init node (set_prev next prev (set_next prev next h)))"

definition v_ilist_replace :: "u32 \<Rightarrow> u32 \<Rightarrow> links \<Rightarrow> links" where
  "v_ilist_replace old new h =
     (let h1 = set_next new (nxt h old) h;
          h2 = set_prev (nxt h1 new) new h1;
          h3 = set_prev new (prv h2 old) h2
      in set_next (prv h3 new) new h3)"

definition v_ilist_swap :: "u32 \<Rightarrow> u32 \<Rightarrow> links \<Rightarrow> links" where
  "v_ilist_swap a b h =
     (let spot = prv h b;
          h = v_ilist_replace a b (v_ilist_remove b h);
          spot = (if spot = a then b else spot)
      in v_ilist_append a spot h)"

definition v_ilist_is_first :: "u32 \<Rightarrow> u32 \<Rightarrow> links \<Rightarrow> bool" where
  "v_ilist_is_first head node h \<longleftrightarrow> prv h node = head"

definition v_ilist_is_last :: "u32 \<Rightarrow> u32 \<Rightarrow> links \<Rightarrow> bool" where
  "v_ilist_is_last head node h \<longleftrightarrow> nxt h node = head"

definition v_ilist_is_head :: "u32 \<Rightarrow> u32 \<Rightarrow> bool" where
  "v_ilist_is_head head node \<longleftrightarrow> node = head"

definition v_ilist_is_empty :: "u32 \<Rightarrow> links \<Rightarrow> bool" where
  "v_ilist_is_empty head h \<longleftrightarrow> nxt h head = head"

text \<open>
  The iteration macros. \<open>v_ilist_for_each\<close> and its reverse collect the nodes they visit;
  \<open>v_ilist_for_each_safe\<close>, which reads the successor before the body runs, is the loop of
  \<open>v_ilist_destroy\<close>. The destructor is an argument acting on the heap.
\<close>

partial_function (option) for_each :: "links \<Rightarrow> u32 \<Rightarrow> u32 \<Rightarrow> u32 list option" where
  "for_each h head node =
     (if v_ilist_is_head head node then Some []
      else do { ns \<leftarrow> for_each h head (nxt h node); Some (node # ns) })"

partial_function (option) for_each_rev :: "links \<Rightarrow> u32 \<Rightarrow> u32 \<Rightarrow> u32 list option" where
  "for_each_rev h head node =
     (if v_ilist_is_head head node then Some []
      else do { ns \<leftarrow> for_each_rev h head (prv h node); Some (node # ns) })"

definition v_ilist_for_each :: "links \<Rightarrow> u32 \<Rightarrow> u32 list option" where
  "v_ilist_for_each h head = for_each h head (nxt h head)"

definition v_ilist_for_each_rev :: "links \<Rightarrow> u32 \<Rightarrow> u32 list option" where
  "v_ilist_for_each_rev h head = for_each_rev h head (prv h head)"

partial_function (option) destroy_loop ::
  "(u32 \<Rightarrow> links \<Rightarrow> links) option \<Rightarrow> u32 \<Rightarrow> u32 \<Rightarrow> u32 \<Rightarrow> links \<Rightarrow> links option" where
  "destroy_loop dtor head pos temp h =
     (if v_ilist_is_head head pos then Some h
      else let h1 = v_ilist_remove pos h;
               h2 = (case dtor of None \<Rightarrow> h1 | Some d \<Rightarrow> d pos h1)
           in destroy_loop dtor head temp (nxt h2 temp) h2)"

definition v_ilist_destroy :: "(u32 \<Rightarrow> links \<Rightarrow> links) option \<Rightarrow> u32 \<Rightarrow> links \<Rightarrow> links option" where
  "v_ilist_destroy dtor head h = destroy_loop dtor head (nxt h head) (nxt h (nxt h head)) h"

partial_function (option) count_loop :: "links \<Rightarrow> u32 \<Rightarrow> u32 \<Rightarrow> u32 \<Rightarrow> u32 option" where
  "count_loop h head pos elems =
     (if v_ilist_is_head head pos then Some elems else count_loop h head (nxt h pos) (elems + 1))"

definition v_ilist_count :: "u32 \<Rightarrow> links \<Rightarrow> u32 option" where
  "v_ilist_count head h = count_loop h head (nxt h head) 0"

text \<open>
  Ordered insertion. \<open>compare l r\<close> is the caller's three-way comparison; the loop leaves with the
  position it stopped at and \<open>res\<close>.
\<close>

partial_function (option) insert_loop ::
  "(u32 \<Rightarrow> u32 \<Rightarrow> int) \<Rightarrow> links \<Rightarrow> u32 \<Rightarrow> u32 \<Rightarrow> u32 \<Rightarrow> int \<Rightarrow> int \<Rightarrow> (u32 \<times> int) option" where
  "insert_loop compare h node head pos res res_prev =
     (if v_ilist_is_head head pos then Some (pos, res)
      else let res = compare node pos
           in if res = 0 \<or> res_prev \<noteq> res then Some (pos, if res_prev = res then 1 else 0)
              else insert_loop compare h node head (nxt h pos) res res)"

definition v_ilist_insert ::
  "(u32 \<Rightarrow> u32 \<Rightarrow> int) \<Rightarrow> u32 \<Rightarrow> u32 \<Rightarrow> links \<Rightarrow> (links \<times> u32) option" where
  "v_ilist_insert compare node list h = do {
     (pos, res) \<leftarrow> insert_loop compare h node list (nxt h list) 0 1;
     Some (if res = -1 then let h' = v_ilist_prepend node (nxt h list) h in (h', nxt h' node)
           else if res = 0 then (v_ilist_prepend node pos h, if v_ilist_is_head pos list then 0 else pos)
           else if res = 1 then let h' = v_ilist_append node (prv h list) h in (h', prv h' node)
           else (h, 0))
   }"

section \<open>Lists in the heap\<close>

fun chain :: "links \<Rightarrow> u32 \<Rightarrow> u32 list \<Rightarrow> u32 \<Rightarrow> bool" where
  "chain h a [] b = (nxt h a = b \<and> prv h b = a)"
| "chain h a (x # xs) b = (nxt h a = x \<and> prv h x = a \<and> chain h x xs b)"

definition ring :: "links \<Rightarrow> u32 \<Rightarrow> u32 list \<Rightarrow> bool" where
  "ring h l xs \<longleftrightarrow> distinct (l # xs) \<and> chain h l xs l"

lemma links_sel [simp]:
  "nxt (set_next p v h) = (nxt h)(p := v)" "prv (set_next p v h) = prv h"
  "prv (set_prev p v h) = (prv h)(p := v)" "nxt (set_prev p v h) = nxt h"
  by (simp_all add: set_next_def set_prev_def)

lemma chain_append [simp]: "chain h a (xs @ x # ys) b \<longleftrightarrow> chain h a xs x \<and> chain h x ys b"
  by (induction xs arbitrary: a) auto

lemma chain_set_next [simp]: "p \<noteq> a \<Longrightarrow> p \<notin> set xs \<Longrightarrow> chain (set_next p v h) a xs b \<longleftrightarrow> chain h a xs b"
  by (induction xs arbitrary: a) auto

lemma chain_set_prev [simp]: "p \<noteq> b \<Longrightarrow> p \<notin> set xs \<Longrightarrow> chain (set_prev p v h) a xs b \<longleftrightarrow> chain h a xs b"
  by (induction xs arbitrary: a) auto

text \<open>The nodes before and after a point of the ring.\<close>

abbreviation before :: "u32 \<Rightarrow> u32 list \<Rightarrow> u32" where "before l xs \<equiv> last (l # xs)"
abbreviation after :: "u32 list \<Rightarrow> u32 \<Rightarrow> u32" where "after ys l \<equiv> hd (ys @ [l])"

lemma chain_split:
  "chain h a (xs @ ys) b \<Longrightarrow> nxt h (before a xs) = after ys b \<and> prv h (after ys b) = before a xs"
  by (cases xs rule: rev_cases; cases ys) auto

lemma ring_nxt: "ring h l (xs @ ys) \<Longrightarrow> nxt h (before l xs) = after ys l"
  using chain_split [of h l xs ys l] by (simp add: ring_def)

lemma ring_prv: "ring h l (xs @ ys) \<Longrightarrow> prv h (after ys l) = before l xs"
  using chain_split [of h l xs ys l] by (simp add: ring_def)

section \<open>The operations act on the list\<close>

lemma ring_init: "ring (v_ilist_init l h) l []"
  by (simp add: ring_def v_ilist_init_def)

lemma ring_link:
  assumes "ring h l (xs @ ys)" "n \<notin> set (l # xs @ ys)"
  shows "ring (V__ILIST_LINK (before l xs) n (after ys l) h) l (xs @ n # ys)"
  using assms by (cases xs rule: rev_cases; cases ys) (auto simp: ring_def V__ILIST_LINK_def)

lemma ring_append:
  assumes "ring h l (xs @ ys)" "n \<notin> set (l # xs @ ys)"
  shows "ring (v_ilist_append n (before l xs) h) l (xs @ n # ys)"
  using ring_link [OF assms] ring_nxt [OF assms(1)] by (simp add: v_ilist_append_def)

lemma ring_prepend:
  assumes "ring h l (xs @ ys)" "n \<notin> set (l # xs @ ys)"
  shows "ring (v_ilist_prepend n (after ys l) h) l (xs @ n # ys)"
  using ring_link [OF assms] ring_prv [OF assms(1)] by (simp add: v_ilist_prepend_def)

lemma ring_remove:
  assumes "ring h l (xs @ n # ys)" "n \<noteq> 0"
  shows "ring (v_ilist_remove n h) l (xs @ ys)" "ring (v_ilist_remove n h) n []"
  using assms
  by (cases xs rule: rev_cases; cases ys;
      auto simp: ring_def v_ilist_remove_def v_ilist_init_def Let_def)+

lemma ring_replace:
  assumes "ring h l (xs @ old # ys)" "new \<notin> set (l # xs @ old # ys)"
  shows "ring (v_ilist_replace old new h) l (xs @ new # ys)"
proof -
  let ?p = "before l xs" and ?q = "after ys l"
  have "nxt h old = ?q" "prv h old = ?p" "?q \<noteq> old" "new \<noteq> old"
    using ring_nxt [of h l "xs @ [old]" ys] ring_prv [of h l xs "old # ys"] assms
    by (auto simp: ring_def hd_append)
  then have "v_ilist_replace old new h =
      set_next ?p new (set_prev new ?p (set_prev ?q new (set_next new ?q h)))"
    by (simp add: v_ilist_replace_def)
  then show ?thesis
    using assms by (cases xs rule: rev_cases; cases ys) (auto simp: ring_def)
qed

lemma ring_swap_forward:
  assumes "ring h l (us @ a # vs @ b # ws)" "b \<noteq> 0"
  shows "ring (v_ilist_swap a b h) l (us @ b # vs @ a # ws)"
proof -
  have d: "distinct (l # us @ a # vs @ b # ws)" using assms(1) by (simp add: ring_def)
  have "prv h b = before a vs"
    using ring_prv [of h l "us @ a # vs" "b # ws"] assms(1) by simp
  then have spot: "(if prv h b = a then b else prv h b) = before l (us @ b # vs)"
    using d by (auto simp: last_in_set)
  have "ring (v_ilist_remove b h) l (us @ a # vs @ ws)"
    using ring_remove(1) [of h l "us @ a # vs" b ws] assms by simp
  then have "ring (v_ilist_replace a b (v_ilist_remove b h)) l ((us @ b # vs) @ ws)"
    using ring_replace [of "v_ilist_remove b h" l us a "vs @ ws" b] d by auto
  from ring_append [OF this, of a] d spot show ?thesis
    by (auto simp: v_ilist_swap_def Let_def)
qed

lemma ring_swap_backward:
  assumes "ring h l (us @ b # vs @ a # ws)" "b \<noteq> 0"
  shows "ring (v_ilist_swap a b h) l (us @ a # vs @ b # ws)"
proof -
  have d: "distinct (l # us @ b # vs @ a # ws)" using assms(1) by (simp add: ring_def)
  have spot: "prv h b = before l us"
    using ring_prv [of h l us "b # vs @ a # ws"] assms(1) by simp
  have "ring (v_ilist_remove b h) l (us @ vs @ a # ws)"
    using ring_remove(1) [of h l us b "vs @ a # ws"] assms by simp
  then have "ring (v_ilist_replace a b (v_ilist_remove b h)) l (us @ (vs @ b # ws))"
    using ring_replace [of "v_ilist_remove b h" l "us @ vs" a ws b] d by auto
  from ring_append [OF this, of a] d spot show ?thesis
    by (auto simp: v_ilist_swap_def Let_def last_in_set)
qed

lemma ring_is_empty: "ring h l xs \<Longrightarrow> v_ilist_is_empty l h \<longleftrightarrow> xs = []"
  using ring_nxt [of h l "[]" xs] by (cases xs) (auto simp: v_ilist_is_empty_def ring_def)

lemma ring_is_first: "ring h l (xs @ n # ys) \<Longrightarrow> v_ilist_is_first l n h \<longleftrightarrow> xs = []"
  using ring_prv [of h l xs "n # ys"] by (auto simp: v_ilist_is_first_def ring_def dest: last_in_set)

lemma ring_is_last: "ring h l (xs @ n # ys) \<Longrightarrow> v_ilist_is_last l n h \<longleftrightarrow> ys = []"
  using ring_nxt [of h l "xs @ [n]" ys] by (cases ys) (auto simp: v_ilist_is_last_def ring_def)

section \<open>Iteration\<close>

lemma for_each_chain: "chain h a xs l \<Longrightarrow> l \<notin> set xs \<Longrightarrow> for_each h l (nxt h a) = Some xs"
  by (induction xs arbitrary: a; subst for_each.simps) (auto simp: v_ilist_is_head_def)

lemma ring_for_each: "ring h l xs \<Longrightarrow> v_ilist_for_each h l = Some xs"
  by (simp add: v_ilist_for_each_def ring_def for_each_chain)

lemma for_each_rev_chain: "chain h l xs b \<Longrightarrow> l \<notin> set xs \<Longrightarrow> for_each_rev h l (prv h b) = Some (rev xs)"
  by (induction xs arbitrary: b rule: rev_induct; subst for_each_rev.simps)
    (auto simp: v_ilist_is_head_def)

lemma ring_for_each_rev: "ring h l xs \<Longrightarrow> v_ilist_for_each_rev h l = Some (rev xs)"
  by (simp add: v_ilist_for_each_rev_def ring_def for_each_rev_chain)

lemma count_chain:
  "chain h a xs l \<Longrightarrow> l \<notin> set xs \<Longrightarrow> count_loop h l (nxt h a) n = Some (n + of_nat (length xs))"
  by (induction xs arbitrary: a n; subst count_loop.simps) (auto simp: v_ilist_is_head_def)

lemma ring_count: "ring h l xs \<Longrightarrow> v_ilist_count l h = Some (of_nat (length xs))"
  using count_chain [of h l xs l 0] by (simp add: v_ilist_count_def ring_def)

text \<open>Destroying a list leaves the head empty, whatever the destructor does to the dead node.\<close>

definition frees_only :: "(u32 \<Rightarrow> links \<Rightarrow> links) option \<Rightarrow> bool" where
  "frees_only dtor \<longleftrightarrow>
     (\<forall>d p h x. dtor = Some d \<longrightarrow> x \<noteq> p \<longrightarrow> nxt (d p h) x = nxt h x \<and> prv (d p h) x = prv h x)"

lemma chain_cong:
  "(\<And>x. x \<in> set (a # xs) \<Longrightarrow> nxt h' x = nxt h x) \<Longrightarrow> (\<And>x. x \<in> set (b # xs) \<Longrightarrow> prv h' x = prv h x) \<Longrightarrow>
     chain h' a xs b \<longleftrightarrow> chain h a xs b"
  by (induction xs arbitrary: a) auto

lemma ring_cong:
  "(\<And>x. x \<in> set (l # xs) \<Longrightarrow> nxt h' x = nxt h x \<and> prv h' x = prv h x) \<Longrightarrow> ring h' l xs \<longleftrightarrow> ring h l xs"
  unfolding ring_def using chain_cong [of l xs h' h l] by auto

lemma destroy_loop_ring:
  assumes "ring h l xs" "0 \<notin> set xs" "frees_only dtor"
  shows "\<exists>h'. destroy_loop dtor l (after xs l) (nxt h (after xs l)) h = Some h' \<and> ring h' l []"
  using assms(1,2)
proof (induction xs arbitrary: h)
  case Nil
  then show ?case by (subst destroy_loop.simps) (simp add: v_ilist_is_head_def)
next
  case (Cons x xs)
  let ?h1 = "v_ilist_remove x h"
  let ?h2 = "case dtor of None \<Rightarrow> ?h1 | Some d \<Rightarrow> d x ?h1"
  have x: "x \<noteq> l" "x \<notin> set xs" using Cons.prems(1) by (auto simp: ring_def)
  have r1: "ring ?h1 l xs" using ring_remove(1) [of h l "[]" x xs] Cons.prems by auto
  have "ring ?h2 l xs"
  proof (cases dtor)
    case (Some d)
    then have "ring (d x ?h1) l xs \<longleftrightarrow> ring ?h1 l xs"
      using assms(3) x by (intro ring_cong) (metis (no_types) frees_only_def set_ConsD)
    then show ?thesis using r1 Some by simp
  qed (use r1 in simp)
  moreover have "nxt h x = after xs l" using ring_nxt [of h l "[x]" xs] Cons.prems by simp
  ultimately show ?case
    using Cons.IH [of ?h2] Cons.prems(2) x by (subst destroy_loop.simps)
      (auto simp: v_ilist_is_head_def Let_def cong: option.case_cong)
qed

lemma ring_destroy:
  "ring h l xs \<Longrightarrow> 0 \<notin> set xs \<Longrightarrow> frees_only dtor \<Longrightarrow>
     \<exists>h'. v_ilist_destroy dtor l h = Some h' \<and> ring h' l []"
  using destroy_loop_ring [of h l xs dtor] ring_nxt [of h l "[]" xs] by (simp add: v_ilist_destroy_def)

section \<open>Ordered insertion\<close>

lemma insert_loop_chain:
  fixes compare node
  defines "gt \<equiv> \<lambda>p. compare node p = (1 :: int)"
  assumes "chain h a xs l" "l \<notin> set xs"
  shows "insert_loop compare h node l (nxt h a) r 1 =
    Some (after (dropWhile gt xs) l, if dropWhile gt xs \<noteq> [] then 0 else if xs = [] then r else 1)"
  using assms(2,3)
proof (induction xs arbitrary: a r)
  case Nil
  then show ?case by (subst insert_loop.simps) (simp add: v_ilist_is_head_def)
next
  case (Cons x xs)
  show ?case
  proof (cases "gt x")
    case True
    then show ?thesis
      using Cons.IH [of x 1] Cons.prems
      by (subst insert_loop.simps) (auto simp: v_ilist_is_head_def gt_def Let_def)
  next
    case False
    then show ?thesis
      using Cons.prems by (subst insert_loop.simps) (auto simp: v_ilist_is_head_def gt_def Let_def)
  qed
qed

lemma ring_insert:
  fixes compare node
  defines "gt \<equiv> \<lambda>p. compare node p = (1 :: int)"
  assumes "ring h l xs" "node \<notin> set (l # xs)"
  shows "\<exists>h'. v_ilist_insert compare node l h =
      Some (h', if xs = [] then 0 else if dropWhile gt xs = [] then last xs else hd (dropWhile gt xs))
    \<and> ring h' l (takeWhile gt xs @ node # dropWhile gt xs)"
proof -
  let ?pre = "takeWhile gt xs" and ?post = "dropWhile gt xs"
  have split: "ring h l (?pre @ ?post)" "node \<notin> set (l # ?pre @ ?post)" using assms(2,3) by auto
  have loop: "insert_loop compare h node l (nxt h l) 0 1 =
      Some (after ?post l, if ?post \<noteq> [] then 0 else if xs = [] then 0 else 1)"
    using insert_loop_chain [of h l xs l compare node 0] assms(2) unfolding gt_def ring_def by auto
  show ?thesis
  proof (cases "?post = [] \<and> xs \<noteq> []")
    case True
    then have pre: "?pre = xs" by (metis append_Nil2 takeWhile_dropWhile_id)
    have r: "ring (v_ilist_append node (prv h l) h) l (xs @ [node])"
      using ring_append [of h l xs "[]" node] ring_prv [of h l xs "[]"] assms(2,3) by simp
    then have "prv (v_ilist_append node (prv h l) h) node = last xs"
      using ring_prv [of _ l xs "[node]"] True by auto
    then show ?thesis using r by (simp add: v_ilist_insert_def Let_def loop pre True)
  next
    case False
    then show ?thesis
      using loop ring_prepend [OF split] assms(2)
      by (cases ?post) (auto simp: v_ilist_insert_def v_ilist_is_head_def ring_def dest: set_dropWhileD)
  qed
qed

lemma ring_insert_sorted:
  fixes key :: "u32 \<Rightarrow> 'k::linorder" and node
  assumes "sorted (map key xs)"
  defines "gt \<equiv> \<lambda>p. key p < key node"
  shows "sorted (map key (takeWhile gt xs @ node # dropWhile gt xs))"
proof -
  have "sorted (map key (takeWhile gt xs) @ map key (dropWhile gt xs))"
    using assms(1) by (metis map_append takeWhile_dropWhile_id)
  then have "sorted (map key (takeWhile gt xs))" "sorted (map key (dropWhile gt xs))"
    by (simp_all add: sorted_append)
  moreover have "key p < key node" if "p \<in> set (takeWhile gt xs)" for p
    using set_takeWhileD [OF that] by (simp add: gt_def)
  moreover have "key node \<le> key p" if p: "p \<in> set (dropWhile gt xs)" for p
  proof -
    obtain q qs where q: "dropWhile gt xs = q # qs" using p by (cases "dropWhile gt xs") auto
    have "key node \<le> key q" using hd_dropWhile [of gt xs] q by (metis gt_def list.distinct(1) list.sel(1) not_less)
    moreover have "key q \<le> key p" using \<open>sorted (map key (dropWhile gt xs))\<close> p q by auto
    ultimately show ?thesis by simp
  qed
  ultimately show ?thesis by (fastforce simp: sorted_append)
qed

section \<open>Two lists in one heap\<close>

lemma remove_untouched:
  "x \<notin> {n, nxt h n, prv h n} \<Longrightarrow>
     nxt (v_ilist_remove n h) x = nxt h x \<and> prv (v_ilist_remove n h) x = prv h x"
  by (simp add: v_ilist_remove_def v_ilist_init_def Let_def)

lemma prepend_untouched:
  "x \<notin> {n, k, prv h k} \<Longrightarrow>
     nxt (v_ilist_prepend n k h) x = nxt h x \<and> prv (v_ilist_prepend n k h) x = prv h x"
  by (simp add: v_ilist_prepend_def V__ILIST_LINK_def)

lemma ring_remove_other:
  assumes "ring h k (ys @ n # zs)" "ring h l xs" "set (l # xs) \<inter> set (k # ys @ n # zs) = {}"
  shows "ring (v_ilist_remove n h) l xs"
proof -
  have "nxt h n = after zs k" "prv h n = before k ys"
    using ring_nxt [of h k "ys @ [n]" zs] ring_prv [of h k ys "n # zs"] assms(1) by simp_all
  moreover have "after zs k \<in> set (k # ys @ n # zs)" "before k ys \<in> set (k # ys @ n # zs)"
    by (cases zs; simp) (cases ys rule: rev_cases; simp)
  ultimately have touched: "{n, nxt h n, prv h n} \<subseteq> set (k # ys @ n # zs)" by simp
  have "ring (v_ilist_remove n h) l xs \<longleftrightarrow> ring h l xs"
    by (intro ring_cong remove_untouched) (use touched assms(3) in blast)
  then show ?thesis using assms(2) by blast
qed

lemma ring_tail_other:
  assumes "ring h k ys" "ring h l xs" "set (l # xs) \<inter> set (k # n # ys) = {}"
  shows "ring (v_ilist_prepend n k h) l xs"
proof -
  have "prv h k = before k ys" using ring_prv [of h k ys "[]"] assms(1) by simp
  moreover have "before k ys \<in> set (k # n # ys)" by (cases ys rule: rev_cases) auto
  ultimately have touched: "{n, k, prv h k} \<subseteq> set (k # n # ys)" by simp
  have "ring (v_ilist_prepend n k h) l xs \<longleftrightarrow> ring h l xs"
    by (intro ring_cong prepend_untouched) (use touched assms(3) in blast)
  then show ?thesis using assms(2) by blast
qed

section \<open>The interface of the list's users\<close>

text \<open>
  What the scheduler, the semaphores and the timers use: add at the tail (\<open>v_ilist_prepend\<close> on
  the head), remove a node, read the first node, and test for emptiness; and that an operation on one
  list leaves the others alone.
\<close>

locale intrusive_list =
  fixes is_list :: "'h \<Rightarrow> 'p \<Rightarrow> 'p list \<Rightarrow> bool"
    and add_tail :: "'p \<Rightarrow> 'p \<Rightarrow> 'h \<Rightarrow> 'h"
    and del :: "'p \<Rightarrow> 'h \<Rightarrow> 'h"
    and first :: "'p \<Rightarrow> 'h \<Rightarrow> 'p"
    and null :: 'p
  assumes nodes_distinct: "is_list h l xs \<Longrightarrow> distinct (l # xs)"
    and add_tail_list: "is_list h l xs \<Longrightarrow> n \<notin> set (l # xs) \<Longrightarrow> is_list (add_tail n l h) l (xs @ [n])"
    and del_list: "is_list h l (xs @ n # ys) \<Longrightarrow> n \<noteq> null \<Longrightarrow> is_list (del n h) l (xs @ ys)"
    and first_list: "is_list h l (x # xs) \<Longrightarrow> first l h = x"
    and add_tail_frame: "is_list h k ys \<Longrightarrow> is_list h l xs \<Longrightarrow> set (l # xs) \<inter> set (k # n # ys) = {} \<Longrightarrow>
      is_list (add_tail n k h) l xs"
    and del_frame: "is_list h k (ys @ n # zs) \<Longrightarrow> is_list h l xs \<Longrightarrow>
      set (l # xs) \<inter> set (k # ys @ n # zs) = {} \<Longrightarrow> is_list (del n h) l xs"
begin

text \<open>Moving a node to the tail of another list, as a blocking task moves to a wait queue.\<close>

lemma move_between:
  assumes "is_list h k (ys @ n # zs)" "is_list h l xs" "n \<noteq> null"
    and "set (l # xs) \<inter> set (k # ys @ n # zs) = {}"
  shows "is_list (add_tail n l (del n h)) k (ys @ zs)" "is_list (add_tail n l (del n h)) l (xs @ [n])"
proof -
  have d: "distinct (k # ys @ n # zs)" using nodes_distinct [OF assms(1)] .
  have k: "is_list (del n h) k (ys @ zs)" using assms(1,3) by (rule del_list)
  have l: "is_list (del n h) l xs" using assms(1,2,4) by (rule del_frame)
  show "is_list (add_tail n l (del n h)) l (xs @ [n])"
    using l assms(4) by (intro add_tail_list) auto
  show "is_list (add_tail n l (del n h)) k (ys @ zs)"
    using l k by (rule add_tail_frame) (use assms(4) d in auto)
qed

text \<open>Taking the first node out and putting it back at the tail rotates the list.\<close>

lemma requeue_first:
  assumes "is_list h l (x # xs)" "x \<noteq> null"
  shows "is_list (add_tail (first l h) l (del (first l h) h)) l (xs @ [x])"
  using del_list [of h l "[]" x xs] nodes_distinct [OF assms(1)] first_list [OF assms(1)] assms
  by (auto intro: add_tail_list)

fun enqueue_all :: "'p list \<Rightarrow> 'p \<Rightarrow> 'h \<Rightarrow> 'h" where
  "enqueue_all [] l h = h"
| "enqueue_all (n # ns) l h = enqueue_all ns l (add_tail n l h)"

fun dequeue_n :: "nat \<Rightarrow> 'p \<Rightarrow> 'h \<Rightarrow> 'p list \<times> 'h" where
  "dequeue_n 0 l h = ([], h)"
| "dequeue_n (Suc k) l h = (let (ns, h') = dequeue_n k l (del (first l h) h) in (first l h # ns, h'))"

lemma enqueue_all_list:
  "is_list h l xs \<Longrightarrow> distinct (l # xs @ ns) \<Longrightarrow> is_list (enqueue_all ns l h) l (xs @ ns)"
proof (induction ns arbitrary: h xs)
  case (Cons n ns)
  then have "is_list (add_tail n l h) l (xs @ [n])" by (intro add_tail_list) auto
  then show ?case using Cons.IH [of "add_tail n l h" "xs @ [n]"] Cons.prems(2) by simp
qed simp

lemma dequeue_n_list:
  "is_list h l (xs @ ys) \<Longrightarrow> null \<notin> set xs \<Longrightarrow>
     \<exists>h'. dequeue_n (length xs) l h = (xs, h') \<and> is_list h' l ys"
proof (induction xs arbitrary: h)
  case (Cons x xs)
  then have "is_list (del x h) l (xs @ ys)" using del_list [of h l "[]" x "xs @ ys"] by auto
  then obtain h' where "dequeue_n (length xs) l (del x h) = (xs, h')" "is_list h' l ys"
    using Cons by auto
  then show ?case using Cons.prems(1) first_list [of h l x "xs @ ys"] by simp
qed simp

text \<open>First in, first out.\<close>

lemma fifo:
  assumes "is_list h l []" "distinct (l # ns)" "null \<notin> set ns"
  shows "\<exists>h'. dequeue_n (length ns) l (enqueue_all ns l h) = (ns, h') \<and> is_list h' l []"
  using dequeue_n_list [of "enqueue_all ns l h" l ns "[]"] enqueue_all_list [of h l "[]" ns] assms
  by simp

end

definition v_ilist_first :: "u32 \<Rightarrow> links \<Rightarrow> u32" where
  \<comment> \<open>\<open>v_ilist_get_first\<close>: the node; the container is at a fixed offset\<close>
  "v_ilist_first head h = nxt h head"

interpretation il: intrusive_list ring v_ilist_prepend v_ilist_remove v_ilist_first 0
proof
  show "distinct (l # xs)" if "ring h l xs" for h l xs using that by (simp add: ring_def)
  show "ring (v_ilist_prepend n l h) l (xs @ [n])" if "ring h l xs" "n \<notin> set (l # xs)" for h l xs n
    using ring_prepend [of h l xs "[]" n] that by simp
  show "ring (v_ilist_remove n h) l (xs @ ys)" if "ring h l (xs @ n # ys)" "n \<noteq> 0" for h l xs n ys
    using that by (rule ring_remove(1))
  show "v_ilist_first l h = x" if "ring h l (x # xs)" for h l x xs
    using ring_nxt [of h l "[]" "x # xs"] that by (simp add: v_ilist_first_def)
  show "ring (v_ilist_prepend n k h) l xs"
    if "ring h k ys" "ring h l xs" "set (l # xs) \<inter> set (k # n # ys) = {}" for h k ys l xs n
    using that by (rule ring_tail_other)
  show "ring (v_ilist_remove n h) l xs"
    if "ring h k (ys @ n # zs)" "ring h l xs" "set (l # xs) \<inter> set (k # ys @ n # zs) = {}"
    for h k ys n zs l xs
    using that by (rule ring_remove_other)
qed

section \<open>Claims\<close>

text \<open>
  C23. Ordered insertion keeps a sorted list sorted: with a three-way comparison of keys that
  returns \<open>-1\<close>, \<open>0\<close> or \<open>1\<close>, \<open>v_ilist_insert\<close> returns, the new list is well linked in both
  directions, holds exactly the old nodes and the new one, and is sorted again, with the new node
  before the nodes of an equal key.
\<close>

theorem insert_sorted:
  fixes key :: "u32 \<Rightarrow> 'k::linorder"
  assumes "ring h l xs" "node \<notin> set (l # xs)" "sorted (map key xs)"
  defines "compare \<equiv> \<lambda>a b. if key a < key b then -1 else if key a = key b then 0 else (1 :: int)"
  shows "\<exists>h' r ys zs. v_ilist_insert compare node l h = Some (h', r) \<and> ring h' l (ys @ node # zs) \<and>
    xs = ys @ zs \<and> sorted (map key (ys @ node # zs)) \<and> (\<forall>z \<in> set zs. key node \<le> key z) \<and>
    (\<forall>y \<in> set ys. key y < key node)"
proof -
  have gt: "(\<lambda>p. compare node p = 1) = (\<lambda>p. key p < key node)" by (auto simp: compare_def)
  let ?ys = "takeWhile (\<lambda>p. key p < key node) xs" and ?zs = "dropWhile (\<lambda>p. key p < key node) xs"
  obtain h' r where r: "v_ilist_insert compare node l h = Some (h', r)" "ring h' l (?ys @ node # ?zs)"
    using ring_insert [OF assms(1,2), of compare] unfolding gt by blast
  have sorted: "sorted (map key (?ys @ node # ?zs))" using assms(3) by (rule ring_insert_sorted)
  then have zs: "\<forall>z \<in> set ?zs. key node \<le> key z" by (auto simp: sorted_append)
  have ys: "\<forall>y \<in> set ?ys. key y < key node" by (auto dest: set_takeWhileD)
  show ?thesis
    by (rule exI [of _ h'], rule exI [of _ r], rule exI [of _ ?ys], rule exI [of _ ?zs])
      (intro conjI r sorted zs ys, simp)
qed

definition ring2 :: links where
  "ring2 = \<lparr>prv = (\<lambda>_. 0)(1 := 3, 2 := 1, 3 := 2), nxt = (\<lambda>_. 0)(1 := 2, 2 := 3, 3 := 1)\<rparr>"

theorem insert_sorted_witness:
  "\<exists>h' r ys zs.
    v_ilist_insert (\<lambda>a b. if unat a < unat b then -1 else if unat a = unat b then 0 else 1) 7 1 ring2
      = Some (h', r) \<and>
    ring h' 1 (ys @ 7 # zs) \<and> [2, 3] = ys @ zs \<and> sorted (map unat (ys @ 7 # zs))"
proof -
  have "ring ring2 1 [2, 3]" "7 \<notin> set [1 :: u32, 2, 3]" "sorted (map unat [2 :: u32, 3])"
    by (simp_all add: ring2_def ring_def)
  from insert_sorted [OF this] show ?thesis by blast
qed

text \<open>
  C24. A node can be moved from one list to the tail of another: \<open>v_ilist_remove\<close> followed by
  \<open>v_ilist_prepend\<close> on the other head takes exactly that node out of the first list and appends it
  to the second, both remaining well linked.
\<close>

theorem move_to_other_list:
  assumes "ring h k (ys @ n # zs)" "ring h l xs" "n \<noteq> 0" "set (l # xs) \<inter> set (k # ys @ n # zs) = {}"
  shows "ring (v_ilist_prepend n l (v_ilist_remove n h)) k (ys @ zs) \<and>
    ring (v_ilist_prepend n l (v_ilist_remove n h)) l (xs @ [n])"
  using il.move_between [OF assms] by blast

theorem move_to_other_list_witness:
  "ring (v_ilist_prepend 2 9 (v_ilist_remove 2 (v_ilist_init 9 ring2))) 1 [3] \<and>
    ring (v_ilist_prepend 2 9 (v_ilist_remove 2 (v_ilist_init 9 ring2))) 9 [2]"
  using move_to_other_list [of "v_ilist_init 9 ring2" 1 "[]" 2 "[3]" 9 "[]"]
  by (simp add: ring2_def ring_def v_ilist_init_def)

text \<open>
  C25. \<open>v_ilist_swap\<close> exchanges two nodes of a list, adjacent or not, in either order, and leaves
  the others in place.
\<close>

theorem swap_exchanges:
  assumes "ring h l (us @ a # vs @ b # ws)" "a \<noteq> 0" "b \<noteq> 0"
  shows "ring (v_ilist_swap a b h) l (us @ b # vs @ a # ws) \<and>
    ring (v_ilist_swap b a h) l (us @ b # vs @ a # ws)"
  using ring_swap_forward [OF assms(1,3)] ring_swap_backward [OF assms(1,2)] by blast

theorem swap_exchanges_witness:
  "ring (v_ilist_swap 2 3 ring2) 1 [3, 2] \<and> ring (v_ilist_swap 3 2 ring2) 1 [3, 2]"
  using swap_exchanges [of ring2 1 "[]" 2 "[]" 3 "[]"] by (simp add: ring2_def ring_def)

end
