(* ===== verification/X86.thy ===== *)
theory X86
  imports Prelude
begin

text \<open>
  \<open>kernel/x86.c\<close> and \<open>include/x86.h\<close>: the nested interrupt-disable sections of a task, the atomic
  compare-and-exchange, and the encoding of the global descriptor table. The theorems show that
  balanced \<open>cli_push\<close>/\<open>cli_pop\<close> pairs restore the interrupt flag at any nesting depth, and that a
  descriptor decodes to the base, limit and flags it was built from.
\<close>

section \<open>Nested interrupt sections\<close>

text \<open>The interrupt flag of the CPU and the four counters of \<open>struct task\<close> for the current task.\<close>

record cpu =
  eflags_if :: bool
  cli_depth :: int
  cli_int_enabled :: bool
  sti_depth :: int
  sti_int_disabled :: bool

definition cli :: "'a cpu_scheme \<Rightarrow> 'a cpu_scheme" where "cli c = c\<lparr>eflags_if := False\<rparr>"
definition sti :: "'a cpu_scheme \<Rightarrow> 'a cpu_scheme" where "sti c = c\<lparr>eflags_if := True\<rparr>"

definition cli_push :: "'a cpu_scheme \<Rightarrow> 'a cpu_scheme" where
  "cli_push c =
     (let eflags = eflags_if c;
          c = cli c;
          c = (if cli_depth c = 0 then c\<lparr>cli_int_enabled := eflags\<rparr> else c)
      in c\<lparr>cli_depth := cli_depth c + 1\<rparr>)"

definition cli_pop :: "'a cpu_scheme \<Rightarrow> 'a cpu_scheme option" where
  "cli_pop c =
     (if eflags_if c then None
      else let c = c\<lparr>cli_depth := cli_depth c - 1\<rparr>
           in if cli_depth c < 0 then None
              else Some (if cli_depth c = 0 \<and> cli_int_enabled c then sti c else c))"

definition sti_push :: "'a cpu_scheme \<Rightarrow> 'a cpu_scheme" where
  "sti_push c =
     (let eflags = eflags_if c;
          c = sti c;
          c = (if sti_depth c = 0 then c\<lparr>sti_int_disabled := \<not> eflags\<rparr> else c)
      in c\<lparr>sti_depth := sti_depth c + 1\<rparr>)"

definition sti_pop :: "'a cpu_scheme \<Rightarrow> 'a cpu_scheme option" where
  "sti_pop c =
     (if \<not> eflags_if c then None
      else let c = c\<lparr>sti_depth := sti_depth c - 1\<rparr>
           in if sti_depth c < 0 then None
              else Some (if sti_depth c = 0 \<and> sti_int_disabled c then cli c else c))"

datatype int_op = CliPush | CliPop | StiPush | StiPop

fun int_step :: "int_op \<Rightarrow> cpu \<Rightarrow> cpu option" where
  "int_step CliPush c = Some (cli_push c)"
| "int_step CliPop c = cli_pop c"
| "int_step StiPush c = Some (sti_push c)"
| "int_step StiPop c = sti_pop c"

fun run_ints :: "int_op list \<Rightarrow> cpu \<Rightarrow> cpu option" where
  "run_ints [] c = Some c"
| "run_ints (i # is) c = do { c' \<leftarrow> int_step i c; run_ints is c' }"

text \<open>Properly nested sections.\<close>

inductive nested :: "int_op list \<Rightarrow> bool" where
  nested_Nil: "nested []"
| nested_Cons: "nested xs \<Longrightarrow> nested ys \<Longrightarrow> nested (CliPush # xs @ CliPop # ys)"

section \<open>Atomics\<close>

definition cmpxchg :: "u32 \<Rightarrow> u32 \<Rightarrow> u32 \<Rightarrow> u32 \<times> u32" where
  \<comment> \<open>the new contents of the memory cell, and the value returned\<close>
  "cmpxchg mem old new = (if mem = old then (new, old) else (mem, mem))"

section \<open>Descriptor table\<close>

record gdt_entry =
  limit_low :: u16
  base_low :: u16
  base_mid :: u8
  access :: u8
  flags4_limit4 :: u8
  base_high :: u8

abbreviation GDT_ENTRIES :: nat where "GDT_ENTRIES \<equiv> 6"

definition gdt_entry_of :: "u32 \<Rightarrow> u32 \<Rightarrow> u8 \<Rightarrow> u8 \<Rightarrow> gdt_entry" where
  "gdt_entry_of base limit acc flags =
     \<lparr>limit_low = ucast (limit AND 0xFFFF),
      base_low = ucast (base AND 0xFFFF),
      base_mid = ucast (drop_bit 16 base AND 0xFF),
      access = acc,
      flags4_limit4 = (flags AND 0xF0) OR ucast (drop_bit 16 limit AND 0x0F),
      base_high = ucast (drop_bit 24 base AND 0xFF)\<rparr>"

definition set_gdt_entry ::
  "nat \<Rightarrow> u32 \<Rightarrow> u32 \<Rightarrow> u8 \<Rightarrow> u8 \<Rightarrow> gdt_entry list \<Rightarrow> gdt_entry list" where
  "set_gdt_entry idx base limit acc flags gdt = gdt[idx := gdt_entry_of base limit acc flags]"

text \<open>\<open>gdt_init\<close>, with the address and the size of the task state segment as arguments.\<close>

definition gdt_init :: "u32 \<Rightarrow> u32 \<Rightarrow> gdt_entry list \<Rightarrow> gdt_entry list" where
  "gdt_init tss tss_size gdt =
     set_gdt_entry 5 tss tss_size 0x89 0x40
       (set_gdt_entry 4 0 0xFFFFFFFF 0xF2 0xC0
         (set_gdt_entry 3 0 0xFFFFFFFF 0xFA 0xC0
           (set_gdt_entry 2 0 0x000FFFFF 0x92 0xC0
             (set_gdt_entry 1 0 0x000FFFFF 0x9A 0xC0
               (set_gdt_entry 0 0 0 0 0 gdt)))))"

text \<open>How the processor reads a descriptor.\<close>

definition gdt_base :: "gdt_entry \<Rightarrow> u32" where
  "gdt_base e = ucast (base_low e) OR push_bit 16 (ucast (base_mid e)) OR push_bit 24 (ucast (base_high e))"

definition gdt_limit :: "gdt_entry \<Rightarrow> u32" where
  "gdt_limit e = ucast (limit_low e) OR push_bit 16 (ucast (flags4_limit4 e AND 0x0F))"

definition gdt_flags :: "gdt_entry \<Rightarrow> u8" where
  "gdt_flags e = flags4_limit4 e AND 0xF0"

section \<open>Correctness\<close>

lemma run_ints_append: "run_ints (xs @ ys) c = do { c' \<leftarrow> run_ints xs c; run_ints ys c' }"
  by (induction xs arbitrary: c) (auto split: Option.bind_splits)

text \<open>A state between sections: interrupts are off exactly inside of one.\<close>

definition cpu_inv :: "cpu \<Rightarrow> bool" where
  "cpu_inv c \<longleftrightarrow> 0 \<le> cli_depth c \<and> (0 < cli_depth c \<longrightarrow> \<not> eflags_if c)"

lemma nested_run:
  assumes "nested xs" "cpu_inv c"
  shows "\<exists>c'. run_ints xs c = Some c' \<and> eflags_if c' = eflags_if c \<and> cli_depth c' = cli_depth c \<and>
    (0 < cli_depth c \<longrightarrow> cli_int_enabled c' = cli_int_enabled c) \<and> sti_depth c' = sti_depth c"
  using assms
proof (induction xs arbitrary: c rule: nested.induct)
  case (nested_Cons xs ys)
  let ?c1 = "cli_push c"
  have 1: "cpu_inv ?c1" "0 < cli_depth ?c1" "cli_depth ?c1 = cli_depth c + 1" "\<not> eflags_if ?c1"
    "cli_int_enabled ?c1 = (if cli_depth c = 0 then eflags_if c else cli_int_enabled c)" "sti_depth ?c1 = sti_depth c"
    using nested_Cons.prems by (auto simp: cli_push_def cli_def cpu_inv_def Let_def)
  then obtain c2 where c2: "run_ints xs ?c1 = Some c2" "eflags_if c2 = eflags_if ?c1"
    "cli_depth c2 = cli_depth ?c1" "cli_int_enabled c2 = cli_int_enabled ?c1" "sti_depth c2 = sti_depth ?c1"
    using nested_Cons.IH(1) [of ?c1] by auto
  have "\<exists>c3. cli_pop c2 = Some c3 \<and> eflags_if c3 = eflags_if c \<and> cli_depth c3 = cli_depth c \<and>
    (0 < cli_depth c \<longrightarrow> cli_int_enabled c3 = cli_int_enabled c) \<and> sti_depth c3 = sti_depth c \<and> cpu_inv c3"
    using 1 c2 nested_Cons.prems by (auto simp: cli_pop_def sti_def cpu_inv_def Let_def)
  then obtain c3 where c3: "cli_pop c2 = Some c3" "eflags_if c3 = eflags_if c" "cli_depth c3 = cli_depth c"
    "0 < cli_depth c \<longrightarrow> cli_int_enabled c3 = cli_int_enabled c" "sti_depth c3 = sti_depth c" "cpu_inv c3"
    by blast
  from nested_Cons.IH(2) [OF c3(6)] c2(1) c3 show ?case
    by (auto simp: run_ints_append)
qed simp

lemma and_masks:
  "(x :: u32) AND 0xFF = take_bit 8 x" "x AND 0xF = take_bit 4 x" "x AND 0xFFFF = take_bit 16 x"
  "x AND 0xFFFFF = take_bit 20 x" "(y :: u8) AND 0x0F = take_bit 4 y" "y AND 0xF0 = push_bit 4 (drop_bit 4 y)"
proof -
  have "0xFF = (mask 8 :: u32)" "0xF = (mask 4 :: u32)" "0xFFFF = (mask 16 :: u32)"
    "0xFFFFF = (mask 20 :: u32)" "0xF = (mask 4 :: u8)" and m: "0xF0 = (push_bit 4 (mask 4) :: u8)"
    by (simp_all add: mask_eq_exp_minus_1)
  then show "(x :: u32) AND 0xFF = take_bit 8 x" "x AND 0xF = take_bit 4 x" "x AND 0xFFFF = take_bit 16 x"
    "x AND 0xFFFFF = take_bit 20 x" "(y :: u8) AND 0x0F = take_bit 4 y"
    by (simp_all only: take_bit_eq_mask)
  show "y AND 0xF0 = push_bit 4 (drop_bit 4 y)"
    unfolding m by (rule bit_word_eqI) (auto simp: bit_simps)
qed

lemma gdt_base_of: "gdt_base (gdt_entry_of base limit acc flags) = base"
proof (rule bit_word_eqI)
  fix n
  assume "n < LENGTH(32)"
  then show "bit (gdt_base (gdt_entry_of base limit acc flags)) n = bit base n"
    unfolding gdt_base_def gdt_entry_of_def gdt_entry.simps and_masks
    by (cases "n < 24") (auto simp: bit_simps)
qed

lemma gdt_limit_of: "gdt_limit (gdt_entry_of base limit acc flags) = limit AND 0xFFFFF"
  unfolding gdt_limit_def gdt_entry_of_def gdt_entry.simps and_masks
  by (rule bit_word_eqI) (auto simp: bit_simps)

lemma gdt_flags_of: "gdt_flags (gdt_entry_of base limit acc flags) = flags AND 0xF0"
  unfolding gdt_flags_def gdt_entry_of_def gdt_entry.simps and_masks
  by (rule bit_word_eqI) (auto simp: bit_simps)

section \<open>Claims\<close>

text \<open>
  C26. Interrupt-disable sections nest: every properly nested sequence of \<open>cli_push\<close> and \<open>cli_pop\<close>
  runs without a panic from a state in which interrupts are off inside a section, and leaves the
  interrupt flag and the depth of the task as they were.
\<close>

theorem cli_sections_balanced:
  assumes "nested xs" "cpu_inv c"
  shows "\<exists>c'. run_ints xs c = Some c' \<and> eflags_if c' = eflags_if c \<and> cli_depth c' = cli_depth c"
  using nested_run [OF assms] by blast

definition cpu0 :: cpu where
  "cpu0 = \<lparr>eflags_if = True, cli_depth = 0, cli_int_enabled = False, sti_depth = 0, sti_int_disabled = False\<rparr>"

theorem cli_sections_balanced_witness:
  "\<exists>c'. run_ints [CliPush, CliPush, CliPop, CliPop] cpu0 = Some c' \<and> eflags_if c' \<and> cli_depth c' = 0"
proof -
  have "nested (CliPush # (CliPush # [] @ CliPop # []) @ CliPop # [])" by (intro nested.intros)
  from cli_sections_balanced [OF this, of cpu0] show ?thesis by (simp add: cpu_inv_def cpu0_def)
qed

text \<open>
  C27. The descriptors of the table decode to what \<open>gdt_init\<close> asks for: the four code and data
  segments start at address 0, have a limit of \<open>0xFFFFF\<close> units of 4 KiB, the whole address space,
  and the sixth is the task state segment at its address.
\<close>

theorem gdt_segments_flat:
  assumes "length gdt = GDT_ENTRIES"
  shows "let g = gdt_init tss tss_size gdt in (\<forall>i \<in> {1, 2, 3, 4}. gdt_base (g ! i) = 0 \<and> gdt_limit (g ! i) = 0xFFFFF \<and> gdt_flags (g ! i) = 0xC0)
    \<and> access (g ! 1) = 0x9A \<and> access (g ! 2) = 0x92 \<and> access (g ! 3) = 0xFA \<and> access (g ! 4) = 0xF2
    \<and> gdt_base (g ! 5) = tss \<and> gdt_limit (g ! 5) = tss_size AND 0xFFFFF \<and> length g = GDT_ENTRIES"
  using assms unfolding Let_def gdt_init_def set_gdt_entry_def
  by (simp add: gdt_base_of gdt_limit_of gdt_flags_of) (simp add: gdt_entry_of_def)

theorem gdt_segments_flat_witness:
  "gdt_base (gdt_init 0xC0012340 104 (replicate 6 (gdt_entry_of 0 0 0 0)) ! 5) = 0xC0012340"
  using gdt_segments_flat [of "replicate 6 (gdt_entry_of 0 0 0 0)" "0xC0012340" 104]
  by (simp add: Let_def)

text \<open>
  A \<open>cli\<close> section opened inside an \<open>sti\<close> section inside a \<open>cli\<close> section does not restore the
  interrupt flag, because only the outermost \<open>cli_push\<close> records it; the \<open>sti_pop\<close> then panics.
\<close>

lemma mixed_sections_panic:
  "run_ints [CliPush, StiPush, CliPush, CliPop, StiPop, CliPop] cpu0 = None"
  by (simp add: cpu0_def cli_push_def cli_pop_def sti_push_def sti_pop_def cli_def sti_def)

end
