(* ===== verification/Wordmem.thy ===== *)
theory Wordmem
  imports Cstring
begin

text \<open>
  32-bit little-endian stores into the byte memory, the counterpart of \<open>load32\<close>. The kernel keeps
  pointers and page-table entries in memory; these are the facts that let the theories above treat
  an aligned word as a cell.
\<close>

definition store32 :: "u32 \<Rightarrow> u32 \<Rightarrow> mem \<Rightarrow> mem" where
  "store32 a v m = m(a := ucast v, a + 1 := ucast (drop_bit 8 v),
     a + 2 := ucast (drop_bit 16 v), a + 3 := ucast (drop_bit 24 v))"

lemma unat_ucast8: "unat (ucast (v :: u32) :: u8) = unat v mod 256"
  by (simp add: unsigned_ucast_eq take_bit_eq_mod)

lemma unat_drop_bit32: "unat (drop_bit k (v :: u32)) = unat v div 2 ^ k"
  using unat_lt32 [of v]
  by (simp only: unsigned_drop_bit_eq) (simp add: drop_bit_eq_div take_bit_nat_eq_self)

lemma base256_digits:
  fixes n :: nat
  assumes "n < 4294967296"
  shows "n mod 256 + 256 * (n div 256 mod 256) + 65536 * (n div 65536 mod 256)
    + 16777216 * (n div 16777216 mod 256) = n"
proof -
  have "n div 16777216 mod 256 = n div 16777216"
    using assms by (intro mod_less) (simp add: less_mult_imp_div_less)
  moreover have "n mod 65536 = 256 * (n div 256 mod 256) + n mod 256"
    using mod_mult2_eq [of n 256 256] by simp
  moreover have "n mod 16777216 = 65536 * (n div 65536 mod 256) + n mod 65536"
    using mod_mult2_eq [of n 65536 256] by simp
  moreover have "n = 16777216 * (n div 16777216) + n mod 16777216" by simp
  ultimately show ?thesis by linarith
qed

lemma load32_store32 [simp]: "load32 (store32 a v m) a = v"
proof -
  have "load32 (store32 a v m) a = of_nat (unat v mod 256 + 256 * (unat v div 256 mod 256)
      + 65536 * (unat v div 65536 mod 256) + 16777216 * (unat v div 16777216 mod 256))"
    by (simp add: load32_def store32_def unat_ucast8 unat_drop_bit32)
  also have "\<dots> = v"
    unfolding base256_digits [OF unat_lt32 [of v]] by simp
  finally show ?thesis .
qed

lemma store32_other: "b - a \<notin> {0, 1, 2, 3} \<Longrightarrow> store32 a v m b = m b"
  by (auto simp: store32_def)

lemma load32_cong: "(\<And>i. i \<in> {0, 1, 2, 3} \<Longrightarrow> m (a + i) = m' (a + i)) \<Longrightarrow> load32 m a = load32 m' a"
  using add_0_right [of a] unfolding load32_def by (metis insertCI)

text \<open>Two different aligned words do not overlap.\<close>

definition word_aligned :: "u32 \<Rightarrow> bool" where
  "word_aligned a \<longleftrightarrow> a AND 3 = 0"

lemma aligned_dvd: "word_aligned a \<longleftrightarrow> 4 dvd unat a"
proof -
  have "a AND 3 = take_bit 2 a" by (simp add: take_bit_eq_mask mask_eq_exp_minus_1)
  then have "a AND 3 = 0 \<longleftrightarrow> unat (take_bit 2 a) = 0" by (simp add: unat_eq_zero)
  then show ?thesis by (simp add: word_aligned_def unat_take_bit dvd_eq_mod_eq_0)
qed

lemma aligned_disjoint:
  assumes "word_aligned a" "word_aligned b" "a \<noteq> b" "i \<in> {0, 1, 2, 3}"
  shows "b + i - a \<notin> {0, 1, 2, 3}"
proof
  assume *: "b + i - a \<in> {0, 1, 2, 3}"
  have mod: "unat (c + j) div 4 = unat c div 4" if al: "word_aligned c" and j: "j \<in> {0, 1, 2, 3}" for c j :: u32
  proof -
    obtain k where k: "unat c = 4 * k" using al by (auto simp: aligned_dvd elim: dvdE)
    then have "unat c + 3 < 2 ^ 32" using unat_lt32 [of c] by simp
    moreover have "unat j \<le> 3" using j by auto
    ultimately have "unat (c + j) = unat c + unat j" by (intro unat_add_small) simp
    then show ?thesis using k \<open>unat j \<le> 3\<close> by simp
  qed
  have "unat b div 4 = unat (b + i) div 4" using mod [of b i] assms(2,4) by simp
  also have "\<dots> = unat (a + (b + i - a)) div 4" by simp
  also have "\<dots> = unat a div 4" using mod [OF assms(1) *] .
  finally have "unat a = unat b" using assms(1,2) by (auto simp: aligned_dvd)
  then show False using assms(3) by (simp add: word_unat_eq_iff)
qed

lemma load32_store32_other [simp]:
  assumes "word_aligned a" "word_aligned b" "a \<noteq> b"
  shows "load32 (store32 a v m) b = load32 m b"
  by (rule load32_cong, rule store32_other, rule aligned_disjoint) (use assms in auto)

section \<open>Chains of words\<close>

text \<open>\<open>lchain m p cs\<close>: the NULL-terminated list at \<open>p\<close>, linked through the first words, is \<open>cs\<close>.\<close>

fun lchain :: "mem \<Rightarrow> u32 \<Rightarrow> u32 list \<Rightarrow> bool" where
  "lchain m p [] = (p = 0)"
| "lchain m p (c # cs) = (p = c \<and> c \<noteq> 0 \<and> lchain m (load32 m c) cs)"

lemma lchain_cong: "(\<And>c. c \<in> set cs \<Longrightarrow> load32 m' c = load32 m c) \<Longrightarrow> lchain m' p cs \<longleftrightarrow> lchain m p cs"
  by (induction cs arbitrary: p) auto

lemma lchain_not_null: "lchain m p cs \<Longrightarrow> 0 \<notin> set cs"
  by (induction cs arbitrary: p) auto

lemma lchain_empty_iff: "lchain m p cs \<Longrightarrow> p = 0 \<longleftrightarrow> cs = []"
  by (cases cs) auto

lemma lchain_single_iff: "lchain m p cs \<Longrightarrow> p \<noteq> 0 \<Longrightarrow> load32 m p = 0 \<longleftrightarrow> length cs = 1"
  by (cases cs) (auto dest: lchain_empty_iff)

end
