(* ===== verification/Pfa.thy ===== *)
theory Pfa
  imports Wordmem Vlib X86
begin

text \<open>
  The page frame allocator, \<open>kernel/mm/pfa.c\<close>. Free frames form a singly linked list whose links are
  the first words of the frames themselves, in the window at \<open>PFA_VIRT_OFFSET\<close>. The state extends the
  CPU record by the memory, the list head and the tables of physical and reserved regions.
  A panic or a failed assertion is \<open>None\<close>. The purge routine that \<open>pf_alloc\<close> calls when it runs out
  of frames is an argument, because it lives above the allocator (\<open>mm/purge.c\<close>).
\<close>

section \<open>State\<close>

record region =
  rg_name :: u32
  rg_start :: u32
  rg_pages :: u32

record phys_region =
  pr_r :: region
  pr_reserved :: u32
  pr_flags :: u32

text \<open>The lengths of the two lists are \<open>s_next_region\<close> and \<open>s_next_reserved\<close>.\<close>

record pfa = cpu +
  kmem :: mem
  page_freelist :: u32
  phys_regions :: "phys_region list"
  s_reserved :: "region list"

abbreviation MAX_PHYS_REGIONS :: nat where "MAX_PHYS_REGIONS \<equiv> 8"
abbreviation MAX_RESVD_REGIONS :: nat where "MAX_RESVD_REGIONS \<equiv> 8"
abbreviation PHYS_REGION_IGNORE :: u32 where "PHYS_REGION_IGNORE \<equiv> 1"
abbreviation MEG_PAGES :: u32 where "MEG_PAGES \<equiv> 256"

definition PFN_TO_PHYS :: "u32 \<Rightarrow> u32" where "PFN_TO_PHYS pfn = pfn * PAGE_SIZE"
abbreviation PFN_FROM_PHYS :: "u32 \<Rightarrow> u32" where "PFN_FROM_PHYS phys \<equiv> phys div PAGE_SIZE"

text \<open>The reserved regions known at compile time; the names are addresses of string literals.\<close>

definition s_reserved_init :: "(nat \<Rightarrow> u32) \<Rightarrow> region list" where
  "s_reserved_init lit =
     [\<lparr>rg_name = lit 0, rg_start = 0, rg_pages = 1\<rparr>,
      \<lparr>rg_name = lit 1, rg_start = PFN_FROM_PHYS 0x1000, rg_pages = 1\<rparr>,
      \<lparr>rg_name = lit 2, rg_start = PFN_FROM_PHYS 0x2000, rg_pages = 1\<rparr>,
      \<lparr>rg_name = lit 3, rg_start = PFN_FROM_PHYS 0x3000, rg_pages = 1\<rparr>,
      \<lparr>rg_name = lit 4, rg_start = drop_bit 12 0x4000, rg_pages = drop_bit 12 0x8000 - drop_bit 12 0x4000\<rparr>,
      \<lparr>rg_name = lit 5, rg_start = drop_bit 12 0x8000, rg_pages = (5 * PAGE_SIZE) div PAGE_SIZE\<rparr>]"

section \<open>Allocating and freeing frames\<close>

partial_function (option) pf_pop_loop :: "'a pfa_scheme \<Rightarrow> ('a pfa_scheme \<times> u32) option" where
  "pf_pop_loop s =
     (let old = page_freelist s;
          new = load32 (kmem s) old;
          (cell, ret) = cmpxchg (page_freelist s) old new
      in if ret = old then Some (s\<lparr>page_freelist := cell\<rparr>, old)
         else pf_pop_loop (s\<lparr>page_freelist := cell\<rparr>))"

definition pf_alloc ::
  "(u32 \<Rightarrow> 'a pfa_scheme \<Rightarrow> ('a pfa_scheme \<times> u32) option) \<Rightarrow> 'a pfa_scheme \<Rightarrow> ('a pfa_scheme \<times> u32) option" where
  "pf_alloc purgeable_purge s =
     (if page_freelist s = 0
      then do {
        (s, purged) \<leftarrow> purgeable_purge PAGE_SIZE (cli_push s);
        if purged < PAGE_SIZE then Some (s, 0)
        else if page_freelist s = 0 then None
        else do { s \<leftarrow> cli_pop s; pf_pop_loop s }
      }
      else pf_pop_loop s)"

definition pf_zalloc ::
  "(u32 \<Rightarrow> 'a pfa_scheme \<Rightarrow> ('a pfa_scheme \<times> u32) option) \<Rightarrow> 'a pfa_scheme \<Rightarrow> ('a pfa_scheme \<times> u32) option" where
  "pf_zalloc purge s = do {
     (s, page) \<leftarrow> pf_alloc purge s;
     if page = 0 then Some (s, 0)
     else Some (s\<lparr>kmem := memset (kmem s) page 0 PAGE_SIZE\<rparr>, page)
   }"

partial_function (option) pf_free :: "u32 \<Rightarrow> 'a pfa_scheme \<Rightarrow> 'a pfa_scheme option" where
  "pf_free frame s =
     (let s = s\<lparr>kmem := store32 frame (page_freelist s) (kmem s)\<rparr>;
          old = load32 (kmem s) frame;
          (cell, ret) = cmpxchg (page_freelist s) old frame
      in if ret = old then Some (s\<lparr>page_freelist := cell\<rparr>)
         else pf_free frame (s\<lparr>page_freelist := cell\<rparr>))"

partial_function (option) count_frames :: "mem \<Rightarrow> u32 \<Rightarrow> u32 \<Rightarrow> u32 option" where
  "count_frames m frame pages =
     (if frame = 0 then Some pages else count_frames m (load32 m frame) (pages + 1))"

definition pfa_count_free_pages :: "'a pfa_scheme \<Rightarrow> ('a pfa_scheme \<times> u32) option" where
  "pfa_count_free_pages s = do {
     s \<leftarrow> Some (cli_push s);
     pages \<leftarrow> count_frames (kmem s) (page_freelist s) 0;
     s \<leftarrow> cli_pop s;
     Some (s, pages)
   }"

section \<open>Regions\<close>

definition in_reserved :: "u32 \<Rightarrow> region \<Rightarrow> bool" where
  "in_reserved p r \<longleftrightarrow> rg_start r \<le> p \<and> p \<le> rg_start r + rg_pages r"

definition is_reserved :: "'a pfa_scheme \<Rightarrow> u32 \<Rightarrow> bool" where
  "is_reserved s p \<longleftrightarrow> list_ex (in_reserved p) (s_reserved s)"

definition region_overlaps :: "region \<Rightarrow> u32 \<Rightarrow> u32 \<Rightarrow> bool" where
  "region_overlaps r start pages =
     (let reg_start = rg_start r; reg_end = rg_start r + rg_pages r
      in if start \<ge> reg_start \<and> start < reg_end then True
         else let e = start + pages
              in if e \<ge> reg_start \<and> e < reg_end then True else False)"

definition pfa_register_reserved_region ::
  "u32 \<Rightarrow> u32 \<Rightarrow> u32 \<Rightarrow> 'a pfa_scheme \<Rightarrow> ('a pfa_scheme \<times> int) option" where
  "pfa_register_reserved_region name start pages s =
     (if length (s_reserved s) \<ge> MAX_RESVD_REGIONS then Some (s, 1)
      else if list_ex (\<lambda>r. region_overlaps r start pages) (s_reserved s) then None
      else Some (s\<lparr>s_reserved := s_reserved s @ [\<lparr>rg_name = name, rg_start = start, rg_pages = pages\<rparr>]\<rparr>, 0))"

definition pfa_register_region ::
  "u32 \<Rightarrow> u32 \<Rightarrow> u32 \<Rightarrow> u32 \<Rightarrow> 'a pfa_scheme \<Rightarrow> 'a pfa_scheme \<times> int" where
  "pfa_register_region name start pages flags s =
     (let name = (if name < VIRT_OFFSET then name + VIRT_OFFSET else name)
      in if length (phys_regions s) \<ge> MAX_PHYS_REGIONS then (s, 1)
         else (s\<lparr>phys_regions := phys_regions s @
                  [\<lparr>pr_r = \<lparr>rg_name = name, rg_start = start, rg_pages = pages\<rparr>,
                    pr_reserved = 0, pr_flags = flags\<rparr>]\<rparr>, 0))"

text \<open>\<open>map_phys_region\<close> on the \<open>i\<close>-th region; \<open>p\<close> is the loop variable.\<close>

definition count_reserved :: "nat \<Rightarrow> 'a pfa_scheme \<Rightarrow> 'a pfa_scheme" where
  "count_reserved i s =
     s\<lparr>phys_regions := (phys_regions s)[i := (phys_regions s ! i)
         \<lparr>pr_reserved := pr_reserved (phys_regions s ! i) + 1\<rparr>]\<rparr>"

definition map_page :: "nat \<Rightarrow> u32 \<Rightarrow> 'a pfa_scheme \<Rightarrow> 'a pfa_scheme option" where
  "map_page i p s =
     (if is_reserved s p then Some (count_reserved i s)
      else let page = PFN_TO_PHYS p + PFA_VIRT_OFFSET
           in if page AND 0xFFF \<noteq> 0 then None else pf_free page s)"

function map_phys_region_from :: "nat \<Rightarrow> u32 \<Rightarrow> u32 \<Rightarrow> 'a pfa_scheme \<Rightarrow> 'a pfa_scheme option" where
  "map_phys_region_from i p lim s =
     (if p < lim then do { s' \<leftarrow> map_page i p s; map_phys_region_from i (p + 1) lim s' } else Some s)"
  by pat_completeness auto
termination
  by (relation "measure (\<lambda>(i, p, lim, s). unat lim - unat p)") (auto intro: loop_up_measure)

declare map_phys_region_from.simps [simp del]

definition map_phys_region :: "nat \<Rightarrow> 'a pfa_scheme \<Rightarrow> 'a pfa_scheme option" where
  "map_phys_region i s =
     (let r = pr_r (phys_regions s ! i)
      in map_phys_region_from i (rg_start r) (rg_start r + rg_pages r) s)"

fun map_phys_regions_from :: "nat list \<Rightarrow> 'a pfa_scheme \<Rightarrow> 'a pfa_scheme option" where
  "map_phys_regions_from [] s = Some s"
| "map_phys_regions_from (i # is) s =
     (if pr_flags (phys_regions s ! i) AND PHYS_REGION_IGNORE = 0
      then do { s \<leftarrow> map_phys_region i s; map_phys_regions_from is s }
      else map_phys_regions_from is s)"

definition map_phys_regions :: "'a pfa_scheme \<Rightarrow> 'a pfa_scheme option" where
  "map_phys_regions s = map_phys_regions_from [0..<length (phys_regions s)] s"

section \<open>Mapping the frames above 4 MiB\<close>

definition PTE_PRESENT :: u32 where [consts_defs]: "PTE_PRESENT = 1"
definition PTE_WRITABLE :: u32 where [consts_defs]: "PTE_WRITABLE = 2"

fun kb_above_1meg :: "phys_region list \<Rightarrow> u32 \<Rightarrow> u32" where
  "kb_above_1meg [] kb = kb"
| "kb_above_1meg (r # rs) kb =
     kb_above_1meg rs (if rg_start (pr_r r) \<ge> MEG_PAGES then kb + push_bit 2 (rg_pages (pr_r r)) else kb)"

partial_function (option) frames_after :: "mem \<Rightarrow> u32 \<Rightarrow> u32 \<Rightarrow> u32 option" where
  "frames_after m f n = (let f' = load32 m f in if f' = 0 then Some n else frames_after m f' (n + 1))"

text \<open>The inner loop fills the table at \<open>t\<close> with \<open>k\<close> more entries.\<close>

fun fill_table :: "nat \<Rightarrow> u32 \<Rightarrow> u32 \<Rightarrow> u32 \<Rightarrow> mem \<Rightarrow> (mem \<times> u32) option" where
  "fill_table 0 t j cur_pfn m = Some (m, cur_pfn)"
| "fill_table (Suc k) t j cur_pfn m =
     (let addr = PFN_TO_PHYS cur_pfn
      in if addr = 0 then None
         else fill_table k t (j + 1) (cur_pfn + 1)
                (store32 (t + 4 * j) (addr OR PTE_WRITABLE OR PTE_PRESENT) m))"

fun make_tables ::
  "(u32 \<Rightarrow> 'a pfa_scheme \<Rightarrow> ('a pfa_scheme \<times> u32) option) \<Rightarrow> nat \<Rightarrow> u32 \<Rightarrow> u32 \<Rightarrow> u32 \<Rightarrow> 'a pfa_scheme \<Rightarrow>
     'a pfa_scheme option" where
  "make_tables purge 0 tables i cur_pfn s = Some s"
| "make_tables purge (Suc k) tables i cur_pfn s = do {
     (s, t) \<leftarrow> pf_alloc purge s;
     s \<leftarrow> Some (s\<lparr>kmem := store32 (tables + 4 * i) t (kmem s)\<rparr>);
     (m, cur_pfn) \<leftarrow> fill_table 1024 t 0 cur_pfn (kmem s);
     make_tables purge k tables (i + 1) cur_pfn (s\<lparr>kmem := m\<rparr>)
   }"

fun insert_tables :: "nat \<Rightarrow> u32 \<Rightarrow> u32 \<Rightarrow> u32 \<Rightarrow> mem \<Rightarrow> mem" where
  "insert_tables 0 tables pd_start_idx i m = m"
| "insert_tables (Suc k) tables pd_start_idx i m =
     (let phys = load32 m (tables + 4 * i) - PFA_VIRT_OFFSET
      in insert_tables k tables pd_start_idx (i + 1)
           (store32 (0xFFFFF000 + 4 * (pd_start_idx + i)) (phys OR PTE_WRITABLE OR PTE_PRESENT) m))"

definition map_above_4_meg_freelist ::
  "(u32 \<Rightarrow> 'a pfa_scheme \<Rightarrow> ('a pfa_scheme \<times> u32) option) \<Rightarrow> u32 \<Rightarrow> 'a pfa_scheme \<Rightarrow> 'a pfa_scheme option" where
  "map_above_4_meg_freelist purge stage0_last_mapped_pfn s =
     (let total_kb = kb_above_1meg (phys_regions s) 0
      in if total_kb + 1024 \<le> 4 * 1024 then Some s
         else if page_freelist s = 0 then None
         else do {
           (s, scratch) \<leftarrow> pf_alloc purge s;
           freelist_pages \<leftarrow> frames_after (kmem s) (page_freelist s) 0;
           let pages_above_1meg = total_kb div 4;
               pages_needed = pages_above_1meg - (3 * 1024 * 1024) div PAGE_SIZE;
               page_tables_needed = pages_needed div 1024 + 1
           in if freelist_pages < page_tables_needed then None
              else if stage0_last_mapped_pfn \<noteq> 1024 then None
              else case v_ma_alloc (kmem s) (v_ma_from_buf scratch PAGE_SIZE) 4 4 page_tables_needed 0 0 of
                     MaRet (m, a, tables) \<Rightarrow> do {
                       s \<leftarrow> make_tables purge (unat page_tables_needed) tables 0 stage0_last_mapped_pfn (s\<lparr>kmem := m\<rparr>);
                       pf_free scratch
                         (s\<lparr>kmem := insert_tables (unat page_tables_needed) tables
                             (PFA_VIRT_OFFSET div (4 * 1024 * 1024) + 1) 0 (kmem s)\<rparr>)
                     }
                   | _ \<Rightarrow> None
         })"

text \<open>
  \<open>pfa_init\<close>: the linker's addresses of the kernel image and the literal of its name are arguments.
  The return value of the registration is ignored, as in the code.
\<close>

definition pfa_init ::
  "(u32 \<Rightarrow> 'a pfa_scheme \<Rightarrow> ('a pfa_scheme \<times> u32) option) \<Rightarrow> u32 \<Rightarrow> u32 \<Rightarrow> u32 \<Rightarrow> u32 \<Rightarrow> 'a pfa_scheme \<Rightarrow>
     'a pfa_scheme option" where
  "pfa_init purge last_pfn name kernel_physical_start kernel_physical_end s =
     (let kernel_start_pfn = PFN_FROM_PHYS (PAGE_ROUND_DN kernel_physical_start);
          kernel_pages = PFN_FROM_PHYS (PAGE_ROUND_UP kernel_physical_end) - kernel_start_pfn
      in do {
        (s, _) \<leftarrow> pfa_register_reserved_region name (PFN_FROM_PHYS kernel_physical_start) kernel_pages s;
        s \<leftarrow> map_phys_region 0 s;
        s \<leftarrow> map_above_4_meg_freelist purge last_pfn s;
        map_phys_regions s
      })"

section \<open>Statistics\<close>

text \<open>
  \<open>dump_phys_mem_stats\<close> without its output. The counters live in an arena block of
  \<open>s_next_region - 1\<close> words; \<open>bump\<close> is the loop over the regions for one free frame.
\<close>

fun bump :: "phys_region list \<Rightarrow> u32 \<Rightarrow> u32 \<Rightarrow> u32 \<Rightarrow> mem \<Rightarrow> mem" where
  "bump [] counts i pfn m = m"
| "bump (r # rs) counts i pfn m =
     bump rs counts (i + 1) pfn
       (if pfn \<ge> rg_start (pr_r r) \<and> pfn < rg_start (pr_r r) + rg_pages (pr_r r)
        then store32 (counts + 4 * i) (load32 m (counts + 4 * i) + 1) m else m)"

partial_function (option) count_regions :: "phys_region list \<Rightarrow> u32 \<Rightarrow> u32 \<Rightarrow> mem \<Rightarrow> mem option" where
  "count_regions rs counts frame m =
     (if frame = 0 then Some m
      else let pfn = PFN_FROM_PHYS (frame - PFA_VIRT_OFFSET)
           in count_regions rs counts (load32 m frame) (bump rs counts 0 pfn m))"

fun clear_counts :: "nat \<Rightarrow> u32 \<Rightarrow> u32 \<Rightarrow> mem \<Rightarrow> mem" where
  "clear_counts 0 counts i m = m"
| "clear_counts (Suc k) counts i m = clear_counts k counts (i + 1) (store32 (counts + 4 * i) 0 m)"

fun sum_counts :: "nat \<Rightarrow> u32 \<Rightarrow> u32 \<Rightarrow> mem \<Rightarrow> u32 \<Rightarrow> u32" where
  "sum_counts 0 counts i m acc = acc"
| "sum_counts (Suc k) counts i m acc = sum_counts k counts (i + 1) m (acc + load32 m (counts + 4 * i))"

definition dump_phys_mem_stats :: "v_ma \<Rightarrow> 'a pfa_scheme \<Rightarrow> ('a pfa_scheme \<times> u32) option" where
  "dump_phys_mem_stats a s =
     (let n = length (phys_regions s)
      in case v_ma_alloc (kmem s) a 4 4 (of_nat n - 1) 0 0 of
           MaRet (m, _, counts) \<Rightarrow> do {
             s \<leftarrow> Some (cli_push (s\<lparr>kmem := clear_counts n counts 0 m\<rparr>));
             m \<leftarrow> count_regions (phys_regions s) counts (page_freelist s) (kmem s);
             s \<leftarrow> cli_pop (s\<lparr>kmem := m\<rparr>);
             Some (s, sum_counts n counts 0 m 0)
           }
         | _ \<Rightarrow> None)"

section \<open>The free list\<close>

definition page_aligned :: "u32 \<Rightarrow> bool" where
  "page_aligned p \<longleftrightarrow> p AND 0xFFF = 0"

fun frames :: "mem \<Rightarrow> u32 \<Rightarrow> u32 list \<Rightarrow> bool" where
  "frames m p [] = (p = 0)"
| "frames m p (f # fs) = (p = f \<and> f \<noteq> 0 \<and> page_aligned f \<and> frames m (load32 m f) fs)"

text \<open>The free frames of a state, first to be allocated first.\<close>

definition free_frames :: "'a pfa_scheme \<Rightarrow> u32 list \<Rightarrow> bool" where
  "free_frames s fs \<longleftrightarrow> frames (kmem s) (page_freelist s) fs \<and> distinct fs"

lemma page_aligned_word: "page_aligned p \<Longrightarrow> word_aligned p"
proof -
  assume "page_aligned p"
  moreover have "p AND 3 = (p AND 0xFFF) AND 3" by (simp add: and.assoc)
  ultimately show ?thesis by (simp add: page_aligned_def word_aligned_def)
qed

lemma frames_cong: "(\<And>f. f \<in> set fs \<Longrightarrow> load32 m' f = load32 m f) \<Longrightarrow> frames m' p fs \<longleftrightarrow> frames m p fs"
  by (induction fs arbitrary: p) auto

lemma frames_aligned: "frames m p fs \<Longrightarrow> f \<in> set fs \<Longrightarrow> page_aligned f \<and> f \<noteq> 0"
  by (induction fs arbitrary: p) auto

lemma frames_store:
  "page_aligned a \<Longrightarrow> a \<notin> set fs \<Longrightarrow> frames m p fs \<Longrightarrow> frames (store32 a v m) p fs"
  using frames_aligned [of m p fs] page_aligned_word
  by (subst frames_cong [of fs _ m]) (auto intro: load32_store32_other)

lemma pf_pop_loop_eq:
  "pf_pop_loop s = Some (s\<lparr>page_freelist := load32 (kmem s) (page_freelist s)\<rparr>, page_freelist s)"
  by (subst pf_pop_loop.simps) (simp add: cmpxchg_def Let_def)

lemma pf_free_eq:
  "pf_free p s = Some (s\<lparr>kmem := store32 p (page_freelist s) (kmem s), page_freelist := p\<rparr>)"
  by (subst pf_free.simps) (simp add: cmpxchg_def Let_def)

lemma pf_alloc_free_frames:
  assumes "free_frames s (f # fs)"
  shows "\<exists>s'. pf_alloc purge s = Some (s', f) \<and> free_frames s' fs \<and> kmem s' = kmem s"
  using assms by (auto simp: free_frames_def pf_alloc_def pf_pop_loop_eq)

lemma pf_free_free_frames:
  assumes "free_frames s fs" "page_aligned p" "p \<noteq> 0" "p \<notin> set fs"
  shows "\<exists>s'. pf_free p s = Some s' \<and> free_frames s' (p # fs) \<and> kmem s' = store32 p (page_freelist s) (kmem s)"
  using assms frames_store [of p fs] by (auto simp: free_frames_def pf_free_eq)

lemma count_frames_eq: "frames m p fs \<Longrightarrow> count_frames m p n = Some (n + of_nat (length fs))"
  by (induction fs arbitrary: p n; subst count_frames.simps) auto

section \<open>The contract of a page allocator\<close>

text \<open>What the slab allocator and the page-table code rely on.\<close>

locale page_allocator =
  fixes free_list :: "'s \<Rightarrow> 'p list \<Rightarrow> bool"
    and alloc :: "'s \<Rightarrow> ('s \<times> 'p) option"
    and release :: "'p \<Rightarrow> 's \<Rightarrow> 's option"
    and is_page :: "'p \<Rightarrow> bool"
  assumes list_distinct: "free_list s ps \<Longrightarrow> distinct ps \<and> (\<forall>p \<in> set ps. is_page p)"
    and alloc_first: "free_list s (p # ps) \<Longrightarrow> \<exists>s'. alloc s = Some (s', p) \<and> free_list s' ps"
    and release_front: "free_list s ps \<Longrightarrow> is_page p \<Longrightarrow> p \<notin> set ps \<Longrightarrow>
      \<exists>s'. release p s = Some s' \<and> free_list s' (p # ps)"
begin

fun alloc_n :: "nat \<Rightarrow> 's \<Rightarrow> ('s \<times> 'p list) option" where
  "alloc_n 0 s = Some (s, [])"
| "alloc_n (Suc k) s = do { (s, p) \<leftarrow> alloc s; (s, ps) \<leftarrow> alloc_n k s; Some (s, p # ps) }"

fun release_all :: "'p list \<Rightarrow> 's \<Rightarrow> 's option" where
  "release_all [] s = Some s"
| "release_all (p # ps) s = do { s \<leftarrow> release p s; release_all ps s }"

lemma alloc_n_takes:
  "free_list s (ps @ qs) \<Longrightarrow> \<exists>s'. alloc_n (length ps) s = Some (s', ps) \<and> free_list s' qs"
proof (induction ps arbitrary: s)
  case (Cons p ps)
  then obtain s1 where "alloc s = Some (s1, p)" "free_list s1 (ps @ qs)"
    using alloc_first [of s p "ps @ qs"] by auto
  with Cons.IH [of s1] show ?case by auto
qed simp

lemma release_all_returns:
  "free_list s qs \<Longrightarrow> distinct (ps @ qs) \<Longrightarrow> \<forall>p \<in> set ps. is_page p \<Longrightarrow>
     \<exists>s'. release_all ps s = Some s' \<and> free_list s' (rev ps @ qs)"
proof (induction ps arbitrary: s qs)
  case (Cons p ps)
  then obtain s1 where "release p s = Some s1" "free_list s1 (p # qs)"
    using release_front [of s qs p] by auto
  with Cons.IH [of s1 "p # qs"] Cons.prems show ?case by auto
qed simp

text \<open>Allocating pages and giving them back leaves the same set of free pages.\<close>

lemma alloc_release_cycle:
  assumes "free_list s (ps @ qs)"
  shows "\<exists>s1 s2. alloc_n (length ps) s = Some (s1, ps) \<and> release_all ps s1 = Some s2 \<and>
    free_list s2 (rev ps @ qs)"
proof -
  obtain s1 where s1: "alloc_n (length ps) s = Some (s1, ps)" "free_list s1 qs"
    using alloc_n_takes [OF assms] by auto
  moreover have "distinct (ps @ qs)" "\<forall>p \<in> set ps. is_page p" using list_distinct [OF assms] by auto
  ultimately show ?thesis using release_all_returns [OF s1(2)] by auto
qed

end

interpretation pfa: page_allocator free_frames "pf_alloc purge" pf_free "\<lambda>p. page_aligned p \<and> p \<noteq> 0"
  for purge
proof
  show "distinct ps \<and> (\<forall>p \<in> set ps. page_aligned p \<and> p \<noteq> 0)" if "free_frames s ps" for s :: "'a pfa_scheme" and ps
    using that frames_aligned by (auto simp: free_frames_def)
  show "\<exists>s'. pf_alloc purge s = Some (s', p) \<and> free_frames s' ps" if "free_frames s (p # ps)"
    for s :: "'a pfa_scheme" and p ps
    using pf_alloc_free_frames [OF that] by blast
  show "\<exists>s'. pf_free p s = Some s' \<and> free_frames s' (p # ps)"
    if "free_frames s ps" "page_aligned p \<and> p \<noteq> 0" "p \<notin> set ps" for s :: "'a pfa_scheme" and p ps
    using pf_free_free_frames [OF that(1)] that by blast
qed

section \<open>Clients\<close>

text \<open>
  What any sequence of allocations, frees of held pages, and writes into held pages can do to the
  allocator. \<open>H\<close> is the set of pages handed out and not yet freed.
\<close>

definition page_of :: "u32 \<Rightarrow> u32" where "page_of x = x AND NOT 0xFFF"

inductive pf_reach :: "'a pfa_scheme \<Rightarrow> 'a pfa_scheme \<Rightarrow> u32 set \<Rightarrow> bool" for s0 where
  reach_start: "pf_reach s0 s0 {}"
| reach_alloc: "pf_reach s0 s H \<Longrightarrow> page_freelist s \<noteq> 0 \<Longrightarrow> pf_alloc purge s = Some (s', p) \<Longrightarrow>
    pf_reach s0 s' (insert p H)"
| reach_free: "pf_reach s0 s H \<Longrightarrow> p \<in> H \<Longrightarrow> pf_free p s = Some s' \<Longrightarrow> pf_reach s0 s' (H - {p})"
| reach_write: "pf_reach s0 s H \<Longrightarrow> (\<And>x. page_of x \<notin> H \<Longrightarrow> m x = kmem s x) \<Longrightarrow> pf_reach s0 (s\<lparr>kmem := m\<rparr>) H"

lemma page_aligned_dvd: "page_aligned p \<longleftrightarrow> 4096 dvd unat p"
proof -
  have "p AND 0xFFF = take_bit 12 p" by (simp add: take_bit_eq_mask mask_eq_exp_minus_1)
  then have "p AND 0xFFF = 0 \<longleftrightarrow> unat (take_bit 12 p) = 0" by (simp add: unat_eq_zero)
  then show ?thesis by (simp add: page_aligned_def unat_take_bit dvd_eq_mod_eq_0)
qed

lemma page_of_in_page:
  assumes "page_aligned f" "unat i < 4096"
  shows "page_of (f + i) = f"
proof -
  obtain k where k: "unat f = 4096 * k" using assms(1) by (auto simp: page_aligned_dvd elim: dvdE)
  then have "unat f + 4095 < 2 ^ 32" using unat_lt32 [of f] by simp
  then have u: "unat (f + i) = unat f + unat i" using assms(2) by (intro unat_add_small) simp
  have "unat (page_of (f + i)) = unat (f + i) - unat (f + i) mod 2 ^ 12"
    unfolding page_of_def
    using unat_and_not_mask [of "f + i" 12] by (simp add: mask_eq_exp_minus_1)
  also have "\<dots> = unat f" using u k assms(2) by simp
  finally show ?thesis by (simp add: word_unat_eq_iff)
qed

lemma load32_off_page:
  assumes "page_aligned f" "f \<notin> H" "\<And>x. page_of x \<notin> H \<Longrightarrow> m x = m' x"
  shows "load32 m f = load32 m' f"
proof (rule load32_cong)
  fix i :: u32 assume "i \<in> {0, 1, 2, 3}"
  then have "unat i < 4096" by auto
  then show "m (f + i) = m' (f + i)" using assms page_of_in_page [OF assms(1)] by metis
qed

lemma pf_reach_inv:
  assumes "pf_reach s0 s H" "free_frames s0 fs0"
  shows "\<exists>fs. free_frames s fs \<and> set fs \<inter> H = {} \<and> set fs \<union> H = set fs0"
  using assms
proof (induction rule: pf_reach.induct)
  case (reach_alloc s H purge s' p)
  then obtain fs where fs: "free_frames s fs" "set fs \<inter> H = {}" "set fs \<union> H = set fs0" by auto
  with reach_alloc.hyps(2) obtain f fs' where f: "fs = f # fs'" by (cases fs) (auto simp: free_frames_def)
  then have "p = f" "free_frames s' fs'"
    using pf_alloc_free_frames [of s f fs' purge] fs(1) reach_alloc.hyps(3) by auto
  moreover have "f \<notin> set fs'" using fs(1) f by (simp add: free_frames_def)
  ultimately show ?case using fs f by (intro exI [of _ fs']) auto
next
  case (reach_free s H p s')
  then obtain fs where fs: "free_frames s fs" "set fs \<inter> H = {}" "set fs \<union> H = set fs0" by auto
  have "p \<in> set fs0" using fs(3) reach_free.hyps(2) by auto
  then have "page_aligned p" "p \<noteq> 0" using reach_free.prems frames_aligned by (auto simp: free_frames_def)
  moreover have "p \<notin> set fs" using fs(2) reach_free.hyps(2) by auto
  ultimately have "free_frames s' (p # fs)"
    using pf_free_free_frames [OF fs(1), of p] reach_free.hyps(3) by auto
  then show ?case using fs reach_free.hyps(2) by (intro exI [of _ "p # fs"]) auto
next
  case (reach_write s H m)
  then obtain fs where fs: "free_frames s fs" "set fs \<inter> H = {}" "set fs \<union> H = set fs0" by auto
  have "load32 m f = load32 (kmem s) f" if "f \<in> set fs" for f
    using load32_off_page [of f H m "kmem s"] frames_aligned [of "kmem s" "page_freelist s" fs f]
      fs that reach_write.hyps(2) by (auto simp: free_frames_def)
  then have "free_frames (s\<lparr>kmem := m\<rparr>) fs"
    using fs(1) frames_cong [of fs m "kmem s"] by (simp add: free_frames_def)
  then show ?case using fs by blast
qed blast

section \<open>Filling the free list from a region\<close>

definition pfn_page :: "u32 \<Rightarrow> u32" where
  "pfn_page p = PFN_TO_PHYS p + PFA_VIRT_OFFSET"

lemma unat_pfn_page: "unat p < 0x30000 \<Longrightarrow> unat (pfn_page p) = 0xD0000000 + 4096 * unat p"
  unfolding pfn_page_def PFN_TO_PHYS_def PAGE_SIZE_def PFA_VIRT_OFFSET_def
  by (subst unat_add_small; subst unat_mult_small) simp_all

lemma pfn_page_aligned: "unat p < 0x30000 \<Longrightarrow> page_aligned (pfn_page p) \<and> pfn_page p \<noteq> 0"
  using unat_pfn_page [of p] by (auto simp: page_aligned_dvd)

lemma pfn_page_inj: "unat p < 0x30000 \<Longrightarrow> unat q < 0x30000 \<Longrightarrow> pfn_page p = pfn_page q \<Longrightarrow> p = q"
  using unat_pfn_page [of p] unat_pfn_page [of q] by (simp add: word_unat_eq_iff)

lemma map_phys_region_from_frames:
  assumes "unat lim \<le> 0x30000" "p \<le> lim" "free_frames s fs"
    and "\<And>q. p \<le> q \<Longrightarrow> q < lim \<Longrightarrow> pfn_page q \<notin> set fs"
  shows "\<exists>s' gs. map_phys_region_from i p lim s = Some s' \<and> free_frames s' (gs @ fs) \<and>
    set gs = pfn_page ` {q. p \<le> q \<and> q < lim \<and> \<not> is_reserved s q}"
  using assms
proof (induction i p lim s arbitrary: fs rule: map_phys_region_from.induct)
  case (1 i p lim s)
  show ?case
  proof (cases "p < lim")
    case True
    have p1: "p + 1 \<le> lim" "\<And>q. p + 1 \<le> q \<longleftrightarrow> p < q"
      using unat_Suc_lt [OF True] True by (auto simp: word_le_nat_alt word_less_nat_alt)
    then have range: "{q. p \<le> q \<and> q < lim \<and> P q} = (if P p then {p} else {}) \<union> {q. p + 1 \<le> q \<and> q < lim \<and> P q}" for P
      using True by (auto simp: p1(2) le_less)
    have pl: "unat p < 0x30000" using True "1.prems"(1) by (simp add: word_less_nat_alt)
    show ?thesis
    proof (cases "is_reserved s p")
      case res: True
      let ?s = "count_reserved i s"
      have mp: "map_page i p s = Some ?s" using res by (simp add: map_page_def)
      have "free_frames ?s fs" using "1.prems"(3) by (simp add: free_frames_def count_reserved_def)
      moreover have "\<And>q. is_reserved ?s q = is_reserved s q" by (simp add: is_reserved_def count_reserved_def)
      ultimately show ?thesis
        using "1.IH" [OF True mp, of fs] "1.prems" p1 res True
        by (auto simp: map_phys_region_from.simps [of i p] mp range)
    next
      case nres: False
      have "pfn_page p \<notin> set fs" using "1.prems"(4) True by simp
      then obtain s1 where s1: "pf_free (pfn_page p) s = Some s1" "free_frames s1 (pfn_page p # fs)"
        "\<And>q. is_reserved s1 q = is_reserved s q"
        using pf_free_free_frames [OF "1.prems"(3), of "pfn_page p"] pfn_page_aligned [OF pl]
        by (auto simp: pf_free_eq is_reserved_def)
      then have mp: "map_page i p s = Some s1"
        using nres pfn_page_aligned [OF pl] by (simp add: map_page_def pfn_page_def page_aligned_def)
      have "pfn_page q \<notin> set (pfn_page p # fs)" if "p + 1 \<le> q" "q < lim" for q
        using that p1(2) "1.prems"(1,4) pfn_page_inj [of p q] pl
        by (auto simp: word_less_nat_alt word_le_nat_alt)
      from "1.IH" [OF True mp "1.prems"(1) p1(1) s1(2) this] obtain s' gs where
        "map_phys_region_from i (p + 1) lim s1 = Some s'" "free_frames s' (gs @ pfn_page p # fs)"
        "set gs = pfn_page ` {q. p + 1 \<le> q \<and> q < lim \<and> \<not> is_reserved s1 q}" by auto
      then show ?thesis
        using True mp nres s1(3)
        by (intro exI [of _ s'] exI [of _ "gs @ [pfn_page p]"])
          (auto simp: map_phys_region_from.simps [of i p] range)
    qed
  next
    case False
    then have "{q. p \<le> q \<and> q < lim \<and> \<not> is_reserved s q} = {}" by auto
    then show ?thesis
      using False "1.prems"(3) by (intro exI [of _ s] exI [of _ "[]"]) (simp add: map_phys_region_from.simps [of i p])
  qed
qed

section \<open>Interleaved allocators\<close>

text \<open>
  The two lock-free loops, one memory access at a time. \<open>PopRead\<close> and \<open>PopCas\<close> are the two halves of
  an iteration of \<open>pf_alloc\<close> by a thread, \<open>PushWrite\<close> and \<open>PushCas\<close> those of \<open>pf_free\<close>; \<open>Pop\<close> is an
  iteration of \<open>pf_alloc\<close> that nothing interrupts. A failed compare-and-exchange starts the iteration
  over. \<open>c_held\<close> are the frames handed out.
\<close>

record conc =
  c_next :: "u32 \<Rightarrow> u32"
  c_head :: u32
  c_held :: "u32 list"
  c_pop :: "nat \<Rightarrow> (u32 \<times> u32) option"
  c_push :: "u32 \<Rightarrow> u32 option"

datatype clabel = PopRead nat | PopCas nat | Pop | PushWrite u32 | PushCas u32

fun cstep :: "clabel \<Rightarrow> conc \<Rightarrow> conc option" where
  "cstep (PopRead t) c =
     (if c_head c = 0 then None else Some (c\<lparr>c_pop := (c_pop c)(t := Some (c_head c, c_next c (c_head c)))\<rparr>))"
| "cstep (PopCas t) c =
     (case c_pop c t of
        None \<Rightarrow> None
      | Some (old, new) \<Rightarrow>
          (case cmpxchg (c_head c) old new of (cell, ret) \<Rightarrow>
             Some (if ret = old then c\<lparr>c_head := cell, c_held := old # c_held c, c_pop := (c_pop c)(t := None)\<rparr>
                   else c\<lparr>c_pop := (c_pop c)(t := None)\<rparr>)))"
| "cstep Pop c =
     (if c_head c = 0 then None
      else case cmpxchg (c_head c) (c_head c) (c_next c (c_head c)) of (cell, ret) \<Rightarrow>
        Some (c\<lparr>c_head := cell, c_held := c_head c # c_held c\<rparr>))"
| "cstep (PushWrite f) c =
     (if f \<in> set (c_held c)
      then Some (c\<lparr>c_next := (c_next c)(f := c_head c), c_push := (c_push c)(f := Some (c_head c))\<rparr>)
      else None)"
| "cstep (PushCas f) c =
     (case c_push c f of
        None \<Rightarrow> None
      | Some old \<Rightarrow>
          (case cmpxchg (c_head c) old f of (cell, ret) \<Rightarrow>
             Some (if ret = old then c\<lparr>c_head := cell, c_held := remove1 f (c_held c), c_push := (c_push c)(f := None)\<rparr>
                   else c\<lparr>c_push := (c_push c)(f := None)\<rparr>)))"

fun crun :: "clabel list \<Rightarrow> conc \<Rightarrow> conc option" where
  "crun [] c = Some c"
| "crun (l # ls) c = do { c \<leftarrow> cstep l c; crun ls c }"

fun nchain :: "(u32 \<Rightarrow> u32) \<Rightarrow> u32 \<Rightarrow> u32 list \<Rightarrow> bool" where
  "nchain nx p [] = (p = 0)"
| "nchain nx p (f # fs) = (p = f \<and> f \<noteq> 0 \<and> nchain nx (nx f) fs)"

definition conc_inv :: "u32 set \<Rightarrow> conc \<Rightarrow> bool" where
  "conc_inv U c \<longleftrightarrow> (\<exists>fs. nchain (c_next c) (c_head c) fs \<and> distinct (fs @ c_held c) \<and>
     set (fs @ c_held c) = U \<and> 0 \<notin> U \<and>
     (\<forall>f old. c_push c f = Some old \<longrightarrow> f \<in> set (c_held c) \<and> c_next c f = old))"

lemma nchain_upd: "f \<notin> set fs \<Longrightarrow> nchain (nx(f := v)) p fs \<longleftrightarrow> nchain nx p fs"
  by (induction fs arbitrary: p) auto

lemma conc_inv_Pop:
  assumes "conc_inv U c" "cstep Pop c = Some c'"
  shows "conc_inv U c'"
proof -
  obtain fs where fs: "nchain (c_next c) (c_head c) fs" "distinct (fs @ c_held c)" "set (fs @ c_held c) = U"
    "0 \<notin> U" "\<forall>f old. c_push c f = Some old \<longrightarrow> f \<in> set (c_held c) \<and> c_next c f = old"
    using assms(1) by (auto simp: conc_inv_def)
  then obtain f fs' where "fs = f # fs'" using assms(2) by (cases fs) (auto split: if_splits)
  then show ?thesis
    unfolding conc_inv_def using fs assms(2) by (intro exI [of _ fs']) (auto simp: cmpxchg_def split: if_splits)
qed

lemma conc_inv_PushWrite:
  assumes "conc_inv U c" "cstep (PushWrite g) c = Some c'"
  shows "conc_inv U c'"
proof -
  obtain fs where fs: "nchain (c_next c) (c_head c) fs" "distinct (fs @ c_held c)" "set (fs @ c_held c) = U"
    "0 \<notin> U" "\<forall>f old. c_push c f = Some old \<longrightarrow> f \<in> set (c_held c) \<and> c_next c f = old"
    using assms(1) by (auto simp: conc_inv_def)
  moreover have "g \<in> set (c_held c)" using assms(2) by (auto split: if_splits)
  moreover from this have "g \<notin> set fs" using fs(2) by auto
  ultimately show ?thesis
    unfolding conc_inv_def using assms(2)
    by (intro exI [of _ fs]) (auto simp: nchain_upd split: if_splits)
qed

lemma conc_inv_PushCas:
  assumes "conc_inv U c" "cstep (PushCas g) c = Some c'"
  shows "conc_inv U c'"
proof -
  obtain fs where fs: "nchain (c_next c) (c_head c) fs" "distinct (fs @ c_held c)" "set (fs @ c_held c) = U"
    "0 \<notin> U" "\<forall>f old. c_push c f = Some old \<longrightarrow> f \<in> set (c_held c) \<and> c_next c f = old"
    using assms(1) by (auto simp: conc_inv_def)
  obtain old where old: "c_push c g = Some old" using assms(2) by (auto split: option.splits)
  then have g: "g \<in> set (c_held c)" "c_next c g = old" "g \<noteq> 0" using fs(3-5) by auto
  show ?thesis
  proof (cases "c_head c = old")
    case True
    have d: "distinct (c_held c)" using fs(2) by simp
    have c': "c' = c\<lparr>c_head := g, c_held := remove1 g (c_held c), c_push := (c_push c)(g := None)\<rparr>"
      using assms(2) old True by (simp add: cmpxchg_def)
    show ?thesis
      unfolding conc_inv_def c' using fs g d True
      by (intro exI [of _ "g # fs"]) (auto simp: set_remove1_eq [OF d])
  next
    case False
    then have "c' = c\<lparr>c_push := (c_push c)(g := None)\<rparr>"
      using assms(2) old by (simp add: cmpxchg_def)
    then show ?thesis unfolding conc_inv_def using fs by (intro exI [of _ fs]) auto
  qed
qed

lemma conc_inv_run:
  "conc_inv U c \<Longrightarrow> (\<And>t. PopRead t \<notin> set ls \<and> PopCas t \<notin> set ls) \<Longrightarrow> crun ls c = Some c' \<Longrightarrow> conc_inv U c'"
proof (induction ls arbitrary: c)
  case (Cons l ls)
  then obtain c1 where c1: "cstep l c = Some c1" "crun ls c1 = Some c'" by (auto split: Option.bind_splits)
  have "conc_inv U c1"
    using Cons.prems(1,2) c1(1) conc_inv_Pop conc_inv_PushWrite conc_inv_PushCas
    by (cases l) (metis list.set_intros(1))+
  then show ?case using Cons.IH c1(2) Cons.prems(2) by simp
qed simp

section \<open>Claims\<close>

text \<open>
  C5. The page frame allocator never hands out a page that is in use: after any sequence of
  allocations, frees of held pages and writes into held pages, the free list is well formed, free
  and held pages are disjoint, and together they are the pages the allocator started with; so the
  next page allocated is not a held one.
\<close>

theorem no_double_allocation:
  assumes "pf_reach s0 s H" "free_frames s0 fs0"
  shows "\<exists>fs. free_frames s fs \<and> set fs \<inter> H = {} \<and> set fs \<union> H = set fs0 \<and>
    (fs \<noteq> [] \<longrightarrow> (\<exists>s'. pf_alloc purge s = Some (s', hd fs) \<and> hd fs \<notin> H))"
proof -
  obtain fs where fs: "free_frames s fs" "set fs \<inter> H = {}" "set fs \<union> H = set fs0"
    using pf_reach_inv [OF assms] by blast
  have "\<exists>s'. pf_alloc purge s = Some (s', hd fs) \<and> hd fs \<notin> H" if ne: "fs \<noteq> []"
  proof -
    obtain f fs' where f: "fs = f # fs'" using ne by (cases fs) auto
    show ?thesis using pf_alloc_free_frames [of s f fs' purge] fs f by auto
  qed
  with fs show ?thesis by blast
qed

definition pfa0 :: pfa where
  "pfa0 = \<lparr>eflags_if = True, cli_depth = 0, cli_int_enabled = False, sti_depth = 0, sti_int_disabled = False,
     kmem = \<lambda>_. 0, page_freelist = 0xD0001000,
     phys_regions = [\<lparr>pr_r = \<lparr>rg_name = 0, rg_start = 2, rg_pages = 2\<rparr>, pr_reserved = 0, pr_flags = 0\<rparr>],
     s_reserved = []\<rparr>"

lemma pfa0_frames: "free_frames pfa0 [0xD0001000]"
  by (simp add: free_frames_def pfa0_def page_aligned_def load32_def)

theorem no_double_allocation_witness:
  "\<exists>fs. free_frames (pfa0\<lparr>page_freelist := 0\<rparr>) fs \<and> set fs \<inter> {0xD0001000} = {}"
proof -
  have "pf_alloc (\<lambda>_ _. None) pfa0 = Some (pfa0\<lparr>page_freelist := 0\<rparr>, 0xD0001000)"
    by (simp add: pf_alloc_def pf_pop_loop_eq pfa0_def load32_def)
  then have "pf_reach pfa0 (pfa0\<lparr>page_freelist := 0\<rparr>) {0xD0001000}"
    by (intro reach_alloc [OF reach_start]) (simp_all add: pfa0_def)
  from no_double_allocation [OF this pfa0_frames] show ?thesis by blast
qed



text \<open>
  C15. \<open>pf_free\<close> needs no lock: whatever the interleaving of any number of threads inside \<open>pf_free\<close>
  with uninterrupted iterations of \<open>pf_alloc\<close>, no frame is lost, none is on the list twice, and no
  held frame is on the list.
\<close>

theorem concurrent_frees_safe:
  assumes "conc_inv U c" "\<forall>t. PopRead t \<notin> set ls \<and> PopCas t \<notin> set ls" "crun ls c = Some c'"
  shows "\<exists>fs. nchain (c_next c') (c_head c') fs \<and> distinct (fs @ c_held c') \<and> set (fs @ c_held c') = U"
  using conc_inv_run [of U c ls c'] assms by (auto simp: conc_inv_def)

definition conc0 :: conc where
  "conc0 = \<lparr>c_next = (\<lambda>_. 0)(1 := 2, 2 := 3), c_head = 1, c_held = [], c_pop = \<lambda>_. None, c_push = \<lambda>_. None\<rparr>"

lemma conc0_inv: "conc_inv {1, 2, 3} conc0"
  unfolding conc_inv_def by (rule exI [of _ "[1, 2, 3]"]) (simp add: conc0_def)

theorem concurrent_frees_safe_witness:
  "\<exists>c' fs. crun [Pop, Pop, PushWrite 1, PushWrite 2, PushCas 2, PushCas 1, PushWrite 1, PushCas 1] conc0 = Some c'
    \<and> nchain (c_next c') (c_head c') fs \<and> set fs = {1, 2, 3}"
proof -
  let ?ls = "[Pop, Pop, PushWrite 1, PushWrite 2, PushCas 2, PushCas 1, PushWrite 1, PushCas 1]"
  obtain c' where c': "crun ?ls conc0 = Some c'" "c_held c' = []"
    by (simp add: conc0_def cmpxchg_def)
  have "\<forall>t. PopRead t \<notin> set ?ls \<and> PopCas t \<notin> set ?ls" by simp
  from concurrent_frees_safe [OF conc0_inv this c'(1)] c' show ?thesis by auto
qed

text \<open>
  An interrupted iteration of \<open>pf_alloc\<close> is not safe: thread 1 reads the head and its successor,
  another thread allocates both and frees the first, and thread 1's compare-and-exchange then
  succeeds and makes the second, which is held, the head of the free list.
\<close>

lemma aba_double_allocation:
  "\<exists>c'. crun [PopRead 1, Pop, Pop, PushWrite 1, PushCas 1, PopCas 1] conc0 = Some c'
    \<and> c_head c' \<in> set (c_held c')"
  by (simp add: conc0_def cmpxchg_def)

text \<open>When the purge frees too little, \<open>pf_alloc\<close> returns with interrupts disabled.\<close>

lemma pf_alloc_oom_leaks_cli:
  assumes "page_freelist s = 0" "purge PAGE_SIZE (cli_push s) = Some (cli_push s, n)" "n < PAGE_SIZE"
  shows "pf_alloc purge s = Some (cli_push s, 0) \<and> \<not> eflags_if (cli_push s) \<and>
    cli_depth (cli_push s) = cli_depth s + 1"
  using assms by (simp add: pf_alloc_def cli_push_def cli_def Let_def)

text \<open>The page behind a reserved region counts as reserved.\<close>

lemma is_reserved_past_end:
  "r \<in> set (s_reserved s) \<Longrightarrow> rg_start r \<le> rg_start r + rg_pages r \<Longrightarrow> is_reserved s (rg_start r + rg_pages r)"
  by (auto simp: is_reserved_def in_reserved_def list_ex_iff)

text \<open>A region that encloses a registered one is not reported as overlapping.\<close>

lemma enclosing_region_accepted:
  "\<not> region_overlaps \<lparr>rg_name = 0, rg_start = 10, rg_pages = 2\<rparr> 5 20"
  by (simp add: region_overlaps_def)

end
