(* ===== verification/Slab.thy ===== *)
theory Slab
  imports Pfa
begin

text \<open>
  The slab allocator, \<open>kernel/mm/slab.c\<close>, for blocks of up to a page. A slab is a page cut into
  chunks of one of ten sizes; its free chunks form a list linked through their first words in
  \<open>kmem\<close>. The \<open>struct slab_meta\<close> objects are kept in a map by address, the lists of slabs per size
  as HOL lists of those addresses (theory Ilist shows that the linked lists behave so).
  \<open>do_slab_alloc\<close> and \<open>do_slab_free\<close> are recursive through the metadata they allocate and free in the
  32-byte slabs; a recursion that does not end is \<open>None\<close>.
\<close>

section \<open>State and sizes\<close>

record slab_meta =
  m_slab :: u32
  m_freelist :: u32
  m_free_slots :: u16

record slab = pfa +
  metas :: "u32 \<Rightarrow> slab_meta"
  slabs :: "u32 list list"
  wasted_bytes :: "u32 list"

definition chunk_sizes :: "u32 list" where
  "chunk_sizes = [8, 16, 32, 64, 128, 256, 512, 1024, 2048, 4096]"

definition N_SIZES :: nat where "N_SIZES = length chunk_sizes"

definition SLAB_META_SIZE :: u32 where
  \<comment> \<open>\<open>sizeof(struct slab_meta)\<close>: two links, two pointers, a padded 16-bit counter\<close>
  "SLAB_META_SIZE = 20"

partial_function (option) round_up_loop :: "u32 \<Rightarrow> u32 \<Rightarrow> u32 option" where
  "round_up_loop v p = (if p < v then round_up_loop v (push_bit 1 p) else Some p)"

definition round_up_pow2 :: "u32 \<Rightarrow> u32 option" where
  "round_up_pow2 v = round_up_loop v 1"

definition size_idx :: "u32 \<Rightarrow> nat option" where
  "size_idx bytes = do {
     rounded \<leftarrow> round_up_pow2 bytes;
     Some (if rounded = 8 then 0 else if rounded = 16 then 1 else if rounded = 32 then 2
           else if rounded = 64 then 3 else if rounded = 128 then 4 else if rounded = 256 then 5
           else if rounded = 512 then 6 else if rounded = 1024 then 7 else if rounded = 2048 then 8
           else 9)
   }"

section \<open>Operations\<close>

definition chunk_put :: "u32 \<Rightarrow> u32 \<Rightarrow> 'a slab_scheme \<Rightarrow> 'a slab_scheme" where
  "chunk_put meta chunk s =
     (let m = metas s meta
      in s\<lparr>kmem := store32 chunk (m_freelist m) (kmem s),
           metas := (metas s)(meta := m\<lparr>m_freelist := chunk, m_free_slots := m_free_slots m + 1\<rparr>)\<rparr>)"

definition chunk_get :: "u32 \<Rightarrow> u32 \<Rightarrow> 'a slab_scheme \<Rightarrow> 'a slab_scheme \<times> u32" where
  "chunk_get meta slot_size s =
     (let m = metas s meta;
          chunk = m_freelist m
      in (s\<lparr>metas := (metas s)(meta := m\<lparr>m_freelist := load32 (kmem s) chunk, m_free_slots := m_free_slots m - 1\<rparr>),
            kmem := memset (kmem s) chunk 0 slot_size\<rparr>, chunk))"

fun put_chunks :: "nat \<Rightarrow> u32 \<Rightarrow> u32 \<Rightarrow> u32 \<Rightarrow> 'a slab_scheme \<Rightarrow> 'a slab_scheme" where
  "put_chunks 0 m slot_size i s = s"
| "put_chunks (Suc k) m slot_size i s =
     put_chunks k m slot_size (i + 1) (chunk_put m (m_slab (metas s m) + i * slot_size) s)"

type_synonym 'a purge_fn = "u32 \<Rightarrow> 'a slab_scheme \<Rightarrow> ('a slab_scheme \<times> u32) option"

definition prepare_slab :: "'a purge_fn \<Rightarrow> u32 \<Rightarrow> u32 \<Rightarrow> 'a slab_scheme \<Rightarrow> 'a slab_scheme option" where
  "prepare_slab purge m slot_size s = do {
     s \<leftarrow> Some (s\<lparr>metas := (metas s)(m := (metas s m)\<lparr>m_free_slots := 0\<rparr>)\<rparr>);
     (s, page) \<leftarrow> pf_alloc purge s;
     s \<leftarrow> Some (s\<lparr>metas := (metas s)(m := (metas s m)\<lparr>m_slab := page, m_freelist := 0\<rparr>)\<rparr>);
     Some (put_chunks (unat (PAGE_SIZE div slot_size)) m slot_size 0 s)
   }"

definition link_slab :: "u32 \<Rightarrow> nat \<Rightarrow> 'a slab_scheme \<Rightarrow> 'a slab_scheme" where
  \<comment> \<open>\<open>v_ilist_prepend(&m->linkage, &slabs[size])\<close>: at the tail of the list\<close>
  "link_slab m sz s = s\<lparr>slabs := (slabs s)[sz := slabs s ! sz @ [m]]\<rparr>"

text \<open>
  The scan of \<open>do_slab_alloc\<close>: the first slab that either has a single free chunk left and is of the
  size of the metadata (\<open>True\<close>: use that chunk for a new slab's metadata), or has a free chunk.
\<close>

fun scan_slabs :: "'a slab_scheme \<Rightarrow> bool \<Rightarrow> u32 list \<Rightarrow> (u32 \<times> bool) option" where
  "scan_slabs s meta_size [] = None"
| "scan_slabs s meta_size (m # ms) =
     (if meta_size \<and> m_freelist (metas s m) \<noteq> 0 \<and> load32 (kmem s) (m_freelist (metas s m)) = 0 then Some (m, True)
      else if m_free_slots (metas s m) \<noteq> 0 then Some (m, False)
      else scan_slabs s meta_size ms)"

partial_function (option) do_slab_alloc ::
  "'a purge_fn \<Rightarrow> u32 \<Rightarrow> 'a slab_scheme \<Rightarrow> ('a slab_scheme \<times> u32) option" where
  "do_slab_alloc purge bytes s = do {
     sz \<leftarrow> size_idx bytes;
     meta_slot \<leftarrow> round_up_pow2 SLAB_META_SIZE;
     let slot_size = chunk_sizes ! sz;
         s = s\<lparr>wasted_bytes := (wasted_bytes s)[sz := wasted_bytes s ! sz + (slot_size - bytes)]\<rparr>
     in case scan_slabs s (slot_size = meta_slot) (slabs s ! sz) of
          Some (m, True) \<Rightarrow>
            (case chunk_get m slot_size s of (s, eager) \<Rightarrow> do {
               s \<leftarrow> prepare_slab purge eager slot_size s;
               Some (chunk_get eager slot_size (link_slab eager sz s))
             })
        | Some (m, False) \<Rightarrow> Some (chunk_get m slot_size s)
        | None \<Rightarrow> do {
            (s, new) \<leftarrow> do_slab_alloc purge SLAB_META_SIZE s;
            s \<leftarrow> prepare_slab purge new slot_size s;
            Some (chunk_get new slot_size (link_slab new sz s))
          }
   }"

definition slab_init :: "'a purge_fn \<Rightarrow> u32 \<Rightarrow> 'a slab_scheme \<Rightarrow> 'a slab_scheme option" where
  "slab_init purge bootstrap_meta s = do {
     s \<leftarrow> Some (s\<lparr>slabs := replicate N_SIZES []\<rparr>);
     slot \<leftarrow> round_up_pow2 SLAB_META_SIZE;
     s \<leftarrow> prepare_slab purge bootstrap_meta slot s;
     sz \<leftarrow> size_idx slot;
     Some (link_slab bootstrap_meta sz s)
   }"

text \<open>The slab a pointer belongs to: the first match over all sizes.\<close>

fun find_slab :: "'a slab_scheme \<Rightarrow> u32 \<Rightarrow> u32 list list \<Rightarrow> nat \<Rightarrow> (nat \<times> u32) option" where
  "find_slab s ptr [] sz = None"
| "find_slab s ptr (ms # mss) sz =
     (case find (\<lambda>m. m_slab (metas s m) = ptr AND NOT 0xFFF) ms of
        Some m \<Rightarrow> Some (sz, m)
      | None \<Rightarrow> find_slab s ptr mss (Suc sz))"

partial_function (option) do_slab_free :: "u32 \<Rightarrow> 'a slab_scheme \<Rightarrow> 'a slab_scheme option" where
  "do_slab_free ptr s =
     (case find_slab s ptr (slabs s) 0 of
        None \<Rightarrow> Some s
      | Some (sz, m) \<Rightarrow>
          let s = chunk_put m ptr s
          in if m_free_slots (metas s m) = ucast (PAGE_SIZE div chunk_sizes ! sz)
             then do {
               s \<leftarrow> Some (s\<lparr>slabs := (slabs s)[sz := remove1 m (slabs s ! sz)]\<rparr>);
               s \<leftarrow> pf_free (m_slab (metas s m)) s;
               do_slab_free m s
             }
             else Some s)"

text \<open>The public entry points take the lock; the semaphore operations are arguments.\<close>

definition slab_alloc ::
  "('a slab_scheme \<Rightarrow> 'a slab_scheme option) \<Rightarrow> ('a slab_scheme \<Rightarrow> 'a slab_scheme option) \<Rightarrow>
     'a purge_fn \<Rightarrow> u32 \<Rightarrow> 'a slab_scheme \<Rightarrow> ('a slab_scheme \<times> u32) option" where
  "slab_alloc sem_pend sem_post purge bytes s = do {
     s \<leftarrow> sem_pend s;
     (s, blk) \<leftarrow> do_slab_alloc purge bytes s;
     s \<leftarrow> sem_post s;
     Some (s, blk)
   }"

definition slab_free ::
  "('a slab_scheme \<Rightarrow> 'a slab_scheme option) \<Rightarrow> ('a slab_scheme \<Rightarrow> 'a slab_scheme option) \<Rightarrow>
     u32 \<Rightarrow> 'a slab_scheme \<Rightarrow> 'a slab_scheme option" where
  "slab_free sem_pend sem_post ptr s = do {
     s \<leftarrow> sem_pend s;
     s \<leftarrow> do_slab_free ptr s;
     sem_post s
   }"

text \<open>\<open>kernel/kmalloc.c\<close>: small blocks from the slabs, larger ones from \<open>vmalloc\<close>, an argument.\<close>

definition kmalloc :: "(u32 \<Rightarrow> 's \<Rightarrow> ('s \<times> u32) option) \<Rightarrow> (u32 \<Rightarrow> 's \<Rightarrow> ('s \<times> u32) option) \<Rightarrow>
    u32 \<Rightarrow> 's \<Rightarrow> ('s \<times> u32) option" where
  "kmalloc slab vmalloc bytes s = (if bytes \<le> PAGE_SIZE then slab bytes s else vmalloc bytes s)"

definition kzalloc :: "(u32 \<Rightarrow> 'a slab_scheme \<Rightarrow> ('a slab_scheme \<times> u32) option) \<Rightarrow>
    (u32 \<Rightarrow> 'a slab_scheme \<Rightarrow> ('a slab_scheme \<times> u32) option) \<Rightarrow>
    u32 \<Rightarrow> 'a slab_scheme \<Rightarrow> ('a slab_scheme \<times> u32) option" where
  "kzalloc slab vmalloc bytes s = do {
     (s, buf) \<leftarrow> kmalloc slab vmalloc bytes s;
     Some (s\<lparr>kmem := memset (kmem s) buf 0 bytes\<rparr>, buf)
   }"

definition kfree :: "(u32 \<Rightarrow> 's \<Rightarrow> 's option) \<Rightarrow> (u32 \<Rightarrow> 's \<Rightarrow> 's option) \<Rightarrow> u32 \<Rightarrow> 's \<Rightarrow> 's option" where
  "kfree slab vmfree ptr s =
     (if ptr = 0 then Some s else if ptr \<ge> PFA_VIRT_OFFSET then slab ptr s else vmfree ptr s)"

section \<open>Size classes\<close>

lemma round_up_loop_step: "p < v \<Longrightarrow> round_up_loop v p = round_up_loop v (push_bit 1 p)"
  by (subst round_up_loop.simps) simp

lemma round_up_loop_done: "\<not> p < v \<Longrightarrow> round_up_loop v p = Some p"
  by (subst round_up_loop.simps) simp

lemma round_up_loop_iter:
  "round_up_loop v p = (if p < v then round_up_loop v (push_bit 1 p) else Some p)"
  by (rule round_up_loop.simps)

lemma round_up_pow2_4096:
  assumes "v \<le> 4096"
  shows "round_up_pow2 v = Some (if v \<le> 1 then 1 else if v \<le> 2 then 2 else if v \<le> 4 then 4 else if v \<le> 8 then 8
    else if v \<le> 16 then 16 else if v \<le> 32 then 32 else if v \<le> 64 then 64 else if v \<le> 128 then 128
    else if v \<le> 256 then 256 else if v \<le> 512 then 512 else if v \<le> 1024 then 1024
    else if v \<le> 2048 then 2048 else 4096)"
  using assms unfolding round_up_pow2_def not_less [symmetric]
  by (simp add: round_up_loop_iter [of v 1] round_up_loop_iter [of v 2] round_up_loop_iter [of v 4]
      round_up_loop_iter [of v 8] round_up_loop_iter [of v 16] round_up_loop_iter [of v 32]
      round_up_loop_iter [of v 64] round_up_loop_iter [of v 128] round_up_loop_iter [of v 256]
      round_up_loop_iter [of v 512] round_up_loop_iter [of v 1024] round_up_loop_iter [of v 2048]
      round_up_loop_iter [of v 4096])

lemma size_idx_4096:
  assumes "v \<le> 4096"
  shows "\<exists>i. size_idx v = Some i \<and> i < 10 \<and> v \<le> chunk_sizes ! i"
proof -
  consider "v \<le> 1"
    | "\<not> v \<le> 1" "v \<le> 2"
    | "\<not> v \<le> 1" "\<not> v \<le> 2" "v \<le> 4"
    | "\<not> v \<le> 1" "\<not> v \<le> 2" "\<not> v \<le> 4" "v \<le> 8"
    | "\<not> v \<le> 1" "\<not> v \<le> 2" "\<not> v \<le> 4" "\<not> v \<le> 8" "v \<le> 16"
    | "\<not> v \<le> 1" "\<not> v \<le> 2" "\<not> v \<le> 4" "\<not> v \<le> 8" "\<not> v \<le> 16" "v \<le> 32"
    | "\<not> v \<le> 1" "\<not> v \<le> 2" "\<not> v \<le> 4" "\<not> v \<le> 8" "\<not> v \<le> 16" "\<not> v \<le> 32" "v \<le> 64"
    | "\<not> v \<le> 1" "\<not> v \<le> 2" "\<not> v \<le> 4" "\<not> v \<le> 8" "\<not> v \<le> 16" "\<not> v \<le> 32" "\<not> v \<le> 64" "v \<le> 128"
    | "\<not> v \<le> 1" "\<not> v \<le> 2" "\<not> v \<le> 4" "\<not> v \<le> 8" "\<not> v \<le> 16" "\<not> v \<le> 32" "\<not> v \<le> 64" "\<not> v \<le> 128" "v \<le> 256"
    | "\<not> v \<le> 1" "\<not> v \<le> 2" "\<not> v \<le> 4" "\<not> v \<le> 8" "\<not> v \<le> 16" "\<not> v \<le> 32" "\<not> v \<le> 64" "\<not> v \<le> 128" "\<not> v \<le> 256" "v \<le> 512"
    | "\<not> v \<le> 1" "\<not> v \<le> 2" "\<not> v \<le> 4" "\<not> v \<le> 8" "\<not> v \<le> 16" "\<not> v \<le> 32" "\<not> v \<le> 64" "\<not> v \<le> 128" "\<not> v \<le> 256" "\<not> v \<le> 512" "v \<le> 1024"
    | "\<not> v \<le> 1" "\<not> v \<le> 2" "\<not> v \<le> 4" "\<not> v \<le> 8" "\<not> v \<le> 16" "\<not> v \<le> 32" "\<not> v \<le> 64" "\<not> v \<le> 128" "\<not> v \<le> 256" "\<not> v \<le> 512" "\<not> v \<le> 1024" "v \<le> 2048"
    | "\<not> v \<le> 1" "\<not> v \<le> 2" "\<not> v \<le> 4" "\<not> v \<le> 8" "\<not> v \<le> 16" "\<not> v \<le> 32" "\<not> v \<le> 64" "\<not> v \<le> 128" "\<not> v \<le> 256" "\<not> v \<le> 512" "\<not> v \<le> 1024" "\<not> v \<le> 2048" "v \<le> 4096"
    using assms by blast
  then show ?thesis
    by cases (simp_all add: size_idx_def round_up_pow2_4096 [OF assms] chunk_sizes_def assms)
qed

lemma size_idx_meta: "size_idx SLAB_META_SIZE = Some 2" "round_up_pow2 SLAB_META_SIZE = Some 32"
  by (simp_all add: size_idx_def SLAB_META_SIZE_def round_up_pow2_4096 word_le_nat_alt)

lemma less_10: "i < 10 \<longleftrightarrow> i = 0 \<or> i = 1 \<or> i = 2 \<or> i = 3 \<or> i = 4 \<or> i = 5 \<or> i = 6 \<or> i = 7 \<or> i = 8 \<or> i = (9 :: nat)"
  by arith

definition nslots :: "nat \<Rightarrow> nat" where
  "nslots i = 4096 div unat (chunk_sizes ! i)"

lemma slot_geometry:
  assumes "i < 10"
  shows "8 \<le> unat (chunk_sizes ! i)" "8 dvd unat (chunk_sizes ! i)" "nslots i * unat (chunk_sizes ! i) = 4096"
    "unat (PAGE_SIZE div chunk_sizes ! i) = nslots i" "0 < nslots i" "nslots i \<le> 512"
    "unat (chunk_sizes ! i) \<le> 4096"
  using assms unfolding less_10 by (auto simp: chunk_sizes_def nslots_def PAGE_SIZE_def unat_div)

lemma chunk_sizes_32: "i < 10 \<Longrightarrow> chunk_sizes ! i = 32 \<longleftrightarrow> i = 2"
  unfolding less_10 by (auto simp: chunk_sizes_def)

section \<open>Chunks of a page\<close>

definition chunkj :: "u32 \<Rightarrow> nat \<Rightarrow> nat \<Rightarrow> u32" where
  "chunkj p i j = p + of_nat j * chunk_sizes ! i"

definition chunk_of :: "u32 \<Rightarrow> nat \<Rightarrow> u32 \<Rightarrow> bool" where
  "chunk_of page i c \<longleftrightarrow> (\<exists>j<nslots i. c = chunkj page i j)"

lemma unat_chunk:
  assumes "page_aligned page" "i < 10" "j < nslots i"
  shows "unat (chunkj page i j) = unat page + j * unat (chunk_sizes ! i)"
    and "j * unat (chunk_sizes ! i) + unat (chunk_sizes ! i) \<le> 4096"
proof -
  have "Suc j * unat (chunk_sizes ! i) \<le> nslots i * unat (chunk_sizes ! i)"
    using assms(3) by (intro mult_le_mono1) simp
  then show le: "j * unat (chunk_sizes ! i) + unat (chunk_sizes ! i) \<le> 4096"
    using slot_geometry(3) [OF assms(2)] by simp
  have j: "unat (of_nat j :: u32) = j"
    using assms(3) slot_geometry(6) [OF assms(2)] by (intro unat_of_nat_small) simp
  have lt: "j * unat (chunk_sizes ! i) < 4096" using le slot_geometry(1) [OF assms(2)] by simp
  then have m: "unat (of_nat j * chunk_sizes ! i) = j * unat (chunk_sizes ! i)"
    by (subst unat_mult_small) (simp_all add: j)
  obtain k where "unat page = 4096 * k" using assms(1) by (auto simp: page_aligned_dvd elim: dvdE)
  then have "unat page + 4095 < 2 ^ 32" using unat_lt32 [of page] by simp
  then show "unat (chunkj page i j) = unat page + j * unat (chunk_sizes ! i)"
    unfolding chunkj_def using lt by (subst unat_add_small) (simp_all add: m)
qed

lemma chunk_ofE:
  assumes "chunk_of page i c" "page_aligned page" "i < 10"
  obtains j where "j < nslots i" "unat c = unat page + j * unat (chunk_sizes ! i)"
    "unat c + unat (chunk_sizes ! i) \<le> unat page + 4096"
proof -
  obtain j where "j < nslots i" "c = chunkj page i j"
    using assms(1) by (auto simp: chunk_of_def)
  then show ?thesis using unat_chunk [OF assms(2,3), of j] by (intro that [of j]) auto
qed

lemma page_limit: "page_aligned p \<Longrightarrow> unat p + 4096 \<le> 2 ^ 32"
proof -
  assume "page_aligned p"
  then obtain k where "unat p = 4096 * k" by (auto simp: page_aligned_dvd elim: dvdE)
  then show ?thesis using unat_lt32 [of p] by simp
qed

lemma chunk_end:
  assumes "chunk_of page i c" "page_aligned page" "i < 10"
  shows "unat c + unat (chunk_sizes ! i) \<le> 2 ^ 32"
proof -
  obtain j where "unat c + unat (chunk_sizes ! i) \<le> unat page + 4096" by (rule chunk_ofE [OF assms])
  then show ?thesis using page_limit [OF assms(2)] by linarith
qed

lemma chunk_aligned: "chunk_of page i c \<Longrightarrow> page_aligned page \<Longrightarrow> i < 10 \<Longrightarrow> word_aligned c"
proof (erule (2) chunk_ofE)
  fix j assume "page_aligned page" "i < 10" "unat c = unat page + j * unat (chunk_sizes ! i)"
  moreover have "4 dvd unat (chunk_sizes ! i)"
    using slot_geometry(2) [OF \<open>i < 10\<close>] by (rule dvd_trans [rotated]) simp
  moreover have "4 dvd unat page"
    using \<open>page_aligned page\<close> unfolding page_aligned_dvd by (rule dvd_trans [rotated]) simp
  ultimately show "word_aligned c" by (simp add: aligned_dvd)
qed

lemma page_of_chunk:
  assumes "chunk_of page i c" "page_aligned page" "i < 10"
  shows "page_of c = page"
proof -
  obtain j where j: "unat c = unat page + j * unat (chunk_sizes ! i)"
    "unat c + unat (chunk_sizes ! i) \<le> unat page + 4096"
    using chunk_ofE [OF assms] by metis
  have "page \<le> c" using j(1) by (simp add: word_le_nat_alt)
  then have "unat (c - page) < 4096"
    using j(2) slot_geometry(1) [OF assms(3)] by (simp add: unat_sub_small)
  from page_of_in_page [OF assms(2) this] show ?thesis by simp
qed

text \<open>Different pages, and different chunks of a page, do not overlap.\<close>

lemma pages_apart:
  assumes "page_aligned p" "page_aligned q" "p \<noteq> q"
  shows "unat p + 4096 \<le> unat q \<or> unat q + 4096 \<le> unat p"
proof -
  obtain k l where "unat p = 4096 * k" "unat q = 4096 * l"
    using assms(1,2) by (auto simp: page_aligned_dvd elim!: dvdE)
  moreover from this have "k \<noteq> l" using assms(3) by (auto simp: word_unat_eq_iff)
  ultimately show ?thesis by (cases "k < l") auto
qed

lemma chunk_sep:
  assumes "chunk_of p i c" "chunk_of q k b" "page_aligned p" "page_aligned q" "i < 10" "k < 10"
    and "p \<noteq> q \<or> (p = q \<and> i = k \<and> c \<noteq> b)"
  shows "unat b + unat (chunk_sizes ! k) \<le> unat c \<or> unat c + unat (chunk_sizes ! i) \<le> unat b"
proof (cases "p = q")
  case False
  obtain x where "unat c = unat p + x * unat (chunk_sizes ! i)" "unat c + unat (chunk_sizes ! i) \<le> unat p + 4096"
    using chunk_ofE [OF assms(1,3,5)] by metis
  moreover obtain y where "unat b = unat q + y * unat (chunk_sizes ! k)" "unat b + unat (chunk_sizes ! k) \<le> unat q + 4096"
    using chunk_ofE [OF assms(2,4,6)] by metis
  ultimately show ?thesis using pages_apart [OF assms(3,4) False] by linarith
next
  case True
  then have ik: "i = k" "c \<noteq> b" using assms(7) by auto
  obtain x where x: "unat c = unat p + x * unat (chunk_sizes ! i)"
    using chunk_ofE [OF assms(1,3,5)] by metis
  obtain y where y: "unat b = unat p + y * unat (chunk_sizes ! i)"
    using chunk_ofE [OF assms(2,4,6)] True ik(1) by metis
  have "x \<noteq> y" using x y ik(2) by (auto simp: word_unat_eq_iff)
  then have "Suc x \<le> y \<or> Suc y \<le> x" by auto
  then have "Suc x * unat (chunk_sizes ! i) \<le> y * unat (chunk_sizes ! i) \<or>
      Suc y * unat (chunk_sizes ! i) \<le> x * unat (chunk_sizes ! i)"
    using mult_le_mono1 by blast
  then show ?thesis unfolding ik(1) [symmetric] x y by auto
qed

lemma sub_less_iff:
  fixes c n x :: u32
  assumes "unat c + unat n \<le> 2 ^ 32"
  shows "x - c < n \<longleftrightarrow> unat c \<le> unat x \<and> unat x < unat c + unat n"
proof (cases "c \<le> x")
  case True
  then show ?thesis by (auto simp: word_less_nat_alt word_le_nat_alt unat_sub_small)
next
  case False
  then have "unat (x - c) = unat x + 2 ^ 32 - unat c"
    by (subst unat_sub_if') (simp add: word_le_nat_alt)
  then show ?thesis using False assms by (auto simp: word_less_nat_alt word_le_nat_alt)
qed

lemma load32_memset_outside:
  assumes "unat c + unat n \<le> 2 ^ 32" "c \<noteq> 0" "unat b + 4 \<le> 2 ^ 32"
    and "unat b + 4 \<le> unat c \<or> unat c + unat n \<le> unat b"
  shows "load32 (memset m c 0 n) b = load32 m b"
proof (rule load32_cong)
  fix i :: u32 assume "i \<in> {0, 1, 2, 3}"
  then have i: "unat i < 4" by auto
  then have "unat (b + i) = unat b + unat i" using assms(3) by (intro unat_add_small) simp
  then have "\<not> (b + i) - c < n" unfolding sub_less_iff [OF assms(1)] using assms(4) i by auto
  then show "memset m c 0 n (b + i) = m (b + i)" by (simp add: memset_eq [OF assms(2)])
qed

section \<open>Invariant\<close>

text \<open>
  \<open>L\<close> is the set of slabs, each with its size class; \<open>F m\<close> are the free chunks of slab \<open>m\<close> in the
  order of its list; \<open>fs\<close> are the free pages of the page allocator.
\<close>

definition slab_ok :: "'a slab_scheme \<Rightarrow> nat \<Rightarrow> u32 \<Rightarrow> u32 list \<Rightarrow> bool" where
  "slab_ok s i m cs \<longleftrightarrow> lchain (kmem s) (m_freelist (metas s m)) cs \<and> distinct cs \<and>
     (\<forall>c \<in> set cs. chunk_of (m_slab (metas s m)) i c) \<and> length cs = unat (m_free_slots (metas s m))"

definition sinv :: "(nat \<times> u32) set \<Rightarrow> 'a slab_scheme \<Rightarrow> (u32 \<Rightarrow> u32 list) \<Rightarrow> u32 list \<Rightarrow> bool" where
  "sinv L s F fs \<longleftrightarrow>
     (\<forall>(i, m) \<in> L. i < 10 \<and> slab_ok s i m (F m) \<and> page_aligned (m_slab (metas s m)) \<and>
        m_slab (metas s m) \<noteq> 0 \<and> m_slab (metas s m) \<notin> set fs \<and> page_of m \<notin> set fs) \<and>
     (\<forall>(i, m) \<in> L. \<forall>(k, n) \<in> L. if m = n then i = k else m_slab (metas s m) \<noteq> m_slab (metas s n)) \<and>
     (\<forall>(i, m) \<in> L. \<forall>(k, n) \<in> L. m \<notin> set (F n)) \<and>
     free_frames s fs"

lemma sinvD:
  assumes "sinv L s F fs" "(i, m) \<in> L"
  shows "i < 10" "slab_ok s i m (F m)" "page_aligned (m_slab (metas s m))" "m_slab (metas s m) \<noteq> 0"
    "m_slab (metas s m) \<notin> set fs" "page_of m \<notin> set fs" "free_frames s fs"
    "\<And>k n. (k, n) \<in> L \<Longrightarrow> m \<noteq> n \<Longrightarrow> m_slab (metas s m) \<noteq> m_slab (metas s n)"
    "\<And>k. (k, m) \<in> L \<Longrightarrow> i = k" "\<And>k n. (k, n) \<in> L \<Longrightarrow> m \<notin> set (F n)"
    "\<And>c. c \<in> set (F m) \<Longrightarrow> chunk_of (m_slab (metas s m)) i c"
  using assms unfolding sinv_def slab_ok_def by (auto split: if_splits)

lemma chunks_bound:
  assumes "page_aligned page" "i < 10" "distinct cs" "\<forall>c \<in> set cs. chunk_of page i c"
  shows "length cs \<le> nslots i"
proof -
  have "set cs \<subseteq> chunkj page i ` {..<nslots i}"
    using assms(4) by (auto simp: chunk_of_def)
  then have "card (set cs) \<le> card (chunkj page i ` {..<nslots i})"
    by (intro card_mono) auto
  also have "\<dots> \<le> card {..<nslots i}" by (rule card_image_le) simp
  finally show ?thesis using assms(3) by (simp add: distinct_card)
qed

lemma frame_is_chunk: "page_aligned f \<Longrightarrow> chunk_of f 9 f"
  using slot_geometry(5) [of 9] by (auto simp: chunk_of_def chunkj_def intro!: exI [of _ 0])

lemma frames_memset:
  assumes "chunk_of p i c" "page_aligned p" "i < 10" "c \<noteq> 0" "p \<notin> set fs" "free_frames s fs"
  shows "free_frames (s\<lparr>kmem := memset (kmem s) c 0 (chunk_sizes ! i)\<rparr>) fs"
proof -
  have "load32 (memset (kmem s) c 0 (chunk_sizes ! i)) f = load32 (kmem s) f" if f: "f \<in> set fs" for f
  proof -
    have fa: "page_aligned f" using f assms(6) frames_aligned by (auto simp: free_frames_def)
    have "unat f + unat (chunk_sizes ! 9) \<le> unat c \<or> unat c + unat (chunk_sizes ! i) \<le> unat f"
      using chunk_sep [OF assms(1) frame_is_chunk [OF fa] assms(2) fa assms(3)] f assms(5) by auto
    then show ?thesis
      using page_limit [OF fa] chunk_end [OF assms(1-3)] assms(4) slot_geometry(1) [of 9]
      by (intro load32_memset_outside) auto
  qed
  then show ?thesis
    using assms(6) frames_cong [of fs "memset (kmem s) c 0 (chunk_sizes ! i)" "kmem s"] by (simp add: free_frames_def)
qed

lemma lchain_memset:
  assumes "chunk_of p i c" "page_aligned p" "i < 10" "c \<noteq> 0"
    and "\<And>b. b \<in> set bs \<Longrightarrow> chunk_of q k b" "page_aligned q" "k < 10"
    and "p \<noteq> q \<or> (p = q \<and> i = k \<and> c \<notin> set bs)"
  shows "lchain (memset m c 0 (chunk_sizes ! i)) x bs \<longleftrightarrow> lchain m x bs"
proof (rule lchain_cong)
  fix b assume b: "b \<in> set bs"
  have "unat b + unat (chunk_sizes ! k) \<le> unat c \<or> unat c + unat (chunk_sizes ! i) \<le> unat b"
    using chunk_sep [OF assms(1) assms(5) [OF b] assms(2,6,3,7)] assms(8) b by auto
  moreover have "unat b + unat (chunk_sizes ! k) \<le> 2 ^ 32" "unat c + unat (chunk_sizes ! i) \<le> 2 ^ 32"
    using chunk_end [OF assms(5) [OF b] assms(6,7)] chunk_end [OF assms(1-3)] by blast+
  ultimately show "load32 (memset m c 0 (chunk_sizes ! i)) b = load32 m b"
    using slot_geometry(1) [OF assms(7)] assms(4) by (intro load32_memset_outside) auto
qed

lemma sinvI:
  assumes "\<And>i m. (i, m) \<in> L \<Longrightarrow> i < 10 \<and> slab_ok s i m (F m) \<and> page_aligned (m_slab (metas s m)) \<and>
        m_slab (metas s m) \<noteq> 0 \<and> m_slab (metas s m) \<notin> set fs \<and> page_of m \<notin> set fs"
    and "\<And>i m k n. (i, m) \<in> L \<Longrightarrow> (k, n) \<in> L \<Longrightarrow> if m = n then i = k else m_slab (metas s m) \<noteq> m_slab (metas s n)"
    and "\<And>i m k n. (i, m) \<in> L \<Longrightarrow> (k, n) \<in> L \<Longrightarrow> m \<notin> set (F n)"
    and "free_frames s fs"
  shows "sinv L s F fs"
  using assms unfolding sinv_def by blast

lemma free_frames_cong:
  "kmem s' = kmem s \<Longrightarrow> page_freelist s' = page_freelist s \<Longrightarrow> free_frames s' fs = free_frames s fs"
  by (simp add: free_frames_def)

lemma sinv_state_cong:
  assumes "kmem s' = kmem s" "page_freelist s' = page_freelist s" "metas s' = metas s"
  shows "sinv L s' F fs = sinv L s F fs"
  unfolding sinv_def slab_ok_def free_frames_def assms ..

text \<open>Taking a chunk out of a slab.\<close>

lemma sinv_get:
  assumes inv: "sinv L s F fs" and m: "(i, m) \<in> L" and c: "F m = c # cs"
  defines "s' \<equiv> fst (chunk_get m (chunk_sizes ! i) s)"
  shows "snd (chunk_get m (chunk_sizes ! i) s) = c" "sinv L s' (F(m := cs)) fs" "slabs s' = slabs s"
    "\<And>n. m_slab (metas s' n) = m_slab (metas s n)"
    "\<And>x. x - c < chunk_sizes ! i \<Longrightarrow> kmem s' x = 0"
proof -
  let ?p = "m_slab (metas s m)"
  note I = sinvD [OF inv m]
  have ok: "lchain (kmem s) (m_freelist (metas s m)) (c # cs)" "distinct (c # cs)"
    "length (c # cs) = unat (m_free_slots (metas s m))"
    using I(2) c by (auto simp: slab_ok_def)
  have cp: "chunk_of ?p i c" "\<And>b. b \<in> set cs \<Longrightarrow> chunk_of ?p i b" using I(11) c by auto
  have c0: "c \<noteq> 0" "m_freelist (metas s m) = c" using ok(1) by auto
  have s': "s' = s\<lparr>metas := (metas s)(m := (metas s m)\<lparr>m_freelist := load32 (kmem s) c,
      m_free_slots := m_free_slots (metas s m) - 1\<rparr>), kmem := memset (kmem s) c 0 (chunk_sizes ! i)\<rparr>"
    by (simp add: s'_def chunk_get_def Let_def c0)
  show "snd (chunk_get m (chunk_sizes ! i) s) = c" by (simp add: chunk_get_def Let_def c0)
  show "slabs s' = slabs s" by (simp add: s')
  show slab: "\<And>n. m_slab (metas s' n) = m_slab (metas s n)" by (simp add: s')
  show "\<And>x. x - c < chunk_sizes ! i \<Longrightarrow> kmem s' x = 0" by (simp add: s' memset_eq [OF c0(1)])
  show "sinv L s' (F(m := cs)) fs"
  proof (rule sinvI)
    fix k n assume n: "(k, n) \<in> L"
    note J = sinvD [OF inv n]
    have "slab_ok s' k n ((F(m := cs)) n)"
    proof (cases "n = m")
      case True
      then have ki: "k = i" using I(9) n by blast
      have "m_free_slots (metas s m) \<noteq> 0" using ok(3) by auto
      then have "unat (m_free_slots (metas s m) - 1) = length cs" using ok(3) unat_pred by fastforce
      moreover have "lchain (memset (kmem s) c 0 (chunk_sizes ! i)) (load32 (kmem s) c) cs"
        using lchain_memset [OF cp(1) I(3) I(1) c0(1) cp(2) I(3) I(1)] ok(1,2) by simp
      ultimately show ?thesis using True ok(2) cp(2) ki by (simp add: slab_ok_def s')
    next
      case False
      have "?p \<noteq> m_slab (metas s n)" using I(8) [OF n] False by simp
      then show ?thesis
        using lchain_memset [OF cp(1) I(3) I(1) c0(1) J(11) J(3) J(1)] J(2) False by (simp add: slab_ok_def s')
    qed
    then show "k < 10 \<and> slab_ok s' k n ((F(m := cs)) n) \<and> page_aligned (m_slab (metas s' n)) \<and>
        m_slab (metas s' n) \<noteq> 0 \<and> m_slab (metas s' n) \<notin> set fs \<and> page_of n \<notin> set fs"
      using J slab by simp
  next
    fix k n k' n' assume n: "(k, n) \<in> L" "(k', n') \<in> L"
    show "if n = n' then k = k' else m_slab (metas s' n) \<noteq> m_slab (metas s' n')"
      unfolding slab using sinvD(8,9) [OF inv n(1)] n(2) by auto
    show "n \<notin> set ((F(m := cs)) n')" using sinvD(10) [OF inv n(1) n(2)] c by (cases "n' = m") auto
  next
    have "free_frames (s\<lparr>kmem := memset (kmem s) c 0 (chunk_sizes ! i)\<rparr>) fs"
      using frames_memset [OF cp(1) I(3) I(1) c0(1) I(5) I(7)] .
    then show "free_frames s' fs" by (simp add: s' free_frames_def)
  qed
qed

text \<open>Putting a chunk of its page back into a slab.\<close>

lemma lchain_store_chunk:
  assumes "lchain m p bs" "word_aligned c" "c \<notin> set bs" "\<And>b. b \<in> set bs \<Longrightarrow> word_aligned b"
  shows "lchain (store32 c v m) p bs"
  using assms by (subst lchain_cong [of bs _ m]) (auto intro!: load32_store32_other)

lemma sinv_put:
  assumes inv: "sinv L s F fs" and m: "(i, m) \<in> L"
    and c: "chunk_of (m_slab (metas s m)) i c" "c \<notin> set (F m)" "c \<notin> snd ` L" "c \<noteq> 0"
  shows "sinv L (chunk_put m c s) (F(m := c # F m)) fs"
    and "slabs (chunk_put m c s) = slabs s" "\<And>n. m_slab (metas (chunk_put m c s) n) = m_slab (metas s n)"
proof -
  let ?p = "m_slab (metas s m)" and ?s = "chunk_put m c s"
  note I = sinvD [OF inv m]
  have s': "?s = s\<lparr>kmem := store32 c (m_freelist (metas s m)) (kmem s), metas := (metas s)
      (m := (metas s m)\<lparr>m_freelist := c, m_free_slots := m_free_slots (metas s m) + 1\<rparr>)\<rparr>"
    by (simp add: chunk_put_def Let_def)
  show slab: "\<And>n. m_slab (metas ?s n) = m_slab (metas s n)" by (simp add: s')
  show "slabs ?s = slabs s" by (simp add: s')
  have ca: "word_aligned c" using chunk_aligned [OF c(1) I(3) I(1)] .
  have other: "c \<notin> set (F n)" if "(k, n) \<in> L" for k n
  proof
    assume cn: "c \<in> set (F n)"
    note J = sinvD [OF inv that]
    have "page_of c = m_slab (metas s n)" using page_of_chunk [OF J(11) [OF cn] J(3) J(1)] .
    moreover have "page_of c = ?p" using page_of_chunk [OF c(1) I(3) I(1)] .
    ultimately have "m = n" using I(8) [OF that] by auto
    then show False using cn c(2) by simp
  qed
  show "sinv L ?s (F(m := c # F m)) fs"
  proof (rule sinvI)
    fix k n assume n: "(k, n) \<in> L"
    note J = sinvD [OF inv n]
    have ch: "lchain (store32 c v (kmem s)) (m_freelist (metas s n)) (F n)" for v
      using J(2) J(11) chunk_aligned [OF _ J(3) J(1)] other [OF n] ca
      by (intro lchain_store_chunk) (auto simp: slab_ok_def)
    have "slab_ok ?s k n ((F(m := c # F m)) n)"
    proof (cases "n = m")
      case True
      then have ki: "k = i" using I(9) n by blast
      have "length (c # F m) \<le> nslots i"
        using I(2) I(11) c by (intro chunks_bound [OF I(3) I(1)]) (auto simp: slab_ok_def)
      then have "unat (m_free_slots (metas s m)) + 1 < 2 ^ LENGTH(16)"
        using slot_geometry(6) [OF I(1)] I(2) by (simp add: slab_ok_def)
      then have "unat (m_free_slots (metas s m) + 1) = Suc (length (F m))"
        using I(2) by (subst unat_add_small) (simp_all add: slab_ok_def)
      then show ?thesis
        using True ki I(2) c ch by (auto simp: slab_ok_def s')
    next
      case False
      then show ?thesis using J(2) ch by (simp add: slab_ok_def s')
    qed
    then show "k < 10 \<and> slab_ok ?s k n ((F(m := c # F m)) n) \<and> page_aligned (m_slab (metas ?s n)) \<and>
        m_slab (metas ?s n) \<noteq> 0 \<and> m_slab (metas ?s n) \<notin> set fs \<and> page_of n \<notin> set fs"
      using J slab by simp
  next
    fix k n k' n' assume n: "(k, n) \<in> L" "(k', n') \<in> L"
    show "if n = n' then k = k' else m_slab (metas ?s n) \<noteq> m_slab (metas ?s n')"
      unfolding slab using sinvD(8,9) [OF inv n(1)] n(2) by auto
    show "n \<notin> set ((F(m := c # F m)) n')"
      using sinvD(10) [OF inv n(1)] n c(3) m by (auto simp: image_iff)
  next
    have "c \<notin> set fs"
    proof
      assume "c \<in> set fs"
      then have "page_aligned c" using I(7) frames_aligned by (auto simp: free_frames_def)
      then have "page_of c = c" using page_of_in_page [of c 0] by simp
      then have "c = ?p" using page_of_chunk [OF c(1) I(3) I(1)] by simp
      then show False using I(5) \<open>c \<in> set fs\<close> by simp
    qed
    then have "frames (store32 c v (kmem s)) (page_freelist s) fs" for v
      using I(7) frames_aligned page_aligned_word ca
      by (subst frames_cong [of fs _ "kmem s"]) (auto simp: free_frames_def intro!: load32_store32_other)
    then show "free_frames ?s fs" using I(7) by (simp add: free_frames_def s')
  qed
qed

text \<open>A new slab: a page from the page allocator, cut into chunks that are all free.\<close>

lemma sinv_new:
  assumes inv: "sinv L s F (p # fs)" and i: "i < 10"
    and m: "m \<notin> snd ` L" "\<And>k n. (k, n) \<in> L \<Longrightarrow> m \<notin> set (F n)" "page_of m \<notin> set (p # fs)"
    and fr: "free_frames s (p # fs)"
    and s': "kmem s' = kmem s" "page_freelist s' = load32 (kmem s) p"
      "metas s' = (metas s)(m := \<lparr>m_slab = p, m_freelist = 0, m_free_slots = 0\<rparr>)"
  shows "sinv (insert (i, m) L) s' (F(m := [])) fs"
proof (rule sinvI)
  have p: "page_aligned p" "p \<noteq> 0" "p \<notin> set fs" using fr by (auto simp: free_frames_def)
  have old: "n \<noteq> m" if "(k, n) \<in> L" for k n using that m(1) by (auto simp: image_iff)
  fix k n assume n: "(k, n) \<in> insert (i, m) L"
  show "k < 10 \<and> slab_ok s' k n ((F(m := [])) n) \<and> page_aligned (m_slab (metas s' n)) \<and>
      m_slab (metas s' n) \<noteq> 0 \<and> m_slab (metas s' n) \<notin> set fs \<and> page_of n \<notin> set fs"
  proof (cases "(k, n) \<in> L")
    case True
    show ?thesis using sinvD [OF inv True] old [OF True] by (simp add: s' slab_ok_def)
  next
    case False
    then show ?thesis using n i p m(3) by (auto simp: s' slab_ok_def)
  qed
next
  have p: "p \<noteq> m_slab (metas s n)" if "(k, n) \<in> L" for k n using sinvD(5) [OF inv that] by auto
  have old: "n \<noteq> m" if "(k, n) \<in> L" for k n using that m(1) by (auto simp: image_iff)
  fix k n k' n' assume n: "(k, n) \<in> insert (i, m) L" "(k', n') \<in> insert (i, m) L"
  show "if n = n' then k = k' else m_slab (metas s' n) \<noteq> m_slab (metas s' n')"
    using n old p sinvD(8,9) [OF inv] unfolding s' by (auto split: if_splits)
  show "n \<notin> set ((F(m := [])) n')"
    using n m(2) sinvD(10) [OF inv] old by auto
next
  show "free_frames s' fs" using fr by (simp add: free_frames_def s')
qed

lemma chunkj_inj:
  assumes "page_aligned p" "i < 10" "j < nslots i" "k < nslots i" "chunkj p i j = chunkj p i k"
  shows "j = k"
proof -
  have "unat (chunkj p i j) = unat (chunkj p i k)" using assms(5) by (rule arg_cong)
  then have "unat p + j * unat (chunk_sizes ! i) = unat p + k * unat (chunk_sizes ! i)"
    unfolding unat_chunk(1) [OF assms(1-3)] unat_chunk(1) [OF assms(1,2,4)] .
  moreover have "unat (chunk_sizes ! i) \<noteq> 0" using slot_geometry(1) [OF assms(2)] by linarith
  ultimately show ?thesis by (metis add_left_cancel mult_right_cancel)
qed

lemma put_chunks_ok:
  assumes "sinv L s F fs" "(i, m) \<in> L" "m_slab (metas s m) = p" "F m = map (chunkj p i) (rev [0..<j])"
    and "j + k = nslots i" "\<And>a n. (a, n) \<in> L \<Longrightarrow> page_of n \<noteq> p"
  defines "s' \<equiv> put_chunks k m (chunk_sizes ! i) (of_nat j) s"
  shows "sinv L s' (F(m := map (chunkj p i) (rev [0..<nslots i]))) fs \<and> slabs s' = slabs s \<and>
    (\<forall>n. m_slab (metas s' n) = m_slab (metas s n))"
  unfolding s'_def using assms(1-5)
proof (induction k arbitrary: s F j)
  case 0
  then have "F(m := map (chunkj p i) (rev [0..<nslots i])) = F" by auto
  then show ?case using 0 by simp
next
  case (Suc k)
  let ?c = "chunkj p i j"
  note I = sinvD [OF Suc.prems(1,2)]
  have p: "page_aligned p" "p \<noteq> 0" "i < 10" using I Suc.prems(3) by auto
  have j: "j < nslots i" using Suc.prems(5) by simp
  have c: "chunk_of p i ?c" using j by (auto simp: chunk_of_def)
  have "0 < unat p" using p(2) by (simp add: unat_gt_0)
  then have c0: "?c \<noteq> 0" using unat_chunk(1) [OF p(1,3) j] by auto
  have "?c \<notin> set (F m)"
  proof
    assume "?c \<in> set (F m)"
    then obtain k where k: "k < j" "?c = chunkj p i k" using Suc.prems(4) by auto
    have "j = k" by (rule chunkj_inj [OF p(1,3) j _ k(2)]) (use k(1) j in simp)
    then show False using k(1) by simp
  qed
  moreover have "?c \<notin> snd ` L" using assms(6) page_of_chunk [OF c p(1,3)] by auto
  ultimately have put: "sinv L (chunk_put m ?c s) (F(m := ?c # F m)) fs" "slabs (chunk_put m ?c s) = slabs s"
    "\<And>n. m_slab (metas (chunk_put m ?c s) n) = m_slab (metas s n)"
    using sinv_put [OF Suc.prems(1,2), of ?c] c c0 Suc.prems(3) by auto
  have F': "(F(m := ?c # F m)) m = map (chunkj p i) (rev [0..<Suc j])" using Suc.prems(4) by simp
  let ?s = "put_chunks k m (chunk_sizes ! i) (of_nat (Suc j)) (chunk_put m ?c s)"
  have step: "put_chunks (Suc k) m (chunk_sizes ! i) (of_nat j) s = ?s"
    using Suc.prems(3) by (simp add: add.commute chunkj_def)
  have "m_slab (metas (chunk_put m ?c s) m) = p" "Suc j + k = nslots i" using put(3) Suc.prems(3,5) by simp_all
  from Suc.IH [OF put(1) Suc.prems(2) this(1) F' this(2)]
  have "sinv L ?s (F(m := map (chunkj p i) (rev [0..<nslots i]))) fs \<and> slabs ?s = slabs s \<and>
      (\<forall>n. m_slab (metas ?s n) = m_slab (metas s n))"
    unfolding fun_upd_upd put(2,3) .
  then show ?case unfolding step .
qed

lemma prepare_slab_ok:
  assumes inv: "sinv L s F (p # fs)" and fr: "free_frames s (p # fs)" and i: "i < 10"
    and m: "m \<notin> snd ` L" "\<forall>n \<in> snd ` L. m \<notin> set (F n)" "page_of m \<notin> set (p # fs)"
  obtains s' where "prepare_slab purge m (chunk_sizes ! i) s = Some s'"
    "sinv (insert (i, m) L) s' (F(m := map (chunkj p i) (rev [0..<nslots i]))) fs"
    "slabs s' = slabs s" "m_slab (metas s' m) = p" "\<And>n. n \<noteq> m \<Longrightarrow> m_slab (metas s' n) = m_slab (metas s n)"
proof -
  define s1 where "s1 = s\<lparr>page_freelist := load32 (kmem s) p,
    metas := (metas s)(m := \<lparr>m_slab = p, m_freelist = 0, m_free_slots = 0\<rparr>)\<rparr>"
  have p: "page_freelist s = p" "p \<noteq> 0" using fr by (auto simp: free_frames_def)
  have meta: "(metas s m)\<lparr>m_free_slots := 0, m_slab := p, m_freelist := 0\<rparr> =
      \<lparr>m_slab = p, m_freelist = 0, m_free_slots = 0\<rparr>" by (cases "metas s m") simp
  have prep: "prepare_slab purge m (chunk_sizes ! i) s = Some (put_chunks (nslots i) m (chunk_sizes ! i) 0 s1)"
    using p slot_geometry(4) [OF i]
    by (simp add: prepare_slab_def pf_alloc_def pf_pop_loop_eq s1_def meta)
  have inv1: "sinv (insert (i, m) L) s1 (F(m := [])) fs"
    by (rule sinv_new [OF inv i m(1) _ m(3) fr]) (use m(2) in \<open>auto simp: s1_def\<close>)
  have "page_of n \<noteq> p" if "(k, n) \<in> insert (i, m) L" for k n
    using that m(3) sinvD(6) [OF inv] by auto
  then have "sinv (insert (i, m) L) (put_chunks (nslots i) m (chunk_sizes ! i) (of_nat 0) s1)
      ((F(m := []))(m := map (chunkj p i) (rev [0..<nslots i]))) fs \<and>
    slabs (put_chunks (nslots i) m (chunk_sizes ! i) (of_nat 0) s1) = slabs s1 \<and>
    (\<forall>n. m_slab (metas (put_chunks (nslots i) m (chunk_sizes ! i) (of_nat 0) s1) n) = m_slab (metas s1 n))"
    by (intro put_chunks_ok [OF inv1]) (auto simp: s1_def)
  then show ?thesis using prep by (intro that [OF prep]) (simp_all add: s1_def)
qed

section \<open>Allocation\<close>

definition linked :: "'a slab_scheme \<Rightarrow> (nat \<times> u32) set" where
  "linked s = {(i, m). i < 10 \<and> m \<in> set (slabs s ! i)}"

text \<open>The chunks in use: those of a slab that are not on its free list.\<close>

definition used :: "'a slab_scheme \<Rightarrow> (u32 \<Rightarrow> u32 list) \<Rightarrow> u32 set" where
  "used s F = {c. \<exists>i m. (i, m) \<in> linked s \<and> chunk_of (m_slab (metas s m)) i c \<and> c \<notin> set (F m)}"

definition slab_inv :: "'a slab_scheme \<Rightarrow> (u32 \<Rightarrow> u32 list) \<Rightarrow> u32 list \<Rightarrow> bool" where
  "slab_inv s F fs \<longleftrightarrow> sinv (linked s) s F fs \<and> length (slabs s) = 10"

text \<open>A 32-byte slab has a chunk left for the metadata of the next slab.\<close>

definition meta_room :: "'a slab_scheme \<Rightarrow> (u32 \<Rightarrow> u32 list) \<Rightarrow> bool" where
  "meta_room s F \<longleftrightarrow> (\<exists>m \<in> set (slabs s ! 2). F m \<noteq> [])"

text \<open>
  What an allocation of class \<open>i\<close> guarantees: the invariant; a zeroed chunk \<open>c\<close> of that class that was
  not in use, is now, and is not some slab's metadata; and that everything in use stays in use.
\<close>

definition fresh ::
  "'a slab_scheme \<Rightarrow> (u32 \<Rightarrow> u32 list) \<Rightarrow> 'a slab_scheme \<Rightarrow> (u32 \<Rightarrow> u32 list) \<Rightarrow> u32 list \<Rightarrow> nat \<Rightarrow> u32 \<Rightarrow> bool" where
  "fresh s F s' F' fs' i c \<longleftrightarrow> slab_inv s' F' fs' \<and> linked s \<subseteq> linked s' \<and> used s F \<subseteq> used s' F' \<and>
     c \<notin> used s F \<and> c \<in> used s' F' \<and> c \<notin> snd ` linked s' \<and>
     (\<exists>m. (i, m) \<in> linked s' \<and> chunk_of (m_slab (metas s' m)) i c) \<and>
     (\<forall>k n. (k, n) \<in> linked s' \<longrightarrow> c \<notin> set (F' n)) \<and> (\<forall>x. x - c < chunk_sizes ! i \<longrightarrow> kmem s' x = 0)"

lemma chunk_owner:
  assumes "sinv L s F fs" "(i, m) \<in> L" "(k, n) \<in> L" "chunk_of (m_slab (metas s m)) i c" "chunk_of (m_slab (metas s n)) k c"
  shows "m = n"
proof -
  note I = sinvD [OF assms(1,2)] and J = sinvD [OF assms(1,3)]
  have "m_slab (metas s m) = m_slab (metas s n)"
    using page_of_chunk [OF assms(4) I(3) I(1)] page_of_chunk [OF assms(5) J(3) J(1)] by simp
  then show ?thesis using I(8) [OF assms(3)] by auto
qed

lemma get_fresh:
  assumes inv: "slab_inv s F fs" and m: "(i, m) \<in> linked s" and c: "F m = c # cs"
  shows "\<exists>s'. chunk_get m (chunk_sizes ! i) s = (s', c) \<and> fresh s F s' (F(m := cs)) fs i c \<and> slabs s' = slabs s \<and>
    used s' (F(m := cs)) = insert c (used s F)"
proof -
  let ?s = "fst (chunk_get m (chunk_sizes ! i) s)" and ?F = "F(m := cs)"
  have sv: "sinv (linked s) s F fs" using inv by (simp add: slab_inv_def)
  note G = sinv_get [OF sv m c] and I = sinvD [OF sv m]
  have get: "chunk_get m (chunk_sizes ! i) s = (?s, c)" using G(1) by (metis prod.collapse)
  have lk: "linked ?s = linked s" using G(3) by (simp add: linked_def)
  have cm: "chunk_of (m_slab (metas s m)) i c" using I(11) c by simp
  have dc: "c \<notin> set cs" using I(2) c by (simp add: slab_ok_def)
  have own: "n = m" if "(k, n) \<in> linked s" "chunk_of (m_slab (metas s n)) k c" for k n
    using chunk_owner [OF sv m that(1) cm that(2)] by simp
  have nofree: "c \<notin> set (?F n)" if "(k, n) \<in> linked s" for k n
    using own [OF that] sinvD(11) [OF sv that] dc by (cases "n = m") auto
  have u: "used ?s ?F = insert c (used s F)"
  proof (rule set_eqI)
    fix x
    show "x \<in> used ?s ?F \<longleftrightarrow> x \<in> insert c (used s F)"
    proof (cases "x = c")
      case True
      then show ?thesis unfolding used_def lk G(4) using m cm dc by auto
    next
      case False
      then have "x \<in> set (?F n) \<longleftrightarrow> x \<in> set (F n)" for n using c by (cases "n = m") auto
      then show ?thesis using False unfolding used_def lk G(4) by auto
    qed
  qed
  have nu: "c \<notin> used s F"
  proof
    assume "c \<in> used s F"
    then obtain k n where "(k, n) \<in> linked s" "chunk_of (m_slab (metas s n)) k c" "c \<notin> set (F n)"
      by (auto simp: used_def)
    then show False using own [of k n] c by auto
  qed
  have nm: "c \<notin> snd ` linked s" using sinvD(10) [OF sv _ m] c by fastforce
  have "fresh s F ?s ?F fs i c"
    unfolding fresh_def slab_inv_def lk G(4) u
  proof (intro conjI)
    show "length (slabs ?s) = 10" using G(3) inv by (simp add: slab_inv_def)
    show "\<exists>m. (i, m) \<in> linked s \<and> chunk_of (m_slab (metas s m)) i c" using m cm by blast
    show "\<forall>k n. (k, n) \<in> linked s \<longrightarrow> c \<notin> set (?F n)" using nofree by blast
    show "\<forall>x. x - c < chunk_sizes ! i \<longrightarrow> kmem ?s x = 0" using G(5) by blast
  qed (use G(2) nu nm in auto)
  then show ?thesis using get G(3) u by blast
qed

lemma scan_slabs_cases:
  assumes "\<And>m. m \<in> set ms \<Longrightarrow> slab_ok s i m (F m)"
  shows "case scan_slabs s b ms of
      None \<Rightarrow> \<forall>m \<in> set ms. F m = []
    | Some (m, True) \<Rightarrow> b \<and> m \<in> set ms \<and> length (F m) = 1
    | Some (m, False) \<Rightarrow> m \<in> set ms \<and> F m \<noteq> [] \<and> (b \<longrightarrow> 2 \<le> length (F m))"
  using assms
proof (induction ms)
  case (Cons m ms)
  have ok: "lchain (kmem s) (m_freelist (metas s m)) (F m)" "length (F m) = unat (m_free_slots (metas s m))"
    using Cons.prems [of m] by (auto simp: slab_ok_def)
  have n0: "m_free_slots (metas s m) = 0 \<longleftrightarrow> F m = []" using ok(2) by (auto simp: unat_eq_zero)
  have n1: "m_freelist (metas s m) \<noteq> 0 \<and> load32 (kmem s) (m_freelist (metas s m)) = 0 \<longleftrightarrow> length (F m) = 1"
    using lchain_single_iff [OF ok(1)] lchain_empty_iff [OF ok(1)] by auto
  have "2 \<le> length (F m)" if "F m \<noteq> []" "length (F m) \<noteq> 1" using that by (cases "F m"; cases "tl (F m)") auto
  then show ?case
    using Cons.IH Cons.prems n0 n1 by (auto split: option.splits bool.splits prod.splits)
qed simp

lemma linked_link: "i < 10 \<Longrightarrow> length (slabs s) = 10 \<Longrightarrow> linked (link_slab m i s) = insert (i, m) (linked s)"
  by (auto simp: linked_def link_slab_def nth_list_update split: if_splits)

text \<open>A chunk just allocated becomes the metadata of a new slab, and a chunk of that is taken.\<close>

lemma new_slab_fresh:
  assumes f: "fresh s F s1 F1 (p # fs) k e" and i: "i < 10"
  shows "\<exists>s2 s3 c cs. prepare_slab purge e (chunk_sizes ! i) s1 = Some s2 \<and>
    chunk_get e (chunk_sizes ! i) (link_slab e i s2) = (s3, c) \<and>
    fresh s F s3 (F1(e := cs)) fs i c \<and> e \<in> set (slabs s3 ! i) \<and> length cs = nslots i - 1 \<and>
    (\<forall>j. j \<noteq> i \<longrightarrow> slabs s3 ! j = slabs s1 ! j)"
proof -
  have sv: "sinv (linked s1) s1 F1 (p # fs)" and len: "length (slabs s1) = 10"
    using f by (auto simp: fresh_def slab_inv_def)
  obtain m where m: "(k, m) \<in> linked s1" "chunk_of (m_slab (metas s1 m)) k e" using f by (auto simp: fresh_def)
  note I = sinvD [OF sv m(1)]
  have e: "e \<notin> snd ` linked s1" "\<forall>n \<in> snd ` linked s1. e \<notin> set (F1 n)" "page_of e \<notin> set (p # fs)"
    using f page_of_chunk [OF m(2) I(3) I(1)] I(5) by (auto simp: fresh_def)
  let ?all = "map (chunkj p i) (rev [0..<nslots i])"
  obtain s2 where s2: "prepare_slab purge e (chunk_sizes ! i) s1 = Some s2"
    "sinv (insert (i, e) (linked s1)) s2 (F1(e := ?all)) fs" "slabs s2 = slabs s1" "m_slab (metas s2 e) = p"
    "\<And>n. n \<noteq> e \<Longrightarrow> m_slab (metas s2 n) = m_slab (metas s1 n)"
    by (rule prepare_slab_ok [OF sv I(7) i e, where purge = purge]) (rule that)
  let ?s2 = "link_slab e i s2" and ?F = "F1(e := ?all)"
  have lk: "linked ?s2 = insert (i, e) (linked s1)"
    using linked_link [OF i, of s2] s2(3) len by (simp add: linked_def)
  have same: "metas ?s2 = metas s2" by (simp add: link_slab_def)
  have inv2: "slab_inv ?s2 ?F fs"
    using s2(2,3) len sinv_state_cong [of ?s2 s2] by (simp add: slab_inv_def lk) (simp add: link_slab_def)
  have all: "set ?all = {c. chunk_of p i c}" by (auto simp: chunk_of_def)
  have ne: "n \<noteq> e" if "(k, n) \<in> linked s1" for k n using that e(1) by (auto simp: image_iff)
  have used2: "used ?s2 ?F = used s1 F1"
    unfolding used_def lk same using s2(4,5) all ne by (auto split: if_splits) (metis fun_upd_other)+
  obtain c cs where all_c: "?all = c # cs" using slot_geometry(5) [OF i] by (cases ?all) auto
  then have Fe: "?F e = c # cs" by simp
  have "(i, e) \<in> linked ?s2" unfolding lk by simp
  from get_fresh [OF inv2 this Fe] obtain s3 where s3: "chunk_get e (chunk_sizes ! i) ?s2 = (s3, c)"
    "fresh ?s2 ?F s3 (?F(e := cs)) fs i c" "slabs s3 = slabs ?s2" by blast
  have "fresh s F s3 (F1(e := cs)) fs i c"
    using s3(2) f unfolding fresh_def used2 lk fun_upd_upd by blast
  moreover have "length ?all = nslots i" by simp
  then have "length cs = nslots i - 1" using all_c by (metis length_Cons diff_Suc_1)
  ultimately show ?thesis
    using s2(1,3) s3(1,3) i len by (intro exI [of _ s2] exI [of _ s3] exI [of _ c] exI [of _ cs]) (auto simp: link_slab_def)
qed

definition waste :: "nat \<Rightarrow> u32 \<Rightarrow> 'a slab_scheme \<Rightarrow> 'a slab_scheme" where
  "waste i bytes s = s\<lparr>wasted_bytes := (wasted_bytes s)[i := wasted_bytes s ! i + (chunk_sizes ! i - bytes)]\<rparr>"

lemma waste_same:
  "slab_inv (waste i bytes s) F fs = slab_inv s F fs" "fresh (waste i bytes s) F = fresh s F"
  "meta_room (waste i bytes s) F = meta_room s F" "slabs (waste i bytes s) = slabs s"
  "linked (waste i bytes s) = linked s"
proof -
  show l: "linked (waste i bytes s) = linked s" by (simp add: linked_def waste_def)
  have "sinv L (waste i bytes s) F fs = sinv L s F fs" for L by (rule sinv_state_cong) (simp_all add: waste_def)
  then show "slab_inv (waste i bytes s) F fs = slab_inv s F fs" by (simp add: slab_inv_def l) (simp add: waste_def)
  have "used (waste i bytes s) F = used s F" by (simp add: used_def l) (simp add: waste_def)
  then show "fresh (waste i bytes s) F = fresh s F" by (simp add: fresh_def l fun_eq_iff)
  show "meta_room (waste i bytes s) F = meta_room s F" "slabs (waste i bytes s) = slabs s"
    by (simp_all add: meta_room_def waste_def)
qed

lemma do_slab_alloc_eq:
  assumes "size_idx bytes = Some i" "i < 10"
  shows "do_slab_alloc purge bytes s =
    (case scan_slabs (waste i bytes s) (i = 2) (slabs s ! i) of
       Some (m, True) \<Rightarrow>
         (case chunk_get m (chunk_sizes ! i) (waste i bytes s) of (s, eager) \<Rightarrow> do {
            s \<leftarrow> prepare_slab purge eager (chunk_sizes ! i) s;
            Some (chunk_get eager (chunk_sizes ! i) (link_slab eager i s))
          })
     | Some (m, False) \<Rightarrow> Some (chunk_get m (chunk_sizes ! i) (waste i bytes s))
     | None \<Rightarrow> do {
         (s, new) \<leftarrow> do_slab_alloc purge SLAB_META_SIZE (waste i bytes s);
         s \<leftarrow> prepare_slab purge new (chunk_sizes ! i) s;
         Some (chunk_get new (chunk_sizes ! i) (link_slab new i s))
       })"
  unfolding waste_def
  by (subst do_slab_alloc.simps)
    (simp add: assms size_idx_meta(2) chunk_sizes_32 [OF assms(2)] Let_def)

text \<open>The branches of the scan that find a chunk.\<close>

lemma alloc_found:
  assumes inv: "slab_inv s F (p # fs)" and room: "meta_room s F" and i: "size_idx bytes = Some i" "i < 10"
    and found: "scan_slabs (waste i bytes s) (i = 2) (slabs s ! i) \<noteq> None"
  shows "\<exists>s' F' fs' c. do_slab_alloc purge bytes s = Some (s', c) \<and> fresh s F s' F' fs' i c \<and>
    meta_room s' F' \<and> (fs' = p # fs \<or> fs' = fs)"
proof -
  let ?s = "waste i bytes s"
  have inv': "slab_inv ?s F (p # fs)" using inv by (simp add: waste_same)
  have sv: "sinv (linked s) ?s F (p # fs)" using inv' by (simp add: slab_inv_def waste_same)
  have mem: "(i, m) \<in> linked s" if "m \<in> set (slabs s ! i)" for m using that i by (simp add: linked_def)
  obtain m b where mb: "scan_slabs ?s (i = 2) (slabs s ! i) = Some (m, b)" using found by auto
  have cases: "m \<in> set (slabs s ! i) \<and> F m \<noteq> [] \<and> (i = 2 \<longrightarrow> b \<or> 2 \<le> length (F m)) \<and> (b \<longrightarrow> i = 2)"
    using scan_slabs_cases [of "slabs s ! i" ?s i F "i = 2"] sinvD(2) [OF sv mem] mb
    by (cases b) (auto split: bool.splits)
  then obtain c cs where c: "F m = c # cs" by (cases "F m") auto
  have m: "(i, m) \<in> linked ?s" using cases mem by (simp add: waste_same)
  obtain s1 where s1: "chunk_get m (chunk_sizes ! i) ?s = (s1, c)" "fresh s F s1 (F(m := cs)) (p # fs) i c"
    "slabs s1 = slabs s"
    using get_fresh [OF inv' m c] by (auto simp: waste_same)
  show ?thesis
  proof (cases b)
    case False
    have "meta_room s1 (F(m := cs))"
    proof (cases "i = 2")
      case True
      then have "cs \<noteq> []" using cases c False by auto
      then show ?thesis using cases True s1(3) by (auto simp: meta_room_def)
    next
      case ne: False
      obtain n where n: "n \<in> set (slabs s ! 2)" "F n \<noteq> []" using room by (auto simp: meta_room_def)
      then have "(2, n) \<in> linked s" by (simp add: linked_def)
      then have "n \<noteq> m" using sinvD(9) [OF sv, of 2 n i] mem cases ne by auto
      then show ?thesis using n s1(3) by (auto simp: meta_room_def)
    qed
    then show ?thesis using s1 mb False by (auto simp: do_slab_alloc_eq [OF i])
  next
    case True
    then have i2: "i = 2" using cases by auto
    obtain s2 s3 d ds where new: "prepare_slab purge c (chunk_sizes ! i) s1 = Some s2"
      "chunk_get c (chunk_sizes ! i) (link_slab c i s2) = (s3, d)"
      "fresh s F s3 ((F(m := cs))(c := ds)) fs i d" "c \<in> set (slabs s3 ! i)" "length ds = nslots i - 1"
      using new_slab_fresh [OF s1(2) i(2), of purge] by blast
    have "ds \<noteq> []" using new(5) i2 by (auto simp: nslots_def chunk_sizes_def)
    then have "meta_room s3 ((F(m := cs))(c := ds))" using new(4) i2 by (auto simp: meta_room_def)
    then show ?thesis using new(1-3) s1 mb True by (auto simp: do_slab_alloc_eq [OF i])
  qed
qed

lemma scan_meta:
  assumes "slab_inv s F fs" "meta_room s F"
  shows "scan_slabs (waste 2 bytes s) True (slabs s ! 2) \<noteq> None"
proof
  assume none: "scan_slabs (waste 2 bytes s) True (slabs s ! 2) = None"
  have "sinv (linked s) (waste 2 bytes s) F fs"
    using assms(1) waste_same(1) [of 2 bytes s F fs] by (simp add: slab_inv_def waste_same)
  then have "slab_ok (waste 2 bytes s) 2 m (F m)" if "m \<in> set (slabs s ! 2)" for m
    using that sinvD(2) by (fastforce simp: linked_def)
  from scan_slabs_cases [of "slabs s ! 2", OF this, of True] none have "\<forall>m \<in> set (slabs s ! 2). F m = []"
    by auto
  then show False using assms(2) by (auto simp: meta_room_def)
qed

lemma do_slab_alloc_ok:
  assumes inv: "slab_inv s F (p # q # fs)" and room: "meta_room s F" and b: "bytes \<le> 4096"
  shows "\<exists>s' F' fs' c i. do_slab_alloc purge bytes s = Some (s', c) \<and> bytes \<le> chunk_sizes ! i \<and>
    fresh s F s' F' fs' i c \<and> meta_room s' F' \<and> length fs \<le> length fs'"
proof -
  obtain i where i: "size_idx bytes = Some i" "i < 10" "bytes \<le> chunk_sizes ! i"
    using size_idx_4096 [OF b] by blast
  show ?thesis
  proof (cases "scan_slabs (waste i bytes s) (i = 2) (slabs s ! i) = None")
    case False
    then obtain s' F' fs' c where "do_slab_alloc purge bytes s = Some (s', c)" "fresh s F s' F' fs' i c" "meta_room s' F'"
      "fs' = p # q # fs \<or> fs' = q # fs"
      using alloc_found [OF inv room i(1,2) False, of purge] by blast
    then show ?thesis using i(3) by (intro exI [of _ s'] exI [of _ F'] exI [of _ fs'] exI [of _ c] exI [of _ i]) auto
  next
    case True
    then have i2: "i \<noteq> 2" using scan_meta [OF inv room, of bytes] by auto
    let ?s = "waste i bytes s"
    have inv': "slab_inv ?s F (p # q # fs)" "meta_room ?s F" using inv room by (simp_all add: waste_same)
    obtain s1 F1 fs1 e where e: "do_slab_alloc purge SLAB_META_SIZE ?s = Some (s1, e)"
      "fresh ?s F s1 F1 fs1 2 e" "meta_room s1 F1" "fs1 = p # q # fs \<or> fs1 = q # fs"
      using alloc_found [OF inv' size_idx_meta(1), of purge] scan_meta [OF inv', of SLAB_META_SIZE] by auto
    then obtain p' fs' where fs1: "fs1 = p' # fs'" by auto
    have f: "fresh s F s1 F1 (p' # fs') 2 e" using e(2) fs1 by (simp add: waste_same)
    obtain s2 s3 d ds where new: "prepare_slab purge e (chunk_sizes ! i) s1 = Some s2"
      "chunk_get e (chunk_sizes ! i) (link_slab e i s2) = (s3, d)"
      "fresh s F s3 (F1(e := ds)) fs' i d" "\<forall>j. j \<noteq> i \<longrightarrow> slabs s3 ! j = slabs s1 ! j"
      using new_slab_fresh [OF f i(2), of purge] by blast
    obtain n where n: "n \<in> set (slabs s1 ! 2)" "F1 n \<noteq> []" using e(3) by (auto simp: meta_room_def)
    then have "(2, n) \<in> linked s1" by (simp add: linked_def)
    then have "n \<noteq> e" using f by (auto simp: fresh_def image_iff)
    then have "meta_room s3 (F1(e := ds))" using n new(4) i2 by (auto simp: meta_room_def)
    moreover have "length fs \<le> length fs'" using e(4) fs1 by auto
    ultimately show ?thesis
      using new(1-3) e(1) True i(3) by (intro exI [of _ s3] exI [of _ "F1(e := ds)"] exI [of _ fs'] exI [of _ d] exI [of _ i])
        (simp add: do_slab_alloc_eq [OF i(1,2)])
  qed
qed

text \<open>
  An allocation that succeeds without purging changes only the allocator's part of the state, and
  purging would not have been asked for.
\<close>

lemma slab_more [simp]:
  "slab.more (chunk_put m c s) = slab.more s" "slab.more (fst (chunk_get m sz s)) = slab.more s"
  "slab.more (link_slab m i s) = slab.more s" "slab.more (put_chunks k m sz j s) = slab.more s"
  by (simp_all add: chunk_put_def chunk_get_def link_slab_def Let_def)
    (induction k m sz j s rule: put_chunks.induct, simp_all add: chunk_put_def Let_def)

lemma pf_alloc_no_purge:
  "pf_alloc (\<lambda>_ _. None) s = Some (s', p) \<Longrightarrow> pf_alloc purge s = Some (s', p) \<and> slab.more s' = slab.more s"
  by (auto simp: pf_alloc_def pf_pop_loop_eq split: if_splits)

lemma prepare_slab_no_purge:
  assumes "prepare_slab (\<lambda>_ _. None) m sz s = Some s'"
  shows "prepare_slab purge m sz s = Some s' \<and> slab.more s' = slab.more s"
proof -
  let ?s = "s\<lparr>metas := (metas s)(m := (metas s m)\<lparr>m_free_slots := 0\<rparr>)\<rparr>"
  obtain s1 page where p: "pf_alloc (\<lambda>_ _. None) ?s = Some (s1, page)"
    using assms by (auto simp: prepare_slab_def Option.bind_eq_Some_conv)
  then show ?thesis
    using assms pf_alloc_no_purge [OF p, of purge] by (auto simp: prepare_slab_def)
qed

lemma new_slab_no_purge:
  assumes "do { s \<leftarrow> prepare_slab (\<lambda>_ _. None) m sz s; Some (chunk_get m sz (link_slab m i s)) } = Some r"
  shows "do { s \<leftarrow> prepare_slab purge m sz s; Some (chunk_get m sz (link_slab m i s)) } = Some r \<and>
    slab.more (fst r) = slab.more s"
proof -
  obtain s1 where s1: "prepare_slab (\<lambda>_ _. None) m sz s = Some s1" "chunk_get m sz (link_slab m i s1) = r"
    using assms by (auto simp: Option.bind_eq_Some_conv)
  then have "slab.more (fst r) = slab.more s1" using slab_more(2) [of m sz "link_slab m i s1"] by simp
  then show ?thesis using s1 prepare_slab_no_purge [OF s1(1), of purge] by simp
qed

lemma do_slab_alloc_no_purge:
  assumes "do_slab_alloc p0 bytes s = Some r" "p0 = (\<lambda>_ _. None)"
  shows "do_slab_alloc purge bytes s = Some r \<and> slab.more (fst r) = slab.more s"
  using assms
proof (induction rule: do_slab_alloc.raw_induct [rotated, consumes 1, case_names step])
  case (step alloc p0 bytes s r)
  obtain i meta where i: "size_idx bytes = Some i" "round_up_pow2 SLAB_META_SIZE = Some meta"
    using step(2) by (auto simp: Option.bind_eq_Some_conv)
  let ?s = "waste i bytes s" and ?sz = "chunk_sizes ! i"
  note body = step(2) [unfolded i Option.bind.simps Let_def, folded waste_def]
  show ?case
  proof (cases "scan_slabs ?s (?sz = meta) (slabs ?s ! i)")
    case None
    then obtain s1 new where new: "alloc p0 SLAB_META_SIZE ?s = Some (s1, new)"
      "do { s \<leftarrow> prepare_slab p0 new ?sz s1; Some (chunk_get new ?sz (link_slab new i s)) } = Some r"
      using body by (auto simp: Option.bind_eq_Some_conv)
    then show ?thesis
      using step(1) [OF new(1) step(3)] new_slab_no_purge [of new ?sz s1 i r purge] None i
      by (subst do_slab_alloc.simps) (simp add: step(3) waste_def)
  next
    case (Some mb)
    then obtain m b where mb: "scan_slabs ?s (?sz = meta) (slabs ?s ! i) = Some (m, b)" by (cases mb) auto
    obtain s1 e where e: "chunk_get m ?sz ?s = (s1, e)" by (cases "chunk_get m ?sz ?s") auto
    have "slab.more ?s = slab.more s" by (simp add: waste_def)
    then have more: "slab.more s1 = slab.more s" using slab_more(2) [of m ?sz ?s] unfolding e by simp
    show ?thesis
    proof (cases b)
      case True
      then show ?thesis
        using body mb e more new_slab_no_purge [of e ?sz s1 i r purge] i
        by (subst do_slab_alloc.simps) (simp add: step(3) waste_def)
    next
      case False
      then show ?thesis
        using body mb e more i by (subst do_slab_alloc.simps) (auto simp: waste_def)
    qed
  qed
qed

section \<open>Freeing\<close>

lemma find_slab_unique:
  assumes "i < length mss" "m \<in> set (mss ! i)" "m_slab (metas s m) = ptr AND NOT 0xFFF"
    and "\<And>j n. j < length mss \<Longrightarrow> n \<in> set (mss ! j) \<Longrightarrow> m_slab (metas s n) = ptr AND NOT 0xFFF \<Longrightarrow> j = i \<and> n = m"
  shows "find_slab s ptr mss k = Some (k + i, m)"
  using assms
proof (induction mss arbitrary: i k)
  case (Cons ms mss)
  let ?P = "\<lambda>n. m_slab (metas s n) = ptr AND NOT 0xFFF"
  show ?case
  proof (cases i)
    case 0
    then have "find ?P ms \<noteq> None" using Cons.prems(2,3) by (auto simp: find_None_iff)
    then obtain n where n: "find ?P ms = Some n" by auto
    then have "n \<in> set ms" "?P n" by (auto simp: find_Some_iff)
    then have "n = m" using Cons.prems(4) [of 0 n] 0 by auto
    then show ?thesis using n 0 by simp
  next
    case (Suc i')
    have "find ?P ms = None" using Cons.prems(4) [of 0] Suc by (auto simp: find_None_iff)
    moreover have "find_slab s ptr mss (Suc k) = Some (Suc k + i', m)"
    proof (rule Cons.IH)
      show "i' < length mss" "m \<in> set (mss ! i')" using Cons.prems(1,2) Suc by auto
      show "j = i' \<and> n = m" if "j < length mss" "n \<in> set (mss ! j)" "?P n" for j n
        using Cons.prems(4) [of "Suc j" n] that Suc by auto
    qed (rule Cons.prems(3))
    ultimately show ?thesis using Suc by simp
  qed
qed simp

lemma find_slab_owner:
  assumes inv: "slab_inv s F fs" and m: "(i, m) \<in> linked s" "chunk_of (m_slab (metas s m)) i c"
  shows "find_slab s c (slabs s) 0 = Some (i, m)"
proof -
  have sv: "sinv (linked s) s F fs" and len: "length (slabs s) = 10" using inv by (auto simp: slab_inv_def)
  note I = sinvD [OF sv m(1)]
  have page: "c AND NOT 0xFFF = m_slab (metas s m)" using page_of_chunk [OF m(2) I(3) I(1)] by (simp add: page_of_def)
  have "find_slab s c (slabs s) 0 = Some (0 + i, m)"
  proof (rule find_slab_unique)
    fix j n assume n: "j < length (slabs s)" "n \<in> set (slabs s ! j)" "m_slab (metas s n) = c AND NOT 0xFFF"
    then have "(j, n) \<in> linked s" using len by (simp add: linked_def)
    then show "j = i \<and> n = m" using I(8) [of j n] I(9) [of j] n(3) page by (cases "n = m") auto
  qed (use m len page in \<open>auto simp: linked_def\<close>)
  then show ?thesis by simp
qed

lemma do_slab_free_ok:
  assumes inv: "slab_inv s F fs" and m: "(i, m) \<in> linked s" "chunk_of (m_slab (metas s m)) i c"
    and c: "c \<notin> set (F m)" "c \<notin> snd ` linked s" "c \<noteq> 0" and live: "Suc (length (F m)) < nslots i"
  shows "\<exists>s'. do_slab_free c s = Some s' \<and> slab_inv s' (F(m := c # F m)) fs \<and>
    used s' (F(m := c # F m)) = used s F - {c}"
proof -
  let ?s = "chunk_put m c s" and ?F = "F(m := c # F m)"
  have sv: "sinv (linked s) s F fs" and len: "length (slabs s) = 10" using inv by (auto simp: slab_inv_def)
  note I = sinvD [OF sv m(1)]
  note P = sinv_put [OF sv m c]
  have lk: "linked ?s = linked s" using P(2) by (simp add: linked_def)
  have "find_slab s c (slabs s) 0 = Some (i, m)" by (rule find_slab_owner [OF inv m])
  moreover have "m_free_slots (metas ?s m) \<noteq> ucast (PAGE_SIZE div chunk_sizes ! i)"
  proof
    assume "m_free_slots (metas ?s m) = ucast (PAGE_SIZE div chunk_sizes ! i)"
    then have "unat (m_free_slots (metas ?s m)) = unat (PAGE_SIZE div chunk_sizes ! i) mod 2 ^ 16"
      by (simp add: unsigned_ucast_eq take_bit_eq_mod)
    also have "\<dots> = nslots i" using slot_geometry(4,6) [OF I(1)] by simp
    finally show False
      using sinvD(2) [OF P(1) m(1)] live by (simp add: slab_ok_def)
  qed
  ultimately have "do_slab_free c s = Some ?s" by (subst do_slab_free.simps) (simp add: Let_def)
  moreover have "slab_inv ?s ?F fs" using P(1,2) len by (simp add: slab_inv_def lk)
  moreover have "used ?s ?F = used s F - {c}"
  proof -
    have own: "n = m" if "(k, n) \<in> linked s" "chunk_of (m_slab (metas s n)) k c" for k n
      using chunk_owner [OF sv m(1) that(1) m(2) that(2)] by simp
    have "x \<in> used ?s ?F \<longleftrightarrow> x \<in> used s F - {c}" for x
    proof (cases "x = c")
      case True
      have "c \<notin> used ?s ?F" unfolding used_def lk P(3) using own by auto
      then show ?thesis using True by simp
    next
      case False
      then have "x \<in> set (?F n) \<longleftrightarrow> x \<in> set (F n)" for n by (cases "n = m") auto
      then show ?thesis using False unfolding used_def lk P(3) by auto
    qed
    then show ?thesis by blast
  qed
  ultimately show ?thesis by blast
qed

text \<open>
  Once no 32-byte slab is left, an allocation of metadata recurses forever: \<open>grab_a_slab\<close> asks
  \<open>do_slab_alloc\<close> for the metadata of the slab that the metadata is to come from.
\<close>

lemma do_slab_alloc_diverges_meta:
  assumes "do_slab_alloc purge bytes s = Some y"
  shows "bytes = SLAB_META_SIZE \<longrightarrow> slabs s ! 2 \<noteq> []"
  using assms
proof (induction purge bytes s y rule: do_slab_alloc.raw_induct [rotated, consumes 1, case_names step])
  case (step f purge bytes s y)
  show ?case
  proof (intro impI notI)
    assume b: "bytes = SLAB_META_SIZE" and e: "slabs s ! 2 = []"
    from step(2) obtain s1 z where "f purge SLAB_META_SIZE s1 = Some z" "slabs s1 = slabs s"
      by (auto simp: b e size_idx_meta Let_def split: Option.bind_splits)
    then show False using step(1) e by fastforce
  qed
qed

lemma find_slab_none: "find_slab s ptr (replicate k []) j = None"
  by (induction k arbitrary: j) auto

text \<open>
  Freeing the last chunk in use of the only 32-byte slab gives its page back, and the next
  allocation never returns.
\<close>

lemma last_meta_slab_freed:
  assumes inv: "slab_inv s F fs" and one: "slabs s = (replicate 10 [])[2 := [m]]"
    and c: "chunk_of (m_slab (metas s m)) 2 c" "c \<notin> set (F m)" "c \<noteq> m" "c \<noteq> 0" "Suc (length (F m)) = nslots 2"
  shows "\<exists>s'. do_slab_free c s = Some s' \<and> do_slab_alloc purge SLAB_META_SIZE s' = None"
proof -
  let ?s = "chunk_put m c s"
  have lk: "linked s = {(2, m)}" using one by (auto simp: linked_def nth_list_update split: if_splits)
  have m: "(2, m) \<in> linked s" using lk by simp
  have sv: "sinv (linked s) s F fs" using inv by (simp add: slab_inv_def)
  note P = sinv_put [OF sv m c(1,2) _ c(4)]
  have "slab_ok ?s 2 m (c # F m)" using sinvD(2) [OF P(1) m] lk c(3) by simp
  then have "unat (m_free_slots (metas ?s m)) = 128"
    using c(5) by (simp add: slab_ok_def nslots_def chunk_sizes_def)
  then have full: "m_free_slots (metas ?s m) = 128" by (simp add: word_unat_eq_iff)
  obtain s2 where s2: "pf_free (m_slab (metas ?s m)) (?s\<lparr>slabs := replicate 10 []\<rparr>) = Some s2" "slabs s2 = replicate 10 []"
    by (simp add: pf_free_eq)
  have "slabs ?s = (replicate 10 [])[2 := [m]]" using one by (simp add: chunk_put_def Let_def)
  then have "(slabs ?s)[2 := remove1 m (slabs ?s ! 2)] = replicate 10 []"
    by (simp add: eval_nat_numeral)
  then have "do_slab_free c s = do_slab_free m s2"
    using full s2(1) find_slab_owner [OF inv m c(1)]
    by (subst do_slab_free.simps) (simp add: Let_def chunk_sizes_def PAGE_SIZE_def)
  also have "\<dots> = Some s2" by (subst do_slab_free.simps) (simp add: s2(2) find_slab_none)
  finally have "do_slab_free c s = Some s2" .
  moreover have "do_slab_alloc purge SLAB_META_SIZE s2 = None"
    using do_slab_alloc_diverges_meta [of purge SLAB_META_SIZE s2] s2(2)
    by (cases "do_slab_alloc purge SLAB_META_SIZE s2") auto
  ultimately show ?thesis by blast
qed

text \<open>Requests of one to four bytes fall through to the largest class.\<close>

lemma tiny_requests_take_a_page: "size_idx 1 = Some 9" "size_idx 2 = Some 9" "size_idx 4 = Some 9"
  by (simp_all add: size_idx_def round_up_pow2_4096 word_le_nat_alt)

section \<open>Claims\<close>

text \<open>
  C29. \<open>slab_init\<close> returns and establishes the invariant of the allocator: the bootstrap slab owns the
  first free page, all of its chunks are free, nothing is in use, and there is room for metadata.
\<close>

theorem slab_init_establishes:
  assumes "free_frames s (p # fs)" "page_of bootstrap \<notin> set (p # fs)"
  shows "\<exists>s' F. slab_init purge bootstrap s = Some s' \<and> slab_inv s' F fs \<and> meta_room s' F \<and> used s' F = {}"
proof -
  let ?s = "s\<lparr>slabs := replicate N_SIZES []\<rparr>" and ?all = "map (chunkj p 2) (rev [0..<nslots 2])"
  have fr: "free_frames ?s (p # fs)" using assms(1) by (simp add: free_frames_def)
  then have "sinv {} ?s (\<lambda>_. []) (p # fs)" by (simp add: sinv_def)
  then obtain s2 where s2: "prepare_slab purge bootstrap (chunk_sizes ! 2) ?s = Some s2"
    "sinv (insert (2, bootstrap) {}) s2 ((\<lambda>_. [])(bootstrap := ?all)) fs"
    "slabs s2 = slabs ?s" "m_slab (metas s2 bootstrap) = p"
    by (rule prepare_slab_ok [OF _ fr, where purge = purge and i = 2 and m = bootstrap])
      (use assms(2) in auto)
  let ?s2 = "link_slab bootstrap 2 s2" and ?F = "(\<lambda>_. [])(bootstrap := ?all)"
  have sl: "slabs ?s2 = (replicate 10 [])[2 := [bootstrap]]"
    using s2(3) by (simp add: link_slab_def N_SIZES_def chunk_sizes_def eval_nat_numeral)
  then have lk: "linked ?s2 = {(2, bootstrap)}"
    by (auto simp: linked_def nth_list_update split: if_splits)
  have inv: "slab_inv ?s2 ?F fs"
    using s2(2) sl sinv_state_cong [of ?s2 s2] by (simp add: slab_inv_def lk) (simp add: link_slab_def)
  have "metas ?s2 = metas s2" by (simp add: link_slab_def)
  then have "used ?s2 ?F = {}" using s2(4) unfolding used_def lk by (auto simp: chunk_of_def)
  moreover have "?all \<noteq> []" by (simp add: nslots_def chunk_sizes_def)
  then have "meta_room ?s2 ?F" by (simp add: meta_room_def sl)
  moreover have "slab_init purge bootstrap s = Some ?s2"
    using s2(1) by (simp add: slab_init_def size_idx_meta round_up_pow2_4096 size_idx_def chunk_sizes_def word_le_nat_alt)
  ultimately show ?thesis using inv by blast
qed

theorem slab_init_establishes_witness:
  "\<exists>s' F. slab_init (\<lambda>_ _. None) 0xC0100000 (pfa.extend pfa0 (slab.fields (\<lambda>_. \<lparr>m_slab = 0, m_freelist = 0, m_free_slots = 0\<rparr>) [] []))
     = Some s' \<and> slab_inv s' F [] \<and> meta_room s' F \<and> used s' F = {}"
proof (rule slab_init_establishes)
  show "free_frames (pfa.extend pfa0 (slab.fields (\<lambda>_. \<lparr>m_slab = 0, m_freelist = 0, m_free_slots = 0\<rparr>) [] [])) [0xD0001000]"
    using pfa0_frames by (simp add: free_frames_def pfa.defs slab.defs)
qed (simp add: page_of_def)

text \<open>
  C1. From every state that satisfies the invariant, with room for metadata and two free pages, a
  request of at most a page returns a zeroed chunk at least as large as asked for, that was not in
  use before and is no slab's metadata; everything in use stays in use, and the invariant and the
  room for metadata are kept. In particular the recursion through the metadata ends.
\<close>

theorem slab_alloc_fresh:
  assumes "slab_inv s F (p # q # fs)" "meta_room s F" "bytes \<le> 4096"
  shows "\<exists>s' F' fs' c i. do_slab_alloc purge bytes s = Some (s', c) \<and> bytes \<le> chunk_sizes ! i \<and>
    slab_inv s' F' fs' \<and> meta_room s' F' \<and> c \<notin> used s F \<and> c \<in> used s' F' \<and> used s F \<subseteq> used s' F' \<and>
    c \<notin> snd ` linked s' \<and> (\<forall>x. x - c < chunk_sizes ! i \<longrightarrow> kmem s' x = 0)"
  using do_slab_alloc_ok [OF assms, of purge] unfolding fresh_def by blast

definition slab1 :: slab where
  "slab1 = pfa.extend (pfa0\<lparr>kmem := store32 0xD0001000 0xD0002000 (\<lambda>_. 0)\<rparr>)
     (slab.fields (\<lambda>_. \<lparr>m_slab = 0xD0003000, m_freelist = 0xD0003000, m_free_slots = 1\<rparr>)
       ((replicate 10 [])[2 := [0xC0100000]]) (replicate 10 0))"

lemma slab1_inv: "slab_inv slab1 (\<lambda>_. [0xD0003000]) [0xD0001000, 0xD0002000]" "meta_room slab1 (\<lambda>_. [0xD0003000])"
proof -
  have lk: "linked slab1 = {(2, 0xC0100000)}"
    by (auto simp: linked_def slab1_def pfa.defs slab.defs nth_list_update split: if_splits)
  have l: "load32 (store32 0xD0001000 0xD0002000 (\<lambda>_. 0)) x = 0" if "word_aligned x" "x \<noteq> 0xD0001000" for x
    using that by (subst load32_store32_other) (auto simp: word_aligned_def load32_def)
  have ch: "chunk_of 0xD0003000 2 0xD0003000"
    by (auto simp: chunk_of_def chunkj_def nslots_def chunk_sizes_def intro!: exI [of _ 0])
  show "slab_inv slab1 (\<lambda>_. [0xD0003000]) [0xD0001000, 0xD0002000]"
    using ch l [of "0xD0003000"] l [of "0xD0002000"]
    unfolding slab_inv_def sinv_def lk slab_ok_def free_frames_def
    by (simp add: slab1_def pfa.defs slab.defs pfa0_def page_of_def page_aligned_def word_aligned_def)
  show "meta_room slab1 (\<lambda>_. [0xD0003000])"
    by (simp add: meta_room_def slab1_def pfa.defs slab.defs)
qed

theorem slab_alloc_fresh_witness:
  "\<exists>s' F' c i. do_slab_alloc (\<lambda>_ _. None) 100 slab1 = Some (s', c) \<and> 100 \<le> chunk_sizes ! i \<and> c \<in> used s' F'"
  using slab_alloc_fresh [OF slab1_inv, of 100 "\<lambda>_ _. None"] by auto



end
