(* ===== verification/Sched.thy ===== *)
theory Sched
  imports Slab
begin

text \<open>
  Tasks, counting semaphores and the scheduler: \<open>kernel/sched.c\<close> and \<open>kernel/sync.c\<close>. Task structures are kept in a map by address; the lists threaded through
  them (run queue, waiters of a semaphore, waiters of a task) are HOL lists of those addresses in
  the order in which the code visits them, so that \<open>v_ilist_prepend\<close> to a list head appends.

  A function that calls \<open>sched\<close> and is taken off the CPU goes on when its task is chosen again. What
  the other tasks do meanwhile is the argument \<open>others\<close> of the functions that can block.
\<close>

section \<open>State\<close>

datatype task_state = ts_dead | ts_runnable | ts_wait | ts_wait_task | ts_wait_semaphore | ts_sleeping | ts_stopping

record task =
  t_id :: int
  t_k_esp :: u32
  t_u_esp :: u32
  t_sleep_till :: u32
  t_stack_kernel :: u32
  t_stack_user :: u32
  t_redzone_top :: u32
  t_state :: task_state
  t_cli_depth :: int
  t_cli_int_enabled :: bool
  t_sti_depth :: int
  t_sti_int_disabled :: bool
  t_waiters :: "u32 list"
  t_ret :: int
  t_name :: string
  t_entry :: u32
  t_ctx :: u32
  t_wait_retval :: int
  t_ticks :: int
  t_priority :: int
  t_cwd :: u32
  t_files :: u32
  t_next_fd :: int
  t_vmas :: "u32 list"

text \<open>A task structure on a block that the allocator has cleared.\<close>

definition task0 :: task where
  "task0 = \<lparr>t_id = 0, t_k_esp = 0, t_u_esp = 0, t_sleep_till = 0, t_stack_kernel = 0, t_stack_user = 0,
     t_redzone_top = 0, t_state = ts_dead, t_cli_depth = 0, t_cli_int_enabled = False, t_sti_depth = 0,
     t_sti_int_disabled = False, t_waiters = [], t_ret = 0, t_name = [], t_entry = 0, t_ctx = 0,
     t_wait_retval = 0, t_ticks = 0, t_priority = 0, t_cwd = 0, t_files = 0, t_next_fd = 0, t_vmas = []\<rparr>"

text \<open>The semaphores: the static ones by name, the ones inside of an object by their address.\<close>

datatype sem_id = Reaper_call | Defrag_call | Sem_slab | Purge_list | Sem_at u32

record semaphore =
  sem_count :: u32
  sem_waiters :: "u32 list"

record regs =
  r_ebx :: u32
  r_esi :: u32
  r_edi :: u32
  r_ebp :: u32
  r_esp :: u32
  r_eip :: u32
  r_eax :: u32
  r_ecx :: u32
  r_edx :: u32
  r_cs :: u32
  r_ds :: u32
  r_ss :: u32

record kernel = slab +
  cpu_regs :: regs
  tss_esp0 :: u32
  tasks :: "u32 \<Rightarrow> task"
  sems :: "sem_id \<Rightarrow> semaphore"
  current :: u32
  idle_task :: u32
  runqueue :: "u32 list"
  last_tid :: int
  system_uptime_ms :: u32
  irq0_fractions :: u32
  irq0_fractions_prev :: u32

definition upd_task :: "u32 \<Rightarrow> (task \<Rightarrow> task) \<Rightarrow> 'a kernel_scheme \<Rightarrow> 'a kernel_scheme" where
  "upd_task t f s = s\<lparr>tasks := (tasks s)(t := f (tasks s t))\<rparr>"

definition upd_sem :: "sem_id \<Rightarrow> (semaphore \<Rightarrow> semaphore) \<Rightarrow> 'a kernel_scheme \<Rightarrow> 'a kernel_scheme" where
  "upd_sem i f s = s\<lparr>sems := (sems s)(i := f (sems s i))\<rparr>"

abbreviation set_state :: "u32 \<Rightarrow> task_state \<Rightarrow> 'a kernel_scheme \<Rightarrow> 'a kernel_scheme" where
  "set_state t st \<equiv> upd_task t (\<lambda>k. k\<lparr>t_state := st\<rparr>)"

section \<open>Semaphores: initialise and post\<close>

definition sem_init :: "sem_id \<Rightarrow> u32 \<Rightarrow> 'a kernel_scheme \<Rightarrow> 'a kernel_scheme" where
  "sem_init i value s = s\<lparr>sems := (sems s)(i := \<lparr>sem_count = value, sem_waiters = []\<rparr>)\<rparr>"

definition sem_post :: "sem_id \<Rightarrow> 'a kernel_scheme \<Rightarrow> 'a kernel_scheme" where
  "sem_post i s =
     (let s = upd_sem i (\<lambda>q. q\<lparr>sem_count := sem_count q + 1\<rparr>) s
      in case sem_waiters (sems s i) of
           [] \<Rightarrow> s
         | waiter # ws \<Rightarrow> set_state waiter ts_runnable (upd_sem i (\<lambda>q. q\<lparr>sem_waiters := ws\<rparr>) s))"

section \<open>Choosing a task\<close>

abbreviation TASK_STACK_PAGES :: u32 where "TASK_STACK_PAGES \<equiv> 1"
abbreviation TASK_STACK_SIZE :: u32 where "TASK_STACK_SIZE \<equiv> TASK_STACK_PAGES * PAGE_SIZE"

definition update_task_state :: "u32 \<Rightarrow> u32 \<Rightarrow> 'a kernel_scheme \<Rightarrow> 'a kernel_scheme" where
  "update_task_state t ms s =
     (let s = (if t_state (tasks s t) = ts_runnable \<and> t_k_esp (tasks s t) < t_redzone_top (tasks s t)
               then sem_post Reaper_call (set_state t ts_stopping s) else s)
      in if t_state (tasks s t) = ts_sleeping \<and> ms \<ge> t_sleep_till (tasks s t)
         then set_state t ts_runnable s else s)"

text \<open>One pass over the run queue; a null \<open>next\<close> is 0.\<close>

fun scan_tasks :: "u32 \<Rightarrow> u32 list \<Rightarrow> 'a kernel_scheme \<Rightarrow> u32 \<Rightarrow> int \<Rightarrow> 'a kernel_scheme \<times> u32 \<times> int" where
  "scan_tasks ms [] s next max_ticks = (s, next, max_ticks)"
| "scan_tasks ms (t # ts) s next max_ticks =
     (let s = update_task_state t ms s
      in if t_state (tasks s t) = ts_runnable \<and> t_ticks (tasks s t) > max_ticks
         then scan_tasks ms ts s t (t_ticks (tasks s t))
         else scan_tasks ms ts s next max_ticks)"

fun recharge :: "u32 list \<Rightarrow> 'a kernel_scheme \<Rightarrow> 'a kernel_scheme" where
  "recharge [] s = s"
| "recharge (t # ts) s =
     recharge ts (if t_state (tasks s t) = ts_runnable
       then upd_task t (\<lambda>k. k\<lparr>t_ticks := drop_bit 1 (t_ticks k) + t_priority k\<rparr>) s else s)"

partial_function (option) next_runnable_loop :: "u32 \<Rightarrow> 'a kernel_scheme \<Rightarrow> ('a kernel_scheme \<times> u32) option" where
  "next_runnable_loop ms s =
     (case scan_tasks ms (runqueue s) s 0 (-1) of (s, next, max_ticks) \<Rightarrow>
        if max_ticks \<noteq> 0 then Some (s, next) else next_runnable_loop ms (recharge (runqueue s) s))"

definition find_next_runnable :: "'a kernel_scheme \<Rightarrow> ('a kernel_scheme \<times> u32) option" where
  "find_next_runnable s = next_runnable_loop (system_uptime_ms s) s"

section \<open>Switching\<close>

definition push_reg :: "u32 \<Rightarrow> 'a kernel_scheme \<Rightarrow> 'a kernel_scheme" where
  "push_reg v s =
     (let sp = r_esp (cpu_regs s) - 4
      in s\<lparr>cpu_regs := (cpu_regs s)\<lparr>r_esp := sp\<rparr>, kmem := store32 sp v (kmem s)\<rparr>)"

definition pop_reg :: "'a kernel_scheme \<Rightarrow> 'a kernel_scheme \<times> u32" where
  "pop_reg s =
     (let sp = r_esp (cpu_regs s)
      in (s\<lparr>cpu_regs := (cpu_regs s)\<lparr>r_esp := sp + 4\<rparr>\<rparr>, load32 (kmem s) sp))"

text \<open>The assembly routine, from its entry with the return address on top of the stack.\<close>

definition switch_to :: "u32 \<Rightarrow> u32 \<Rightarrow> 'a kernel_scheme \<Rightarrow> 'a kernel_scheme" where
  "switch_to prev next s =
     (let s = push_reg (r_ebx (cpu_regs s)) s;
          s = push_reg (r_esi (cpu_regs s)) s;
          s = push_reg (r_edi (cpu_regs s)) s;
          s = push_reg (r_ebp (cpu_regs s)) s;
          s = upd_task prev (\<lambda>k. k\<lparr>t_k_esp := r_esp (cpu_regs s)\<rparr>) s;
          s = s\<lparr>cpu_regs := (cpu_regs s)\<lparr>r_esp := t_k_esp (tasks s next)\<rparr>\<rparr>;
          (s, ebp) = pop_reg s;
          (s, edi) = pop_reg s;
          (s, esi) = pop_reg s;
          (s, ebx) = pop_reg s;
          (s, eip) = pop_reg s
      in s\<lparr>cpu_regs := (cpu_regs s)\<lparr>r_ebp := ebp, r_edi := edi, r_esi := esi, r_ebx := ebx, r_eip := eip\<rparr>\<rparr>)"

text \<open>
  \<open>iret\<close> pops the instruction pointer, the code segment and the flags and, when it lowers the
  privilege, the stack pointer and segment. \<open>task_init\<close> sets the data segments, clears the general
  registers and runs \<open>iret\<close>.
\<close>

definition iret :: "'a kernel_scheme \<Rightarrow> 'a kernel_scheme" where
  "iret s =
     (let (s, eip) = pop_reg s;
          (s, cs) = pop_reg s;
          (s, eflags) = pop_reg s;
          s = s\<lparr>eflags_if := bit eflags 9, cpu_regs := (cpu_regs s)\<lparr>r_eip := eip, r_cs := cs\<rparr>\<rparr>
      in if cs AND 3 = 3
         then let (s, esp) = pop_reg s;
                  (s, ss) = pop_reg s
              in s\<lparr>cpu_regs := (cpu_regs s)\<lparr>r_esp := esp, r_ss := ss\<rparr>\<rparr>
         else s)"

definition task_init :: "'a kernel_scheme \<Rightarrow> 'a kernel_scheme" where
  "task_init s =
     (let (s, ebx) = pop_reg s
      in iret (s\<lparr>cpu_regs := (cpu_regs s)\<lparr>r_ds := ebx, r_eax := 0, r_ebx := 0, r_ecx := 0, r_edx := 0,
                  r_esi := 0, r_edi := 0, r_ebp := 0\<rparr>\<rparr>))"

text \<open>
  Assigning \<open>current\<close>: the interrupt-nesting counters of theory X86 are those of the current task, so
  they are exchanged with the ones in its structure.
\<close>

definition set_current :: "u32 \<Rightarrow> 'a kernel_scheme \<Rightarrow> 'a kernel_scheme" where
  "set_current next s =
     (let s = upd_task (current s) (\<lambda>k. k\<lparr>t_cli_depth := cli_depth s, t_cli_int_enabled := cli_int_enabled s,
                t_sti_depth := sti_depth s, t_sti_int_disabled := sti_int_disabled s\<rparr>) s;
          k = tasks s next
      in s\<lparr>current := next, cli_depth := t_cli_depth k, cli_int_enabled := t_cli_int_enabled k,
           sti_depth := t_sti_depth k, sti_int_disabled := t_sti_int_disabled k\<rparr>)"

definition sched :: "'a kernel_scheme \<Rightarrow> 'a kernel_scheme option" where
  "sched s = do {
     (s, next) \<leftarrow> find_next_runnable s;
     next \<leftarrow> Some (if next = 0 then idle_task s else next);
     if next = current s then Some s
     else let prev = current s;
              s = set_current next s;
              s = s\<lparr>tss_esp0 := t_stack_kernel (tasks s next) + 2 * TASK_STACK_SIZE\<rparr>
          in Some (switch_to prev next s)
   }"

text \<open>
  Calling \<open>sched\<close> from a task and getting back: either it returns at once, or the machine runs the
  other tasks until this one is current again.
\<close>

definition sched_and_return ::
  "('a kernel_scheme \<Rightarrow> 'a kernel_scheme option) \<Rightarrow> 'a kernel_scheme \<Rightarrow> 'a kernel_scheme option" where
  "sched_and_return others s = do {
     s' \<leftarrow> sched s;
     if current s' = current s then Some s' else others s'
   }"

section \<open>Semaphores: pend\<close>

definition TRIES :: nat where "TRIES = 2"

text \<open>The inner loop: \<open>True\<close> when the count could be taken.\<close>

fun sem_try :: "nat \<Rightarrow> sem_id \<Rightarrow> 'a kernel_scheme \<Rightarrow> 'a kernel_scheme \<times> bool" where
  "sem_try 0 i s = (s, False)"
| "sem_try (Suc t) i s =
     (let val = sem_count (sems s i)
      in if val \<noteq> 0
         then let (cell, ret) = cmpxchg val val (val - 1);
                  s = upd_sem i (\<lambda>q. q\<lparr>sem_count := cell\<rparr>) s
              in if ret = val then (s, True) else sem_try t i s
         else sem_try t i s)"

partial_function (option) sem_pend ::
  "('a kernel_scheme \<Rightarrow> 'a kernel_scheme option) \<Rightarrow> sem_id \<Rightarrow> 'a kernel_scheme \<Rightarrow> 'a kernel_scheme option" where
  "sem_pend others i s =
     (case sem_try TRIES i s of (s, taken) \<Rightarrow>
        if taken then Some s
        else do {
          s \<leftarrow> Some (cli_push s);
          s \<leftarrow> Some (set_state (current s) ts_wait_semaphore s);
          s \<leftarrow> Some (upd_sem i (\<lambda>q. q\<lparr>sem_waiters := sem_waiters q @ [current s]\<rparr>) s);
          s \<leftarrow> sched_and_return others s;
          s \<leftarrow> cli_pop s;
          sem_pend others i s
        })"

section \<open>Task life cycle\<close>

abbreviation SIZEOF_TASK :: u32 where "SIZEOF_TASK \<equiv> 120"
abbreviation SIZEOF_NEW_TASK_STACK :: u32 where "SIZEOF_NEW_TASK_STACK \<equiv> 44"
abbreviation TASK_MAX_FILES :: u32 where "TASK_MAX_FILES \<equiv> 64"
abbreviation GDT_KERNEL_CODE :: u32 where "GDT_KERNEL_CODE \<equiv> 0x08"
abbreviation GDT_KERNEL_DATA :: u32 where "GDT_KERNEL_DATA \<equiv> 0x10"
abbreviation GDT_USER_CODE :: u32 where "GDT_USER_CODE \<equiv> 0x18"
abbreviation GDT_USER_DATA :: u32 where "GDT_USER_DATA \<equiv> 0x20"
abbreviation PROT_WRITE :: u32 where "PROT_WRITE \<equiv> 0x2"
abbreviation PROT_USR :: u32 where "PROT_USR \<equiv> 0x3"

text \<open>
  What the life cycle calls from above the scheduler: the allocator entry points (theory Slab over
  theory Vma), \<open>vfs_open_file\<close> by path, \<open>mprotect\<close>, and the addresses of two labels of the image.
\<close>

record 's task_env =
  e_kmalloc :: "u32 \<Rightarrow> 's \<Rightarrow> ('s \<times> u32) option"
  e_kzalloc :: "u32 \<Rightarrow> 's \<Rightarrow> ('s \<times> u32) option"
  e_kfree :: "u32 \<Rightarrow> 's \<Rightarrow> 's option"
  e_vfs_open_file :: "string \<Rightarrow> 's \<Rightarrow> ('s \<times> u32) option"
  e_mprotect :: "u32 \<Rightarrow> u32 \<Rightarrow> u32 \<Rightarrow> 's \<Rightarrow> ('s \<times> int) option"
  e_task_init :: u32
  e_task_entry_point :: u32

text \<open>The stores into \<open>struct new_task_stack\<close> at \<open>sp\<close>, in the order of the code.\<close>

definition bootstrap_stack :: "u32 \<Rightarrow> u32 \<Rightarrow> u32 \<Rightarrow> u32 \<Rightarrow> u32 \<Rightarrow> mem \<Rightarrow> mem" where
  "bootstrap_stack sp init ds entry cs =
     store32 (sp + 32) 0x200 \<circ> store32 (sp + 28) cs \<circ> store32 (sp + 24) entry \<circ> store32 (sp + 20) ds \<circ>
     store32 (sp + 16) init \<circ> store32 sp 0 \<circ> store32 (sp + 4) 0 \<circ> store32 (sp + 8) 0 \<circ> store32 (sp + 12) 0"

definition upd_mem :: "(mem \<Rightarrow> mem) \<Rightarrow> 'a kernel_scheme \<Rightarrow> 'a kernel_scheme" where
  "upd_mem f s = s\<lparr>kmem := f (kmem s)\<rparr>"

definition prepare_user :: "'a kernel_scheme task_env \<Rightarrow> u32 \<Rightarrow> u32 \<Rightarrow> u32 \<Rightarrow> 'a kernel_scheme \<Rightarrow> 'a kernel_scheme option" where
  "prepare_user env new stack ds s = do {
     (s, files) \<leftarrow> e_kzalloc env (TASK_MAX_FILES * 4) s;
     s \<leftarrow> Some (upd_task new (\<lambda>k. k\<lparr>t_files := files, t_next_fd := 0\<rparr>) s);
     (s, stdin) \<leftarrow> e_vfs_open_file env ''/dev/kbd'' s;
     (s, stdout) \<leftarrow> e_vfs_open_file env ''/dev/tty'' s;
     s \<leftarrow> Some (upd_mem (store32 (files + 8) stdout \<circ> store32 (files + 4) stdout \<circ> store32 files stdin) s);
     s \<leftarrow> Some (upd_task new (\<lambda>k. k\<lparr>t_next_fd := 3\<rparr>) s);
     let u_sptr = t_stack_user (tasks s new) + 2 * TASK_STACK_SIZE - 8
     in do {
       s \<leftarrow> Some (upd_mem (store32 (stack + 40) ds \<circ> store32 (stack + 36) u_sptr \<circ> store32 u_sptr 0 \<circ>
                            store32 (u_sptr + 4) (word_of_int (t_id (tasks s new)))) s);
       (s, ret) \<leftarrow> e_mprotect env (t_stack_user (tasks s new)) (2 * TASK_STACK_SIZE) (PROT_WRITE OR PROT_USR) s;
       if ret \<noteq> 0 then None
       else Some (upd_task new (\<lambda>k. k\<lparr>t_u_esp := u_sptr\<rparr>)
                   (upd_mem (store32 (stack + 24) (t_entry (tasks s new))) s))
     }
   }"

text \<open>The task identifier or a negative error, and \<open>*out\<close>.\<close>

definition task_prepare ::
  "'a kernel_scheme task_env \<Rightarrow> u32 \<Rightarrow> u32 \<Rightarrow> string \<Rightarrow> bool \<Rightarrow> 'a kernel_scheme \<Rightarrow> ('a kernel_scheme \<times> int \<times> u32) option" where
  "task_prepare env func ctx name user_task s = do {
     (s, new) \<leftarrow> e_kmalloc env SIZEOF_TASK s;
     if new = 0 then Some (s, - ENOMEM, 0) else do {
       s \<leftarrow> Some (upd_task new (\<lambda>_. task0) s);
       (s, kstack) \<leftarrow> e_kmalloc env (2 * TASK_STACK_SIZE) s;
       s \<leftarrow> Some (upd_task new (\<lambda>k. k\<lparr>t_stack_kernel := kstack\<rparr>) s);
       if kstack = 0 then do { s \<leftarrow> e_kfree env new s; Some (s, - ENOMEM, 0) } else do {
         (s, ustack) \<leftarrow> (if user_task then e_kmalloc env (2 * TASK_STACK_SIZE) s else Some (s, 0));
         s \<leftarrow> Some (upd_task new (\<lambda>k. k\<lparr>t_stack_user := ustack\<rparr>) s);
         if user_task \<and> ustack = 0
         then do { s \<leftarrow> e_kfree env kstack s; s \<leftarrow> e_kfree env new s; Some (s, - ENOMEM, 0) }
         else do {
           s \<leftarrow> Some (upd_task new (\<lambda>k. k\<lparr>t_name := name, t_waiters := [], t_vmas := [], t_id := last_tid s,
                  t_state := ts_runnable, t_ticks := 20, t_priority := 20,
                  t_redzone_top := t_stack_kernel k + TASK_STACK_SIZE\<rparr>) s);
           s \<leftarrow> Some (s\<lparr>last_tid := last_tid s + 1\<rparr>);
           let cs = (if user_task then GDT_USER_CODE OR 3 else GDT_KERNEL_CODE);
               ds = (if user_task then GDT_USER_DATA OR 3 else GDT_KERNEL_DATA);
               k_sptr = kstack + 2 * TASK_STACK_SIZE - SIZEOF_NEW_TASK_STACK
           in do {
             s \<leftarrow> Some (upd_mem (bootstrap_stack k_sptr (e_task_init env) ds (e_task_entry_point env) cs) s);
             s \<leftarrow> Some (upd_task new (\<lambda>k. k\<lparr>t_k_esp := k_sptr, t_entry := func, t_ctx := ctx\<rparr>) s);
             s \<leftarrow> (if user_task then prepare_user env new k_sptr ds s else Some s);
             Some (s, t_id (tasks s new), new)
           }
         }
       }
     }
   }"

definition task_update_entry :: "u32 \<Rightarrow> u32 \<Rightarrow> 'a kernel_scheme \<Rightarrow> 'a kernel_scheme" where
  "task_update_entry t func s =
     (let s = upd_task t (\<lambda>k. k\<lparr>t_entry := func\<rparr>) s;
          stack = t_stack_kernel (tasks s t) + 2 * TASK_STACK_SIZE - SIZEOF_NEW_TASK_STACK
      in upd_mem (store32 (stack + 24) func) s)"

definition to_runqueue :: "u32 \<Rightarrow> 'a kernel_scheme \<Rightarrow> 'a kernel_scheme option" where
  "to_runqueue t s = do {
     s \<leftarrow> Some (cli_push s);
     s \<leftarrow> Some (s\<lparr>runqueue := runqueue s @ [t]\<rparr>);
     cli_pop s
   }"

definition task_create ::
  "'a kernel_scheme task_env \<Rightarrow> u32 \<Rightarrow> u32 \<Rightarrow> string \<Rightarrow> bool \<Rightarrow> 'a kernel_scheme \<Rightarrow> ('a kernel_scheme \<times> int) option" where
  "task_create env func ctx name user_task s = do {
     (s, tid, new) \<leftarrow> task_prepare env func ctx name user_task s;
     if tid < 0 then Some (s, tid)
     else do { s \<leftarrow> to_runqueue new s; Some (s, tid) }
   }"

definition find_task :: "int \<Rightarrow> 'a kernel_scheme \<Rightarrow> u32" where
  "find_task tid s = (case find (\<lambda>t. t_id (tasks s t) = tid) (runqueue s) of Some t \<Rightarrow> t | None \<Rightarrow> 0)"

definition task_kill ::
  "('a kernel_scheme \<Rightarrow> 'a kernel_scheme option) \<Rightarrow> u32 \<Rightarrow> 'a kernel_scheme \<Rightarrow> ('a kernel_scheme \<times> int) option" where
  "task_kill others t s = do {
     s \<leftarrow> Some (sem_post Reaper_call (set_state t ts_stopping s));
     s \<leftarrow> (if t = current s then sched_and_return others s else Some s);
     Some (s, t_id (tasks s t))
   }"

definition wait_tid ::
  "('a kernel_scheme \<Rightarrow> 'a kernel_scheme option) \<Rightarrow> int \<Rightarrow> 'a kernel_scheme \<Rightarrow> ('a kernel_scheme \<times> int) option" where
  "wait_tid others task_id s =
     (if task_id < 1 then Some (s, -1)
      else let s = cli_push s
           in if t_wait_retval (tasks s (current s)) \<noteq> 0 then None
              else let waitee = find_task task_id s
                   in if waitee = 0 then Some (s, -1)
                      else do {
                        s \<leftarrow> Some (set_state (current s) ts_wait_task s);
                        s \<leftarrow> Some (upd_task waitee (\<lambda>k. k\<lparr>t_waiters := t_waiters k @ [current s]\<rparr>) s);
                        s \<leftarrow> sched_and_return others s;
                        s \<leftarrow> cli_pop s;
                        let ret = t_wait_retval (tasks s (current s))
                        in Some (upd_task (current s) (\<lambda>k. k\<lparr>t_wait_retval := 0\<rparr>) s, ret)
                      })"

text \<open>The end of a task: \<open>ret\<close> is what its entry function returned. \<open>sched\<close> must not come back.\<close>

definition task_exit :: "int \<Rightarrow> 'a kernel_scheme \<Rightarrow> 'a kernel_scheme option" where
  "task_exit ret s = do {
     s \<leftarrow> (if t_entry (tasks s (current s)) = 0 then None else Some s);
     s \<leftarrow> Some (upd_task (current s) (\<lambda>k. k\<lparr>t_ret := ret\<rparr>) s);
     s \<leftarrow> Some (cli s);
     s \<leftarrow> Some (set_state (current s) ts_stopping s);
     s' \<leftarrow> sched (sem_post Reaper_call s);
     if current s' = current s then None else Some s'
   }"

fun wake_waiters :: "int \<Rightarrow> u32 list \<Rightarrow> 'a kernel_scheme \<Rightarrow> 'a kernel_scheme" where
  "wake_waiters ret [] s = s"
| "wake_waiters ret (w # ws) s =
     wake_waiters ret ws (upd_task w (\<lambda>k. k\<lparr>t_wait_retval := ret, t_state := ts_runnable\<rparr>) s)"

text \<open>The loop over the run queue, with the successor read before the body.\<close>

fun reap_tasks :: "(u32 \<Rightarrow> 'a kernel_scheme \<Rightarrow> 'a kernel_scheme option) \<Rightarrow> u32 list \<Rightarrow> 'a kernel_scheme \<Rightarrow> 'a kernel_scheme option" where
  "reap_tasks free [] s = Some s"
| "reap_tasks free (t # ts) s =
     (if t_state (tasks s t) \<noteq> ts_stopping then reap_tasks free ts s
      else if t = current s then None
      else do {
        s \<leftarrow> Some (s\<lparr>runqueue := remove1 t (runqueue s)\<rparr>);
        ws \<leftarrow> Some (t_waiters (tasks s t));
        s \<leftarrow> Some (upd_task t (\<lambda>k. k\<lparr>t_waiters := []\<rparr>) s);
        s \<leftarrow> Some (wake_waiters (t_ret (tasks s t)) ws s);
        s \<leftarrow> (if t_stack_user (tasks s t) \<noteq> 0 then free (t_stack_user (tasks s t)) s else Some s);
        s \<leftarrow> (if t_files (tasks s t) \<noteq> 0 then free (t_files (tasks s t)) s else Some s);
        s \<leftarrow> free (t_stack_kernel (tasks s t)) s;
        s \<leftarrow> free t s;
        reap_tasks free ts s
      })"

text \<open>One round of the endless loop of the reaper task.\<close>

definition reaper_round ::
  "('a kernel_scheme \<Rightarrow> 'a kernel_scheme option) \<Rightarrow> (u32 \<Rightarrow> 'a kernel_scheme \<Rightarrow> 'a kernel_scheme option) \<Rightarrow>
     'a kernel_scheme \<Rightarrow> 'a kernel_scheme option" where
  "reaper_round others free s = do {
     s \<leftarrow> sem_pend others Reaper_call s;
     s \<leftarrow> Some (cli_push s);
     s \<leftarrow> reap_tasks free (runqueue s) s;
     cli_pop s
   }"

definition sched_init :: "'a kernel_scheme task_env \<Rightarrow> u32 \<Rightarrow> u32 \<Rightarrow> 'a kernel_scheme \<Rightarrow> 'a kernel_scheme option" where
  "sched_init env do_idle reaper s = do {
     (s, ret) \<leftarrow> task_create env do_idle 0 ''kidle'' False s;
     s \<leftarrow> (if ret \<ge> 0 then Some s else None);
     s \<leftarrow> (case runqueue s of [] \<Rightarrow> None | t # _ \<Rightarrow> Some (s\<lparr>idle_task := t\<rparr>));
     s \<leftarrow> (if idle_task s \<noteq> 0 \<and> t_id (tasks s (idle_task s)) = 0 \<and> cli_depth s = 0 then Some s else None);
     s \<leftarrow> Some (set_state (idle_task s) ts_wait s);
     (s, _) \<leftarrow> task_create env reaper 0 ''kreaper'' False s;
     Some s
   }"

definition statechar :: "task_state \<Rightarrow> char" where
  "statechar st = (case st of ts_dead \<Rightarrow> CHR ''D'' | ts_runnable \<Rightarrow> CHR ''R'' | ts_wait \<Rightarrow> CHR ''W''
     | ts_wait_task \<Rightarrow> CHR ''W'' | ts_wait_semaphore \<Rightarrow> CHR ''W'' | ts_sleeping \<Rightarrow> CHR ''S'' | ts_stopping \<Rightarrow> CHR ''E'')"

section \<open>Selectors\<close>

lemma upd_task_sel [simp]:
  "tasks (upd_task t f s) = (tasks s)(t := f (tasks s t))" "sems (upd_task t f s) = sems s"
  "runqueue (upd_task t f s) = runqueue s" "current (upd_task t f s) = current s"
  "idle_task (upd_task t f s) = idle_task s" "system_uptime_ms (upd_task t f s) = system_uptime_ms s"
  "kmem (upd_task t f s) = kmem s" "cpu_regs (upd_task t f s) = cpu_regs s" "last_tid (upd_task t f s) = last_tid s"
  by (simp_all add: upd_task_def)

lemma upd_sem_sel [simp]:
  "sems (upd_sem i f s) = (sems s)(i := f (sems s i))" "tasks (upd_sem i f s) = tasks s"
  "runqueue (upd_sem i f s) = runqueue s" "current (upd_sem i f s) = current s"
  "idle_task (upd_sem i f s) = idle_task s" "system_uptime_ms (upd_sem i f s) = system_uptime_ms s"
  "kmem (upd_sem i f s) = kmem s" "cpu_regs (upd_sem i f s) = cpu_regs s"
  by (simp_all add: upd_sem_def)

text \<open>What posting does: the first waiter, if any, becomes runnable.\<close>

definition woken :: "sem_id \<Rightarrow> 'a kernel_scheme \<Rightarrow> u32 set" where
  "woken i s = set (take 1 (sem_waiters (sems s i)))"

lemma sem_post_sel [simp]:
  "runqueue (sem_post i s) = runqueue s" "current (sem_post i s) = current s"
  "idle_task (sem_post i s) = idle_task s" "system_uptime_ms (sem_post i s) = system_uptime_ms s"
  "sem_count (sems (sem_post i s) i) = sem_count (sems s i) + 1"
  "sem_waiters (sems (sem_post i s) i) = drop 1 (sem_waiters (sems s i))"
  "j \<noteq> i \<Longrightarrow> sems (sem_post i s) j = sems s j"
  by (auto simp: sem_post_def Let_def split: list.splits)

lemma sem_post_tasks:
  "tasks (sem_post i s) t = (if t \<in> woken i s then (tasks s t)\<lparr>t_state := ts_runnable\<rparr> else tasks s t)"
  by (auto simp: sem_post_def woken_def Let_def split: list.splits)

section \<open>Choosing a task\<close>

text \<open>
  A task that can be chosen: runnable, with its stack pointer above the red zone. A sleeper whose time
  has come is overdue.
\<close>

definition eligible :: "'a kernel_scheme \<Rightarrow> u32 \<Rightarrow> bool" where
  "eligible s t \<longleftrightarrow> t_state (tasks s t) = ts_runnable \<and> \<not> t_k_esp (tasks s t) < t_redzone_top (tasks s t)"

definition overdue :: "u32 \<Rightarrow> 'a kernel_scheme \<Rightarrow> u32 \<Rightarrow> bool" where
  "overdue ms s t \<longleftrightarrow> t_state (tasks s t) = ts_sleeping \<and> ms \<ge> t_sleep_till (tasks s t)"

abbreviation callers :: "'a kernel_scheme \<Rightarrow> nat" where
  "callers s \<equiv> length (sem_waiters (sems s Reaper_call))"

text \<open>What passes over the run queue leave alone.\<close>

definition pass_frame :: "u32 \<Rightarrow> 'a kernel_scheme \<Rightarrow> 'a kernel_scheme \<Rightarrow> bool" where
  "pass_frame ms s s' \<longleftrightarrow> runqueue s' = runqueue s \<and> current s' = current s \<and> idle_task s' = idle_task s \<and>
     callers s' \<le> callers s \<and>
     (\<forall>x. t_priority (tasks s' x) = t_priority (tasks s x) \<and> t_k_esp (tasks s' x) = t_k_esp (tasks s x) \<and>
       t_redzone_top (tasks s' x) = t_redzone_top (tasks s x) \<and> t_sleep_till (tasks s' x) = t_sleep_till (tasks s x) \<and>
       t_stack_kernel (tasks s' x) = t_stack_kernel (tasks s x) \<and>
       (eligible s x \<longrightarrow> eligible s' x) \<and> (overdue ms s' x \<longrightarrow> overdue ms s x))"

lemma pass_frame_refl [simp]: "pass_frame ms s s" by (simp add: pass_frame_def)

lemma pass_frame_trans: "pass_frame ms s s1 \<Longrightarrow> pass_frame ms s1 s2 \<Longrightarrow> pass_frame ms s s2"
  unfolding pass_frame_def by auto

lemma update_task_state_frame: "pass_frame ms s (update_task_state t ms s)"
  by (auto simp: pass_frame_def update_task_state_def Let_def eligible_def overdue_def sem_post_tasks)

lemma update_task_state_ticks: "t_ticks (tasks (update_task_state t ms s) x) = t_ticks (tasks s x)"
  by (auto simp: update_task_state_def Let_def sem_post_tasks)

lemma update_task_state_awake: "\<not> overdue ms (update_task_state t ms s) t"
  by (auto simp: update_task_state_def Let_def overdue_def sem_post_tasks split: if_splits)

lemma update_task_state_runnable:
  "t_state (tasks s x) = ts_runnable \<Longrightarrow> x \<noteq> t \<Longrightarrow> t_state (tasks (update_task_state t ms s) x) = ts_runnable"
  by (auto simp: update_task_state_def Let_def sem_post_tasks)

text \<open>A visit that wakes nobody makes only an overdue sleeper runnable.\<close>

lemma update_task_state_quiet:
  assumes "callers (update_task_state t ms s) = callers s" "\<not> overdue ms s t"
    and "t_state (tasks (update_task_state t ms s) x) = ts_runnable"
  shows "t_state (tasks s x) = ts_runnable"
proof (cases "t_state (tasks s t) = ts_runnable \<and> t_k_esp (tasks s t) < t_redzone_top (tasks s t)")
  case True
  then have "sem_waiters (sems s Reaper_call) = []"
    using assms(1) by (cases "sem_waiters (sems s Reaper_call)") (auto simp: update_task_state_def Let_def split: if_splits)
  then show ?thesis
    using True assms(3) by (auto simp: update_task_state_def Let_def sem_post_tasks woken_def split: if_splits)
next
  case False
  then show ?thesis using assms(2,3) by (auto simp: update_task_state_def Let_def overdue_def split: if_splits)
qed

lemma scan_frame: "scan_tasks ms ts s n m = (s', n', m') \<Longrightarrow> pass_frame ms s s'"
proof (induction ts arbitrary: s n m)
  case (Cons t ts)
  then show ?case
    using update_task_state_frame [of ms s t] by (auto simp: Let_def split: if_splits intro: pass_frame_trans)
qed simp

lemma scan_ticks: "scan_tasks ms ts s n m = (s', n', m') \<Longrightarrow> t_ticks (tasks s' x) = t_ticks (tasks s x)"
  by (induction ts arbitrary: s n m) (fastforce simp: Let_def update_task_state_ticks split: if_splits)+

lemma scan_awake:
  assumes "scan_tasks ms ts s n m = (s', n', m')" "x \<in> set ts"
  shows "\<not> overdue ms s' x"
  using assms
proof (induction ts arbitrary: s n m)
  case (Cons t ts)
  let ?u = "update_task_state t ms s"
  obtain n1 m1 where r: "scan_tasks ms ts ?u n1 m1 = (s', n', m')"
    using Cons.prems(1) by (auto simp: Let_def split: if_splits)
  show ?case
  proof (cases "x \<in> set ts")
    case False
    then have "x = t" using Cons.prems(2) by simp
    then show ?thesis using scan_frame [OF r] update_task_state_awake [of ms t s] by (auto simp: pass_frame_def)
  qed (use Cons.IH [OF r] in simp)
qed simp

lemma scan_max:
  "scan_tasks ms ts s n m = (s', n', m') \<Longrightarrow> m \<le> m' \<and> (\<forall>x\<in>set ts. eligible s x \<longrightarrow> t_ticks (tasks s x) \<le> m')"
proof (induction ts arbitrary: s n m)
  case (Cons t ts)
  let ?u = "update_task_state t ms s"
  obtain n1 m1 where r: "scan_tasks ms ts ?u n1 m1 = (s', n', m')" and m1: "m \<le> m1" "eligible ?u t \<Longrightarrow> t_ticks (tasks ?u t) \<le> m1"
    using Cons.prems by (auto simp: Let_def eligible_def split: if_splits)
  have "eligible s x \<Longrightarrow> eligible ?u x" for x using update_task_state_frame [of ms s t] by (simp add: pass_frame_def)
  then show ?case using Cons.IH [OF r] m1 by (fastforce simp: update_task_state_ticks)
qed simp

lemma scan_choice:
  assumes "scan_tasks ms ts s n m = (s', n', m')" "distinct ts"
  shows "n' = n \<and> m' = m \<or> n' \<in> set ts \<and> m < m' \<and> t_ticks (tasks s' n') = m' \<and> t_state (tasks s' n') = ts_runnable"
  using assms
proof (induction ts arbitrary: s n m)
  case (Cons t ts)
  let ?u = "update_task_state t ms s"
  obtain n1 m1 where r: "scan_tasks ms ts ?u n1 m1 = (s', n', m')"
    and c: "n1 = n \<and> m1 = m \<or> n1 = t \<and> m < m1 \<and> t_ticks (tasks ?u t) = m1 \<and> t_state (tasks ?u t) = ts_runnable"
    using Cons.prems(1) by (auto simp: Let_def split: if_splits)
  have keep: "scan_tasks ms ys v a b = (s', n', m') \<Longrightarrow> t \<notin> set ys \<Longrightarrow> t_state (tasks v t) = ts_runnable \<Longrightarrow>
      t_state (tasks s' t) = ts_runnable" for ys v a b
    by (induction ys arbitrary: v a b) (auto simp: Let_def update_task_state_runnable split: if_splits)
  show ?case
    using Cons.IH [OF r] Cons.prems(2) c keep [OF r] scan_ticks [OF r, of t] by auto
qed simp

text \<open>Every runnable task has ticks left and nobody oversleeps: the state after a recharge.\<close>

definition charged :: "u32 \<Rightarrow> u32 list \<Rightarrow> 'a kernel_scheme \<Rightarrow> bool" where
  "charged ms ts s \<longleftrightarrow> (\<forall>t\<in>set ts. \<not> overdue ms s t \<and> (t_state (tasks s t) = ts_runnable \<longrightarrow> 0 < t_ticks (tasks s t)))"

lemma scan_charged:
  assumes "scan_tasks ms ts s n m = (s', n', m')" "charged ms ts s" "callers s' = callers s"
  shows "m' = m \<or> 0 < m'"
  using assms
proof (induction ts arbitrary: s n m)
  case (Cons t ts)
  let ?u = "update_task_state t ms s"
  have fu: "pass_frame ms s ?u" by (rule update_task_state_frame)
  obtain n1 m1 where r: "scan_tasks ms ts ?u n1 m1 = (s', n', m')"
    and c: "m1 = m \<or> t_ticks (tasks ?u t) = m1 \<and> t_state (tasks ?u t) = ts_runnable"
    using Cons.prems(1) by (auto simp: Let_def split: if_splits)
  have eq: "callers ?u = callers s" "callers s' = callers ?u"
    using fu scan_frame [OF r] Cons.prems(3) by (auto simp: pass_frame_def)
  have q: "t_state (tasks ?u x) = ts_runnable \<Longrightarrow> t_state (tasks s x) = ts_runnable" for x
    using update_task_state_quiet [OF eq(1)] Cons.prems(2) by (simp add: charged_def)
  then have "charged ms ts ?u"
    using Cons.prems(2) fu by (auto simp: charged_def pass_frame_def update_task_state_ticks)
  from Cons.IH [OF r this eq(2)] show ?case
    using c q [of t] Cons.prems(2) scan_max [OF r] by (auto simp: charged_def update_task_state_ticks)
qed simp

lemma recharge_frame: "pass_frame ms s (recharge ts s)"
proof (induction ts arbitrary: s)
  case (Cons t ts)
  have "pass_frame ms s (if t_state (tasks s t) = ts_runnable
       then upd_task t (\<lambda>k. k\<lparr>t_ticks := drop_bit 1 (t_ticks k) + t_priority k\<rparr>) s else s)"
    by (auto simp: pass_frame_def eligible_def overdue_def)
  then show ?case using Cons by (auto intro: pass_frame_trans)
qed simp

lemma recharge_sems: "sems (recharge ts s) = sems s"
  by (induction ts arbitrary: s) auto

lemma recharge_state: "t_state (tasks (recharge ts s) x) = t_state (tasks s x)"
  by (induction ts arbitrary: s) auto

lemma half_plus_pos: "(0 :: int) \<le> a \<Longrightarrow> 0 < b \<Longrightarrow> 0 < drop_bit 1 a + b"
  by (simp add: drop_bit_eq_div add_nonneg_pos)

lemma recharge_pos:
  assumes "0 \<le> t_ticks (tasks s x)" "0 < t_priority (tasks s x)"
  shows "0 \<le> t_ticks (tasks (recharge ts s) x) \<and>
    (x \<in> set ts \<and> t_state (tasks s x) = ts_runnable \<or> 0 < t_ticks (tasks s x) \<longrightarrow> 0 < t_ticks (tasks (recharge ts s) x))"
  using assms
proof (induction ts arbitrary: s)
  case (Cons t ts)
  let ?u = "if t_state (tasks s t) = ts_runnable
       then upd_task t (\<lambda>k. k\<lparr>t_ticks := drop_bit 1 (t_ticks k) + t_priority k\<rparr>) s else s"
  have "0 \<le> t_ticks (tasks ?u x)" "0 < t_priority (tasks ?u x)" "t_state (tasks ?u x) = t_state (tasks s x)"
    "x = t \<and> t_state (tasks s x) = ts_runnable \<or> 0 < t_ticks (tasks s x) \<Longrightarrow> 0 < t_ticks (tasks ?u x)"
    using Cons.prems half_plus_pos [of "t_ticks (tasks s x)" "t_priority (tasks s x)"] by (auto simp: less_imp_le)
  with Cons.IH [of ?u] show ?case by auto
qed simp

text \<open>The tick counters as \<open>do_timer\<close> and \<open>task_prepare\<close> keep them.\<close>

definition ticks_ok :: "'a kernel_scheme \<Rightarrow> bool" where
  "ticks_ok s \<longleftrightarrow> distinct (runqueue s) \<and> 0 \<notin> set (runqueue s) \<and>
     (\<forall>t\<in>set (runqueue s). 0 \<le> t_ticks (tasks s t) \<and> 0 < t_priority (tasks s t))"

definition chosen :: "'a kernel_scheme \<Rightarrow> 'a kernel_scheme \<Rightarrow> u32 \<Rightarrow> bool" where
  "chosen s s' next \<longleftrightarrow>
     (if next = 0 then \<forall>t\<in>set (runqueue s). \<not> eligible s t
      else next \<in> set (runqueue s) \<and> t_state (tasks s' next) = ts_runnable \<and>
        (\<forall>t\<in>set (runqueue s). eligible s t \<longrightarrow> t_ticks (tasks s' t) \<le> t_ticks (tasks s' next)))"

lemma round_chosen:
  assumes "ticks_ok s" "scan_tasks ms (runqueue s) s 0 (-1) = (s', n, m)" "m \<noteq> 0"
  shows "ticks_ok s'" "chosen s s' n"
proof -
  show "ticks_ok s'" using assms(1) scan_frame [OF assms(2)] scan_ticks [OF assms(2)] by (simp add: ticks_ok_def pass_frame_def)
  show "chosen s s' n"
    using scan_choice [OF assms(2)] scan_max [OF assms(2)] scan_ticks [OF assms(2)] assms(1)
    by (fastforce simp: chosen_def ticks_ok_def)
qed

lemma round_recharged:
  assumes "ticks_ok s" "scan_tasks ms (runqueue s) s 0 (-1) = (s1, n, 0)"
  defines "s2 \<equiv> recharge (runqueue s1) s1"
  shows "ticks_ok s2" "charged ms (runqueue s2) s2" "pass_frame ms s s2" "callers s2 = callers s1"
proof -
  note f1 = scan_frame [OF assms(2)] and f2 = recharge_frame [of ms s1 "runqueue s1"]
  have rq: "runqueue s1 = runqueue s" "runqueue s2 = runqueue s" using f1 f2 by (simp_all add: pass_frame_def s2_def)
  have tk: "0 \<le> t_ticks (tasks s1 t)" "0 < t_priority (tasks s1 t)" if "t \<in> set (runqueue s)" for t
    using that assms(1) f1 scan_ticks [OF assms(2)] by (auto simp: ticks_ok_def pass_frame_def)
  have p2: "t_priority (tasks s2 t) = t_priority (tasks s1 t)" for t using f2 by (simp add: pass_frame_def s2_def)
  show "ticks_ok s2"
    using assms(1) rq tk p2 recharge_pos [of s1 _ "runqueue s1"] by (simp add: ticks_ok_def s2_def)
  show "pass_frame ms s s2" using f1 f2 by (auto simp: s2_def intro: pass_frame_trans)
  show "callers s2 = callers s1"
    by (simp add: s2_def) (rule recharge_sems [THEN arg_cong [where f = "\<lambda>f. length (sem_waiters (f Reaper_call))"]])
  show "charged ms (runqueue s2) s2"
    unfolding charged_def rq(2)
  proof
    fix t assume t: "t \<in> set (runqueue s)"
    have "\<not> overdue ms s1 t" using scan_awake [OF assms(2) t] .
    moreover have "overdue ms s2 t \<longrightarrow> overdue ms s1 t" using f2 by (simp add: pass_frame_def s2_def)
    ultimately show "\<not> overdue ms s2 t \<and> (t_state (tasks s2 t) = ts_runnable \<longrightarrow> 0 < t_ticks (tasks s2 t))"
      using recharge_pos [of s1 t "runqueue s1"] tk [OF t] t rq(1) recharge_state [of "runqueue s1" s1 t] by (auto simp: s2_def)
  qed
qed

lemma chosen_after: "pass_frame ms s s2 \<Longrightarrow> chosen s2 s' n \<Longrightarrow> chosen s s' n"
  by (auto simp: chosen_def pass_frame_def)

lemma loop_charged:
  assumes "ticks_ok s" "charged ms (runqueue s) s"
  shows "\<exists>s' n. next_runnable_loop ms s = Some (s', n) \<and> ticks_ok s' \<and> pass_frame ms s s' \<and> chosen s s' n"
  using assms
proof (induction "callers s" arbitrary: s rule: less_induct)
  case less
  obtain s1 n m where r: "scan_tasks ms (runqueue s) s 0 (-1) = (s1, n, m)" by (cases "scan_tasks ms (runqueue s) s 0 (-1)") auto
  show ?case
  proof (cases "m = 0")
    case True
    let ?s2 = "recharge (runqueue s1) s1"
    note rr = round_recharged [OF less.prems(1) r [unfolded True]]
    have "callers s1 \<noteq> callers s" using scan_charged [OF r less.prems(2)] True by auto
    then have "callers ?s2 < callers s" using rr(4) scan_frame [OF r] by (simp add: pass_frame_def)
    from less.hyps [OF this rr(1,2)] show ?thesis
      using r True rr(3) by (subst next_runnable_loop.simps) (auto intro: pass_frame_trans chosen_after)
  next
    case False
    then show ?thesis
      using round_chosen [OF less.prems(1) r] scan_frame [OF r] r by (subst next_runnable_loop.simps) auto
  qed
qed

lemma find_next_runnable_ok:
  assumes "ticks_ok s"
  shows "\<exists>s' n. find_next_runnable s = Some (s', n) \<and> ticks_ok s' \<and> pass_frame (system_uptime_ms s) s s' \<and> chosen s s' n"
proof -
  let ?ms = "system_uptime_ms s"
  obtain s1 n m where r: "scan_tasks ?ms (runqueue s) s 0 (-1) = (s1, n, m)" by (cases "scan_tasks ?ms (runqueue s) s 0 (-1)") auto
  show ?thesis
  proof (cases "m = 0")
    case True
    note rr = round_recharged [OF assms r [unfolded True]]
    from loop_charged [OF rr(1,2)] show ?thesis
      using r True rr(3) unfolding find_next_runnable_def
      by (subst next_runnable_loop.simps) (auto intro: pass_frame_trans chosen_after)
  next
    case False
    then show ?thesis
      using round_chosen [OF assms r] scan_frame [OF r] r unfolding find_next_runnable_def
      by (subst next_runnable_loop.simps) auto
  qed
qed

section \<open>Context switches\<close>

lemma switch_to_eq:
  assumes "a \<noteq> b"
  shows "switch_to a b s =
    (let r = cpu_regs s; e = r_esp r; k = t_k_esp (tasks s b);
         m = store32 (e - 16) (r_ebp r) (store32 (e - 12) (r_edi r) (store32 (e - 8) (r_esi r) (store32 (e - 4) (r_ebx r) (kmem s))))
     in s\<lparr>kmem := m, tasks := (tasks s)(a := (tasks s a)\<lparr>t_k_esp := e - 16\<rparr>),
          cpu_regs := r\<lparr>r_esp := k + 20, r_ebp := load32 m k, r_edi := load32 m (k + 4), r_esi := load32 m (k + 8),
            r_ebx := load32 m (k + 12), r_eip := load32 m (k + 16)\<rparr>\<rparr>)"
  using assms by (simp add: switch_to_def push_reg_def pop_reg_def upd_task_def Let_def add.commute)

lemma word_aligned_uint: "word_aligned a \<longleftrightarrow> 4 dvd uint a"
proof -
  have "int 4 dvd int (unat a) \<longleftrightarrow> 4 dvd unat a" by (rule int_dvd_int_iff)
  then show ?thesis by (simp add: aligned_dvd)
qed

lemma word_aligned_arith [simp]:
  "word_aligned a \<Longrightarrow> word_aligned k \<Longrightarrow> word_aligned (a + k)"
  "word_aligned a \<Longrightarrow> word_aligned k \<Longrightarrow> word_aligned (a - k)"
  by (simp_all add: word_aligned_uint uint_word_ariths dvd_mod)

lemma word_aligned_lits [simp]:
  "word_aligned 4" "word_aligned 8" "word_aligned 12" "word_aligned 16" "word_aligned 20" "word_aligned 24"
  "word_aligned 28" "word_aligned 32" "word_aligned 36" "word_aligned 40" "word_aligned 44" "word_aligned 8148"
  by (simp_all add: word_aligned_def)

text \<open>The five words that \<open>switch_to\<close> leaves on the stack of the task it suspends.\<close>

definition frame_words :: "u32 \<Rightarrow> u32 set" where
  "frame_words e = {e - 16, e - 12, e - 8, e - 4, e}"

lemma frame_words_aligned: "x \<in> frame_words e \<Longrightarrow> word_aligned e \<Longrightarrow> word_aligned x"
  by (auto simp: frame_words_def)

lemma switch_keeps:
  assumes "a \<noteq> b" "word_aligned (r_esp (cpu_regs s))" "word_aligned x" "x \<notin> frame_words (r_esp (cpu_regs s)) - {r_esp (cpu_regs s)}"
  shows "load32 (kmem (switch_to a b s)) x = load32 (kmem s) x"
  using assms by (auto simp: switch_to_eq Let_def frame_words_def load32_store32_other)

lemma switch_saves:
  assumes "a \<noteq> b" "word_aligned (r_esp (cpu_regs s))"
  defines "m \<equiv> kmem (switch_to a b s)" and "e \<equiv> r_esp (cpu_regs s)"
  shows "t_k_esp (tasks (switch_to a b s) a) = e - 16"
    "load32 m (e - 16) = r_ebp (cpu_regs s)" "load32 m (e - 12) = r_edi (cpu_regs s)"
    "load32 m (e - 8) = r_esi (cpu_regs s)" "load32 m (e - 4) = r_ebx (cpu_regs s)" "load32 m e = load32 (kmem s) e"
  using assms by (simp_all add: switch_to_eq Let_def load32_store32_other)

lemma switch_regs:
  assumes "a \<noteq> b" "word_aligned (r_esp (cpu_regs s))" "word_aligned k" "t_k_esp (tasks s b) = k"
    and "frame_words (r_esp (cpu_regs s)) \<inter> frame_words (k + 16) = {}"
  shows "cpu_regs (switch_to a b s) = (cpu_regs s)\<lparr>r_esp := k + 20, r_ebp := load32 (kmem s) k, r_edi := load32 (kmem s) (k + 4),
    r_esi := load32 (kmem s) (k + 8), r_ebx := load32 (kmem s) (k + 12), r_eip := load32 (kmem s) (k + 16)\<rparr>"
proof -
  have "load32 (kmem (switch_to a b s)) x = load32 (kmem s) x" if "x \<in> frame_words (k + 16)" for x
    using that assms(5) frame_words_aligned [OF that] assms(3) by (intro switch_keeps [OF assms(1,2)]) auto
  moreover have "frame_words (k + 16) = {k, k + 4, k + 8, k + 12, k + 16}" by (simp add: frame_words_def add.commute)
  ultimately have "load32 (kmem (switch_to a b s)) k = load32 (kmem s) k"
    "load32 (kmem (switch_to a b s)) (k + 4) = load32 (kmem s) (k + 4)" "load32 (kmem (switch_to a b s)) (k + 8) = load32 (kmem s) (k + 8)"
    "load32 (kmem (switch_to a b s)) (k + 12) = load32 (kmem s) (k + 12)" "load32 (kmem (switch_to a b s)) (k + 16) = load32 (kmem s) (k + 16)"
    by simp_all
  then show ?thesis using assms(1,4) by (simp add: switch_to_eq Let_def)
qed

section \<open>Claims\<close>

text \<open>
  C17. Suspending a task and resuming it later gives back its callee-saved registers, its stack pointer
  and its return address, whatever runs in between, as long as the five words at the top of its
  stack and its saved stack pointer are left alone and the other task's stack is elsewhere.
\<close>

theorem switch_roundtrip:
  assumes "a \<noteq> b" "word_aligned (r_esp (cpu_regs s))" "word_aligned (r_esp (cpu_regs s2))"
    and "t_k_esp (tasks s2 a) = t_k_esp (tasks (switch_to a b s) a)"
    and "\<forall>x\<in>frame_words (r_esp (cpu_regs s)). load32 (kmem s2) x = load32 (kmem (switch_to a b s)) x"
    and "frame_words (r_esp (cpu_regs s2)) \<inter> frame_words (r_esp (cpu_regs s)) = {}"
  shows "let r = cpu_regs (switch_to b a s2); e = r_esp (cpu_regs s)
    in r_ebx r = r_ebx (cpu_regs s) \<and> r_esi r = r_esi (cpu_regs s) \<and> r_edi r = r_edi (cpu_regs s) \<and>
       r_ebp r = r_ebp (cpu_regs s) \<and> r_eip r = load32 (kmem s) e \<and> r_esp r = e + 4"
proof -
  let ?e = "r_esp (cpu_regs s)"
  note sv = switch_saves [OF assms(1,2)]
  have k: "t_k_esp (tasks s2 a) = ?e - 16" using assms(4) sv(1) by simp
  have l: "load32 (kmem s2) x = load32 (kmem (switch_to a b s)) x" if "x \<in> {?e - 16, ?e - 12, ?e - 8, ?e - 4, ?e}" for x
    using assms(5) that by (auto simp: frame_words_def)
  have "cpu_regs (switch_to b a s2) = (cpu_regs s2)\<lparr>r_esp := ?e - 16 + 20, r_ebp := load32 (kmem s2) (?e - 16), r_edi := load32 (kmem s2) (?e - 16 + 4),
    r_esi := load32 (kmem s2) (?e - 16 + 8), r_ebx := load32 (kmem s2) (?e - 16 + 12), r_eip := load32 (kmem s2) (?e - 16 + 16)\<rparr>"
    using assms(1,2,6) by (intro switch_regs [OF _ assms(3) _ k]) simp_all
  then show ?thesis using sv l by (simp add: Let_def)
qed

definition regs0 :: regs where
  "regs0 = \<lparr>r_ebx = 1, r_esi = 2, r_edi = 3, r_ebp = 4, r_esp = 0xE0001000, r_eip = 0, r_eax = 0, r_ecx = 0,
     r_edx = 0, r_cs = 8, r_ds = 16, r_ss = 16\<rparr>"

definition kernel0 :: kernel where
  "kernel0 = slab.extend slab1 (kernel.fields regs0 0 (\<lambda>_. task0) (\<lambda>_. \<lparr>sem_count = 0, sem_waiters = []\<rparr>) 0x1000 0x3000 [] 0 0 0 0)"

lemma kernel0_sel [simp]:
  "cpu_regs kernel0 = regs0" "tasks kernel0 = (\<lambda>_. task0)" "current kernel0 = 0x1000" "runqueue kernel0 = []"
  "idle_task kernel0 = 0x3000" "system_uptime_ms kernel0 = 0" "last_tid kernel0 = 0"
  "sems kernel0 = (\<lambda>_. \<lparr>sem_count = 0, sem_waiters = []\<rparr>)" "irq0_fractions kernel0 = 0" "irq0_fractions_prev kernel0 = 0"
  by (simp_all add: kernel0_def slab.defs kernel.defs)

theorem switch_roundtrip_witness:
  "let s2 = (switch_to 0x1000 0x2000 kernel0)\<lparr>cpu_regs := regs0\<lparr>r_esp := 0xE0008000\<rparr>\<rparr>;
       r = cpu_regs (switch_to 0x2000 0x1000 s2)
   in r_ebx r = 1 \<and> r_esi r = 2 \<and> r_edi r = 3 \<and> r_ebp r = 4 \<and> r_esp r = 0xE0001004"
  using switch_roundtrip [of "0x1000" "0x2000" kernel0
      "(switch_to 0x1000 0x2000 kernel0)\<lparr>cpu_regs := regs0\<lparr>r_esp := 0xE0008000\<rparr>\<rparr>"]
  by (simp add: Let_def regs0_def word_aligned_def frame_words_def)

text \<open>
  C6. The scheduler's search always returns. When it returns no task, no task of the run queue could
  have run; otherwise the task is in the run queue, is runnable, and has at least as many ticks as
  every task that could have run.
\<close>

theorem find_next_runnable_terminates:
  assumes "ticks_ok s"
  shows "\<exists>s' next. find_next_runnable s = Some (s', next) \<and>
    (if next = 0 then \<forall>t\<in>set (runqueue s). \<not> eligible s t
     else next \<in> set (runqueue s) \<and> t_state (tasks s' next) = ts_runnable \<and>
       (\<forall>t\<in>set (runqueue s). eligible s t \<longrightarrow> t_ticks (tasks s' t) \<le> t_ticks (tasks s' next)))"
  using find_next_runnable_ok [OF assms] unfolding chosen_def by blast

definition task1 :: task where
  "task1 = task0\<lparr>t_state := ts_runnable, t_ticks := 0, t_priority := 20\<rparr>"

theorem find_next_runnable_terminates_witness:
  "\<exists>s' next. find_next_runnable (kernel0\<lparr>runqueue := [0x1000, 0x2000], tasks := (\<lambda>_. task1)\<rparr>) = Some (s', next)"
  using find_next_runnable_terminates [of "kernel0\<lparr>runqueue := [0x1000, 0x2000], tasks := (\<lambda>_. task1)\<rparr>"]
  by (auto simp: ticks_ok_def task1_def)

section \<open>New tasks\<close>

lemma bootstrap_stack_words:
  assumes "word_aligned sp"
  shows "let m' = bootstrap_stack sp init ds ent cs m
    in load32 m' sp = 0 \<and> load32 m' (sp + 4) = 0 \<and> load32 m' (sp + 8) = 0 \<and> load32 m' (sp + 12) = 0 \<and>
       load32 m' (sp + 16) = init \<and> load32 m' (sp + 20) = ds \<and> load32 m' (sp + 24) = ent \<and> load32 m' (sp + 28) = cs \<and>
       load32 m' (sp + 32) = 0x200"
  using assms by (simp add: bootstrap_stack_def load32_store32_other Let_def)

text \<open>Where the bootstrap stack of a task lies, and the words of it that a kernel task uses.\<close>

definition boot_sp :: "u32 \<Rightarrow> u32" where
  "boot_sp kstack = kstack + 2 * TASK_STACK_SIZE - SIZEOF_NEW_TASK_STACK"

definition boot_words :: "u32 \<Rightarrow> u32 set" where
  "boot_words k = {k, k + 4, k + 8, k + 12, k + 16, k + 20, k + 24, k + 28, k + 32}"

lemma task_create_kernel:
  assumes "e_kmalloc env SIZEOF_TASK s = Some (s1, new)" "new \<noteq> 0"
    and "e_kmalloc env (2 * TASK_STACK_SIZE) (upd_task new (\<lambda>_. task0) s1) = Some (s2, kstack)" "kstack \<noteq> 0"
    and "0 \<le> cli_depth s2" "0 \<le> last_tid s2"
  shows "\<exists>s'. task_create env func ctx name False s = Some (s', last_tid s2) \<and> runqueue s' = runqueue s2 @ [new] \<and>
    t_k_esp (tasks s' new) = boot_sp kstack \<and> t_state (tasks s' new) = ts_runnable \<and> last_tid s' = last_tid s2 + 1 \<and>
    kmem s' = bootstrap_stack (boot_sp kstack) (e_task_init env) GDT_KERNEL_DATA (e_task_entry_point env) GDT_KERNEL_CODE (kmem s2)"
  using assms
  by (simp add: task_create_def task_prepare_def to_runqueue_def cli_push_def cli_pop_def cli_def sti_def upd_mem_def boot_sp_def Let_def)
    (simp add: upd_task_def)

lemma first_switch:
  assumes "prev \<noteq> new" "t_k_esp (tasks s new) = k" "word_aligned k" "word_aligned (r_esp (cpu_regs s))"
    and "frame_words (r_esp (cpu_regs s)) \<inter> boot_words k = {}"
    and "kmem s = bootstrap_stack k init ds ent cs m"
  shows "let s1 = switch_to prev new s
    in r_eip (cpu_regs s1) = init \<and> r_esp (cpu_regs s1) = k + 20 \<and> load32 (kmem s1) (k + 20) = ds \<and>
       load32 (kmem s1) (k + 24) = ent \<and> load32 (kmem s1) (k + 28) = cs \<and> load32 (kmem s1) (k + 32) = 0x200"
proof -
  have l: "load32 (kmem (switch_to prev new s)) x = load32 (kmem s) x" if "x \<in> boot_words k" for x
    using that assms(5) by (intro switch_keeps [OF assms(1,4)]) (use assms(3) in \<open>auto simp: boot_words_def\<close>)
  have "r_eip (cpu_regs (switch_to prev new s)) = load32 (kmem (switch_to prev new s)) (k + 16)"
    "r_esp (cpu_regs (switch_to prev new s)) = k + 20"
    using assms(1,2) by (simp_all add: switch_to_eq Let_def)
  then show ?thesis
    using bootstrap_stack_words [OF assms(3), of init ds ent cs m] l assms(6) by (simp add: Let_def boot_words_def)
qed

lemma task_init_kernel:
  assumes "r_esp (cpu_regs s) = k + 20" "load32 (kmem s) (k + 20) = ds" "load32 (kmem s) (k + 24) = ent"
    "load32 (kmem s) (k + 28) = GDT_KERNEL_CODE" "load32 (kmem s) (k + 32) = 0x200"
  shows "eflags_if (task_init s)" "cpu_regs (task_init s) = (cpu_regs s)\<lparr>r_eip := ent, r_cs := GDT_KERNEL_CODE,
    r_ds := ds, r_eax := 0, r_ebx := 0, r_ecx := 0, r_edx := 0, r_esi := 0, r_edi := 0, r_ebp := 0, r_esp := k + 36\<rparr>"
  using assms by (simp_all add: task_init_def iret_def pop_reg_def Let_def add.assoc)


definition env0 :: "'s task_env" where
  "env0 = \<lparr>e_kmalloc = (\<lambda>n s. Some (s, if n = SIZEOF_TASK then 0x5000 else 0x8000)), e_kzalloc = (\<lambda>n s. Some (s, 0x6000)),
     e_kfree = (\<lambda>p s. Some s), e_vfs_open_file = (\<lambda>p s. Some (s, 0)), e_mprotect = (\<lambda>a l p s. Some (s, 0)),
     e_task_init = 0xC0001000, e_task_entry_point = 0xC0002000\<rparr>"


section \<open>Ending tasks\<close>

lemma wake_waiters_sel [simp]:
  "runqueue (wake_waiters r ws s) = runqueue s" "current (wake_waiters r ws s) = current s"
  by (induction ws arbitrary: s) auto

lemma wake_waiters_tasks:
  "tasks (wake_waiters r ws s) x = (if x \<in> set ws then (tasks s x)\<lparr>t_wait_retval := r, t_state := ts_runnable\<rparr> else tasks s x)"
  by (induction ws arbitrary: s) auto

abbreviation stopping :: "'a kernel_scheme \<Rightarrow> u32 \<Rightarrow> bool" where
  "stopping s t \<equiv> t_state (tasks s t) = ts_stopping"

text \<open>What the reaper relies on: freeing a block always returns and does not touch the scheduler's data.\<close>

definition frees_ok :: "(u32 \<Rightarrow> 'a kernel_scheme \<Rightarrow> 'a kernel_scheme option) \<Rightarrow> bool" where
  "frees_ok free \<longleftrightarrow> (\<forall>p s. \<exists>s'. free p s = Some s' \<and> tasks s' = tasks s \<and> runqueue s' = runqueue s \<and> current s' = current s)"

lemma reap_one:
  assumes "frees_ok free" "stopping s t" "t \<noteq> current s"
  shows "\<exists>s1. reap_tasks free (t # ts) s = reap_tasks free ts s1 \<and> current s1 = current s \<and> runqueue s1 = remove1 t (runqueue s) \<and>
    (\<forall>x. tasks s1 x = (if x \<in> set (t_waiters (tasks s t))
      then ((tasks s)(t := (tasks s t)\<lparr>t_waiters := []\<rparr>)) x\<lparr>t_wait_retval := t_ret (tasks s t), t_state := ts_runnable\<rparr>
      else ((tasks s)(t := (tasks s t)\<lparr>t_waiters := []\<rparr>)) x))"
proof -
  let ?s0 = "wake_waiters (t_ret (tasks s t)) (t_waiters (tasks s t)) (upd_task t (\<lambda>k. k\<lparr>t_waiters := []\<rparr>) (s\<lparr>runqueue := remove1 t (runqueue s)\<rparr>))"
  have f: "\<exists>s'. free p s = Some s' \<and> tasks s' = tasks s \<and> runqueue s' = runqueue s \<and> current s' = current s" for p s
    using assms(1) by (simp add: frees_ok_def)
  obtain s1 where s1: "(if t_stack_user (tasks ?s0 t) \<noteq> 0 then free (t_stack_user (tasks ?s0 t)) ?s0 else Some ?s0) = Some s1"
    "tasks s1 = tasks ?s0" "runqueue s1 = runqueue ?s0" "current s1 = current ?s0"
    using f [of "t_stack_user (tasks ?s0 t)" ?s0] by (cases "t_stack_user (tasks ?s0 t) \<noteq> 0") auto
  obtain s2 where s2: "(if t_files (tasks s1 t) \<noteq> 0 then free (t_files (tasks s1 t)) s1 else Some s1) = Some s2"
    "tasks s2 = tasks s1" "runqueue s2 = runqueue s1" "current s2 = current s1"
    using f [of "t_files (tasks s1 t)" s1] by (cases "t_files (tasks s1 t) \<noteq> 0") auto
  obtain s3 where s3: "free (t_stack_kernel (tasks s2 t)) s2 = Some s3" "tasks s3 = tasks s2" "runqueue s3 = runqueue s2" "current s3 = current s2"
    using f by blast
  obtain s4 where s4: "free t s3 = Some s4" "tasks s4 = tasks s3" "runqueue s4 = runqueue s3" "current s4 = current s3"
    using f by blast
  have "reap_tasks free (t # ts) s = reap_tasks free ts s4"
    using assms(2,3) s1(1) s2(1) s3(1) s4(1) by (simp cong: if_cong)
  then show ?thesis
    using s1 s2 s3 s4 by (intro exI [of _ s4]) (simp add: wake_waiters_tasks)
qed

definition waits_for :: "'a kernel_scheme \<Rightarrow> u32 list \<Rightarrow> u32 \<Rightarrow> u32 \<Rightarrow> bool" where
  "waits_for s ts w t \<longleftrightarrow> t \<in> set ts \<and> stopping s t \<and> w \<in> set (t_waiters (tasks s t))"

lemma reap_tasks_ok:
  assumes "frees_ok free" "distinct ts" "\<not> stopping s (current s)"
    and "\<forall>w t. waits_for s ts w t \<longrightarrow> \<not> stopping s w"
    and "\<forall>w t t'. waits_for s ts w t \<longrightarrow> waits_for s ts w t' \<longrightarrow> t = t'"
  shows "\<exists>s'. reap_tasks free ts s = Some s' \<and> current s' = current s \<and>
    runqueue s' = fold remove1 (filter (stopping s) ts) (runqueue s) \<and>
    (\<forall>x. t_state (tasks s' x) = (if \<exists>t. waits_for s ts x t then ts_runnable else t_state (tasks s x))) \<and>
    (\<forall>w. (\<nexists>t. waits_for s ts w t) \<longrightarrow> t_wait_retval (tasks s' w) = t_wait_retval (tasks s w)) \<and>
    (\<forall>w t. waits_for s ts w t \<longrightarrow> t_wait_retval (tasks s' w) = t_ret (tasks s t))"
  using assms(2-)
proof (induction ts arbitrary: s)
  case Nil
  then show ?case by (simp add: waits_for_def)
next
  case (Cons t ts)
  show ?case
  proof (cases "stopping s t")
    case False
    have "waits_for s (t # ts) w x \<longleftrightarrow> waits_for s ts w x" for w x using False by (auto simp: waits_for_def)
    then show ?thesis using Cons.IH [of s] Cons.prems False by simp
  next
    case True
    then have "t \<noteq> current s" using Cons.prems(2) by auto
    from reap_one [OF assms(1) True this, of ts] obtain s1 where s1: "reap_tasks free (t # ts) s = reap_tasks free ts s1"
      "current s1 = current s" "runqueue s1 = remove1 t (runqueue s)"
      "\<And>x. tasks s1 x = (if x \<in> set (t_waiters (tasks s t))
        then ((tasks s)(t := (tasks s t)\<lparr>t_waiters := []\<rparr>)) x\<lparr>t_wait_retval := t_ret (tasks s t), t_state := ts_runnable\<rparr>
        else ((tasks s)(t := (tasks s t)\<lparr>t_waiters := []\<rparr>)) x)" by blast
    have wt: "w \<in> set (t_waiters (tasks s t)) \<longleftrightarrow> waits_for s (t # ts) w t" for w using True by (simp add: waits_for_def)
    have ns: "\<not> stopping s w" if "w \<in> set (t_waiters (tasks s t))" for w using that Cons.prems(3) wt by blast
    have st: "t_state (tasks s1 x) = (if x \<in> set (t_waiters (tasks s t)) then ts_runnable else t_state (tasks s x))" for x
      by (simp add: s1(4))
    have same: "tasks s1 x = tasks s x" if "stopping s x" "x \<noteq> t" for x using that ns [of x] by (auto simp: s1(4))
    have wf: "waits_for s1 ts w x \<longleftrightarrow> x \<noteq> t \<and> waits_for s (t # ts) w x" for w x
    proof (cases "x = t")
      case True
      then show ?thesis using Cons.prems(1) by (auto simp: waits_for_def)
    next
      case False
      then show ?thesis using same [of x] ns [of x] by (auto simp: waits_for_def st split: if_splits)
    qed
    have filt: "filter (stopping s1) ts = filter (stopping s) ts"
      using ns by (intro filter_cong) (auto simp: st)
    have pre: "distinct ts" "\<not> stopping s1 (current s1)"
      "\<forall>w x. waits_for s1 ts w x \<longrightarrow> \<not> stopping s1 w"
      "\<forall>w x x'. waits_for s1 ts w x \<longrightarrow> waits_for s1 ts w x' \<longrightarrow> x = x'"
      using Cons.prems s1(2) by (auto simp: wf st)
    obtain s' where s': "reap_tasks free ts s1 = Some s'" "current s' = current s1"
      "runqueue s' = fold remove1 (filter (stopping s) ts) (runqueue s1)"
      "\<forall>x. t_state (tasks s' x) = (if \<exists>y. waits_for s1 ts x y then ts_runnable else t_state (tasks s1 x))"
      "\<forall>w. (\<nexists>y. waits_for s1 ts w y) \<longrightarrow> t_wait_retval (tasks s' w) = t_wait_retval (tasks s1 w)"
      "\<forall>w y. waits_for s1 ts w y \<longrightarrow> t_wait_retval (tasks s' w) = t_ret (tasks s1 y)"
      using Cons.IH [OF pre] unfolding filt by blast
    have st': "t_state (tasks s' x) = (if \<exists>y. waits_for s (t # ts) x y then ts_runnable else t_state (tasks s x))" for x
      using s'(4) wt [of x] by (auto simp: wf st)
    have rv: "t_wait_retval (tasks s' w) = t_ret (tasks s y)" if "waits_for s (t # ts) w y" for w y
    proof (cases "y = t")
      case True
      then have "\<nexists>z. waits_for s1 ts w z" using that Cons.prems(4) by (auto simp: wf)
      then show ?thesis using s'(5) that True wt [of w] by (simp add: s1(4))
    next
      case False
      then have "stopping s y" using that by (simp add: waits_for_def)
      then show ?thesis using s'(6) that False same [of y] by (simp add: wf)
    qed
    have rv0: "t_wait_retval (tasks s' w) = t_wait_retval (tasks s w)" if "\<nexists>y. waits_for s (t # ts) w y" for w
      using that s'(5) wt [of w] by (auto simp: wf s1(4))
    show ?thesis
      using s'(1-3) s1(1-3) True st' rv rv0 by (intro exI [of _ s']) simp
  qed
qed

lemma fold_remove1: "distinct ys \<Longrightarrow> fold remove1 xs ys = filter (\<lambda>y. y \<notin> set xs) ys"
  by (induction xs arbitrary: ys) (auto simp: distinct_remove1_removeAll removeAll_filter_not_eq filter_filter intro: filter_cong)


definition kernel2 :: kernel where
  "kernel2 = kernel0\<lparr>runqueue := [0x1000, 0x2000], tasks := (\<lambda>_. task1)(0x2000 := task1\<lparr>t_state := ts_stopping, t_ret := 7, t_waiters := [0x1000]\<rparr>)\<rparr>"

lemma kernel2_sel:
  "runqueue kernel2 = [0x1000, 0x2000]" "current kernel2 = 0x1000"
  "t_state (tasks kernel2 t) = (if t = 0x2000 then ts_stopping else ts_runnable)"
  "t_ret (tasks kernel2 0x2000) = 7" "t_waiters (tasks kernel2 0x2000) = [0x1000]"
  by (simp_all add: kernel2_def task1_def)


text \<open>
  A task that is killed while it waits for a semaphore stays in its list of waiters; the next post
  makes the stopping task runnable again.
\<close>

lemma kill_then_post_revives:
  assumes "t \<noteq> current s" "sem_waiters (sems s i) = t # ws" "i \<noteq> Reaper_call"
  shows "\<exists>s1 r. task_kill others t s = Some (s1, r) \<and> t_state (tasks (sem_post i s1) t) = ts_runnable"
  using assms by (simp add: task_kill_def sem_post_tasks woken_def)

text \<open>\<open>wait_tid\<close> for a task that is gone returns with the interrupt section still open.\<close>

lemma wait_tid_leaks_cli:
  assumes "1 \<le> tid" "t_wait_retval (tasks s (current s)) = 0" "\<forall>t\<in>set (runqueue s). t_id (tasks s t) \<noteq> tid"
  shows "\<exists>s'. wait_tid others tid s = Some (s', -1) \<and> cli_depth s' = cli_depth s + 1 \<and> \<not> eflags_if s'"
proof -
  have "find (\<lambda>t. t_id (tasks s t) = tid) (runqueue s) = None" using assms(3) by (auto simp: find_None_iff)
  then have "find_task tid (cli_push s) = 0" by (simp add: find_task_def cli_push_def cli_def Let_def)
  then show ?thesis using assms by (simp add: wait_tid_def cli_push_def cli_def Let_def)
qed

text \<open>An available semaphore is taken at once.\<close>

lemma sem_pend_available:
  assumes "sem_count (sems s i) \<noteq> 0"
  shows "sem_pend others i s = Some (upd_sem i (\<lambda>q. q\<lparr>sem_count := sem_count q - 1\<rparr>) s)"
  using assms by (subst sem_pend.simps) (simp add: TRIES_def numeral_2_eq_2 cmpxchg_def Let_def upd_sem_def)

end
