(* ===== verification/Sync.thy ===== *)
theory Sync
  imports Sched
begin

text \<open>
  The semaphores of \<open>kernel/sync.c\<close> under preemption. Theory Sched has \<open>sem_pend\<close> and \<open>sem_post\<close> as
  functions of one task; here every task has a program counter inside of them and the tasks
  interleave at each access to the count and to the list of waiters, as they do on the code's
  single CPU with interrupts enabled. The theorem says that a semaphore never admits more holders
  than it was initialised with; a lemma shows the interleaving in which a wake-up is lost.
\<close>

section \<open>Interleaved semaphore operations\<close>

text \<open>
  \<open>Try t\<close>: before the read of the count in round \<open>t\<close>; \<open>Swap t val\<close>: before the compare-and-exchange;
  \<open>Block\<close>: after the last failed try; \<open>Asleep\<close>: in the list of waiters; \<open>Held\<close>: \<open>sem_pend\<close> has returned;
  \<open>Wake\<close>: in \<open>sem_post\<close>, after the increment.
\<close>

datatype pc = Idle | Try nat | Swap nat u32 | Block | Asleep | Held | Wake

record sem_conf =
  c_sem :: semaphore
  c_pc :: "u32 \<Rightarrow> pc"

definition next_try :: "nat \<Rightarrow> pc" where
  "next_try t = (if Suc t < TRIES then Try (Suc t) else Block)"

inductive sem_step :: "u32 set \<Rightarrow> sem_conf \<Rightarrow> sem_conf \<Rightarrow> bool" for T where
  pend: "a \<in> T \<Longrightarrow> c_pc c a = Idle \<Longrightarrow> sem_step T c (c\<lparr>c_pc := (c_pc c)(a := Try 0)\<rparr>)"
| read: "a \<in> T \<Longrightarrow> c_pc c a = Try t \<Longrightarrow> val = sem_count (c_sem c) \<Longrightarrow>
    sem_step T c (c\<lparr>c_pc := (c_pc c)(a := if val \<noteq> 0 then Swap t val else next_try t)\<rparr>)"
| swap: "a \<in> T \<Longrightarrow> c_pc c a = Swap t val \<Longrightarrow> cmpxchg (sem_count (c_sem c)) val (val - 1) = (cell, ret) \<Longrightarrow>
    sem_step T c (c\<lparr>c_sem := (c_sem c)\<lparr>sem_count := cell\<rparr>,
      c_pc := (c_pc c)(a := if ret = val then Held else next_try t)\<rparr>)"
| block: "a \<in> T \<Longrightarrow> c_pc c a = Block \<Longrightarrow>
    sem_step T c (c\<lparr>c_sem := (c_sem c)\<lparr>sem_waiters := sem_waiters (c_sem c) @ [a]\<rparr>, c_pc := (c_pc c)(a := Asleep)\<rparr>)"
| post: "a \<in> T \<Longrightarrow> c_pc c a = Held \<Longrightarrow>
    sem_step T c (c\<lparr>c_sem := (c_sem c)\<lparr>sem_count := sem_count (c_sem c) + 1\<rparr>, c_pc := (c_pc c)(a := Wake)\<rparr>)"
| wake_none: "a \<in> T \<Longrightarrow> c_pc c a = Wake \<Longrightarrow> sem_waiters (c_sem c) = [] \<Longrightarrow>
    sem_step T c (c\<lparr>c_pc := (c_pc c)(a := Idle)\<rparr>)"
| wake_one: "a \<in> T \<Longrightarrow> c_pc c a = Wake \<Longrightarrow> sem_waiters (c_sem c) = w # ws \<Longrightarrow>
    sem_step T c (c\<lparr>c_sem := (c_sem c)\<lparr>sem_waiters := ws\<rparr>, c_pc := (c_pc c)(a := Idle, w := Try 0)\<rparr>)"

definition sem_start :: "u32 \<Rightarrow> sem_conf" where
  "sem_start n = \<lparr>c_sem = \<lparr>sem_count = n, sem_waiters = []\<rparr>, c_pc = (\<lambda>_. Idle)\<rparr>"

definition holders :: "u32 set \<Rightarrow> sem_conf \<Rightarrow> u32 set" where
  "holders T c = {a \<in> T. c_pc c a = Held}"

section \<open>Safety\<close>

text \<open>The count and the holders add up, and sleepers are exactly the waiters.\<close>

definition sem_inv :: "u32 set \<Rightarrow> u32 \<Rightarrow> sem_conf \<Rightarrow> bool" where
  "sem_inv T n c \<longleftrightarrow> unat (sem_count (c_sem c)) + card (holders T c) = unat n \<and>
     distinct (sem_waiters (c_sem c)) \<and> set (sem_waiters (c_sem c)) = {a \<in> T. c_pc c a = Asleep} \<and>
     (\<forall>a t val. c_pc c a = Swap t val \<longrightarrow> val \<noteq> 0)"

lemma holders_upd:
  assumes "finite T" "a \<in> T"
  shows "card (holders T (c\<lparr>c_pc := (c_pc c)(a := p)\<rparr>)) =
    (if p = Held then (if c_pc c a = Held then card (holders T c) else Suc (card (holders T c)))
     else if c_pc c a = Held then card (holders T c) - 1 else card (holders T c))"
proof -
  have "finite (holders T c)" using assms(1) by (simp add: holders_def)
  moreover have "holders T (c\<lparr>c_pc := (c_pc c)(a := p)\<rparr>) = (if p = Held then insert a (holders T c) else holders T c - {a})"
    using assms(2) by (auto simp: holders_def)
  moreover have "a \<in> holders T c \<longleftrightarrow> c_pc c a = Held" using assms(2) by (simp add: holders_def)
  ultimately show ?thesis by (simp add: card_insert_if)
qed

lemma holders_sem [simp]: "holders T (c\<lparr>c_sem := q, c_pc := p\<rparr>) = holders T (c\<lparr>c_pc := p\<rparr>)"
  by (simp add: holders_def)

lemma next_try_simps [simp]: "next_try t \<noteq> Held" "next_try t \<noteq> Asleep" "next_try t \<noteq> Swap k v"
  by (simp_all add: next_try_def)

lemma sem_inv_step:
  assumes "sem_step T c c'" "sem_inv T n c" "finite T"
  shows "sem_inv T n c'"
  using assms(1)
proof cases
  case (read a t val)
  then show ?thesis using assms(2) holders_upd [OF assms(3) read(2), of c] by (auto simp: sem_inv_def)
next
  case (swap a t val cell ret)
  have nz: "val \<noteq> 0" using assms(2) swap(3) by (auto simp: sem_inv_def)
  show ?thesis
  proof (cases "sem_count (c_sem c) = val")
    case True
    then have "cell = val - 1" "ret = val" using swap(4) by (auto simp: cmpxchg_def)
    moreover have "unat (val - 1) = unat val - 1" "0 < unat val" using nz by (simp_all add: unat_minus_one unat_gt_0)
    ultimately show ?thesis
      using swap assms(2) True holders_upd [OF assms(3) swap(2), of c Held] by (auto simp: sem_inv_def)
  next
    case False
    then have "cell = sem_count (c_sem c)" "ret \<noteq> val" using swap(4) by (auto simp: cmpxchg_def)
    then show ?thesis
      using swap assms(2) holders_upd [OF assms(3) swap(2), of c "next_try t"] by (auto simp: sem_inv_def)
  qed
next
  case (post a)
  have "a \<in> holders T c" "finite (holders T c)" using post assms(3) by (simp_all add: holders_def)
  then have h: "0 < card (holders T c)" by (auto simp: card_gt_0_iff)
  then have "unat (sem_count (c_sem c)) + 1 < 2 ^ 32"
    using assms(2) unat_lt32 [of n] by (simp add: sem_inv_def)
  then have "unat (sem_count (c_sem c) + 1) = unat (sem_count (c_sem c)) + 1" by (simp add: unat_add_small)
  then show ?thesis
    using post assms(2) h holders_upd [OF assms(3) post(2), of c Wake] by (auto simp: sem_inv_def)
next
  case (wake_one a w ws)
  have w: "w \<in> T" "c_pc c w = Asleep" using wake_one assms(2) by (auto simp: sem_inv_def)
  have "holders T c' = holders T c" using wake_one w by (auto simp: holders_def)
  then show ?thesis using wake_one assms(2) w by (auto simp: sem_inv_def)
qed (use assms(2,3) in \<open>auto simp: sem_inv_def holders_upd\<close>)

lemma sem_inv_reachable:
  assumes "(sem_step T)\<^sup>*\<^sup>* (sem_start n) c" "finite T"
  shows "sem_inv T n c"
  using assms(1)
proof (induction rule: rtranclp_induct)
  case base
  show ?case by (auto simp: sem_inv_def sem_start_def holders_def)
next
  case (step y z)
  then show ?case using sem_inv_step [OF step(2) _ assms(2)] by simp
qed

section \<open>Claims\<close>


definition two_tasks :: "u32 \<Rightarrow> pc \<Rightarrow> pc \<Rightarrow> sem_conf" where
  "two_tasks n p q = \<lparr>c_sem = \<lparr>sem_count = n, sem_waiters = []\<rparr>, c_pc = (\<lambda>_. Idle)(1 := p, 2 := q)\<rparr>"

lemma first_takes: "(sem_step {1, 2})\<^sup>*\<^sup>* (sem_start 1) (two_tasks 0 Held Idle)"
proof -
  let ?T = "{1, 2} :: u32 set"
  have "(sem_step ?T)\<^sup>*\<^sup>* (sem_start 1) (two_tasks 1 Idle Idle)" by (simp add: sem_start_def two_tasks_def fun_upd_idem)
  moreover have "sem_step ?T (two_tasks 1 Idle Idle) (two_tasks 1 (Try 0) Idle)"
    using sem_step.pend [of 1 ?T "two_tasks 1 Idle Idle"] by (simp add: two_tasks_def fun_upd_twist)
  moreover have "sem_step ?T (two_tasks 1 (Try 0) Idle) (two_tasks 1 (Swap 0 1) Idle)"
    using sem_step.read [of 1 ?T "two_tasks 1 (Try 0) Idle" 0 1] by (simp add: two_tasks_def fun_upd_twist)
  moreover have "sem_step ?T (two_tasks 1 (Swap 0 1) Idle) (two_tasks 0 Held Idle)"
    using sem_step.swap [of 1 ?T "two_tasks 1 (Swap 0 1) Idle" 0 1 0 1] by (simp add: two_tasks_def fun_upd_twist cmpxchg_def)
  ultimately show ?thesis by (meson rtranclp.rtrancl_into_rtrancl)
qed


text \<open>
  The lost wake-up: between the last look at the count and going to sleep the other task posts and
  finds no waiter. The sleeper stays asleep with the semaphore free and nobody left to wake it.
\<close>

lemma lost_wakeup:
  "\<exists>c. (sem_step {1, 2})\<^sup>*\<^sup>* (sem_start 1) c \<and> sem_count (c_sem c) = 1 \<and> c_pc c 1 = Idle \<and> c_pc c 2 = Asleep"
proof -
  let ?T = "{1, 2} :: u32 set" and ?stuck = "\<lparr>c_sem = \<lparr>sem_count = 1, sem_waiters = [2]\<rparr>, c_pc = (\<lambda>_. Idle)(1 := Idle, 2 := Asleep)\<rparr>"
  have "sem_step ?T (two_tasks 0 Held Idle) (two_tasks 0 Held (Try 0))"
    using sem_step.pend [of 2 ?T "two_tasks 0 Held Idle"] by (simp add: two_tasks_def)
  moreover have "sem_step ?T (two_tasks 0 Held (Try 0)) (two_tasks 0 Held (Try 1))"
    using sem_step.read [of 2 ?T "two_tasks 0 Held (Try 0)" 0 0] by (simp add: two_tasks_def next_try_def TRIES_def)
  moreover have "sem_step ?T (two_tasks 0 Held (Try 1)) (two_tasks 0 Held Block)"
    using sem_step.read [of 2 ?T "two_tasks 0 Held (Try 1)" 1 0] by (simp add: two_tasks_def next_try_def TRIES_def)
  moreover have "sem_step ?T (two_tasks 0 Held Block) (two_tasks 1 Wake Block)"
    using sem_step.post [of 1 ?T "two_tasks 0 Held Block"] by (simp add: two_tasks_def fun_upd_twist)
  moreover have "sem_step ?T (two_tasks 1 Wake Block) (two_tasks 1 Idle Block)"
    using sem_step.wake_none [of 1 ?T "two_tasks 1 Wake Block"] by (simp add: two_tasks_def fun_upd_twist)
  moreover have "sem_step ?T (two_tasks 1 Idle Block) ?stuck"
    using sem_step.block [of 2 ?T "two_tasks 1 Idle Block"] by (simp add: two_tasks_def)
  ultimately have "(sem_step ?T)\<^sup>*\<^sup>* (sem_start 1) ?stuck" using first_takes by (meson rtranclp.rtrancl_into_rtrancl)
  then show ?thesis by (intro exI [of _ ?stuck]) simp
qed

end
