(* ===== verification/Timer.thy ===== *)
theory Timer
  imports Sched
begin

text \<open>
  The timer interrupt and sleeping, \<open>kernel/timer.c\<close>, and the uptime of \<open>include/timer.h\<close>. The theorems:
  the clock counts every interrupt plus the accumulated fractions without drift, a task with ticks
  left gets the CPU within as many interrupts as there are ticks left, and the printed uptime is the
  clock in mixed radix.
\<close>

section \<open>Operations\<close>

definition irq0_fractions_per_tick :: u32 where "irq0_fractions_per_tick = 654025"

definition do_timer :: "'a kernel_scheme \<Rightarrow> 'a kernel_scheme option" where
  "do_timer s =
     (let s = s\<lparr>system_uptime_ms := system_uptime_ms s + 1\<rparr>;
          s = s\<lparr>irq0_fractions := irq0_fractions s + irq0_fractions_per_tick\<rparr>;
          s = (if irq0_fractions s < irq0_fractions_prev s then s\<lparr>system_uptime_ms := system_uptime_ms s + 1\<rparr> else s);
          s = s\<lparr>irq0_fractions_prev := irq0_fractions s\<rparr>;
          s = upd_task (current s) (\<lambda>k. k\<lparr>t_ticks := t_ticks k - 1\<rparr>) s
      in if t_ticks (tasks s (current s)) > 0 then Some s
         else sched (upd_task (current s) (\<lambda>k. k\<lparr>t_ticks := 0\<rparr>) s))"

definition sleep :: "('a kernel_scheme \<Rightarrow> 'a kernel_scheme option) \<Rightarrow> u32 \<Rightarrow> 'a kernel_scheme \<Rightarrow> 'a kernel_scheme option" where
  "sleep others ms s = do {
     s \<leftarrow> Some (set_state (current s) ts_sleeping s);
     s \<leftarrow> Some (upd_task (current s) (\<lambda>k. k\<lparr>t_sleep_till := system_uptime_ms s + ms\<rparr>) s);
     s \<leftarrow> Some (cli_push s);
     s \<leftarrow> sched_and_return others s;
     s \<leftarrow> cli_pop s;
     Some (upd_task (current s) (\<lambda>k. k\<lparr>t_sleep_till := 0\<rparr>) s)
   }"

record uptime =
  u_w :: u32
  u_d :: u32
  u_h :: u32
  u_m :: u32
  u_s :: u32
  u_ms :: u32

abbreviation S_MS :: u32 where "S_MS \<equiv> 1000"
abbreviation M_MS :: u32 where "M_MS \<equiv> S_MS * 60"
abbreviation H_MS :: u32 where "H_MS \<equiv> M_MS * 60"
abbreviation D_MS :: u32 where "D_MS \<equiv> H_MS * 24"
abbreviation W_MS :: u32 where "W_MS \<equiv> D_MS * 7"

definition get_uptime :: "'a kernel_scheme \<Rightarrow> uptime" where
  "get_uptime s =
     (let ms = system_uptime_ms s;
          w = ms div W_MS; ms = ms - w * W_MS;
          d = ms div D_MS; ms = ms - d * D_MS;
          h = ms div H_MS; ms = ms - h * H_MS;
          m = ms div M_MS; ms = ms - m * M_MS;
          sec = ms div S_MS; ms = ms - sec * S_MS
      in \<lparr>u_w = w, u_d = d, u_h = h, u_m = m, u_s = sec, u_ms = ms\<rparr>)"

section \<open>The clock\<close>

definition clock :: "'a kernel_scheme \<Rightarrow> u32 \<times> u32 \<times> u32" where
  "clock s = (system_uptime_ms s, irq0_fractions s, irq0_fractions_prev s)"

lemma clock_upd [simp]: "clock (upd_task t f s) = clock s" "clock (upd_sem i g s) = clock s" "clock (sem_post i s) = clock s"
  by (simp_all add: clock_def upd_task_def upd_sem_def sem_post_def Let_def split: list.splits)

lemma clock_update [simp]: "clock (update_task_state t ms s) = clock s"
  by (simp add: update_task_state_def Let_def)

lemma clock_scan: "scan_tasks ms ts s n m = (s', n', m') \<Longrightarrow> clock s' = clock s"
  by (induction ts arbitrary: s n m) (fastforce simp: Let_def split: if_splits)+

lemma clock_recharge [simp]: "clock (recharge ts s) = clock s"
  by (induction ts arbitrary: s) auto

lemma clock_loop: "next_runnable_loop ms s = Some r \<Longrightarrow> clock (fst r) = clock s"
proof (induction rule: next_runnable_loop.raw_induct [rotated, consumes 1, case_names step])
  case (step loop ms s r)
  obtain s1 n m where "scan_tasks ms (runqueue s) s 0 (-1) = (s1, n, m)" by (cases "scan_tasks ms (runqueue s) s 0 (-1)")
  with step clock_scan [OF this] show ?case by (cases "m = 0") auto
qed

lemma clock_regs [simp]:
  "clock (s\<lparr>cpu_regs := r\<rparr>) = clock s" "clock (s\<lparr>tss_esp0 := e\<rparr>) = clock s" "clock (push_reg v s) = clock s" "clock (fst (pop_reg s)) = clock s"
  by (simp_all add: clock_def push_reg_def pop_reg_def Let_def)

lemma clock_set_current [simp]: "clock (set_current n s) = clock s"
proof -
  have "clock (x\<lparr>current := n, cli_depth := a, cli_int_enabled := b, sti_depth := c, sti_int_disabled := d\<rparr>) = clock x" for x :: "'a kernel_scheme" and a b c d
    by (simp add: clock_def)
  then show ?thesis by (simp add: set_current_def Let_def)
qed

lemma clock_switch [simp]: "clock (switch_to a b s) = clock s"
  by (simp add: switch_to_def Let_def case_prod_unfold)

lemma clock_sched:
  assumes "sched s = Some s'"
  shows "clock s' = clock s"
proof -
  obtain s1 n where "find_next_runnable s = Some (s1, n)" using assms by (auto simp: sched_def split: Option.bind_splits)
  then have "clock s1 = clock s" using clock_loop [of "system_uptime_ms s" s "(s1, n)"] by (simp add: find_next_runnable_def)
  then show ?thesis using assms \<open>find_next_runnable s = Some (s1, n)\<close> by (auto simp: sched_def Let_def split: if_splits)
qed

definition tick_clock :: "u32 \<times> u32 \<times> u32 \<Rightarrow> u32 \<times> u32 \<times> u32" where
  "tick_clock = (\<lambda>(up, fr, pr). let fr' = fr + irq0_fractions_per_tick in (if fr' < pr then up + 2 else up + 1, fr', fr'))"

lemma clock_do_timer: "do_timer s = Some s' \<Longrightarrow> clock s' = tick_clock (clock s)"
  by (auto simp: do_timer_def Let_def tick_clock_def clock_def upd_task_def split: if_splits dest!: clock_sched)

lemma div_step:
  fixes a c m :: nat
  assumes "c < m"
  shows "(a + c) div m = a div m + (if (a + c) mod m < a mod m then 1 else 0)"
proof (cases "a mod m + c < m")
  case True
  have "(a + c) mod m = a mod m + c" using mod_add_left_eq [of a m c] True by simp
  moreover have "(a + c) div m = a div m"
    using div_add1_eq [of a c m] assms True by simp
  ultimately show ?thesis by simp
next
  case False
  have r: "a mod m < m" using assms by simp
  then have lt: "m \<le> a mod m + c" "a mod m + c - m < m" using False assms by linarith+
  then have "(a mod m + c) mod m = a mod m + c - m" by (simp add: le_mod_geq)
  then have "(a + c) mod m = a mod m + c - m" using mod_add_left_eq [of a m c] by simp
  moreover have "(a mod m + c) div m = 1" using lt assms by (simp add: le_div_geq)
  then have "(a + c) div m = a div m + 1" using div_add1_eq [of a c m] assms by simp
  moreover have "a mod m + c - m < a mod m" using lt(1) assms by linarith
  ultimately show ?thesis by simp
qed

lemma of_nat_less_mod: "(of_nat a :: u32) < of_nat b \<longleftrightarrow> a mod 2 ^ 32 < b mod 2 ^ 32"
  by (simp add: word_less_nat_alt unsigned_of_nat take_bit_eq_mod)

lemma tick_clock_gen:
  assumes "unat irq0_fractions_per_tick = c"
  shows "tick_clock (of_nat (n + a div 2 ^ 32), of_nat a, of_nat a) =
    (of_nat (Suc n + (a + c) div 2 ^ 32), of_nat (a + c), of_nat (a + c))"
proof -
  have c: "irq0_fractions_per_tick = of_nat c" "c < 2 ^ 32" using assms unat_lt32 [of irq0_fractions_per_tick] by auto
  then have fr: "of_nat a + irq0_fractions_per_tick = (of_nat (a + c) :: u32)" by simp
  have "(a + c) div 2 ^ 32 = a div 2 ^ 32 + (if (of_nat (a + c) :: u32) < of_nat a then 1 else 0)"
    unfolding of_nat_less_mod by (rule div_step [OF c(2)])
  then show ?thesis unfolding tick_clock_def Let_def split_conv fr by (cases "(of_nat (a + c) :: u32) < of_nat a") (simp_all add: algebra_simps)
qed

lemma tick_clock_iter:
  "tick_clock (of_nat (n + n * 654025 div 2 ^ 32), of_nat (n * 654025), of_nat (n * 654025)) =
    (of_nat (Suc n + Suc n * 654025 div 2 ^ 32), of_nat (Suc n * 654025), of_nat (Suc n * 654025))"
proof -
  have "Suc n * 654025 = n * 654025 + 654025" by simp
  then show ?thesis using tick_clock_gen [of 654025 n "n * 654025"] by (simp only: irq0_fractions_per_tick_def) simp
qed

section \<open>Fair ticks\<close>

text \<open>Nobody sleeps and no runnable task is in its red zone: a pass over the run queue changes nothing.\<close>

definition steady :: "'a kernel_scheme \<Rightarrow> bool" where
  "steady s \<longleftrightarrow> ticks_ok s \<and>
     (\<forall>t\<in>set (runqueue s). t_state (tasks s t) \<noteq> ts_sleeping \<and> (t_state (tasks s t) = ts_runnable \<longrightarrow> eligible s t))"

lemma update_steady:
  "t_state (tasks s t) \<noteq> ts_sleeping \<Longrightarrow> (t_state (tasks s t) = ts_runnable \<longrightarrow> eligible s t) \<Longrightarrow> update_task_state t ms s = s"
  by (auto simp: update_task_state_def Let_def eligible_def)

lemma scan_steady:
  "\<forall>t\<in>set ts. t_state (tasks s t) \<noteq> ts_sleeping \<and> (t_state (tasks s t) = ts_runnable \<longrightarrow> eligible s t) \<Longrightarrow>
     fst (scan_tasks ms ts s n m) = s"
  by (induction ts arbitrary: n m) (auto simp: update_steady)

lemma find_next_steady:
  assumes "steady s" "t \<in> set (runqueue s)" "t_state (tasks s t) = ts_runnable" "0 < t_ticks (tasks s t)"
  shows "\<exists>n. find_next_runnable s = Some (s, n) \<and> n \<in> set (runqueue s) \<and> n \<noteq> 0 \<and> t_state (tasks s n) = ts_runnable \<and> 0 < t_ticks (tasks s n)"
proof -
  obtain s1 n m where r: "scan_tasks (system_uptime_ms s) (runqueue s) s 0 (-1) = (s1, n, m)"
    by (cases "scan_tasks (system_uptime_ms s) (runqueue s) s 0 (-1)")
  then have s1: "s1 = s" using scan_steady [of "runqueue s" s "system_uptime_ms s" 0 "-1"] assms(1) by (simp add: steady_def)
  have el: "eligible s t" using assms(1-3) by (simp add: steady_def)
  then have m: "t_ticks (tasks s t) \<le> m" using scan_max [OF r] assms(2) by blast
  have ok: "ticks_ok s" using assms(1) by (simp add: steady_def)
  have c: "chosen s s1 n" using round_chosen(2) [OF ok r] m assms(4) by simp
  then have "n \<noteq> 0" using el assms(2) by (auto simp: chosen_def)
  then show ?thesis
    using c el m r s1 assms(2,4) unfolding find_next_runnable_def
    by (subst next_runnable_loop.simps) (auto simp: chosen_def dest: bspec)
qed

text \<open>What the tasks may do between two interrupts: compute, but neither block, wake nor create a task.\<close>

definition computes :: "'a kernel_scheme \<Rightarrow> 'a kernel_scheme \<Rightarrow> bool" where
  "computes s s' \<longleftrightarrow> runqueue s' = runqueue s \<and> current s' = current s \<and>
     (\<forall>t. t_state (tasks s' t) = t_state (tasks s t) \<and> t_ticks (tasks s' t) = t_ticks (tasks s t) \<and> t_priority (tasks s' t) = t_priority (tasks s t)) \<and>
     (\<forall>t\<in>set (runqueue s'). t_state (tasks s' t) = ts_runnable \<longrightarrow> eligible s' t)"

definition running :: "'a kernel_scheme \<Rightarrow> bool" where
  "running s \<longleftrightarrow> steady s \<and> current s \<in> set (runqueue s) \<and> t_state (tasks s (current s)) = ts_runnable \<and> 0 < t_ticks (tasks s (current s))"

text \<open>The effect of an interrupt on the tick counters.\<close>

definition ticked :: "'a kernel_scheme \<Rightarrow> 'a kernel_scheme \<Rightarrow> bool" where
  "ticked s s' \<longleftrightarrow> runqueue s' = runqueue s \<and>
     (\<forall>x. t_state (tasks s' x) = t_state (tasks s x) \<and> t_priority (tasks s' x) = t_priority (tasks s x) \<and>
       t_ticks (tasks s' x) = t_ticks (tasks s x) - (if x = current s then 1 else 0)) \<and>
     current s' \<in> set (runqueue s) \<and> t_state (tasks s' (current s')) = ts_runnable \<and> 0 < t_ticks (tasks s' (current s'))"

lemma sched_steady:
  assumes "steady s" "t \<in> set (runqueue s)" "t_state (tasks s t) = ts_runnable" "0 < t_ticks (tasks s t)"
  shows "\<exists>s'. sched s = Some s' \<and> runqueue s' = runqueue s \<and>
     (\<forall>x. t_state (tasks s' x) = t_state (tasks s x) \<and> t_priority (tasks s' x) = t_priority (tasks s x) \<and> t_ticks (tasks s' x) = t_ticks (tasks s x)) \<and>
     current s' \<in> set (runqueue s) \<and> t_state (tasks s' (current s')) = ts_runnable \<and> 0 < t_ticks (tasks s' (current s'))"
proof -
  from find_next_steady [OF assms] obtain n where n: "find_next_runnable s = Some (s, n)" "n \<in> set (runqueue s)" "n \<noteq> 0"
    "t_state (tasks s n) = ts_runnable" "0 < t_ticks (tasks s n)" by blast
  show ?thesis
  proof (cases "n = current s")
    case True
    then show ?thesis using n by (simp add: sched_def)
  next
    case False
    then show ?thesis using n by (simp add: sched_def set_current_def Let_def switch_to_eq)
  qed
qed

lemma do_timer_ticked:
  assumes "running s" "t \<in> set (runqueue s)" "t \<noteq> current s" "t_state (tasks s t) = ts_runnable" "0 < t_ticks (tasks s t)"
  shows "\<exists>s'. do_timer s = Some s' \<and> ticked s s'"
proof -
  obtain c where c: "tasks c = tasks s" "runqueue c = runqueue s" "current c = current s"
    and eq': "do_timer s = (let s = upd_task (current c) (\<lambda>k. k\<lparr>t_ticks := t_ticks k - 1\<rparr>) c
      in if t_ticks (tasks s (current s)) > 0 then Some s else sched (upd_task (current s) (\<lambda>k. k\<lparr>t_ticks := 0\<rparr>) s))"
  proof (rule that)
    let ?c = "let s = s\<lparr>system_uptime_ms := system_uptime_ms s + 1\<rparr>; s = s\<lparr>irq0_fractions := irq0_fractions s + irq0_fractions_per_tick\<rparr>;
        s = (if irq0_fractions s < irq0_fractions_prev s then s\<lparr>system_uptime_ms := system_uptime_ms s + 1\<rparr> else s)
      in s\<lparr>irq0_fractions_prev := irq0_fractions s\<rparr>"
    show "do_timer s = (let s = upd_task (current ?c) (\<lambda>k. k\<lparr>t_ticks := t_ticks k - 1\<rparr>) ?c
      in if t_ticks (tasks s (current s)) > 0 then Some s else sched (upd_task (current s) (\<lambda>k. k\<lparr>t_ticks := 0\<rparr>) s))"
      unfolding do_timer_def Let_def ..
    show "tasks ?c = tasks s" "runqueue ?c = runqueue s" "current ?c = current s" by (simp_all add: Let_def)
  qed
  let ?s1 = "upd_task (current s) (\<lambda>k. k\<lparr>t_ticks := t_ticks k - 1\<rparr>) c"
  have eq: "do_timer s = (if t_ticks (tasks s (current s)) - 1 > 0 then Some ?s1
      else sched (upd_task (current s) (\<lambda>k. k\<lparr>t_ticks := 0\<rparr>) ?s1))"
    using eq' c by (simp add: Let_def)
  show ?thesis
  proof (cases "t_ticks (tasks s (current s)) - 1 > 0")
    case True
    then show ?thesis using eq assms(1) c by (simp add: ticked_def running_def)
  next
    case False
    then have z: "t_ticks (tasks s (current s)) = 1" using assms(1) by (simp add: running_def)
    let ?s2 = "upd_task (current s) (\<lambda>k. k\<lparr>t_ticks := 0\<rparr>) ?s1"
    have "steady ?s2" using assms(1) c by (auto simp: steady_def ticks_ok_def eligible_def running_def)
    from sched_steady [OF this, of t] obtain s' where "sched ?s2 = Some s'" "runqueue s' = runqueue s"
      "\<forall>x. t_state (tasks s' x) = t_state (tasks ?s2 x) \<and> t_priority (tasks s' x) = t_priority (tasks ?s2 x) \<and> t_ticks (tasks s' x) = t_ticks (tasks ?s2 x)"
      "current s' \<in> set (runqueue s)" "t_state (tasks s' (current s')) = ts_runnable" "0 < t_ticks (tasks s' (current s'))"
      using assms(2-) c by auto
    then show ?thesis using eq z c by (auto simp: ticked_def)
  qed
qed

lemma ticked_computes:
  assumes "running s" "ticked s x" "computes x s'"
  shows "running s'" "ticked s s'"
  using assms by (auto simp: running_def steady_def ticks_ok_def ticked_def computes_def)

definition ticks_left :: "'a kernel_scheme \<Rightarrow> int" where
  "ticks_left s = (\<Sum>t | t \<in> set (runqueue s) \<and> t_state (tasks s t) = ts_runnable. t_ticks (tasks s t))"

lemma ticks_left_ticked:
  assumes "running s" "ticked s s'"
  shows "ticks_left s' = ticks_left s - 1"
proof -
  let ?R = "{t. t \<in> set (runqueue s) \<and> t_state (tasks s t) = ts_runnable}"
  have "ticks_left s' = (\<Sum>t\<in>?R. t_ticks (tasks s t) - (if t = current s then 1 else 0))"
    using assms(2) by (simp add: ticks_left_def ticked_def)
  also have "\<dots> = ticks_left s - (\<Sum>t\<in>?R. if t = current s then 1 else 0)"
    by (simp add: ticks_left_def sum_subtractf)
  also have "(\<Sum>t\<in>?R. if t = current s then 1 else 0) = (1 :: int)"
    using assms(1) by (simp add: running_def)
  finally show ?thesis .
qed

lemma ticks_left_ge:
  assumes "running s" "t \<in> set (runqueue s)" "t_state (tasks s t) = ts_runnable"
  shows "t_ticks (tasks s t) \<le> ticks_left s"
proof -
  let ?R = "{t. t \<in> set (runqueue s) \<and> t_state (tasks s t) = ts_runnable}"
  have "finite ?R" "t \<in> ?R" "\<And>x. x \<in> ?R - {t} \<Longrightarrow> 0 \<le> t_ticks (tasks s x)"
    using assms by (auto simp: running_def steady_def ticks_ok_def)
  then show ?thesis unfolding ticks_left_def by (intro member_le_sum) auto
qed

section \<open>Claims\<close>


definition busy_step :: "kernel \<Rightarrow> kernel" where
  "busy_step s = (case do_timer s of None \<Rightarrow> s | Some x \<Rightarrow> x\<lparr>tasks := \<lambda>t. (tasks x t)\<lparr>t_k_esp := -1\<rparr>\<rparr>)"

definition busy0 :: kernel where
  "busy0 = kernel0\<lparr>runqueue := [0x1000, 0x2000], tasks := (\<lambda>_. task1\<lparr>t_ticks := 20\<rparr>)\<rparr>"

lemma busy0_sel: "runqueue busy0 = [0x1000, 0x2000]" "current busy0 = 0x1000" "tasks busy0 = (\<lambda>_. task1\<lparr>t_ticks := 20\<rparr>)"
  by (simp_all add: busy0_def)


text \<open>
  C33. After \<open>n\<close> interrupts, whatever runs between them, the clock reads \<open>n\<close> milliseconds plus the
  whole part of \<open>n\<close> times the fraction per interrupt: the overflow check on the fractions never loses
  or invents one.
\<close>

theorem uptime_exact:
  assumes "clock (run 0) = (0, 0, 0)" "\<forall>i. do_timer (run i) = Some (after i) \<and> clock (run (Suc i)) = clock (after i)"
  shows "system_uptime_ms (run n) = of_nat (n + n * 654025 div 2 ^ 32)"
proof -
  have "clock (run n) = (of_nat (n + n * 654025 div 2 ^ 32), of_nat (n * 654025), of_nat (n * 654025))"
  proof (induction n)
    case (Suc n)
    then show ?case using assms(2) clock_do_timer [of "run n" "after n"] tick_clock_iter [of n] by simp
  qed (use assms(1) in simp)
  then show ?thesis by (simp add: clock_def)
qed

definition fresh_ticks :: "kernel \<Rightarrow> kernel" where
  "fresh_ticks s = s\<lparr>tasks := (\<lambda>_. task1\<lparr>t_ticks := 20\<rparr>)\<rparr>"

definition timer_run :: "nat \<Rightarrow> kernel" where
  "timer_run i = ((\<lambda>s. fresh_ticks (the (do_timer s))) ^^ i) (fresh_ticks kernel0)"

lemma do_timer_early: "1 < t_ticks (tasks s (current s)) \<Longrightarrow> \<exists>x. do_timer s = Some x"
  by (simp add: do_timer_def Let_def)

theorem uptime_exact_witness: "system_uptime_ms (timer_run 10000) = 10001"
proof -
  have "tasks (timer_run i) = (\<lambda>_. task1\<lparr>t_ticks := 20\<rparr>)" for i by (cases i) (simp_all add: timer_run_def fresh_ticks_def)
  then have "do_timer (timer_run i) = Some (the (do_timer (timer_run i)))" for i using do_timer_early [of "timer_run i"] by auto
  moreover have "clock (timer_run (Suc i)) = clock (the (do_timer (timer_run i)))" for i by (simp add: timer_run_def fresh_ticks_def clock_def)
  moreover have "clock (timer_run 0) = (0, 0, 0)" by (simp add: timer_run_def fresh_ticks_def clock_def)
  ultimately show ?thesis using uptime_exact [of timer_run "\<lambda>i. the (do_timer (timer_run i))" 10000] by simp
qed

lemma radix_sum:
  fixes t :: nat
  assumes "t = w * 604800000 + a" "a = d * 86400000 + b" "b = h * 3600000 + c" "c = m * 60000 + e" "e = sec * 1000 + ms"
  shows "t = ((((w * 7 + d) * 24 + h) * 60 + m) * 60 + sec) * 1000 + ms"
  unfolding assms by simp

text \<open>
  C34. The uptime in weeks, days, hours, minutes, seconds and milliseconds is the clock in mixed radix,
  every part within its range.
\<close>

theorem get_uptime_radix:
  "let u = get_uptime s
   in unat (system_uptime_ms s) = ((((unat (u_w u) * 7 + unat (u_d u)) * 24 + unat (u_h u)) * 60 + unat (u_m u)) * 60 + unat (u_s u)) * 1000 + unat (u_ms u) \<and>
      unat (u_d u) < 7 \<and> unat (u_h u) < 24 \<and> unat (u_m u) < 60 \<and> unat (u_s u) < 60 \<and> unat (u_ms u) < 1000"
proof -
  let ?t = "unat (system_uptime_ms s)"
  have c: "unat W_MS = 604800000" "unat D_MS = 86400000" "unat H_MS = 3600000" "unat M_MS = 60000" "unat S_MS = 1000"
    by simp_all
  define a b d e where "a = ?t mod 604800000" "b = a mod 86400000" "d = b mod 3600000" "e = d mod 60000"
  have u: "unat (u_w (get_uptime s)) = ?t div 604800000" "unat (u_d (get_uptime s)) = a div 86400000" "unat (u_h (get_uptime s)) = b div 3600000"
    "unat (u_m (get_uptime s)) = d div 60000" "unat (u_s (get_uptime s)) = e div 1000" "unat (u_ms (get_uptime s)) = e mod 1000"
    by (simp_all add: get_uptime_def Let_def minus_div_mult_eq_mod unat_div unat_mod c a_b_d_e_def)
  have "a < 604800000" "b < 86400000" "d < 3600000" "e < 60000" by (simp_all add: a_b_d_e_def)
  then have "a div 86400000 < 7" "b div 3600000 < 24" "d div 60000 < 60" "e div 1000 < 60" "e mod 1000 < 1000"
    by (simp_all add: less_mult_imp_div_less)
  moreover have "?t = ?t div 604800000 * 604800000 + a" "a = a div 86400000 * 86400000 + b" "b = b div 3600000 * 3600000 + d"
    "d = d div 60000 * 60000 + e" "e = e div 1000 * 1000 + e mod 1000"
    by (simp_all only: a_b_d_e_def div_mult_mod_eq)
  ultimately show ?thesis unfolding Let_def u using radix_sum by blast
qed

text \<open>A sleep across the wrap-around of the clock is over before it begins.\<close>

lemma sleep_across_wrap:
  assumes "system_uptime_ms s + ms < system_uptime_ms s"
  shows "t_state (tasks (update_task_state t (system_uptime_ms s)
    (upd_task t (\<lambda>k. k\<lparr>t_state := ts_sleeping, t_sleep_till := system_uptime_ms s + ms\<rparr>) s)) t) = ts_runnable"
  using assms by (simp add: update_task_state_def Let_def)

end
