(* ===== verification/Vma.thy ===== *)
theory Vma
  imports Sched
begin

text \<open>
  The virtual memory allocator \<open>kernel/mm/vma.c\<close>: address-space regions, page tables, \<open>vmalloc\<close>,
  \<open>mmap\<close> and \<open>mprotect\<close>, the decoder of backtraces, and the fault handlers. The page directory is the
  word array at \<open>0xFFFFF000\<close> and the page tables are reached through the window at
  \<open>PFA_VIRT_OFFSET\<close>, both in \<open>kmem\<close>. Region descriptors are kept in a map by address, the three lists
  of regions as HOL lists.
\<close>

section \<open>State\<close>

record vma =
  v_start :: u32
  v_size :: u32

record vm = kernel +
  vmas :: "u32 \<Rightarrow> vma"
  vma_list :: "u32 list"
  vma_freelist :: "u32 list"
  defrag_queue :: "u32 list"

abbreviation PAGE_DIRECTORY :: u32 where "PAGE_DIRECTORY \<equiv> 0xFFFFF000"
abbreviation SIZEOF_VMA :: u32 where "SIZEOF_VMA \<equiv> 16"
abbreviation MB :: u32 where "MB \<equiv> 1024 * 1024"

definition VA_PD_IDX :: "u32 \<Rightarrow> u32" where "VA_PD_IDX va = drop_bit 22 (va AND 0xFFC00000)"
definition VA_PT_IDX :: "u32 \<Rightarrow> u32" where "VA_PT_IDX va = drop_bit 12 (va AND 0x003FF000)"
definition VA_PG_OFF :: "u32 \<Rightarrow> u32" where "VA_PG_OFF va = va AND 0x00000FFF"

abbreviation PTE_USER :: u32 where "PTE_USER \<equiv> 4"
abbreviation PROT_READ :: u32 where "PROT_READ \<equiv> 1"
abbreviation PROT_NONE :: u32 where "PROT_NONE \<equiv> 0"

definition pde_addr :: "u32 \<Rightarrow> u32" where "pde_addr va = PAGE_DIRECTORY + 4 * VA_PD_IDX va"

definition table_of :: "u32 \<Rightarrow> u32" where "table_of pde = (pde AND NOT 0xFFF) + PFA_VIRT_OFFSET"

definition pte_addr :: "mem \<Rightarrow> u32 \<Rightarrow> u32" where
  "pte_addr m va = table_of (load32 m (pde_addr va)) + 4 * VA_PT_IDX va"

definition present :: "u32 \<Rightarrow> bool" where "present e \<longleftrightarrow> e AND PTE_PRESENT \<noteq> 0"

definition get_physical_address :: "u32 \<Rightarrow> 'a vm_scheme \<Rightarrow> u32 option" where
  "get_physical_address virt s =
     (if \<not> present (load32 (kmem s) (PAGE_DIRECTORY + 4 * 1023)) then None
      else if \<not> present (load32 (kmem s) (pde_addr virt)) then None
      else let pte = load32 (kmem s) (pte_addr (kmem s) virt)
           in if \<not> present pte then None else Some ((pte AND NOT 0xFFF) + VA_PG_OFF virt))"

section \<open>Regions\<close>

definition upd_vma :: "u32 \<Rightarrow> (vma \<Rightarrow> vma) \<Rightarrow> 'a vm_scheme \<Rightarrow> 'a vm_scheme" where
  "upd_vma a f s = s\<lparr>vmas := (vmas s)(a := f (vmas s a))\<rparr>"

text \<open>Overlapping regions leave the result of the comparison unset: \<open>None\<close>.\<close>

definition vma_cmp :: "vma \<Rightarrow> vma \<Rightarrow> int option" where
  "vma_cmp lhs rhs =
     (if v_start lhs \<ge> v_start rhs + v_size rhs then Some 1
      else if v_start lhs + v_size lhs = v_start rhs then Some 0
      else if v_start lhs + v_size lhs \<le> v_start rhs then Some (-1)
      else None)"

definition assert_invariants :: "vma \<Rightarrow> vma \<Rightarrow> bool" where
  "assert_invariants a b \<longleftrightarrow>
     v_size a \<noteq> 0 \<and> v_size b \<noteq> 0 \<and> v_size a \<ge> PAGE_SIZE \<and> v_size b \<ge> PAGE_SIZE \<and>
     (let a_s = v_start a; a_e = v_start a + v_size a; b_s = v_start b; b_e = v_start b + v_size b
      in \<not> (a_s \<ge> b_s \<and> a_s < b_e) \<and> \<not> (a_e > b_s \<and> a_e < b_e))"

text \<open>The state and whether the two were merged.\<close>

definition vma_merge :: "u32 \<Rightarrow> u32 \<Rightarrow> 'a vm_scheme \<Rightarrow> ('a vm_scheme \<times> bool) option" where
  "vma_merge a into s =
     (let va = vmas s a; vi = vmas s into
      in if \<not> assert_invariants va vi then None
         else if v_start va + v_size va = v_start vi
         then Some (upd_vma a (\<lambda>v. v\<lparr>v_size := 0\<rparr>) (upd_vma into (\<lambda>v. v\<lparr>v_start := v_start va, v_size := v_size v + v_size va\<rparr>) s), True)
         else if v_start va = v_start vi + v_size vi
         then Some (upd_vma a (\<lambda>v. v\<lparr>v_size := 0, v_start := v_start vi + (v_size vi + v_size va)\<rparr>)
                     (upd_vma into (\<lambda>v. v\<lparr>v_size := v_size v + v_size va\<rparr>) s), True)
         else Some (s, False))"

text \<open>\<open>v_ilist_insert\<close> with \<open>vma_cmp\<close>: before the first region that is not below the new one.\<close>

fun insert_vma :: "'a vm_scheme \<Rightarrow> u32 \<Rightarrow> u32 list \<Rightarrow> u32 list option" where
  "insert_vma s a [] = Some [a]"
| "insert_vma s a (x # xs) =
     (case vma_cmp (vmas s a) (vmas s x) of
        None \<Rightarrow> None
      | Some c \<Rightarrow> if c = 1 then map_option (Cons x) (insert_vma s a xs) else Some (a # x # xs))"

fun queue_to_freelist :: "u32 list \<Rightarrow> 'a vm_scheme \<Rightarrow> 'a vm_scheme option" where
  "queue_to_freelist [] s = Some s"
| "queue_to_freelist (a # as) s = do {
     s \<leftarrow> Some (s\<lparr>defrag_queue := remove1 a (defrag_queue s)\<rparr>);
     l \<leftarrow> insert_vma s a (vma_freelist s);
     queue_to_freelist as (s\<lparr>vma_freelist := l\<rparr>)
   }"

text \<open>
  The second loop of \<open>do_defrag\<close>: \<open>pre\<close> are the regions already passed that are still in the list.
\<close>

fun merge_loop :: "(u32 \<Rightarrow> 'a vm_scheme \<Rightarrow> 'a vm_scheme option) \<Rightarrow> u32 list \<Rightarrow> u32 list \<Rightarrow> 'a vm_scheme \<Rightarrow> 'a vm_scheme option" where
  "merge_loop slab_fr pre [] s = Some s"
| "merge_loop slab_fr pre (a # as) s = do {
     (s, left) \<leftarrow> (if pre \<noteq> [] then vma_merge a (last pre) s else Some (s, False));
     if left then do {
       s \<leftarrow> slab_fr a (s\<lparr>vma_freelist := pre @ as\<rparr>);
       merge_loop slab_fr pre as s
     } else do {
       (s, right) \<leftarrow> (if as \<noteq> [] then vma_merge a (hd as) s else Some (s, False));
       if right then do {
         s \<leftarrow> slab_fr a (s\<lparr>vma_freelist := pre @ as\<rparr>);
         merge_loop slab_fr pre as s
       } else merge_loop slab_fr (pre @ [a]) as s
     }
   }"

definition do_defrag :: "(u32 \<Rightarrow> 'a vm_scheme \<Rightarrow> 'a vm_scheme option) \<Rightarrow> 'a vm_scheme \<Rightarrow> 'a vm_scheme option" where
  "do_defrag slab_fr s = do {
     s \<leftarrow> Some (cli_push s);
     s \<leftarrow> queue_to_freelist (defrag_queue s) s;
     s \<leftarrow> merge_loop slab_fr [] (vma_freelist s) s;
     cli_pop s
   }"

abbreviation VMA_DEFRAG_INTERVAL :: nat where "VMA_DEFRAG_INTERVAL \<equiv> 32"

fun pend_times :: "('a vm_scheme \<Rightarrow> 'a vm_scheme option) \<Rightarrow> nat \<Rightarrow> 'a vm_scheme \<Rightarrow> 'a vm_scheme option" where
  "pend_times others 0 s = Some s"
| "pend_times others (Suc n) s = do { s \<leftarrow> sem_pend others Defrag_call s; pend_times others n s }"

text \<open>One round of the endless loop of the defragmentation task.\<close>

definition vma_defrag_round ::
  "('a vm_scheme \<Rightarrow> 'a vm_scheme option) \<Rightarrow> (u32 \<Rightarrow> 'a vm_scheme \<Rightarrow> 'a vm_scheme option) \<Rightarrow> 'a vm_scheme \<Rightarrow> 'a vm_scheme option" where
  "vma_defrag_round others slab_fr s = do {
     s \<leftarrow> pend_times others VMA_DEFRAG_INTERVAL s;
     do_defrag slab_fr s
   }"

definition vma_spawn_defrag_task :: "'a vm_scheme task_env \<Rightarrow> u32 \<Rightarrow> 'a vm_scheme \<Rightarrow> 'a vm_scheme option" where
  "vma_spawn_defrag_task env vma_defrag s = do {
     (s, _) \<leftarrow> task_create env vma_defrag 0 ''kvmdefrag'' False s;
     Some s
   }"

type_synonym 's alloc_fn = "u32 \<Rightarrow> 's \<Rightarrow> ('s \<times> u32) option"

definition vma_init :: "'a vm_scheme alloc_fn \<Rightarrow> 'a vm_scheme \<Rightarrow> 'a vm_scheme option" where
  "vma_init slab_al s = do {
     (s, initial) \<leftarrow> slab_al SIZEOF_VMA s;
     if initial = 0 then None
     else let vma_start = PAGE_ROUND_UP (VIRT_OFFSET + 1 * MB);
              vma_end = PAGE_ROUND_DN (PFA_VIRT_OFFSET - PAGE_SIZE)
          in Some (upd_vma initial (\<lambda>_. \<lparr>v_start = vma_start, v_size = vma_end - vma_start\<rparr>)
                    (s\<lparr>vma_freelist := initial # vma_freelist s\<rparr>))
   }"

definition vma_split :: "'a vm_scheme alloc_fn \<Rightarrow> u32 \<Rightarrow> u32 \<Rightarrow> 'a vm_scheme \<Rightarrow> ('a vm_scheme \<times> u32) option" where
  "vma_split slab_al from pages s = do {
     (s, new) \<leftarrow> slab_al SIZEOF_VMA s;
     s \<leftarrow> Some (upd_vma new (\<lambda>_. \<lparr>v_start = v_start (vmas s from), v_size = pages * PAGE_SIZE\<rparr>) s);
     s \<leftarrow> Some (upd_vma from (\<lambda>v. v\<lparr>v_start := v_start v + pages * PAGE_SIZE, v_size := v_size v - pages * PAGE_SIZE\<rparr>) s);
     Some (s, new)
   }"

text \<open>The smallest region that is large enough; the first such on a tie; null as 0.\<close>

fun best_fit :: "'a vm_scheme \<Rightarrow> u32 \<Rightarrow> u32 list \<Rightarrow> u32 \<Rightarrow> u32" where
  "best_fit s bytes [] fit = fit"
| "best_fit s bytes (area # as) fit =
     (let fit = (if fit = 0 \<and> v_size (vmas s area) \<ge> bytes then area else fit);
          fit = (if fit \<noteq> 0 \<and> v_size (vmas s area) < v_size (vmas s fit) \<and> v_size (vmas s area) \<ge> bytes then area else fit)
      in best_fit s bytes as fit)"

definition find_space :: "'a vm_scheme alloc_fn \<Rightarrow> u32 \<Rightarrow> 'a vm_scheme \<Rightarrow> ('a vm_scheme \<times> u32) option" where
  "find_space slab_al pages s =
     (let fit = best_fit s (pages * PAGE_SIZE) (vma_freelist s) 0
      in if fit = 0 then None
         else if v_size (vmas s fit) > pages * PAGE_SIZE
         then do {
           (s, new) \<leftarrow> vma_split slab_al fit pages s;
           Some (s\<lparr>vma_list := vma_list s @ [new]\<rparr>, new)
         }
         else Some (s\<lparr>vma_freelist := remove1 fit (vma_freelist s), vma_list := vma_list s @ [fit]\<rparr>, fit))"

section \<open>Page tables\<close>

type_synonym 's page_fn = "'s \<Rightarrow> ('s \<times> u32) option"

text \<open>Make the entry at \<open>addr\<close> present, with a cleared page behind it.\<close>

definition ensure_entry :: "'a vm_scheme page_fn \<Rightarrow> u32 \<Rightarrow> 'a vm_scheme \<Rightarrow> 'a vm_scheme option" where
  "ensure_entry pf_zal addr s =
     (if present (load32 (kmem s) addr) then Some s
      else do {
        (s, page) \<leftarrow> pf_zal s;
        Some (s\<lparr>kmem := store32 addr ((page - PFA_VIRT_OFFSET) OR PTE_WRITABLE OR PTE_PRESENT) (kmem s)\<rparr>)
      })"

definition vm_map_page :: "'a vm_scheme page_fn \<Rightarrow> u32 \<Rightarrow> 'a vm_scheme \<Rightarrow> 'a vm_scheme option" where
  "vm_map_page pf_zal va s = do {
     s \<leftarrow> ensure_entry pf_zal (pde_addr va) s;
     ensure_entry pf_zal (pte_addr (kmem s) va) s
   }"

partial_function (option) vm_map_loop :: "'a vm_scheme page_fn \<Rightarrow> u32 \<Rightarrow> u32 \<Rightarrow> 'a vm_scheme \<Rightarrow> 'a vm_scheme option" where
  "vm_map_loop pf_zal fin va s =
     (if va < fin then do { s \<leftarrow> vm_map_page pf_zal va s; vm_map_loop pf_zal fin (va + PAGE_SIZE) s } else Some s)"

definition vm_map :: "'a vm_scheme page_fn \<Rightarrow> u32 \<Rightarrow> 'a vm_scheme \<Rightarrow> 'a vm_scheme option" where
  "vm_map pf_zal v s = vm_map_loop pf_zal (v_start (vmas s v) + v_size (vmas s v)) (v_start (vmas s v)) s"

definition unmap_page :: "u32 \<Rightarrow> 'a vm_scheme \<Rightarrow> 'a vm_scheme option" where
  "unmap_page va s =
     (if \<not> present (load32 (kmem s) (pde_addr va)) then None
      else let pte = pte_addr (kmem s) va
           in if \<not> present (load32 (kmem s) pte) then None
              else do {
                s \<leftarrow> pf_free ((load32 (kmem s) pte AND NOT 0xFFF) + PFA_VIRT_OFFSET) s;
                Some (s\<lparr>kmem := store32 pte 0 (kmem s)\<rparr>)
              })"

partial_function (option) vm_unmap_loop :: "u32 \<Rightarrow> u32 \<Rightarrow> 'a vm_scheme \<Rightarrow> 'a vm_scheme option" where
  "vm_unmap_loop fin va s =
     (if va < fin then do { s \<leftarrow> unmap_page va s; vm_unmap_loop fin (va + PAGE_SIZE) s } else Some s)"

definition table_empty :: "mem \<Rightarrow> u32 \<Rightarrow> bool" where
  "table_empty m table \<longleftrightarrow> (\<forall>i\<in>set [0..<1024]. load32 m (table + 4 * of_nat i) = 0)"

partial_function (option) sweep_tables :: "u32 \<Rightarrow> u32 \<Rightarrow> 'a vm_scheme \<Rightarrow> 'a vm_scheme option" where
  "sweep_tables fin p s =
     (if p < fin
      then let table = table_of (load32 (kmem s) (PAGE_DIRECTORY + 4 * p))
           in if \<not> table_empty (kmem s) table then sweep_tables fin (p + 1) s
              else do {
                s \<leftarrow> pf_free table (s\<lparr>kmem := store32 (PAGE_DIRECTORY + 4 * p) PTE_WRITABLE (kmem s)\<rparr>);
                sweep_tables fin (p + 1) s
              }
      else Some s)"

definition vm_unmap :: "u32 \<Rightarrow> 'a vm_scheme \<Rightarrow> 'a vm_scheme option" where
  "vm_unmap v s =
     (let st = v_start (vmas s v); fin = v_start (vmas s v) + v_size (vmas s v)
      in do {
        s \<leftarrow> vm_unmap_loop fin st s;
        sweep_tables (VA_PD_IDX fin) (VA_PD_IDX st) s
      })"

text \<open>\<open>vm_map\<close> runs after the interrupts are back on; \<open>slab_al\<close> and \<open>pf_zal\<close> are the allocators below.\<close>

definition vmalloc :: "'a vm_scheme alloc_fn \<Rightarrow> 'a vm_scheme page_fn \<Rightarrow> u32 \<Rightarrow> 'a vm_scheme \<Rightarrow> ('a vm_scheme \<times> u32) option" where
  "vmalloc slab_al pf_zal bytes s = do {
     s \<leftarrow> Some (cli_push s);
     (s, v) \<leftarrow> find_space slab_al (PAGE_ROUND_UP bytes div PAGE_SIZE) s;
     s \<leftarrow> cli_pop s;
     if v = 0 then None
     else do {
       s \<leftarrow> vm_map pf_zal v s;
       Some (s, v_start (vmas s v))
     }
   }"

definition vmfree :: "u32 \<Rightarrow> 'a vm_scheme \<Rightarrow> 'a vm_scheme option" where
  "vmfree ptr s =
     (case find (\<lambda>a. v_start (vmas s a) = ptr) (vma_list s) of
        None \<Rightarrow> None
      | Some a \<Rightarrow> do {
          s \<leftarrow> vm_unmap a s;
          s \<leftarrow> Some (s\<lparr>vma_list := remove1 a (vma_list s), defrag_queue := defrag_queue s @ [a]\<rparr>);
          Some (sem_post Defrag_call s)
        })"

definition prot_flags :: "u32 \<Rightarrow> u32" where
  "prot_flags prot =
     (if prot AND PROT_READ \<noteq> 0 then PTE_PRESENT else 0) OR
     (if prot AND PROT_WRITE \<noteq> 0 then PTE_WRITABLE else 0) OR
     (if prot AND PROT_USR \<noteq> 0 then PTE_USER else 0)"

text \<open>One iteration of \<open>mprotect\<close>: the state and whether it goes on.\<close>

definition protect_page :: "u32 \<Rightarrow> u32 \<Rightarrow> 'a vm_scheme \<Rightarrow> 'a vm_scheme \<times> bool" where
  "protect_page prot va s =
     (let flags = prot_flags prot; pde = load32 (kmem s) (pde_addr va)
      in if \<not> present pde then (s, False)
         else let pde = (pde AND NOT 0xFFF) OR flags;
                  s = s\<lparr>kmem := store32 (pde_addr va) pde (kmem s)\<rparr>
              in if pde = 0 then (s, False)
                 else let addr = pte_addr (kmem s) va; pte = load32 (kmem s) addr
                      in if \<not> present pte \<and> prot AND PROT_WRITE \<noteq> 0 then (s, False)
                         else let pte = (pte AND NOT 0xFFF) OR flags;
                                  s = s\<lparr>kmem := store32 addr pte (kmem s)\<rparr>
                              in (s, pte \<noteq> 0))"

partial_function (option) mprotect_loop :: "u32 \<Rightarrow> u32 \<Rightarrow> u32 \<Rightarrow> 'a vm_scheme \<Rightarrow> ('a vm_scheme \<times> int) option" where
  "mprotect_loop prot fin va s =
     (if va < fin
      then case protect_page prot va s of (s, ok) \<Rightarrow>
             if ok then mprotect_loop prot fin (va + PAGE_SIZE) s else Some (s, -1)
      else Some (s, 0))"

definition mprotect :: "u32 \<Rightarrow> u32 \<Rightarrow> u32 \<Rightarrow> 'a vm_scheme \<Rightarrow> ('a vm_scheme \<times> int) option" where
  "mprotect addr len prot s = mprotect_loop prot (addr + len) addr s"

text \<open>\<open>vfs_read_at\<close> of the file is an argument; on a read error the machine halts.\<close>

definition mmap ::
  "'a vm_scheme alloc_fn \<Rightarrow> 'a vm_scheme page_fn \<Rightarrow> (u32 \<Rightarrow> u32 \<Rightarrow> u32 \<Rightarrow> u32 \<Rightarrow> 'a vm_scheme \<Rightarrow> ('a vm_scheme \<times> int) option) \<Rightarrow>
     u32 \<Rightarrow> u32 \<Rightarrow> u32 \<Rightarrow> u32 \<Rightarrow> u32 \<Rightarrow> u32 \<Rightarrow> 'a vm_scheme \<Rightarrow> ('a vm_scheme \<times> u32) option" where
  "mmap kmal pf_zal vfs_read_at task addr len prot file off s =
     (let st = PAGE_ROUND_DN addr; fin = PAGE_ROUND_UP (addr + len)
      in if \<not> fin < VIRT_OFFSET then None
         else do {
           (s, new) \<leftarrow> kmal SIZEOF_VMA s;
           s \<leftarrow> Some (upd_vma new (\<lambda>_. \<lparr>v_start = st, v_size = fin - st\<rparr>) s);
           s \<leftarrow> Some (upd_task task (\<lambda>k. k\<lparr>t_vmas := t_vmas k @ [new]\<rparr>) s);
           s \<leftarrow> vm_map pf_zal new s;
           (s, _) \<leftarrow> mprotect st (fin - st) prot s;
           (s, ret) \<leftarrow> vfs_read_at file addr len off s;
           if ret < 0 then None else Some (s, addr)
         })"

fun unmap_vmas :: "(u32 \<Rightarrow> 'a vm_scheme \<Rightarrow> 'a vm_scheme option) \<Rightarrow> u32 list \<Rightarrow> 'a vm_scheme \<Rightarrow> 'a vm_scheme option" where
  "unmap_vmas kfr [] s = Some s"
| "unmap_vmas kfr (v # vs) s = do { s \<leftarrow> vm_unmap v s; s \<leftarrow> kfr v s; unmap_vmas kfr vs s }"

definition task_unmap :: "(u32 \<Rightarrow> 'a vm_scheme \<Rightarrow> 'a vm_scheme option) \<Rightarrow> u32 \<Rightarrow> 'a vm_scheme \<Rightarrow> 'a vm_scheme option" where
  "task_unmap kfr task s = unmap_vmas kfr (t_vmas (tasks s task)) s"

section \<open>Backtraces\<close>

definition is_valid_kernel_address :: "u32 \<Rightarrow> u32 \<Rightarrow> u32 \<Rightarrow> bool" where
  "is_valid_kernel_address kernel_physical_start kernel_physical_end a \<longleftrightarrow>
     a \<ge> kernel_physical_start + VIRT_OFFSET \<and> a < kernel_physical_end + VIRT_OFFSET"

definition is_valid_regcall :: "mem \<Rightarrow> u32 \<Rightarrow> u8 \<Rightarrow> bool" where
  "is_valid_regcall m ptr bytes \<longleftrightarrow> drop_bit 3 (m (ptr + 1)) AND 7 = bytes"

definition is_valid_modrm_call :: "mem \<Rightarrow> u32 \<Rightarrow> u8 \<Rightarrow> bool" where
  "is_valid_modrm_call m ptr bytes \<longleftrightarrow>
     m ptr = 0xFF \<and> drop_bit 6 (m (ptr + 1)) = 3 \<and> is_valid_regcall m ptr bytes"

definition load16 :: "mem \<Rightarrow> u32 \<Rightarrow> u16" where
  "load16 m a = ucast (m a) OR push_bit 8 (ucast (m (a + 1)))"

definition get_call_address :: "u32 \<Rightarrow> u32 \<Rightarrow> mem \<Rightarrow> u32 \<Rightarrow> u32" where
  "get_call_address kstart kend m ret =
     (if ret = 0 then ret
      else if m (ret - 5) = 0xE8 \<and> is_valid_kernel_address kstart kend (ret + load32 m (ret - 4)) then ret - 5
      else if m (ret - 3) = 0xE8 \<and> is_valid_kernel_address kstart kend (ret + scast (load16 m (ret - 2))) then ret - 3
      else if is_valid_modrm_call m (ret - 3) 3 then ret - 3
      else if is_valid_modrm_call m (ret - 2) 2 then ret - 2
      else ret)"

definition valid_frame :: "u32 \<Rightarrow> 'a vm_scheme \<Rightarrow> bool option" where
  "valid_frame f s =
     (if f = 0 then Some False
      else if load32 (kmem s) (f + 4) = 0 then Some False
      else let k = tasks s (current s);
               sb = (if t_stack_user k = 0 then t_stack_kernel k else t_stack_user k)
           in if sb = 0 then None
              else if f < sb then Some False
              else if f < sb + TASK_STACK_PAGES * PAGE_SIZE then Some False
              else if f > sb + 2 * (TASK_STACK_PAGES * PAGE_SIZE) then Some False
              else Some True)"

abbreviation s_bt_maxdepth :: u32 where "s_bt_maxdepth \<equiv> 128"

text \<open>The lines of \<open>dump_backtrace\<close> after the first: depth, frame and call address.\<close>

partial_function (option) backtrace_loop ::
  "u32 \<Rightarrow> u32 \<Rightarrow> u32 \<Rightarrow> u32 \<Rightarrow> 'a vm_scheme \<Rightarrow> (u32 \<times> u32 \<times> u32) list option" where
  "backtrace_loop kstart kend f depth s = do {
     ok \<leftarrow> valid_frame f s;
     if ok \<and> depth < s_bt_maxdepth
     then do {
       rest \<leftarrow> backtrace_loop kstart kend (load32 (kmem s) f) (depth + 1) s;
       Some ((depth + 1, f, get_call_address kstart kend (kmem s) (load32 (kmem s) (f + 4))) # rest)
     }
     else Some []
   }"

definition dump_backtrace :: "u32 \<Rightarrow> u32 \<Rightarrow> u32 \<Rightarrow> u32 \<Rightarrow> 'a vm_scheme \<Rightarrow> (u32 \<times> u32 \<times> u32) list option" where
  "dump_backtrace kstart kend ebp eip s = do {
     rest \<leftarrow> backtrace_loop kstart kend ebp 0 s;
     Some ((0, ebp, eip) # rest)
   }"

section \<open>Faults\<close>

text \<open>
  The task that faulted is killed and the scheduler moves on to another task; a handler that comes
  back from \<open>task_kill\<close>, or has no task to kill, panics.
\<close>

definition kill_current :: "'a vm_scheme \<Rightarrow> 'a vm_scheme option" where
  "kill_current s = do {
     s' \<leftarrow> sched (sem_post Reaper_call (set_state (current s) ts_stopping s));
     if current s' = current s then None else Some s'
   }"

definition do_gp_fault :: "u32 \<Rightarrow> u32 \<Rightarrow> u32 \<Rightarrow> u32 \<Rightarrow> 'a vm_scheme \<Rightarrow> 'a vm_scheme option" where
  "do_gp_fault kstart kend ebp eip s = do {
     _ \<leftarrow> dump_backtrace kstart kend ebp eip s;
     if current s \<noteq> 0 \<and> t_stack_user (tasks s (current s)) \<noteq> 0 then kill_current s else None
   }"

definition do_page_fault :: "u32 \<Rightarrow> u32 \<Rightarrow> u32 \<Rightarrow> u32 \<Rightarrow> 'a vm_scheme \<Rightarrow> 'a vm_scheme option" where
  "do_page_fault kstart kend ebp eip s = do {
     _ \<leftarrow> dump_backtrace kstart kend ebp eip s;
     if current s \<noteq> 0 then kill_current s else None
   }"

section \<open>Regions: what the lists promise\<close>

text \<open>The addresses of a region, and the regions a state knows of.\<close>

definition span :: "vma \<Rightarrow> nat set" where
  "span v = {unat (v_start v) ..< unat (v_start v) + unat (v_size v)}"

definition region_ok :: "vma \<Rightarrow> bool" where
  "region_ok v \<longleftrightarrow> PAGE_SIZE \<le> v_size v \<and> 4096 dvd unat (v_start v) \<and> 4096 dvd unat (v_size v) \<and>
     unat (v_start v) + unat (v_size v) < 2 ^ 32"

definition regions :: "'a vm_scheme \<Rightarrow> u32 list" where
  "regions s = vma_freelist s @ defrag_queue s @ vma_list s"

definition regions_ok :: "(u32 \<Rightarrow> vma) \<Rightarrow> u32 list \<Rightarrow> bool" where
  "regions_ok vs rs \<longleftrightarrow> distinct rs \<and> 0 \<notin> set rs \<and> (\<forall>a\<in>set rs. region_ok (vs a)) \<and>
     (\<forall>a\<in>set rs. \<forall>b\<in>set rs. a \<noteq> b \<longrightarrow> span (vs a) \<inter> span (vs b) = {})"

definition vm_ok :: "'a vm_scheme \<Rightarrow> bool" where
  "vm_ok s \<longleftrightarrow> regions_ok (vmas s) (regions s)"

lemma upd_vma_sel [simp]:
  "vmas (upd_vma a f s) = (vmas s)(a := f (vmas s a))" "vma_list (upd_vma a f s) = vma_list s"
  "vma_freelist (upd_vma a f s) = vma_freelist s" "defrag_queue (upd_vma a f s) = defrag_queue s"
  "cli_depth (upd_vma a f s) = cli_depth s" "eflags_if (upd_vma a f s) = eflags_if s"
  by (simp_all add: upd_vma_def)

lemma region_ok_end: "region_ok v \<Longrightarrow> unat (v_start v + v_size v) = unat (v_start v) + unat (v_size v)"
  by (simp add: region_ok_def unat_add_small)

lemma region_ok_pos: "region_ok v \<Longrightarrow> 0 < unat (v_size v)"
  by (auto simp: region_ok_def PAGE_SIZE_def word_le_nat_alt)

lemma span_disjoint:
  assumes "region_ok a" "region_ok b"
  shows "span a \<inter> span b = {} \<longleftrightarrow> v_start a + v_size a \<le> v_start b \<or> v_start b + v_size b \<le> v_start a"
proof -
  note p = region_ok_pos [OF assms(1)] region_ok_pos [OF assms(2)]
  have "v_start a + v_size a \<le> v_start b \<longleftrightarrow> unat (v_start a) + unat (v_size a) \<le> unat (v_start b)"
    "v_start b + v_size b \<le> v_start a \<longleftrightarrow> unat (v_start b) + unat (v_size b) \<le> unat (v_start a)"
    using assms by (simp_all add: word_le_nat_alt region_ok_end)
  then show ?thesis using p by (auto simp: span_def ivl_disj_int_two)
qed

text \<open>The smallest region that fits.\<close>

lemma best_fit_ok:
  assumes "0 \<notin> set as" "fit = 0 \<or> bytes \<le> v_size (vmas s fit)"
  defines "r \<equiv> best_fit s bytes as fit"
  shows "(r = fit \<or> r \<in> set as) \<and> (r = 0 \<or> bytes \<le> v_size (vmas s r)) \<and>
    (fit \<noteq> 0 \<longrightarrow> r \<noteq> 0 \<and> v_size (vmas s r) \<le> v_size (vmas s fit)) \<and>
    (\<forall>a\<in>set as. bytes \<le> v_size (vmas s a) \<longrightarrow> r \<noteq> 0 \<and> v_size (vmas s r) \<le> v_size (vmas s a))"
  using assms(1,2) unfolding r_def
proof (induction as arbitrary: fit)
  case (Cons a as)
  define f1 where "f1 = (if fit = 0 \<and> v_size (vmas s a) \<ge> bytes then a else fit)"
  define f2 where "f2 = (if f1 \<noteq> 0 \<and> v_size (vmas s a) < v_size (vmas s f1) \<and> v_size (vmas s a) \<ge> bytes then a else f1)"
  have r: "best_fit s bytes (a # as) fit = best_fit s bytes as f2" by (simp add: f1_def f2_def Let_def)
  have f2: "f2 = fit \<or> f2 = a" "f2 = 0 \<or> bytes \<le> v_size (vmas s f2)" "fit \<noteq> 0 \<longrightarrow> f2 \<noteq> 0 \<and> v_size (vmas s f2) \<le> v_size (vmas s fit)"
    "bytes \<le> v_size (vmas s a) \<longrightarrow> f2 \<noteq> 0 \<and> v_size (vmas s f2) \<le> v_size (vmas s a)"
    using Cons.prems by (auto simp: f1_def f2_def not_less)
  from Cons.IH [of f2] Cons.prems(1) f2 show ?case unfolding r by (auto intro: order_trans)
qed simp

text \<open>Taking a region off the free list, whole or in part.\<close>

lemma regions_ok_set: "regions_ok vs rs \<Longrightarrow> distinct rs' \<Longrightarrow> set rs' \<subseteq> set rs \<Longrightarrow> regions_ok vs rs'"
  unfolding regions_ok_def by blast

text \<open>What the region code relies on from the slab allocator.\<close>

definition fresh_alloc :: "'a vm_scheme alloc_fn \<Rightarrow> 'a vm_scheme \<Rightarrow> bool" where
  "fresh_alloc al s \<longleftrightarrow> (\<exists>s' new. al SIZEOF_VMA s = Some (s', new) \<and> new \<noteq> 0 \<and> new \<notin> set (regions s) \<and> vmas s' = vmas s \<and>
     vma_list s' = vma_list s \<and> vma_freelist s' = vma_freelist s \<and> defrag_queue s' = defrag_queue s)"

lemma page_bytes:
  assumes "unat pages * 4096 < 2 ^ 32"
  shows "unat (pages * PAGE_SIZE) = unat pages * 4096"
  using assms by (simp add: PAGE_SIZE_def unat_mult_small)

lemma split_ok:
  fixes vs :: "u32 \<Rightarrow> vma" and f n b :: u32
  defines "vs' \<equiv> vs(n := \<lparr>v_start = v_start (vs f), v_size = b\<rparr>, f := (vs f)\<lparr>v_start := v_start (vs f) + b, v_size := v_size (vs f) - b\<rparr>)"
  assumes "regions_ok vs rs" "f \<in> set rs" "n \<notin> set rs" "n \<noteq> 0" "b < v_size (vs f)" "4096 dvd unat b" "PAGE_SIZE \<le> b"
  shows "regions_ok vs' (n # rs)" "(\<Union>a\<in>set (n # rs). span (vs' a)) = (\<Union>a\<in>set rs. span (vs a))" "span (vs' n) \<subseteq> span (vs f)"
    "span (vs' n) \<union> span (vs' f) = span (vs f)"
proof -
  have nf: "n \<noteq> f" using assms(3,4) by auto
  have f: "region_ok (vs f)" using assms(2,3) by (simp add: regions_ok_def)
  have b: "unat b < unat (v_size (vs f))" using assms(6) by (simp add: word_less_nat_alt)
  have e: "unat (v_start (vs f) + b) = unat (v_start (vs f)) + unat b" "unat (v_size (vs f) - b) = unat (v_size (vs f)) - unat b"
    using f b assms(6) by (simp_all add: region_ok_def unat_add_small unat_sub_small less_imp_le)
  have d: "4096 dvd unat (v_size (vs f)) - unat b" using f assms(7) by (simp add: region_ok_def dvd_diff_nat)
  then have "4096 \<le> unat (v_size (vs f)) - unat b" using b by (intro dvd_imp_le) auto
  then have rf: "region_ok (vs' f)" "region_ok (vs' n)"
    using f e d b assms(7,8) nf by (auto simp: vs'_def region_ok_def word_le_nat_alt PAGE_SIZE_def)
  show sp: "span (vs' n) \<union> span (vs' f) = span (vs f)" and sub: "span (vs' n) \<subseteq> span (vs f)"
    using nf e b by (auto simp: vs'_def span_def)
  have dj: "span (vs' n) \<inter> span (vs' f) = {}" using nf e b by (auto simp: vs'_def span_def)
  have o: "vs' a = vs a" if "a \<in> set rs" "a \<noteq> f" for a using that assms(4) by (auto simp: vs'_def)
  have od: "span (vs' a) \<inter> span (vs f) = {}" if "a \<in> set rs" "a \<noteq> f" for a
    using assms(2,3) that o by (auto simp: regions_ok_def)
  have "(\<Union>a\<in>set (n # rs). span (vs' a)) = span (vs' n) \<union> (span (vs' f) \<union> (\<Union>a\<in>set rs - {f}. span (vs' a)))"
    using assms(3) by auto
  also have "\<dots> = span (vs f) \<union> (\<Union>a\<in>set rs - {f}. span (vs a))" using sp o by auto
  also have "\<dots> = (\<Union>a\<in>set rs. span (vs a))" using assms(3) by auto
  finally show "(\<Union>a\<in>set (n # rs). span (vs' a)) = (\<Union>a\<in>set rs. span (vs a))" .
  show "regions_ok vs' (n # rs)"
    unfolding regions_ok_def
  proof (intro conjI ballI impI)
    fix a assume "a \<in> set (n # rs)"
    then show "region_ok (vs' a)" using rf o assms(2) by (cases "a = n"; cases "a = f") (auto simp: regions_ok_def)
  next
    fix a b assume ab: "a \<in> set (n # rs)" "b \<in> set (n # rs)" "a \<noteq> b"
    have sf: "span (vs' x) \<subseteq> span (vs f)" if "x = n \<or> x = f" for x using sp that by auto
    consider "a \<in> {n, f}" "b \<in> {n, f}" | "a \<in> {n, f}" "b \<in> set rs" "b \<noteq> f" | "b \<in> {n, f}" "a \<in> set rs" "a \<noteq> f"
      | "a \<in> set rs" "a \<noteq> f" "b \<in> set rs" "b \<noteq> f" using ab by auto
    then show "span (vs' a) \<inter> span (vs' b) = {}"
    proof cases
      case 4 then show ?thesis using o assms(2) ab(3) by (simp add: regions_ok_def)
    qed (use ab(3) dj od sf in \<open>auto, blast+\<close>)
  qed (use assms(2,4,5) in \<open>auto simp: regions_ok_def\<close>)
qed

definition covered :: "'a vm_scheme \<Rightarrow> u32 list \<Rightarrow> nat set" where
  "covered s rs = (\<Union>a\<in>set rs. span (vmas s a))"

lemma covered_diff:
  assumes "regions_ok vs (rs @ os)" "f \<in> set rs"
  shows "(\<Union>a\<in>set (remove1 f rs). span (vs a)) = (\<Union>a\<in>set rs. span (vs a)) - span (vs f)"
proof -
  have "set (remove1 f rs) = set rs - {f}" using assms(1) by (simp add: regions_ok_def set_remove1_eq)
  moreover have "span (vs a) \<inter> span (vs f) = {}" if "a \<in> set rs - {f}" for a
    using assms that by (auto simp: regions_ok_def)
  ultimately show ?thesis using assms(2) by auto
qed

lemma find_space_ok:
  assumes "vm_ok s" "fresh_alloc al s" "unat pages * 4096 < 2 ^ 32" "pages \<noteq> 0"
    and "a \<in> set (vma_freelist s)" "pages * PAGE_SIZE \<le> v_size (vmas s a)"
  shows "\<exists>s' v f. find_space al pages s = Some (s', v) \<and> vm_ok s' \<and> v \<noteq> 0 \<and> vma_list s' = vma_list s @ [v] \<and>
    unat (v_size (vmas s' v)) = unat pages * 4096 \<and> span (vmas s' v) \<subseteq> covered s (vma_freelist s) \<and>
    covered s' (vma_freelist s') = covered s (vma_freelist s) - span (vmas s' v) \<and>
    (\<forall>u\<in>set (vma_list s). vmas s' u = vmas s u) \<and>
    f \<in> set (vma_freelist s) \<and> v_start (vmas s' v) = v_start (vmas s f) \<and>
      (\<forall>b\<in>set (vma_freelist s). pages * PAGE_SIZE \<le> v_size (vmas s b) \<longrightarrow> v_size (vmas s f) \<le> v_size (vmas s b))"
proof -
  let ?b = "pages * PAGE_SIZE"
  define f where "f = best_fit s ?b (vma_freelist s) 0"
  have ok: "regions_ok (vmas s) (vma_freelist s @ defrag_queue s @ vma_list s)" using assms(1) by (simp add: vm_ok_def regions_def)
  then have z: "0 \<notin> set (vma_freelist s)" by (simp add: regions_ok_def)
  have f: "f \<noteq> 0" "f \<in> set (vma_freelist s)" "?b \<le> v_size (vmas s f)"
    "\<forall>b\<in>set (vma_freelist s). ?b \<le> v_size (vmas s b) \<longrightarrow> v_size (vmas s f) \<le> v_size (vmas s b)"
    using best_fit_ok [OF z, of 0 ?b s] assms(5,6) by (auto simp: f_def)
  have ub: "unat ?b = unat pages * 4096" by (rule page_bytes [OF assms(3)])
  have fd: "f \<notin> set (vma_list s)" "f \<notin> set (defrag_queue s)" using ok f(2) by (auto simp: regions_ok_def)
  show ?thesis
  proof (cases "v_size (vmas s f) > ?b")
    case True
    obtain s1 n where n: "al SIZEOF_VMA s = Some (s1, n)" "n \<noteq> 0" "n \<notin> set (regions s)" "vmas s1 = vmas s"
      "vma_list s1 = vma_list s" "vma_freelist s1 = vma_freelist s" "defrag_queue s1 = defrag_queue s"
      using assms(2) by (auto simp: fresh_alloc_def)
    have nf: "n \<noteq> f" using n(3) f(2) by (auto simp: regions_def)
    define vs where "vs = (vmas s)(n := \<lparr>v_start = v_start (vmas s f), v_size = ?b\<rparr>, f := (vmas s f)\<lparr>v_start := v_start (vmas s f) + ?b, v_size := v_size (vmas s f) - ?b\<rparr>)"
    let ?s' = "(upd_vma f (\<lambda>v. v\<lparr>v_start := v_start v + ?b, v_size := v_size v - ?b\<rparr>)
        (upd_vma n (\<lambda>_. \<lparr>v_start = v_start (vmas s f), v_size = ?b\<rparr>) s1))\<lparr>vma_list := vma_list s @ [n]\<rparr>"
    have ge: "PAGE_SIZE \<le> ?b" using assms(4) ub by (simp add: word_le_nat_alt PAGE_SIZE_def Suc_le_eq unat_gt_0)
    have "4096 dvd unat ?b" by (simp add: ub)
    note sp = split_ok [OF ok _ _ n(2) True this ge]
    have sp': "regions_ok vs (n # vma_freelist s @ defrag_queue s @ vma_list s)" "span (vs n) \<subseteq> span (vmas s f)" "span (vs n) \<union> span (vs f) = span (vmas s f)"
      using sp f(2) n(3) by (simp_all add: regions_def vs_def)
    have vs: "vmas ?s' = vs" using n(4) nf by (simp add: vs_def)
    have "vm_ok ?s'" unfolding vm_ok_def vs by (rule regions_ok_set [OF sp'(1)]) (use sp'(1) n(6,7) in \<open>auto simp: regions_def regions_ok_def\<close>)
    moreover have "covered ?s' (vma_freelist ?s') = covered s (vma_freelist s) - span (vmas ?s' n)"
    proof -
      have dj: "span (vs x) \<inter> span (vs n) = {}" if "x \<in> set (vma_freelist s)" for x
        using sp'(1) that n(3) unfolding regions_ok_def regions_def by (metis (no_types, lifting) UnCI list.set_intros(1,2) set_append)
      have o: "vs x = vmas s x" if "x \<in> set (vma_freelist s) - {f}" for x using that n(3) by (auto simp: regions_def vs_def)
      have "covered s (vma_freelist s) = span (vmas s f) \<union> (\<Union>x\<in>set (vma_freelist s) - {f}. span (vmas s x))"
        using f(2) by (auto simp: covered_def)
      also have "\<dots> = span (vs n) \<union> (span (vs f) \<union> (\<Union>x\<in>set (vma_freelist s) - {f}. span (vs x)))"
        using o by (simp flip: sp'(3) add: Un_assoc)
      also have "span (vs f) \<union> (\<Union>x\<in>set (vma_freelist s) - {f}. span (vs x)) = (\<Union>x\<in>set (vma_freelist s). span (vs x))"
        using f(2) by blast
      finally have "covered s (vma_freelist s) = span (vs n) \<union> (\<Union>x\<in>set (vma_freelist s). span (vs x))" .
      then show ?thesis using dj unfolding covered_def vs using n(6) by auto
    qed
    moreover have "span (vmas ?s' n) \<subseteq> covered s (vma_freelist s)" using sp'(2) f(2) unfolding vs covered_def by blast
    moreover have "find_space al pages s = Some (?s', n)"
      using n True f(1) by (simp add: find_space_def vma_split_def f_def [symmetric] Let_def)
    moreover have "unat (v_size (vmas ?s' n)) = unat pages * 4096" "v_start (vmas ?s' n) = v_start (vmas s f)"
      "\<forall>u\<in>set (vma_list s). vmas ?s' u = vmas s u"
      using nf ub n(3) fd unfolding vs by (auto simp: regions_def vs_def)
    ultimately show ?thesis using n(2) f(2,4) by (intro exI [of _ ?s'] exI [of _ n] exI [of _ f]) simp
  next
    case False
    let ?s' = "s\<lparr>vma_freelist := remove1 f (vma_freelist s), vma_list := vma_list s @ [f]\<rparr>"
    have "find_space al pages s = Some (?s', f)" using False f(1) by (simp add: find_space_def f_def [symmetric] Let_def)
    moreover have "vm_ok ?s'" unfolding vm_ok_def
      by (rule regions_ok_set [of _ "vma_freelist s @ defrag_queue s @ vma_list s"])
        (use ok f(2) fd in \<open>auto simp: regions_def regions_ok_def dest: notin_set_remove1\<close>)
    moreover have "covered ?s' (vma_freelist ?s') = covered s (vma_freelist s) - span (vmas ?s' f)"
      using covered_diff [OF ok f(2)] by (simp add: covered_def)
    moreover have "unat (v_size (vmas s f)) = unat pages * 4096" using False f(3) ub by (metis antisym not_less)
    moreover have "span (vmas ?s' f) \<subseteq> covered s (vma_freelist s)" using f(2) by (auto simp: covered_def)
    ultimately show ?thesis using f by (intro exI [of _ ?s'] exI [of _ f]) simp
  qed
qed

section \<open>Defragmentation\<close>

definition v_end :: "vma \<Rightarrow> nat" where "v_end v = unat (v_start v) + unat (v_size v)"

text \<open>In order, and in order with a gap between.\<close>

definition below :: "(u32 \<Rightarrow> vma) \<Rightarrow> u32 \<Rightarrow> u32 \<Rightarrow> bool" where "below vs x y \<longleftrightarrow> v_end (vs x) \<le> unat (v_start (vs y))"
definition apart :: "(u32 \<Rightarrow> vma) \<Rightarrow> u32 \<Rightarrow> u32 \<Rightarrow> bool" where "apart vs x y \<longleftrightarrow> v_end (vs x) < unat (v_start (vs y))"

lemma vma_cmp_disjoint:
  assumes "region_ok a" "region_ok b" "span a \<inter> span b = {}"
  shows "vma_cmp a b \<noteq> None" "vma_cmp a b = Some 1 \<Longrightarrow> v_end b \<le> unat (v_start a)" "vma_cmp a b \<noteq> Some 1 \<Longrightarrow> v_end a \<le> unat (v_start b)"
  using assms(3) region_ok_end [OF assms(1)] region_ok_end [OF assms(2)]
  unfolding span_disjoint [OF assms(1,2)] by (auto simp: vma_cmp_def v_end_def word_le_nat_alt split: if_splits)

lemma insert_vma_ok:
  assumes "regions_ok (vmas s) (a # xs)" "sorted_wrt (below (vmas s)) xs"
  shows "\<exists>l. insert_vma s a xs = Some l \<and> set l = insert a (set xs) \<and> distinct l \<and> sorted_wrt (below (vmas s)) l"
  using assms
proof (induction xs)
  case (Cons x xs)
  have r: "region_ok (vmas s a)" "region_ok (vmas s x)" "span (vmas s a) \<inter> span (vmas s x) = {}" "distinct (a # x # xs)"
    using Cons.prems(1) by (auto simp: regions_ok_def)
  note c = vma_cmp_disjoint [OF r(1-3)]
  show ?case
  proof (cases "vma_cmp (vmas s a) (vmas s x) = Some 1")
    case True
    have "regions_ok (vmas s) (a # xs)" by (rule regions_ok_set [OF Cons.prems(1)]) (use r(4) in auto)
    from Cons.IH [OF this] Cons.prems(2) obtain l where "insert_vma s a xs = Some l" "set l = insert a (set xs)" "distinct l" "sorted_wrt (below (vmas s)) l"
      by auto
    moreover have "below (vmas s) x a" using c(2) [OF True] by (simp add: below_def)
    ultimately show ?thesis using True Cons.prems(2) r(4) by auto
  next
    case False
    have ax: "below (vmas s) a x" using c(3) [OF False] by (simp add: below_def)
    moreover have "below (vmas s) a y" if "y \<in> set xs" for y
    proof -
      have "below (vmas s) x y" using Cons.prems(2) that by simp
      then show ?thesis using ax by (simp add: below_def v_end_def)
    qed
    ultimately show ?thesis using False c(1) Cons.prems(2) r(4) by (auto split: option.splits)
  qed
qed simp

lemma queue_to_freelist_ok:
  assumes "vm_ok s" "sorted_wrt (below (vmas s)) (vma_freelist s)" "defrag_queue s = q"
  shows "\<exists>l. queue_to_freelist q s = Some (s\<lparr>defrag_queue := [], vma_freelist := l\<rparr>) \<and>
    vm_ok (s\<lparr>defrag_queue := [], vma_freelist := l\<rparr>) \<and> sorted_wrt (below (vmas s)) l \<and> set l = set (vma_freelist s) \<union> set q"
  using assms
proof (induction q arbitrary: s)
  case Nil
  then show ?case by (intro exI [of _ "vma_freelist s"]) (simp add: vm_ok_def regions_def)
next
  case (Cons a q)
  have ok: "regions_ok (vmas s) (vma_freelist s @ (a # q) @ vma_list s)" using Cons.prems(1,3) by (simp add: vm_ok_def regions_def)
  have "regions_ok (vmas s) (a # vma_freelist s)" by (rule regions_ok_set [OF ok]) (use ok in \<open>auto simp: regions_ok_def\<close>)
  from insert_vma_ok [OF this Cons.prems(2)] obtain l where l: "insert_vma s a (vma_freelist s) = Some l"
    "set l = insert a (set (vma_freelist s))" "distinct l" "sorted_wrt (below (vmas s)) l" by blast
  have ins: "insert_vma (s\<lparr>defrag_queue := q\<rparr>) a xs = insert_vma s a xs" for xs by (induction xs) (auto split: option.splits)
  let ?s = "s\<lparr>defrag_queue := q, vma_freelist := l\<rparr>"
  have "vm_ok ?s" unfolding vm_ok_def
    using l(2,3) ok by (auto simp: regions_def intro!: regions_ok_set [OF ok]) (auto simp: regions_ok_def)
  from Cons.IH [OF this] l(4) obtain l' where "queue_to_freelist q ?s = Some (?s\<lparr>defrag_queue := [], vma_freelist := l'\<rparr>)"
    "vm_ok (?s\<lparr>defrag_queue := [], vma_freelist := l'\<rparr>)" "sorted_wrt (below (vmas ?s)) l'" "set l' = set l \<union> set q" by auto
  then show ?case using l Cons.prems(3) by (intro exI [of _ l']) (simp add: ins)
qed

text \<open>Merging two neighbours: \<open>a\<close> directly below \<open>b\<close>, directly above it, or not touching.\<close>

lemma asserts_hold:
  assumes "region_ok a" "region_ok b" "v_end a \<le> unat (v_start b) \<or> v_end b \<le> unat (v_start a)"
  shows "assert_invariants a b"
  using assms region_ok_pos [OF assms(1)] region_ok_pos [OF assms(2)] region_ok_end [OF assms(1)] region_ok_end [OF assms(2)]
  by (auto simp: assert_invariants_def region_ok_def v_end_def Let_def word_le_nat_alt word_less_nat_alt PAGE_SIZE_def)

lemma touch_iff:
  assumes "region_ok a"
  shows "v_start a + v_size a = v_start b \<longleftrightarrow> v_end a = unat (v_start b)" "v_start b = v_start a + v_size a \<longleftrightarrow> v_end a = unat (v_start b)"
  using region_ok_end [OF assms] by (auto simp: word_unat_eq_iff v_end_def)

lemma size_sum:
  assumes "region_ok a" "region_ok b" "v_end a = unat (v_start b)"
  shows "unat (v_size a + v_size b) = unat (v_size a) + unat (v_size b)"
  using assms by (intro unat_add_small) (simp add: region_ok_def v_end_def)

lemma merge_below:
  assumes "region_ok (vmas s a)" "region_ok (vmas s b)" "a \<noteq> b" "v_end (vmas s a) = unat (v_start (vmas s b))"
  defines "v \<equiv> (vmas s b)\<lparr>v_start := v_start (vmas s a), v_size := v_size (vmas s b) + v_size (vmas s a)\<rparr>"
  shows "vma_merge a b s = Some (s\<lparr>vmas := (vmas s)(b := v, a := (vmas s a)\<lparr>v_size := 0\<rparr>)\<rparr>, True)"
    "region_ok v" "span v = span (vmas s a) \<union> span (vmas s b)" "v_start v = v_start (vmas s a)" "v_end v = v_end (vmas s b)"
proof -
  have inv: "assert_invariants (vmas s a) (vmas s b)" using assms(4) by (intro asserts_hold [OF assms(1,2)]) simp
  show "vma_merge a b s = Some (s\<lparr>vmas := (vmas s)(b := v, a := (vmas s a)\<lparr>v_size := 0\<rparr>)\<rparr>, True)"
    using inv assms(3,4) by (simp add: vma_merge_def upd_vma_def Let_def touch_iff [OF assms(1)] v_def)
  have sz: "unat (v_size (vmas s b) + v_size (vmas s a)) = unat (v_size (vmas s a)) + unat (v_size (vmas s b))"
    using size_sum [OF assms(1,2,4)] by (simp add: add.commute)
  show "region_ok v" "span v = span (vmas s a) \<union> span (vmas s b)" "v_start v = v_start (vmas s a)" "v_end v = v_end (vmas s b)"
    using sz assms(1,2,4) by (auto simp: v_def region_ok_def span_def v_end_def word_le_nat_alt)
qed

lemma merge_above:
  assumes "region_ok (vmas s a)" "region_ok (vmas s b)" "a \<noteq> b" "v_end (vmas s b) = unat (v_start (vmas s a))"
  defines "v \<equiv> (vmas s b)\<lparr>v_size := v_size (vmas s b) + v_size (vmas s a)\<rparr>"
  shows "\<exists>z. vma_merge a b s = Some (s\<lparr>vmas := (vmas s)(b := v, a := z)\<rparr>, True)"
    "region_ok v" "span v = span (vmas s a) \<union> span (vmas s b)" "v_start v = v_start (vmas s b)" "v_end v = v_end (vmas s a)"
proof -
  have inv: "assert_invariants (vmas s a) (vmas s b)" using assms(4) by (intro asserts_hold [OF assms(1,2)]) simp
  have ne: "v_end (vmas s a) \<noteq> unat (v_start (vmas s b))"
    using assms(4) region_ok_pos [OF assms(1)] region_ok_pos [OF assms(2)] by (simp add: v_end_def)
  show "\<exists>z. vma_merge a b s = Some (s\<lparr>vmas := (vmas s)(b := v, a := z)\<rparr>, True)"
    using inv assms(3,4) ne by (simp add: vma_merge_def upd_vma_def Let_def touch_iff [OF assms(1)] touch_iff [OF assms(2)] v_def) blast
  have sz: "unat (v_size (vmas s b) + v_size (vmas s a)) = unat (v_size (vmas s b)) + unat (v_size (vmas s a))"
    using size_sum [OF assms(2,1,4)] .
  show "region_ok v" "span v = span (vmas s a) \<union> span (vmas s b)" "v_start v = v_start (vmas s b)" "v_end v = v_end (vmas s a)"
    using sz assms(1,2,4) by (auto simp: v_def region_ok_def span_def v_end_def word_le_nat_alt)
qed

lemma merge_apart:
  assumes "region_ok (vmas s a)" "region_ok (vmas s b)" "apart (vmas s) a b \<or> apart (vmas s) b a"
  shows "vma_merge a b s = Some (s, False)"
proof -
  have inv: "assert_invariants (vmas s a) (vmas s b)" using assms(3) by (intro asserts_hold [OF assms(1,2)]) (auto simp: apart_def)
  have "v_end (vmas s a) \<noteq> unat (v_start (vmas s b))" "v_end (vmas s b) \<noteq> unat (v_start (vmas s a))"
    using assms(3) region_ok_pos [OF assms(1)] region_ok_pos [OF assms(2)] by (auto simp: apart_def v_end_def)
  then show ?thesis using inv by (simp add: vma_merge_def Let_def touch_iff [OF assms(1)] touch_iff [OF assms(2)])
qed

lemma merge_regions:
  assumes "regions_ok vs (fl @ os)" "a \<in> set fl" "b \<in> set fl" "a \<noteq> b" "\<forall>x. x \<noteq> a \<and> x \<noteq> b \<longrightarrow> vs' x = vs x"
    and "region_ok (vs' b)" "span (vs' b) = span (vs a) \<union> span (vs b)"
  shows "regions_ok vs' (remove1 a fl @ os)" "(\<Union>x\<in>set (remove1 a fl). span (vs' x)) = (\<Union>x\<in>set fl. span (vs x))"
    "\<forall>x\<in>set os. vs' x = vs x"
proof -
  have d: "distinct (fl @ os)" using assms(1) by (simp add: regions_ok_def)
  have r: "set (remove1 a fl) = set fl - {a}" using d by (simp add: set_remove1_eq)
  show os: "\<forall>x\<in>set os. vs' x = vs x" using assms(2,3,5) d by auto
  have "(\<Union>x\<in>set fl - {a}. span (vs' x)) = span (vs' b) \<union> (\<Union>x\<in>set fl - {a, b}. span (vs' x))" using assms(3,4) by auto
  also have "\<dots> = span (vs a) \<union> span (vs b) \<union> (\<Union>x\<in>set fl - {a, b}. span (vs x))" using assms(5,7) by auto
  also have "\<dots> = (\<Union>x\<in>set fl. span (vs x))" using assms(2,3) by auto
  finally show "(\<Union>x\<in>set (remove1 a fl). span (vs' x)) = (\<Union>x\<in>set fl. span (vs x))" by (simp add: r)
  have sub: "\<exists>y\<in>set (fl @ os). z \<in> span (vs y) \<and> (x = b \<and> y = a \<or> y = x)" if "x \<in> set (fl @ os)" "x \<noteq> a" "z \<in> span (vs' x)" for x z
    using that assms(2,3,5,7) by (cases "x = b") auto
  have dj: "span (vs' x) \<inter> span (vs' y) = {}" if "x \<in> set (fl @ os) - {a}" "y \<in> set (fl @ os) - {a}" "x \<noteq> y" for x y
  proof (rule ccontr)
    assume "span (vs' x) \<inter> span (vs' y) \<noteq> {}"
    then obtain z where "z \<in> span (vs' x)" "z \<in> span (vs' y)" by auto
    with sub [of x z] sub [of y z] that obtain u v where "u \<in> set (fl @ os)" "v \<in> set (fl @ os)" "z \<in> span (vs u)" "z \<in> span (vs v)" "u \<noteq> v" by auto
    then show False using assms(1) unfolding regions_ok_def by blast
  qed
  show "regions_ok vs' (remove1 a fl @ os)"
    unfolding regions_ok_def
  proof (intro conjI ballI impI)
    fix x assume x: "x \<in> set (remove1 a fl @ os)"
    then have "x \<in> set (fl @ os)" "x \<noteq> a" using r d assms(2) by auto
    then show "region_ok (vs' x)" using assms(1,5,6) by (cases "x = b") (auto simp: regions_ok_def)
  next
    fix x y assume "x \<in> set (remove1 a fl @ os)" "y \<in> set (remove1 a fl @ os)" "x \<noteq> y"
    moreover have "set (remove1 a fl @ os) = set (fl @ os) - {a}" using r d assms(2) by auto
    ultimately show "span (vs' x) \<inter> span (vs' y) = {}" using dj by blast
  qed (use d assms(1) r in \<open>auto simp: regions_ok_def dest: notin_set_remove1\<close>)
qed

text \<open>What defragmentation relies on from freeing a descriptor.\<close>

definition free_keeps :: "(u32 \<Rightarrow> 'a vm_scheme \<Rightarrow> 'a vm_scheme option) \<Rightarrow> bool" where
  "free_keeps fr \<longleftrightarrow> (\<forall>p s. \<exists>s'. fr p s = Some s' \<and> vmas s' = vmas s \<and> vma_list s' = vma_list s \<and> vma_freelist s' = vma_freelist s \<and>
     defrag_queue s' = defrag_queue s \<and> eflags_if s' = eflags_if s \<and> cli_depth s' = cli_depth s \<and> cli_int_enabled s' = cli_int_enabled s)"

text \<open>What the loop keeps: the addresses, the regions in use, the interrupt state.\<close>

definition merge_frame :: "'a vm_scheme \<Rightarrow> 'a vm_scheme \<Rightarrow> bool" where
  "merge_frame s s' \<longleftrightarrow> vma_list s' = vma_list s \<and> defrag_queue s' = defrag_queue s \<and> (\<forall>u\<in>set (vma_list s). vmas s' u = vmas s u) \<and>
     covered s' (vma_freelist s') = covered s (vma_freelist s) \<and> eflags_if s' = eflags_if s \<and> cli_depth s' = cli_depth s \<and>
     cli_int_enabled s' = cli_int_enabled s"

lemma merge_frame_trans: "merge_frame s s1 \<Longrightarrow> merge_frame s1 s2 \<Longrightarrow> merge_frame s s2"
  by (auto simp: merge_frame_def)

definition loop_inv :: "u32 list \<Rightarrow> u32 list \<Rightarrow> 'a vm_scheme \<Rightarrow> bool" where
  "loop_inv pre as s \<longleftrightarrow> vm_ok s \<and> vma_freelist s = pre @ as \<and> sorted_wrt (below (vmas s)) (pre @ as) \<and> sorted_wrt (apart (vmas s)) pre"

lemma sorted_wrt_last: "sorted_wrt P (xs @ [x]) \<longleftrightarrow> sorted_wrt P xs \<and> (\<forall>y\<in>set xs. P y x)"
  by (simp add: sorted_wrt_append)

text \<open>One merge, at either side, and the free of the emptied descriptor.\<close>

lemma merge_and_free:
  assumes "free_keeps fr" "vm_ok s" "vma_freelist s = us @ a # ws" "b \<in> set (us @ ws)"
    and "vs' = vmas s1" "s1 = s\<lparr>vmas := vs'\<rparr>" "\<forall>x. x \<noteq> a \<and> x \<noteq> b \<longrightarrow> vs' x = vmas s x"
    and "region_ok (vs' b)" "span (vs' b) = span (vmas s a) \<union> span (vmas s b)"
  shows "\<exists>s2. fr a (s1\<lparr>vma_freelist := us @ ws\<rparr>) = Some s2 \<and> vm_ok s2 \<and> merge_frame s s2 \<and> vmas s2 = vs' \<and> vma_freelist s2 = us @ ws"
proof -
  have ok: "regions_ok (vmas s) ((us @ a # ws) @ (defrag_queue s @ vma_list s))" using assms(2,3) by (simp add: vm_ok_def regions_def)
  then have nd: "a \<notin> set us" "a \<noteq> b" using assms(4) by (auto simp: regions_ok_def)
  then have r: "remove1 a (us @ a # ws) = us @ ws" by (simp add: remove1_append)
  note mr = merge_regions [OF ok _ _ nd(2) assms(7-9), unfolded r]
  obtain s2 where s2: "fr a (s1\<lparr>vma_freelist := us @ ws\<rparr>) = Some s2" "vmas s2 = vs'" "vma_list s2 = vma_list s" "vma_freelist s2 = us @ ws"
    "defrag_queue s2 = defrag_queue s" "eflags_if s2 = eflags_if s" "cli_depth s2 = cli_depth s" "cli_int_enabled s2 = cli_int_enabled s"
    using assms(1) [unfolded free_keeps_def, rule_format, of a "s1\<lparr>vma_freelist := us @ ws\<rparr>"] unfolding assms(6) by auto
  have "vm_ok s2" using mr(1) assms(4) s2 by (simp add: vm_ok_def regions_def)
  moreover have "merge_frame s s2" using mr(2,3) assms(3,4) s2 by (auto simp: merge_frame_def covered_def)
  ultimately show ?thesis using s2 by blast
qed

lemma sorted_wrt_vs:
  "sorted_wrt P xs \<Longrightarrow> (\<And>x y. x \<in> set xs \<Longrightarrow> y \<in> set xs \<Longrightarrow> P x y \<Longrightarrow> Q x y) \<Longrightarrow> sorted_wrt Q xs"
  by (rule sorted_wrt_mono_rel [of xs P Q])

lemma loop_invD:
  assumes "loop_inv pre (a # as) s"
  shows "vm_ok s" "vma_freelist s = pre @ a # as" "sorted_wrt (apart (vmas s)) pre" "distinct (pre @ a # as)"
    "\<And>x. x \<in> set (pre @ a # as) \<Longrightarrow> region_ok (vmas s x) \<and> unat (v_start (vmas s x)) < v_end (vmas s x)"
    "\<And>x. x \<in> set pre \<Longrightarrow> below (vmas s) x a" "\<And>x. x \<in> set as \<Longrightarrow> below (vmas s) a x" "sorted_wrt (below (vmas s)) pre"
    "sorted_wrt (below (vmas s)) as" "\<And>x y. x \<in> set pre \<Longrightarrow> y \<in> set as \<Longrightarrow> below (vmas s) x y"
proof -
  show I: "vm_ok s" "vma_freelist s = pre @ a # as" "sorted_wrt (apart (vmas s)) pre"
    using assms by (auto simp: loop_inv_def)
  have ok: "regions_ok (vmas s) ((pre @ a # as) @ defrag_queue s @ vma_list s)" using I(1,2) by (simp add: vm_ok_def regions_def)
  then have "distinct ((pre @ a # as) @ defrag_queue s @ vma_list s)" unfolding regions_ok_def by (rule conjunct1)
  then show "distinct (pre @ a # as)" by (rule distinct_append [THEN iffD1, THEN conjunct1])
  show "region_ok (vmas s x) \<and> unat (v_start (vmas s x)) < v_end (vmas s x)" if "x \<in> set (pre @ a # as)" for x
  proof -
    have "region_ok (vmas s x)" using ok that unfolding regions_ok_def by (metis UnCI set_append)
    then show ?thesis using region_ok_pos [of "vmas s x"] by (simp add: v_end_def)
  qed
  have "sorted_wrt (below (vmas s)) (pre @ a # as)" using assms by (simp add: loop_inv_def)
  then show "\<And>x. x \<in> set pre \<Longrightarrow> below (vmas s) x a" "\<And>x. x \<in> set as \<Longrightarrow> below (vmas s) a x" "sorted_wrt (below (vmas s)) pre"
    "sorted_wrt (below (vmas s)) as" "\<And>x y. x \<in> set pre \<Longrightarrow> y \<in> set as \<Longrightarrow> below (vmas s) x y"
    by (auto simp: sorted_wrt_append)
qed

lemma before_last:
  assumes "loop_inv pre (a # as) s" "x \<in> set pre"
  shows "v_end (vmas s x) \<le> v_end (vmas s (last pre))"
proof (cases "x = last pre")
  case False
  note I = loop_invD [OF assms(1)]
  have ne: "pre \<noteq> []" using assms(2) by auto
  then have p: "pre = butlast pre @ [last pre]" by simp
  then have x: "x \<in> set (butlast pre)" using assms(2) False by (metis Un_iff empty_iff empty_set set_ConsD set_append)
  have "sorted_wrt (below (vmas s)) (butlast pre @ [last pre])" using I(8) p by simp
  then have "below (vmas s) x (last pre)" using x by (simp add: sorted_wrt_last)
  moreover have "last pre \<in> set (pre @ a # as)" using ne by simp
  ultimately show ?thesis using I(5) [of "last pre"] by (simp add: below_def)
qed simp

lemma loop_step_left:
  assumes "free_keeps fr" "loop_inv pre (a # as) s" "pre \<noteq> []" "v_end (vmas s (last pre)) = unat (v_start (vmas s a))"
  shows "\<exists>s1 s2. vma_merge a (last pre) s = Some (s1, True) \<and> fr a (s1\<lparr>vma_freelist := pre @ as\<rparr>) = Some s2 \<and>
    loop_inv pre as s2 \<and> merge_frame s s2"
proof -
  note I = loop_invD [OF assms(2)]
  define b where "b = last pre"
  have b: "b \<in> set pre" "a \<noteq> b" using assms(3) I(4) by (auto simp: b_def)
  define v where "v = (vmas s b)\<lparr>v_size := v_size (vmas s b) + v_size (vmas s a)\<rparr>"
  have "\<exists>z. vma_merge a b s = Some (s\<lparr>vmas := (vmas s)(b := v, a := z)\<rparr>, True)" and v: "region_ok v"
    "span v = span (vmas s a) \<union> span (vmas s b)" "v_start v = v_start (vmas s b)" "v_end v = v_end (vmas s a)"
    unfolding v_def using merge_above [of s a b] I(5) [of a] I(5) [of b] b assms(4) by (simp_all add: b_def)
  then obtain z where z: "vma_merge a b s = Some (s\<lparr>vmas := (vmas s)(b := v, a := z)\<rparr>, True)" by blast
  define vs' where "vs' = (vmas s)(b := v, a := z)"
  from merge_and_free [OF assms(1) I(1,2), of b vs' "s\<lparr>vmas := vs'\<rparr>"] v(1,2) b obtain s2 where
    s2: "fr a (s\<lparr>vmas := vs', vma_freelist := pre @ as\<rparr>) = Some s2" "vm_ok s2" "merge_frame s s2" "vmas s2 = vs'" "vma_freelist s2 = pre @ as"
    by (auto simp: vs'_def)
  have st: "v_start (vs' x) = v_start (vmas s x)" "x \<noteq> b \<Longrightarrow> vs' x = vmas s x" if "x \<noteq> a" for x using that v(3) by (auto simp: vs'_def)
  have eb: "v_end (vs' b) = v_end (vmas s a)" using b(2) v(4) by (simp add: vs'_def)
  have na: "x \<noteq> a" if "x \<in> set pre \<union> set as" for x using that I(4) by auto
  have nb: "P (vmas s) x y \<Longrightarrow> x \<noteq> b" if "x \<in> set pre" "y \<in> set pre" "P = apart \<or> P = below" for x y P
    using before_last [OF assms(2) that(2)] I(5) [of y] that by (auto simp: apart_def below_def b_def)
  have "loop_inv pre as s2"
    unfolding loop_inv_def sorted_wrt_append
  proof (intro conjI ballI)
    show "sorted_wrt (apart (vmas s2)) pre"
      by (rule sorted_wrt_vs [OF I(3)]) (use nb [where P = apart] na st s2(4) in \<open>auto simp: apart_def\<close>)
    show "sorted_wrt (below (vmas s2)) pre"
      by (rule sorted_wrt_vs [OF I(8)]) (use nb [where P = below] na st s2(4) in \<open>auto simp: below_def\<close>)
    have "x \<noteq> a \<and> x \<noteq> b" if "x \<in> set as" for x using that I(4) b(1) by auto
    then show "sorted_wrt (below (vmas s2)) as"
      by (intro sorted_wrt_vs [OF I(9)]) (use st s2(4) in \<open>auto simp: below_def\<close>)
    fix x y assume xy: "x \<in> set pre" "y \<in> set as"
    then show "below (vmas s2) x y"
      using I(10) [OF xy] I(7) [OF xy(2)] st na s2(4) eb by (cases "x = b") (auto simp: below_def)
  qed (use s2 in auto)
  then show ?thesis using z s2 by (auto simp: b_def vs'_def)
qed

lemma loop_step_right:
  assumes "free_keeps fr" "loop_inv pre (a # b # as) s" "v_end (vmas s a) = unat (v_start (vmas s b))"
  shows "\<exists>s1 s2. vma_merge a b s = Some (s1, True) \<and> fr a (s1\<lparr>vma_freelist := pre @ b # as\<rparr>) = Some s2 \<and>
    loop_inv pre (b # as) s2 \<and> merge_frame s s2"
proof -
  note I = loop_invD [OF assms(2)]
  have b: "a \<noteq> b" using I(4) by auto
  define v where "v = (vmas s b)\<lparr>v_start := v_start (vmas s a), v_size := v_size (vmas s b) + v_size (vmas s a)\<rparr>"
  define vs' where "vs' = (vmas s)(b := v, a := (vmas s a)\<lparr>v_size := 0\<rparr>)"
  have z: "vma_merge a b s = Some (s\<lparr>vmas := vs'\<rparr>, True)" and v: "region_ok v"
    "span v = span (vmas s a) \<union> span (vmas s b)" "v_start v = v_start (vmas s a)" "v_end v = v_end (vmas s b)"
    unfolding v_def vs'_def using merge_below [of s a b] I(5) [of a] I(5) [of b] b assms(3) by simp_all
  from merge_and_free [OF assms(1) I(1,2), of b vs' "s\<lparr>vmas := vs'\<rparr>"] v(1,2) b obtain s2 where
    s2: "fr a (s\<lparr>vmas := vs', vma_freelist := pre @ b # as\<rparr>) = Some s2" "vm_ok s2" "merge_frame s s2" "vmas s2 = vs'" "vma_freelist s2 = pre @ b # as"
    by (auto simp: vs'_def)
  have st: "v_end (vs' x) = v_end (vmas s x)" "x \<noteq> b \<Longrightarrow> vs' x = vmas s x" if "x \<noteq> a" for x using that v(4) by (auto simp: vs'_def)
  have sb: "v_start (vs' b) = v_start (vmas s a)" using b v(3) by (simp add: vs'_def)
  have n: "x \<noteq> a \<and> x \<noteq> b" if "x \<in> set pre \<union> set as" for x using that I(4) by auto
  have "loop_inv pre (b # as) s2"
    unfolding loop_inv_def sorted_wrt_append
  proof (intro conjI ballI)
    show "sorted_wrt (apart (vmas s2)) pre"
      by (rule sorted_wrt_vs [OF I(3)]) (use n st s2(4) in \<open>auto simp: apart_def\<close>)
    show "sorted_wrt (below (vmas s2)) pre"
      by (rule sorted_wrt_vs [OF I(8)]) (use n st s2(4) in \<open>auto simp: below_def\<close>)
    have "sorted_wrt (below (vmas s)) as" "\<forall>y\<in>set as. below (vmas s) b y" using I(9) by simp_all
    moreover from this(1) have "sorted_wrt (below vs') as"
      by (rule sorted_wrt_vs) (use n st in \<open>auto simp: below_def\<close>)
    ultimately show "sorted_wrt (below (vmas s2)) (b # as)" using n st [of b] st b s2(4) by (auto simp: below_def)
    fix x y assume xy: "x \<in> set pre" "y \<in> set (b # as)"
    then have "x \<noteq> a" "y \<noteq> a" using n b by auto
    then show "below (vmas s2) x y"
      using I(10) [OF xy] I(6) [OF xy(1)] st [of x] st [of y] sb s2(4) by (cases "y = b") (auto simp: below_def)
  qed (use s2 in auto)
  then show ?thesis using z s2 by auto
qed

lemma loop_no_left:
  assumes "loop_inv pre (a # as) s" "pre = [] \<or> v_end (vmas s (last pre)) \<noteq> unat (v_start (vmas s a))"
  shows "(if pre \<noteq> [] then vma_merge a (last pre) s else Some (s, False)) = Some (s, False)" "\<And>x. x \<in> set pre \<Longrightarrow> apart (vmas s) x a"
proof -
  note I = loop_invD [OF assms(1)]
  have lt: "v_end (vmas s (last pre)) < unat (v_start (vmas s a))" if "pre \<noteq> []"
    using assms(2) I(6) [of "last pre"] that by (simp add: below_def)
  then show "apart (vmas s) x a" if "x \<in> set pre" for x
    using before_last [OF assms(1) that] that by (cases pre) (auto simp: apart_def)
  show "(if pre \<noteq> [] then vma_merge a (last pre) s else Some (s, False)) = Some (s, False)"
    using merge_apart [of s a "last pre"] I(5) [of a] I(5) [of "last pre"] lt by (auto simp: apart_def)
qed

lemma merge_loop_ok:
  assumes "free_keeps fr" "loop_inv pre as s"
  shows "\<exists>s'. merge_loop fr pre as s = Some s' \<and> vm_ok s' \<and> merge_frame s s' \<and> sorted_wrt (apart (vmas s')) (vma_freelist s')"
  using assms(2)
proof (induction as arbitrary: pre s)
  case Nil
  then show ?case by (simp add: loop_inv_def merge_frame_def)
next
  case (Cons a as)
  note I = loop_invD [OF Cons.prems]
  show ?case
  proof (cases "pre = [] \<or> v_end (vmas s (last pre)) \<noteq> unat (v_start (vmas s a))")
    case False
    with loop_step_left [OF assms(1) Cons.prems] obtain s1 s2 where "vma_merge a (last pre) s = Some (s1, True)"
      "fr a (s1\<lparr>vma_freelist := pre @ as\<rparr>) = Some s2" "loop_inv pre as s2" "merge_frame s s2" by blast
    with Cons.IH [of pre s2] show ?thesis using False merge_frame_trans [of s s2] by auto
  next
    case True
    note left = loop_no_left [OF Cons.prems True]
    show ?thesis
    proof (cases "as \<noteq> [] \<and> v_end (vmas s a) = unat (v_start (vmas s (hd as)))")
      case True
      then have as: "as = hd as # tl as" by simp
      then have li: "loop_inv pre (a # hd as # tl as) s" using Cons.prems by simp
      with loop_step_right [OF assms(1) li] True as obtain s1 s2 where "vma_merge a (hd as) s = Some (s1, True)"
        "fr a (s1\<lparr>vma_freelist := pre @ as\<rparr>) = Some s2" "loop_inv pre as s2" "merge_frame s s2" by auto
      with Cons.IH [of pre s2] show ?thesis using True left(1) merge_frame_trans [of s s2] by auto
    next
      case False
      have right: "(if as \<noteq> [] then vma_merge a (hd as) s else Some (s, False)) = Some (s, False)"
        using merge_apart [of s a "hd as"] I(5) [of a] I(5) [of "hd as"] I(7) [of "hd as"] False by (auto simp: apart_def below_def)
      have "loop_inv (pre @ [a]) as s" using Cons.prems left(2) by (simp add: loop_inv_def sorted_wrt_last)
      from Cons.IH [OF this] show ?thesis using left(1) right by simp
    qed
  qed
qed

lemma do_defrag_ok:
  assumes "free_keeps fr" "vm_ok s" "sorted_wrt (below (vmas s)) (vma_freelist s)" "0 \<le> cli_depth s" "0 < cli_depth s \<longrightarrow> \<not> eflags_if s"
  shows "\<exists>s'. do_defrag fr s = Some s' \<and> vm_ok s' \<and> defrag_queue s' = [] \<and> vma_list s' = vma_list s \<and>
    (\<forall>u\<in>set (vma_list s). vmas s' u = vmas s u) \<and>
    covered s' (vma_freelist s') = covered s (vma_freelist s) \<union> covered s (defrag_queue s) \<and>
    sorted_wrt (apart (vmas s')) (vma_freelist s') \<and> eflags_if s' = eflags_if s \<and> cli_depth s' = cli_depth s"
proof -
  let ?s = "cli_push s"
  have c: "vmas ?s = vmas s" "vma_freelist ?s = vma_freelist s" "defrag_queue ?s = defrag_queue s" "vma_list ?s = vma_list s"
    "\<not> eflags_if ?s" "cli_depth ?s = cli_depth s + 1" "cli_depth s = 0 \<Longrightarrow> cli_int_enabled ?s = eflags_if s"
    by (simp_all add: cli_push_def cli_def Let_def)
  have "vm_ok ?s" using assms(2) c by (simp add: vm_ok_def regions_def)
  from queue_to_freelist_ok [OF this _ refl] assms(3) c obtain l where l:
    "queue_to_freelist (defrag_queue s) ?s = Some (?s\<lparr>defrag_queue := [], vma_freelist := l\<rparr>)"
    "vm_ok (?s\<lparr>defrag_queue := [], vma_freelist := l\<rparr>)" "sorted_wrt (below (vmas s)) l" "set l = set (vma_freelist s) \<union> set (defrag_queue s)"
    by auto
  let ?s1 = "?s\<lparr>defrag_queue := [], vma_freelist := l\<rparr>"
  have "loop_inv [] l ?s1" using l(2,3) c by (simp add: loop_inv_def)
  from merge_loop_ok [OF assms(1) this] obtain s2 where s2: "merge_loop fr [] l ?s1 = Some s2" "vm_ok s2" "merge_frame ?s1 s2"
    "sorted_wrt (apart (vmas s2)) (vma_freelist s2)" by blast
  have f: "vma_list s2 = vma_list s" "defrag_queue s2 = []" "\<forall>u\<in>set (vma_list s). vmas s2 u = vmas s u"
    "covered s2 (vma_freelist s2) = covered s (vma_freelist s) \<union> covered s (defrag_queue s)"
    "\<not> eflags_if s2" "cli_depth s2 = cli_depth s + 1" "cli_depth s = 0 \<Longrightarrow> cli_int_enabled s2 = eflags_if s"
    using s2(3) c l(4) by (auto simp: merge_frame_def covered_def)
  let ?s3 = "if cli_depth s = 0 \<and> cli_int_enabled s2 then sti (s2\<lparr>cli_depth := cli_depth s\<rparr>) else s2\<lparr>cli_depth := cli_depth s\<rparr>"
  have "cli_pop s2 = Some ?s3" using f(5,6) assms(4) by (simp add: cli_pop_def Let_def)
  moreover have "vmas ?s3 = vmas s2" "vma_freelist ?s3 = vma_freelist s2" "defrag_queue ?s3 = defrag_queue s2" "vma_list ?s3 = vma_list s2"
    "eflags_if ?s3 = eflags_if s" "cli_depth ?s3 = cli_depth s"
    using f(5,7) assms(4,5) by (auto simp: sti_def)
  ultimately show ?thesis
    using l(1) s2 f c(3) by (intro exI [of _ ?s3]) (simp add: do_defrag_def vm_ok_def regions_def covered_def)
qed

section \<open>Addresses and backtraces\<close>

lemma unat_VA:
  "unat (VA_PD_IDX va) = unat va div 2 ^ 22" "unat (VA_PT_IDX va) = unat va div 2 ^ 12 mod 2 ^ 10" "unat (VA_PG_OFF va) = unat va mod 2 ^ 12"
proof -
  have m: "(x :: u32) AND 0x3FF = take_bit 10 x" "x AND 0xFFF = take_bit 12 x" for x
    by (simp_all add: take_bit_eq_mask mask_eq_exp_minus_1)
  have "unat va div 2 ^ 22 < 2 ^ 10" using unat_lt32 [of va] by (simp add: less_mult_imp_div_less)
  then show "unat (VA_PD_IDX va) = unat va div 2 ^ 22"
    by (simp add: VA_PD_IDX_def drop_bit_and m unat_take_bit unat_drop_bit32)
  show "unat (VA_PT_IDX va) = unat va div 2 ^ 12 mod 2 ^ 10"
    by (simp add: VA_PT_IDX_def drop_bit_and m unat_take_bit unat_drop_bit32)
  show "unat (VA_PG_OFF va) = unat va mod 2 ^ 12" by (simp add: VA_PG_OFF_def m unat_take_bit)
qed

lemma va_sum: "unat va = unat (VA_PD_IDX va) * 2 ^ 22 + unat (VA_PT_IDX va) * 2 ^ 12 + unat (VA_PG_OFF va)"
proof -
  let ?v = "unat va"
  have sum: "v = x * 2 ^ 22 + y * 2 ^ 12 + z" if "v = q * 2 ^ 12 + z" "q = x * 2 ^ 10 + y" for v q x y z :: nat
    using that by simp
  have "?v div 2 ^ 12 div 2 ^ 10 = ?v div 2 ^ 22" by (simp flip: div_mult2_eq)
  moreover have "?v = ?v div 2 ^ 12 div 2 ^ 10 * 2 ^ 22 + ?v div 2 ^ 12 mod 2 ^ 10 * 2 ^ 12 + ?v mod 2 ^ 12"
    by (rule sum [OF div_mult_mod_eq [symmetric] div_mult_mod_eq [symmetric]])
  ultimately show ?thesis unfolding unat_VA by simp
qed

lemma va_bounds: "unat (VA_PD_IDX va) < 1024" "unat (VA_PT_IDX va) < 1024" "unat (VA_PG_OFF va) < 4096"
  using unat_lt32 [of va] by (simp_all add: unat_VA less_mult_imp_div_less)

definition stack_bottom :: "'a vm_scheme \<Rightarrow> u32" where
  "stack_bottom s = (let k = tasks s (current s) in if t_stack_user k = 0 then t_stack_kernel k else t_stack_user k)"

lemma valid_frame_iff:
  assumes "stack_bottom s \<noteq> 0"
  shows "\<exists>ok. valid_frame f s = Some ok \<and> (ok \<longrightarrow> f \<noteq> 0 \<and> stack_bottom s + PAGE_SIZE \<le> f \<and> f \<le> stack_bottom s + 2 * PAGE_SIZE)"
  using assms by (auto simp: valid_frame_def stack_bottom_def Let_def not_less)

lemma backtrace_loop_ok:
  assumes "stack_bottom s \<noteq> 0"
  shows "\<exists>l. backtrace_loop kstart kend f d s = Some l \<and> length l \<le> 128 - unat d \<and>
    (\<forall>(n, g, c) \<in> set l. stack_bottom s + PAGE_SIZE \<le> g \<and> g \<le> stack_bottom s + 2 * PAGE_SIZE)"
proof (induction "128 - unat d" arbitrary: f d rule: less_induct)
  case less
  obtain ok where ok: "valid_frame f s = Some ok" "ok \<longrightarrow> stack_bottom s + PAGE_SIZE \<le> f \<and> f \<le> stack_bottom s + 2 * PAGE_SIZE"
    using valid_frame_iff [OF assms, of f] by auto
  show ?case
  proof (cases "ok \<and> d < s_bt_maxdepth")
    case True
    then have d: "unat d < 128" by (simp add: word_less_nat_alt)
    then have "unat (d + 1) = unat d + 1" using unat_add_small [of d 1] by simp
    then have dd: "128 - unat (d + 1) < 128 - unat d" "128 - unat (d + 1) = 128 - (unat d + 1)" using d by simp_all
    from less [OF dd(1), of "load32 (kmem s) f"] obtain l where
      "backtrace_loop kstart kend (load32 (kmem s) f) (d + 1) s = Some l" "length l \<le> 128 - (unat d + 1)"
      "\<forall>(n, g, c) \<in> set l. stack_bottom s + PAGE_SIZE \<le> g \<and> g \<le> stack_bottom s + 2 * PAGE_SIZE" unfolding dd(2) by blast
    with True ok d show ?thesis by (subst backtrace_loop.simps) auto
  next
    case False
    with ok show ?thesis by (subst backtrace_loop.simps) auto
  qed
qed

section \<open>Claims\<close>

text \<open>
  C8. A request for address space that some free region can satisfy returns a region of exactly the
  pages asked for, cut from the smallest free region that is large enough. It overlaps no other
  region, its addresses were free before and are not free after, and the regions in use are
  untouched.
\<close>

theorem find_space_best_fit:
  assumes "vm_ok s" "fresh_alloc al s" "unat pages * 4096 < 2 ^ 32" "pages \<noteq> 0"
    and "a \<in> set (vma_freelist s)" "pages * PAGE_SIZE \<le> v_size (vmas s a)"
  shows "\<exists>s' v f. find_space al pages s = Some (s', v) \<and> vm_ok s' \<and> vma_list s' = vma_list s @ [v] \<and>
    unat (v_size (vmas s' v)) = unat pages * 4096 \<and> span (vmas s' v) \<subseteq> covered s (vma_freelist s) \<and>
    covered s' (vma_freelist s') = covered s (vma_freelist s) - span (vmas s' v) \<and>
    (\<forall>u\<in>set (vma_list s). vmas s' u = vmas s u) \<and>
    f \<in> set (vma_freelist s) \<and> v_start (vmas s' v) = v_start (vmas s f) \<and>
      (\<forall>b\<in>set (vma_freelist s). pages * PAGE_SIZE \<le> v_size (vmas s b) \<longrightarrow> v_size (vmas s f) \<le> v_size (vmas s b))"
  using find_space_ok [OF assms] by blast

definition vm0 :: "u32 list \<Rightarrow> u32 list \<Rightarrow> (u32 \<Rightarrow> vma) \<Rightarrow> vm" where
  "vm0 fl q vs = kernel.extend kernel0 (vm.fields vs [] fl q)"

lemma vm0_sel [simp]: "vmas (vm0 fl q vs) = vs" "vma_list (vm0 fl q vs) = []" "vma_freelist (vm0 fl q vs) = fl" "defrag_queue (vm0 fl q vs) = q"
  "cli_depth (vm0 fl q vs) = 0"
  by (simp_all add: vm0_def kernel.defs vm.defs kernel0_def slab.defs slab1_def pfa.defs pfa0_def)

definition vs0 :: "u32 \<Rightarrow> vma" where
  "vs0 a = (if a = 8 then \<lparr>v_start = 0xC0100000, v_size = 0x8000\<rparr> else \<lparr>v_start = 0xC0108000, v_size = 0x4000\<rparr>)"

lemma vs0_ok: "regions_ok vs0 [8, 16]"
  by (auto simp: regions_ok_def vs0_def region_ok_def span_def PAGE_SIZE_def)

theorem find_space_best_fit_witness:
  "\<exists>s' v. find_space (\<lambda>n s. Some (s, 24)) 3 (vm0 [8, 16] [] vs0) = Some (s', v) \<and> unat (v_size (vmas s' v)) = 12288 \<and> v_start (vmas s' v) = 0xC0108000"
proof -
  have "vm_ok (vm0 [8, 16] [] vs0)" using vs0_ok by (simp add: vm_ok_def regions_def)
  moreover have "fresh_alloc (\<lambda>n s. Some (s, 24)) (vm0 [8, 16] [] vs0)" by (simp add: fresh_alloc_def regions_def)
  ultimately show ?thesis
    using find_space_best_fit [of "vm0 [8, 16] [] vs0" "\<lambda>n s. Some (s, 24)" 3 8] by (auto simp: vs0_def PAGE_SIZE_def)
qed

text \<open>
  C12. Defragmentation returns with the interrupt state it was entered with, moves every freed region
  to the free list, keeps exactly the same free addresses and the regions in use, and leaves the
  free list sorted by address with no two regions touching.
\<close>

theorem defrag_coalesces:
  assumes "free_keeps fr" "vm_ok s" "sorted_wrt (below (vmas s)) (vma_freelist s)" "0 \<le> cli_depth s" "0 < cli_depth s \<longrightarrow> \<not> eflags_if s"
  shows "\<exists>s'. do_defrag fr s = Some s' \<and> vm_ok s' \<and> defrag_queue s' = [] \<and> vma_list s' = vma_list s \<and>
    (\<forall>u\<in>set (vma_list s). vmas s' u = vmas s u) \<and>
    covered s' (vma_freelist s') = covered s (vma_freelist s) \<union> covered s (defrag_queue s) \<and>
    sorted_wrt (apart (vmas s')) (vma_freelist s') \<and> eflags_if s' = eflags_if s \<and> cli_depth s' = cli_depth s"
  using assms by (rule do_defrag_ok)

theorem defrag_coalesces_witness:
  "\<exists>s'. do_defrag (\<lambda>p s. Some s) (vm0 [16] [8] vs0) = Some s' \<and> vm_ok s' \<and> defrag_queue s' = [] \<and>
     covered s' (vma_freelist s') = span (vs0 16) \<union> span (vs0 8)"
proof -
  have "regions_ok vs0 [16, 8]" by (rule regions_ok_set [OF vs0_ok]) auto
  then have "vm_ok (vm0 [16] [8] vs0)" by (simp add: vm_ok_def regions_def)
  moreover have "free_keeps (\<lambda>p s. Some (s :: vm))" by (simp add: free_keeps_def)
  ultimately show ?thesis
    using defrag_coalesces [of "\<lambda>p s. Some s" "vm0 [16] [8] vs0"] by (auto simp: covered_def)
qed



text \<open>
  C36. The directory index, table index and page offset of a virtual address recompose to the address,
  and index within the 1024 entries of a directory or table and the 4096 bytes of a page.
\<close>

theorem va_parts:
  "unat va = unat (VA_PD_IDX va) * 2 ^ 22 + unat (VA_PT_IDX va) * 2 ^ 12 + unat (VA_PG_OFF va) \<and>
   unat (VA_PD_IDX va) < 1024 \<and> unat (VA_PT_IDX va) < 1024 \<and> unat (VA_PG_OFF va) < 4096"
  using va_sum [of va] va_bounds [of va] by simp

text \<open>\<open>PROT_USR\<close> shares its bits with read and write: any readable mapping is a user mapping.\<close>

lemma prot_read_grants_user: "prot_flags PROT_READ AND PTE_USER \<noteq> 0" "prot_flags PROT_WRITE AND PTE_USER \<noteq> 0"
  by (simp_all add: prot_flags_def PTE_PRESENT_def PTE_WRITABLE_def)

text \<open>The sweep stops before the directory entry of the end: a region within one entry frees no table.\<close>

lemma sweep_skips_last: "VA_PD_IDX fin = VA_PD_IDX st \<Longrightarrow> sweep_tables (VA_PD_IDX fin) (VA_PD_IDX st) s = Some s"
  by (subst sweep_tables.simps) simp

end
