(* ===== verification/Paging.thy ===== *)
theory Paging
  imports Vma
begin

text \<open>
  What \<open>vm_map\<close> of \<open>kernel/mm/vma.c\<close> does to the page tables, over the page-frame allocator of theory
  Pfa: every page of the region gets a frame of its own that was free before, and no other mapping
  of the allocator's address range changes.
\<close>

section \<open>Entries\<close>

abbreviation pde_at :: "mem \<Rightarrow> u32 \<Rightarrow> u32" where "pde_at m va \<equiv> load32 m (pde_addr va)"
abbreviation pte_at :: "mem \<Rightarrow> u32 \<Rightarrow> u32" where "pte_at m va \<equiv> load32 m (pte_addr m va)"

definition mapped :: "mem \<Rightarrow> u32 \<Rightarrow> bool" where
  "mapped m va \<longleftrightarrow> present (pde_at m va) \<and> present (pte_at m va)"

definition frame_of :: "mem \<Rightarrow> u32 \<Rightarrow> u32" where "frame_of m va = table_of (pte_at m va)"

definition new_entry :: "u32 \<Rightarrow> u32" where
  "new_entry page = (page - PFA_VIRT_OFFSET) OR PTE_WRITABLE OR PTE_PRESENT"

lemma page_aligned_uint: "page_aligned a \<longleftrightarrow> 4096 dvd uint a"
proof -
  have "int 4096 dvd int (unat a) \<longleftrightarrow> 4096 dvd unat a" by (rule int_dvd_int_iff)
  then show ?thesis by (simp add: page_aligned_dvd)
qed

lemma page_aligned_arith:
  "page_aligned a \<Longrightarrow> page_aligned k \<Longrightarrow> page_aligned (a + k)" "page_aligned a \<Longrightarrow> page_aligned k \<Longrightarrow> page_aligned (a - k)"
  by (simp_all add: page_aligned_uint uint_word_ariths dvd_mod)

lemma page_aligned_window: "page_aligned PFA_VIRT_OFFSET" "page_aligned PAGE_DIRECTORY"
  by (simp_all add: page_aligned_def PFA_VIRT_OFFSET_def)

lemma and_not_aligned: "page_aligned x \<Longrightarrow> x AND NOT 0xFFF = x"
proof -
  assume "page_aligned x"
  moreover have "(x AND 0xFFF) OR (x AND NOT 0xFFF) = x" by (simp only: bit.conj_disj_distrib [symmetric] bit.disj_cancel_right bit.conj_one_right)
  ultimately show ?thesis by (simp add: page_aligned_def)
qed

lemma page_aligned_table: "page_aligned (table_of e)"
proof -
  have "page_aligned (e AND NOT 0xFFF)" by (simp add: page_aligned_def and.assoc)
  then show ?thesis using page_aligned_window(1) by (simp add: table_of_def page_aligned_arith)
qed

lemma new_entry:
  assumes "page_aligned p"
  shows "present (new_entry p)" "table_of (new_entry p) = p"
proof -
  let ?x = "p - PFA_VIRT_OFFSET"
  have x: "?x AND NOT 0xFFF = ?x" using assms page_aligned_window(1) by (intro and_not_aligned page_aligned_arith)
  have "new_entry p = ?x OR 3" by (simp add: new_entry_def PTE_WRITABLE_def PTE_PRESENT_def or.assoc)
  moreover have "(?x OR 3) AND NOT 0xFFF = ?x" using x by (simp add: bit.conj_disj_distrib2)
  ultimately show "table_of (new_entry p) = p" by (simp add: table_of_def)
  have "bit ((?x OR 3) AND 1) 0" by (simp add: bit_and_iff bit_or_iff)
  moreover have "y \<noteq> 0" if "bit y 0" for y :: u32 using that by auto
  ultimately have "(?x OR 3) AND 1 \<noteq> 0" by blast
  then show "present (new_entry p)" using \<open>new_entry p = ?x OR 3\<close> by (simp add: present_def PTE_PRESENT_def)
qed

lemma entry_offset:
  assumes "unat i < 1024"
  shows "unat (4 * i) = 4 * unat i" "word_aligned (4 * i)"
proof -
  show u: "unat (4 * i) = 4 * unat i" using assms unat_mult_small [of 4 i] by simp
  show "word_aligned (4 * i)" by (simp add: aligned_dvd u)
qed

lemma pde_addr_page: "page_of (pde_addr va) = PAGE_DIRECTORY" "word_aligned (pde_addr va)"
  using entry_offset [of "VA_PD_IDX va"] va_bounds(1) [of va] page_aligned_window(2)
  by (simp_all add: pde_addr_def page_of_in_page page_aligned_word)

lemma pte_addr_page: "page_of (pte_addr m va) = table_of (pde_at m va)" "word_aligned (pte_addr m va)"
  using entry_offset [of "VA_PT_IDX va"] va_bounds(2) [of va] page_aligned_table
  by (simp_all add: pte_addr_def page_of_in_page page_aligned_word)

lemma pde_addr_eq: "pde_addr va = pde_addr va' \<longleftrightarrow> VA_PD_IDX va = VA_PD_IDX va'"
proof -
  have "4 * VA_PD_IDX va = 4 * VA_PD_IDX va' \<longleftrightarrow> VA_PD_IDX va = VA_PD_IDX va'"
    using entry_offset(1) [OF va_bounds(1) [of va]] entry_offset(1) [OF va_bounds(1) [of va']] by (metis mult_left_cancel unsigned_word_eqI zero_neq_numeral)
  then show ?thesis by (simp add: pde_addr_def)
qed

lemma pte_addr_eq:
  assumes "table_of (pde_at m va) = table_of (pde_at m' va')"
  shows "pte_addr m va = pte_addr m' va' \<longleftrightarrow> VA_PT_IDX va = VA_PT_IDX va'"
proof -
  have "4 * VA_PT_IDX va = 4 * VA_PT_IDX va' \<longleftrightarrow> VA_PT_IDX va = VA_PT_IDX va'"
    using entry_offset(1) [OF va_bounds(2) [of va]] entry_offset(1) [OF va_bounds(2) [of va']] by (metis mult_left_cancel unsigned_word_eqI zero_neq_numeral)
  then show ?thesis using assms by (simp add: pte_addr_def)
qed

lemma page_indices:
  assumes "page_aligned a" "page_aligned b" "VA_PD_IDX a = VA_PD_IDX b" "VA_PT_IDX a = VA_PT_IDX b"
  shows "a = b"
proof -
  have "unat a mod 2 ^ 12 = 0" "unat b mod 2 ^ 12 = 0" using assms(1,2) by (auto simp: page_aligned_dvd)
  moreover have p: "unat v = unat v div 2 ^ 22 * 2 ^ 22 + unat v div 2 ^ 12 mod 2 ^ 10 * 2 ^ 12 + unat v mod 2 ^ 12" for v :: u32
    using va_sum [of v] by (simp only: unat_VA)
  ultimately have "unat a = unat b" using assms(3,4) p [of a] p [of b] unat_VA(1,2) by metis
  then show ?thesis by (simp add: word_unat_eq_iff)
qed

section \<open>Making an entry present\<close>

lemma unat_page_of: "unat (page_of y) = unat y div 4096 * 4096"
proof -
  have "NOT (0xFFF :: u32) = NOT (mask 12)" by (simp add: mask_eq_exp_minus_1)
  then have "unat (page_of y) = unat y - unat y mod 2 ^ 12" unfolding page_of_def by (simp only: unat_and_not_mask)
  then show ?thesis by (simp add: minus_mod_eq_div_mult)
qed

lemma page_of_word:
  assumes "word_aligned x" "i \<in> {0, 1, 2, 3}"
  shows "page_of (x + i) = page_of x"
proof -
  obtain k where k: "unat x = 4 * k" using assms(1) by (auto simp: aligned_dvd elim: dvdE)
  have i: "unat i < 4" using assms(2) by auto
  then have u: "unat (x + i) = 4 * k + unat i" using k unat_lt32 [of x] by (subst unat_add_small) auto
  have "(4 * k + unat i) div 4096 = (4 * k + unat i) div 4 div 1024" by (simp flip: div_mult2_eq)
  also have "(4 * k + unat i) div 4 = k" using i by simp
  finally have "unat (x + i) div 4096 = unat x div 4096" using k u by (simp flip: div_mult2_eq [of _ 4 1024, simplified])
  then show ?thesis by (simp add: word_unat_eq_iff unat_page_of)
qed

lemma load32_page_cong:
  assumes "word_aligned x" "\<And>y. page_of y = page_of x \<Longrightarrow> m y = m' y"
  shows "load32 m x = load32 m' x"
  using assms page_of_word by (intro load32_cong) blast

lemma clear_page:
  assumes "page_aligned p" "p \<noteq> 0"
  shows "memset m p 0 PAGE_SIZE = (\<lambda>x. if page_of x = p then 0 else m x)"
proof -
  have "x - p < 4096 \<longleftrightarrow> page_of x = p" for x
  proof
    assume "x - p < 4096"
    then have "unat (x - p) < 4096" by (simp add: word_less_nat_alt)
    then show "page_of x = p" using page_of_in_page [OF assms(1), of "x - p"] by simp
  next
    assume "page_of x = p"
    then have "unat x div 4096 * 4096 = unat p" using unat_page_of [of x] by simp
    then have "unat x = unat p + unat x mod 4096" "p \<le> x" using div_mult_mod_eq [of "unat x" 4096] by (simp_all add: word_le_nat_alt)
    then have "unat (x - p) = unat x mod 4096" by (simp add: unat_sub_small)
    then show "x - p < 4096" by (simp add: word_less_nat_alt)
  qed
  then show ?thesis using assms(2) by (simp add: memset_eq PAGE_SIZE_def fun_eq_iff)
qed

lemma ensure_absent:
  assumes "free_frames s (p # fs)" "word_aligned a" "page_of a \<notin> set (p # fs)" "\<not> present (load32 (kmem s) a)"
  shows "\<exists>s'. ensure_entry (pf_zalloc purge) a s = Some s' \<and> free_frames s' fs \<and> vmas s' = vmas s \<and>
    load32 (kmem s') a = new_entry p \<and>
    (\<forall>x. word_aligned x \<longrightarrow> x \<noteq> a \<longrightarrow> load32 (kmem s') x = (if page_of x = p then 0 else load32 (kmem s) x))"
proof -
  have p: "page_aligned p" "p \<noteq> 0" "p \<notin> set fs" "distinct fs" using assms(1) by (auto simp: free_frames_def)
  let ?m = "\<lambda>x. if page_of x = p then 0 else kmem s x"
  let ?s1 = "s\<lparr>page_freelist := load32 (kmem s) p\<rparr>"
  have "pf_alloc purge s = Some (?s1, p)" using assms(1) p(2) by (auto simp: free_frames_def pf_alloc_def pf_pop_loop_eq)
  then have z: "pf_zalloc purge s = Some (?s1\<lparr>kmem := ?m\<rparr>, p)" using p(1,2) by (simp add: pf_zalloc_def clear_page)
  let ?s' = "?s1\<lparr>kmem := store32 a (new_entry p) ?m\<rparr>"
  have e: "ensure_entry (pf_zalloc purge) a s = Some ?s'" using z assms(4) by (simp add: ensure_entry_def new_entry_def)
  have l: "load32 (kmem ?s') x = (if page_of x = p then 0 else load32 (kmem s) x)" if "word_aligned x" "x \<noteq> a" for x
  proof -
    have "load32 (kmem ?s') x = load32 ?m x" using that assms(2) by simp
    also have "\<dots> = (if page_of x = p then load32 (\<lambda>_. 0) x else load32 (kmem s) x)" using that by (auto intro: load32_page_cong)
    also have "load32 (\<lambda>_. 0) x = 0" by (simp add: load32_def)
    finally show ?thesis .
  qed
  have "load32 (kmem ?s') f = load32 (kmem s) f" if "f \<in> set fs" for f
  proof -
    have fa: "page_aligned f" using assms(1) that frames_aligned by (fastforce simp: free_frames_def)
    then have "page_of f = f" using page_of_in_page [of f 0] by simp
    then have "f \<noteq> a" "page_of f \<noteq> p" using that assms(3) p(3) by auto
    then show ?thesis using l [of f] fa page_aligned_word by auto
  qed
  then have "free_frames ?s' fs" using assms(1) frames_cong [of fs "kmem ?s'" "kmem s"] by (auto simp: free_frames_def)
  then show ?thesis using e l by (intro exI [of _ ?s']) simp
qed

section \<open>The page tables\<close>

text \<open>
  \<open>V\<close> are the pages of the allocator's address range. No directory, table or frame in use is free, no
  two directory entries share a table, and no two pages of \<open>V\<close> share a frame.
\<close>

definition pt_inv :: "'a vm_scheme \<Rightarrow> u32 set \<Rightarrow> u32 list \<Rightarrow> bool" where
  "pt_inv s V fs \<longleftrightarrow> free_frames s fs \<and> PAGE_DIRECTORY \<notin> set fs \<and> (\<forall>va\<in>V. page_aligned va) \<and>
     (\<forall>va. present (pde_at (kmem s) va) \<longrightarrow> table_of (pde_at (kmem s) va) \<notin> insert PAGE_DIRECTORY (set fs)) \<and>
     (\<forall>va va'. present (pde_at (kmem s) va) \<longrightarrow> present (pde_at (kmem s) va') \<longrightarrow>
        table_of (pde_at (kmem s) va) = table_of (pde_at (kmem s) va') \<longrightarrow> VA_PD_IDX va = VA_PD_IDX va') \<and>
     (\<forall>va\<in>V. mapped (kmem s) va \<longrightarrow> frame_of (kmem s) va \<notin> set fs) \<and>
     inj_on (frame_of (kmem s)) {va \<in> V. mapped (kmem s) va}"

lemma pt_invD:
  assumes "pt_inv s V fs"
  shows "free_frames s fs" "PAGE_DIRECTORY \<notin> set fs" "\<And>va. va \<in> V \<Longrightarrow> page_aligned va"
    "\<And>va. present (pde_at (kmem s) va) \<Longrightarrow> table_of (pde_at (kmem s) va) \<notin> set fs \<and> table_of (pde_at (kmem s) va) \<noteq> PAGE_DIRECTORY"
    "\<And>va va'. present (pde_at (kmem s) va) \<Longrightarrow> present (pde_at (kmem s) va') \<Longrightarrow>
       table_of (pde_at (kmem s) va) = table_of (pde_at (kmem s) va') \<Longrightarrow> VA_PD_IDX va = VA_PD_IDX va'"
    "\<And>va. va \<in> V \<Longrightarrow> mapped (kmem s) va \<Longrightarrow> frame_of (kmem s) va \<notin> set fs"
    "inj_on (frame_of (kmem s)) {va \<in> V. mapped (kmem s) va}"
  using assms unfolding pt_inv_def by blast+

text \<open>What mapping does to the other pages.\<close>

definition same_maps :: "u32 set \<Rightarrow> mem \<Rightarrow> mem \<Rightarrow> bool" where
  "same_maps V m m' \<longleftrightarrow> (\<forall>va\<in>V. mapped m' va = mapped m va \<and> (mapped m va \<longrightarrow> frame_of m' va = frame_of m va))"

lemma same_maps_refl [simp]: "same_maps V m m" by (simp add: same_maps_def)

lemma ensure_present: "present (load32 (kmem s) a) \<Longrightarrow> ensure_entry pf a s = Some s"
  by (simp add: ensure_entry_def)

lemma ensure_pde:
  assumes "pt_inv s V (p # fs)" "\<not> present (pde_at (kmem s) va)"
  shows "\<exists>s'. ensure_entry (pf_zalloc purge) (pde_addr va) s = Some s' \<and> pt_inv s' V fs \<and> vmas s' = vmas s \<and>
    present (pde_at (kmem s') va) \<and> same_maps UNIV (kmem s) (kmem s')"
proof -
  note I = pt_invD [OF assms(1)]
  have p: "page_aligned p" "p \<noteq> PAGE_DIRECTORY" "p \<notin> set fs" using I(1,2) by (auto simp: free_frames_def)
  obtain s' where s': "ensure_entry (pf_zalloc purge) (pde_addr va) s = Some s'" "free_frames s' fs" "vmas s' = vmas s"
    "pde_at (kmem s') va = new_entry p"
    "\<And>x. word_aligned x \<Longrightarrow> x \<noteq> pde_addr va \<Longrightarrow> load32 (kmem s') x = (if page_of x = p then 0 else load32 (kmem s) x)"
    using ensure_absent [OF I(1), of "pde_addr va" purge] assms(2) I(2) pde_addr_page by auto
  have pd: "pde_at (kmem s') v = (if VA_PD_IDX v = VA_PD_IDX va then new_entry p else pde_at (kmem s) v)" for v
  proof (cases "VA_PD_IDX v = VA_PD_IDX va")
    case True
    then have "pde_addr v = pde_addr va" by (simp add: pde_addr_def)
    then show ?thesis using s'(4) True by simp
  next
    case False
    then have "pde_addr v \<noteq> pde_addr va" by (simp add: pde_addr_eq)
    then show ?thesis using s'(5) [OF pde_addr_page(2) [of v]] p(2) pde_addr_page(1) [of v] False by simp
  qed
  have old: "pde_at (kmem s) v = pde_at (kmem s) va" if "VA_PD_IDX v = VA_PD_IDX va" for v using that by (simp add: pde_addr_def)
  have m: "mapped (kmem s') v = mapped (kmem s) v \<and> (mapped (kmem s) v \<longrightarrow> frame_of (kmem s') v = frame_of (kmem s) v)" for v
  proof (cases "VA_PD_IDX v = VA_PD_IDX va")
    case True
    have pg: "page_of (pte_addr (kmem s') v) = p" using pte_addr_page(1) [of "kmem s'" v] pd [of v] True new_entry(2) [OF p(1)] by simp
    then have "pte_addr (kmem s') v \<noteq> pde_addr va" using pde_addr_page(1) [of va] p(2) by auto
    then have "pte_at (kmem s') v = 0" using s'(5) [OF pte_addr_page(2)] pg by simp
    then show ?thesis using old [OF True] assms(2) by (simp add: mapped_def present_def)
  next
    case False
    then have a: "pte_addr (kmem s') v = pte_addr (kmem s) v" using pd by (simp add: pte_addr_def)
    have "pte_at (kmem s') v = pte_at (kmem s) v" if "present (pde_at (kmem s) v)"
    proof -
      have "page_of (pte_addr (kmem s) v) \<noteq> p" "page_of (pte_addr (kmem s) v) \<noteq> PAGE_DIRECTORY"
        using I(4) [OF that] pte_addr_page(1) by auto
      moreover from this(2) have "pte_addr (kmem s) v \<noteq> pde_addr va" using pde_addr_page(1) [of va] by metis
      ultimately show ?thesis using s'(5) [OF pte_addr_page(2) [of "kmem s" v]] unfolding a by simp
    qed
    then show ?thesis using False pd by (auto simp: mapped_def frame_of_def)
  qed
  then have set: "{va \<in> V. mapped (kmem s') va} = {va \<in> V. mapped (kmem s) va}" by auto
  have "pt_inv s' V fs"
    unfolding pt_inv_def
  proof (intro conjI allI impI ballI)
    fix v assume "present (pde_at (kmem s') v)"
    then show "table_of (pde_at (kmem s') v) \<notin> insert PAGE_DIRECTORY (set fs)"
      using pd [of v] I(4) [of v] new_entry(2) [OF p(1)] p by (auto split: if_splits)
  next
    fix v v' assume "present (pde_at (kmem s') v)" "present (pde_at (kmem s') v')" "table_of (pde_at (kmem s') v) = table_of (pde_at (kmem s') v')"
    then show "VA_PD_IDX v = VA_PD_IDX v'"
      using pd [of v] pd [of v'] I(4) [of v] I(4) [of v'] I(5) [of v v'] new_entry(2) [OF p(1)] by (auto split: if_splits)
  next
    show "inj_on (frame_of (kmem s')) {va \<in> V. mapped (kmem s') va}"
      unfolding set using I(7) m by (simp add: inj_on_def)
  next
    fix v assume "v \<in> V" "mapped (kmem s') v"
    then show "frame_of (kmem s') v \<notin> set fs" using m [of v] I(6) [of v] by auto
  qed (use s'(2) I(2,3) in simp_all)
  then show ?thesis using s' new_entry(1) [OF p(1)] m by (auto simp: same_maps_def)
qed

lemma ensure_pte:
  assumes "pt_inv s V (p # fs)" "present (pde_at (kmem s) va)" "\<not> present (pte_at (kmem s) va)" "va \<in> V"
  shows "\<exists>s'. ensure_entry (pf_zalloc purge) (pte_addr (kmem s) va) s = Some s' \<and> pt_inv s' V fs \<and> vmas s' = vmas s \<and>
    mapped (kmem s') va \<and> frame_of (kmem s') va = p \<and> same_maps (V - {va}) (kmem s) (kmem s')"
proof -
  note I = pt_invD [OF assms(1)]
  have p: "page_aligned p" "p \<noteq> PAGE_DIRECTORY" "p \<notin> set fs" using I(1,2) by (auto simp: free_frames_def)
  let ?a = "pte_addr (kmem s) va"
  have T: "page_of ?a \<notin> set (p # fs)" "page_of ?a \<noteq> PAGE_DIRECTORY" using I(4) [OF assms(2)] pte_addr_page(1) by auto
  obtain s' where s': "ensure_entry (pf_zalloc purge) ?a s = Some s'" "free_frames s' fs" "vmas s' = vmas s"
    "load32 (kmem s') ?a = new_entry p"
    "\<And>x. word_aligned x \<Longrightarrow> x \<noteq> ?a \<Longrightarrow> load32 (kmem s') x = (if page_of x = p then 0 else load32 (kmem s) x)"
    using ensure_absent [OF I(1) pte_addr_page(2) T(1) assms(3), of purge] by auto
  have pd: "pde_at (kmem s') v = pde_at (kmem s) v" for v
  proof -
    have "pde_addr v \<noteq> ?a" using T(2) pde_addr_page(1) [of v] by metis
    then show ?thesis using s'(5) [OF pde_addr_page(2) [of v]] p(2) pde_addr_page(1) [of v] by simp
  qed
  then have a: "pte_addr (kmem s') v = pte_addr (kmem s) v" for v by (simp add: pte_addr_def)
  have new: "pte_at (kmem s') va = new_entry p" using s'(4) by (simp add: a)
  then have nm: "mapped (kmem s') va" "frame_of (kmem s') va = p" "\<not> mapped (kmem s) va"
    using new_entry [OF p(1)] pd assms(2,3) by (simp_all add: mapped_def frame_of_def)
  have m: "mapped (kmem s') v = mapped (kmem s) v \<and> (mapped (kmem s) v \<longrightarrow> frame_of (kmem s') v = frame_of (kmem s) v)"
    if v: "v \<in> V" "v \<noteq> va" for v
  proof (cases "present (pde_at (kmem s) v)")
    case True
    have "page_of (pte_addr (kmem s) v) \<noteq> p" using I(4) [OF True] pte_addr_page(1) by auto
    moreover have "pte_addr (kmem s) v \<noteq> ?a"
    proof
      assume eq: "pte_addr (kmem s) v = ?a"
      then have t: "table_of (pde_at (kmem s) v) = table_of (pde_at (kmem s) va)" using pte_addr_page(1) by metis
      then have "VA_PT_IDX v = VA_PT_IDX va" using eq pte_addr_eq by metis
      moreover have "VA_PD_IDX v = VA_PD_IDX va" using I(5) [OF True assms(2) t] .
      ultimately show False using page_indices I(3) v assms(4) by blast
    qed
    ultimately have "pte_at (kmem s') v = pte_at (kmem s) v" using s'(5) [OF pte_addr_page(2) [of "kmem s" v]] unfolding a by simp
    then show ?thesis using pd by (simp add: mapped_def frame_of_def)
  qed (simp add: mapped_def pd)
  have set: "{v \<in> V. mapped (kmem s') v} = insert va {v \<in> V. mapped (kmem s) v}" using m nm assms(4) by auto
  have "pt_inv s' V fs"
    unfolding pt_inv_def
  proof (intro conjI allI impI ballI)
    have same: "frame_of (kmem s') v = frame_of (kmem s) v" if "v \<in> {v \<in> V. mapped (kmem s) v}" for v using that m nm(3) by auto
    have "inj_on (frame_of (kmem s')) {v \<in> V. mapped (kmem s) v}" using I(7) inj_on_cong [of "{v \<in> V. mapped (kmem s) v}" "frame_of (kmem s')" "frame_of (kmem s)", OF same] by blast
    moreover have "p \<notin> frame_of (kmem s') ` {v \<in> V. mapped (kmem s) v}"
    proof
      assume "p \<in> frame_of (kmem s') ` {v \<in> V. mapped (kmem s) v}"
      then obtain v where "v \<in> V" "mapped (kmem s) v" "p = frame_of (kmem s) v" using same by auto
      then show False using I(6) [of v] by simp
    qed
    ultimately show "inj_on (frame_of (kmem s')) {v \<in> V. mapped (kmem s') v}"
      unfolding set inj_on_insert nm(2) by blast
  next
    fix v assume "v \<in> V" "mapped (kmem s') v"
    then show "frame_of (kmem s') v \<notin> set fs" using m [of v] nm(2) p(3) I(6) [of v] by (cases "v = va") auto
  next
    fix v assume "present (pde_at (kmem s') v)"
    then show "table_of (pde_at (kmem s') v) \<notin> insert PAGE_DIRECTORY (set fs)" using I(4) [of v] pd by auto
  next
    fix v v' assume "present (pde_at (kmem s') v)" "present (pde_at (kmem s') v')" "table_of (pde_at (kmem s') v) = table_of (pde_at (kmem s') v')"
    then show "VA_PD_IDX v = VA_PD_IDX v'" using I(5) [of v v'] pd by simp
  qed (use s'(2) I(2,3) in simp_all)
  then show ?thesis using s' nm m by (auto simp: same_maps_def)
qed

section \<open>Mapping a region\<close>

lemma vm_map_page_ok:
  assumes "pt_inv s V fs" "2 \<le> length fs" "va \<in> V"
  shows "\<exists>s' fs'. vm_map_page (pf_zalloc purge) va s = Some s' \<and> pt_inv s' V fs' \<and> vmas s' = vmas s \<and> set fs' \<subseteq> set fs \<and>
    length fs \<le> length fs' + 2 \<and> mapped (kmem s') va \<and> same_maps (V - {va}) (kmem s) (kmem s') \<and>
    (if mapped (kmem s) va then frame_of (kmem s') va = frame_of (kmem s) va else frame_of (kmem s') va \<in> set fs)"
proof -
  obtain s1 fs1 where s1: "ensure_entry (pf_zalloc purge) (pde_addr va) s = Some s1" "pt_inv s1 V fs1" "vmas s1 = vmas s"
    "present (pde_at (kmem s1) va)" "same_maps UNIV (kmem s) (kmem s1)" "set fs1 \<subseteq> set fs" "length fs \<le> length fs1 + 1"
  proof (cases "present (pde_at (kmem s) va)")
    case True
    then show ?thesis using ensure_present [OF True, of "pf_zalloc purge"] assms(1) by (intro that [of s fs]) simp_all
  next
    case False
    obtain p fs0 where fs: "fs = p # fs0" using assms(2) by (cases fs) auto
    from ensure_pde [OF assms(1) [unfolded fs] False, of purge] that [of _ fs0] show ?thesis by (auto simp: fs)
  qed
  obtain p fs2 where fs1: "fs1 = p # fs2" using assms(2) s1(7) by (cases fs1) auto
  show ?thesis
  proof (cases "present (pte_at (kmem s1) va)")
    case True
    then have "mapped (kmem s1) va" using s1(4) by (simp add: mapped_def)
    moreover have "vm_map_page (pf_zalloc purge) va s = Some s1" using s1(1) ensure_present [OF True] by (simp add: vm_map_page_def)
    ultimately show ?thesis using s1 by (intro exI [of _ s1] exI [of _ fs1]) (auto simp: same_maps_def)
  next
    case False
    then have nm: "\<not> mapped (kmem s) va" using s1(5) by (auto simp: same_maps_def mapped_def)
    from ensure_pte [OF s1(2) [unfolded fs1] s1(4) False assms(3), of purge] obtain s' where s':
      "ensure_entry (pf_zalloc purge) (pte_addr (kmem s1) va) s1 = Some s'" "pt_inv s' V fs2" "vmas s' = vmas s1" "mapped (kmem s') va"
      "frame_of (kmem s') va = p" "same_maps (V - {va}) (kmem s1) (kmem s')" by blast
    have "same_maps (V - {va}) (kmem s) (kmem s')" using s1(5) s'(6) by (auto simp: same_maps_def)
    moreover have "vm_map_page (pf_zalloc purge) va s = Some s'" using s1(1) s'(1) by (simp add: vm_map_page_def)
    ultimately show ?thesis using s1 s' nm fs1 by (intro exI [of _ s'] exI [of _ fs2]) auto
  qed
qed

definition pages_of :: "u32 \<Rightarrow> nat \<Rightarrow> u32 set" where
  "pages_of va n = (\<lambda>i. va + of_nat i * PAGE_SIZE) ` {..<n}"

lemma pages_of_Suc: "pages_of va (Suc n) = insert va (pages_of (va + PAGE_SIZE) n)"
  by (simp add: pages_of_def lessThan_Suc_eq_insert_0 image_image algebra_simps)

lemma vm_map_loop_ok:
  assumes "pt_inv s V fs" "2 * n \<le> length fs" "pages_of va n \<subseteq> V" "unat va + n * 4096 < 2 ^ 32"
    and "unat fin = unat va + n * 4096"
  shows "\<exists>s' fs'. vm_map_loop (pf_zalloc purge) fin va s = Some s' \<and> pt_inv s' V fs' \<and> set fs' \<subseteq> set fs \<and>
    (\<forall>v\<in>pages_of va n. mapped (kmem s') v \<and> (\<not> mapped (kmem s) v \<longrightarrow> frame_of (kmem s') v \<in> set fs)) \<and>
    (\<forall>v\<in>V. mapped (kmem s) v \<longrightarrow> mapped (kmem s') v \<and> frame_of (kmem s') v = frame_of (kmem s) v) \<and>
    (\<forall>v\<in>V - pages_of va n. mapped (kmem s') v = mapped (kmem s) v)"
  using assms
proof (induction n arbitrary: s va fs)
  case 0
  then have "\<not> va < fin" by (simp add: word_less_nat_alt)
  then show ?case using 0 by (subst vm_map_loop.simps) (auto simp: pages_of_def)
next
  case (Suc n)
  have lt: "va < fin" using Suc.prems(5) by (simp add: word_less_nat_alt)
  have u: "unat (va + PAGE_SIZE) = unat va + 4096" using Suc.prems(4) unat_add_small [of va PAGE_SIZE] by (simp add: PAGE_SIZE_def)
  have v: "va \<in> V" "pages_of (va + PAGE_SIZE) n \<subseteq> V" using Suc.prems(3) by (auto simp: pages_of_Suc)
  from vm_map_page_ok [OF Suc.prems(1) _ v(1), of purge] Suc.prems(2) obtain s1 fs1 where s1: "vm_map_page (pf_zalloc purge) va s = Some s1"
    "pt_inv s1 V fs1" "set fs1 \<subseteq> set fs" "length fs \<le> length fs1 + 2" "mapped (kmem s1) va" "same_maps (V - {va}) (kmem s) (kmem s1)"
    "if mapped (kmem s) va then frame_of (kmem s1) va = frame_of (kmem s) va else frame_of (kmem s1) va \<in> set fs" by auto
  from Suc.IH [OF s1(2) _ v(2)] Suc.prems(2,4,5) s1(4) u obtain s' fs' where s': "vm_map_loop (pf_zalloc purge) fin (va + PAGE_SIZE) s1 = Some s'"
    "pt_inv s' V fs'" "set fs' \<subseteq> set fs1"
    "\<forall>v\<in>pages_of (va + PAGE_SIZE) n. mapped (kmem s') v \<and> (\<not> mapped (kmem s1) v \<longrightarrow> frame_of (kmem s') v \<in> set fs1)"
    "\<forall>v\<in>V. mapped (kmem s1) v \<longrightarrow> mapped (kmem s') v \<and> frame_of (kmem s') v = frame_of (kmem s1) v"
    "\<forall>v\<in>V - pages_of (va + PAGE_SIZE) n. mapped (kmem s') v = mapped (kmem s1) v" by auto
  have sm: "mapped (kmem s1) v = mapped (kmem s) v" "mapped (kmem s) v \<Longrightarrow> frame_of (kmem s1) v = frame_of (kmem s) v" if "v \<in> V" "v \<noteq> va" for v
    using s1(6) that by (auto simp: same_maps_def)
  have pg: "mapped (kmem s') v \<and> (\<not> mapped (kmem s) v \<longrightarrow> frame_of (kmem s') v \<in> set fs)" if "v \<in> pages_of va (Suc n)" for v
  proof (cases "v = va")
    case True
    then show ?thesis using s1(5,7) s'(5) v(1) by (auto split: if_splits)
  next
    case False
    then have "v \<in> pages_of (va + PAGE_SIZE) n" "v \<in> V" using that v(2) by (auto simp: pages_of_Suc)
    then show ?thesis using s'(4) s1(3) sm(1) [of v] False by auto
  qed
  have old: "mapped (kmem s') v \<and> frame_of (kmem s') v = frame_of (kmem s) v" if "v \<in> V" "mapped (kmem s) v" for v
  proof -
    have "mapped (kmem s1) v \<and> frame_of (kmem s1) v = frame_of (kmem s) v" using sm [OF that(1)] s1(5,7) that(2) by (cases "v = va") auto
    then show ?thesis using s'(5) that(1) by auto
  qed
  have off: "mapped (kmem s') v = mapped (kmem s) v" if "v \<in> V - pages_of va (Suc n)" for v
    using that s'(6) sm(1) [of v] by (auto simp: pages_of_Suc)
  show ?case using lt s1(1,3) s'(1-3) pg old off by (subst vm_map_loop.simps) (intro exI [of _ s'] exI [of _ fs'], auto)
qed

section \<open>Claims\<close>

text \<open>
  C13. Mapping a region succeeds when two free frames per page are available. Every page of it that had
  no frame gets one that was free, no two pages of the address range share a frame, every mapping
  that existed keeps its frame, and no page outside of the region becomes mapped.
\<close>

theorem vm_map_fresh_frames:
  assumes "pt_inv s V fs" "2 * n \<le> length fs" "pages_of (v_start (vmas s r)) n \<subseteq> V"
    and "unat (v_size (vmas s r)) = n * 4096" "unat (v_start (vmas s r)) + n * 4096 < 2 ^ 32"
  shows "\<exists>s'. vm_map (pf_zalloc purge) r s = Some s' \<and>
    (\<forall>v\<in>pages_of (v_start (vmas s r)) n. mapped (kmem s') v \<and> (\<not> mapped (kmem s) v \<longrightarrow> frame_of (kmem s') v \<in> set fs)) \<and>
    inj_on (frame_of (kmem s')) {v \<in> V. mapped (kmem s') v} \<and>
    (\<forall>v\<in>V. mapped (kmem s) v \<longrightarrow> mapped (kmem s') v \<and> frame_of (kmem s') v = frame_of (kmem s) v) \<and>
    (\<forall>v\<in>V - pages_of (v_start (vmas s r)) n. mapped (kmem s') v = mapped (kmem s) v)"
proof -
  have "unat (v_start (vmas s r) + v_size (vmas s r)) = unat (v_start (vmas s r)) + n * 4096"
    using assms(4,5) unat_add_small [of "v_start (vmas s r)" "v_size (vmas s r)"] by simp
  from vm_map_loop_ok [OF assms(1-3,5) this, of purge] show ?thesis
    unfolding vm_map_def using pt_invD(7) by blast
qed

definition vm1 :: vm where
  "vm1 = (vm0 [] [] (\<lambda>_. \<lparr>v_start = 0xC0100000, v_size = 4096\<rparr>))\<lparr>page_freelist := 0xD0001000, kmem := store32 0xD0001000 0xD0002000 (\<lambda>_. 0)\<rparr>"

lemma vm1_load: "word_aligned x \<Longrightarrow> load32 (kmem vm1) x = (if x = 0xD0001000 then 0xD0002000 else 0)"
  by (simp add: vm1_def word_aligned_def load32_def [of "\<lambda>_. 0"])

lemma vm1_inv: "pt_inv vm1 {0xC0100000} [0xD0001000, 0xD0002000]"
proof -
  have "pde_at (kmem vm1) va = 0" for va
    using vm1_load [OF pde_addr_page(2) [of va]] pde_addr_page(1) [of va] by (auto simp: page_of_def split: if_splits)
  then have "\<not> present (pde_at (kmem vm1) va)" for va by (simp add: present_def)
  moreover have "page_freelist vm1 = 0xD0001000" by (simp add: vm1_def)
  ultimately show ?thesis
    by (simp add: pt_inv_def free_frames_def mapped_def vm1_load word_aligned_def page_aligned_def)
qed

theorem vm_map_fresh_frames_witness:
  "\<exists>s'. vm_map (pf_zalloc (\<lambda>_ _. None)) 8 vm1 = Some s' \<and> mapped (kmem s') 0xC0100000"
proof -
  have "vmas vm1 8 = \<lparr>v_start = 0xC0100000, v_size = 4096\<rparr>" "pages_of 0xC0100000 1 = {0xC0100000}"
    using pages_of_Suc [of "0xC0100000" 0] by (simp_all add: vm1_def pages_of_def [of _ 0])
  then show ?thesis using vm_map_fresh_frames [OF vm1_inv, of 1 8 "\<lambda>_ _. None"] by auto
qed

end
