(* ===== verification/Vfs.thy ===== *)
theory Vfs
  imports Vma
begin

text \<open>
  \<open>kernel/include/fs/vfs.h\<close> and \<open>kernel/fs/vfs.c\<close>: the virtual file system. Nodes, file systems and
  open files live in typed stores indexed by their address; the debug shell at the end of \<open>vfs.c\<close>
  is not modelled. A table of operations (\<open>struct vfs_ops\<close>, \<open>struct vfs_file_ops\<close>) is a record of
  functions on the state; an operation that may be absent is an option, \<open>None\<close> being \<open>NULL\<close>. A
  result of a call is the new state, the return value and the value stored through an output
  parameter, which counts only when the return value is zero. A C string that may be \<open>NULL\<close> is a
  \<open>string option\<close>. A state in which an assertion fails or a call does not return is \<open>None\<close>.
\<close>

section \<open>Data\<close>

datatype node_type = nt_unknown | nt_file | nt_dir | nt_dev_char | nt_dev_block | nt_fifo | nt_socket |
  nt_symlink | nt_mountpoint

record vfs_node =
  n_fs :: u32
  n_id :: u32
  n_type :: node_type
  n_mode :: u16

text \<open>The constant tables of operations of the source, each known by its name.\<close>

datatype fs_table = No_ops | Memfs_ops | Devfs_ops | Ext2_ops
datatype file_table = No_file_ops | Memfs_file_ops | Devfs_char_ops | Devfs_block_ops | Ext2_file_ops

record vfs_rec =
  fs_name :: string
  fs_parent :: u32
  fs_parent_node :: u32
  fs_ops :: fs_table

record vfs_file =
  f_node :: u32
  f_offset :: u32
  f_ops :: file_table
  f_next :: u32

record vfs_stat_rec =
  st_size :: u32
  st_block_size :: u32
  st_offset :: u32
  st_id :: u32
  st_mode :: u16
  st_links :: u32
  st_uid :: u32
  st_gid :: u32
  st_atime :: u32
  st_mtime :: u32
  st_ctime :: u32

abbreviation SEEK_SET :: int where "SEEK_SET \<equiv> 0"
abbreviation SEEK_CUR :: int where "SEEK_CUR \<equiv> 1"
abbreviation SEEK_END :: int where "SEEK_END \<equiv> 2"

text \<open>\<open>vfs_node_type_chars\<close>: the letter of each node type in a listing.\<close>

fun vfs_node_type_chars :: "node_type \<Rightarrow> char" where
  "vfs_node_type_chars nt_unknown = CHR ''?''"
| "vfs_node_type_chars nt_file = CHR ''-''"
| "vfs_node_type_chars nt_dir = CHR ''d''"
| "vfs_node_type_chars nt_dev_char = CHR ''c''"
| "vfs_node_type_chars nt_dev_block = CHR ''b''"
| "vfs_node_type_chars nt_fifo = CHR ''f''"
| "vfs_node_type_chars nt_socket = CHR ''s''"
| "vfs_node_type_chars nt_symlink = CHR ''l''"
| "vfs_node_type_chars nt_mountpoint = CHR ''d''"

record fsys = vm +
  vnodes :: "u32 \<Rightarrow> vfs_node"
  filesystems :: "u32 \<Rightarrow> vfs_rec"
  vfiles :: "u32 \<Rightarrow> vfs_file"
  strs :: "u32 \<Rightarrow> string"
  vfs_root :: u32

record 's vfs_ops =
  o_mount :: "u32 \<Rightarrow> 's \<Rightarrow> ('s \<times> int) option"
  o_unmount :: "u32 \<Rightarrow> 's \<Rightarrow> ('s \<times> int) option"
  o_lookup :: "(u32 \<Rightarrow> string \<Rightarrow> 's \<Rightarrow> ('s \<times> int \<times> u32) option) option"
  o_readdir :: "(u32 \<Rightarrow> u32 \<Rightarrow> 's \<Rightarrow> ('s \<times> int \<times> u32) option) option"
  o_open :: "(u32 \<Rightarrow> 's \<Rightarrow> ('s \<times> int \<times> u32) option) option"
  o_close :: "(u32 \<Rightarrow> 's \<Rightarrow> ('s \<times> int) option) option"
  o_create :: "(u32 \<Rightarrow> string \<Rightarrow> u16 \<Rightarrow> 's \<Rightarrow> ('s \<times> int) option) option"
  o_mkdir :: "(u32 \<Rightarrow> string \<Rightarrow> u16 \<Rightarrow> 's \<Rightarrow> ('s \<times> int) option) option"
  o_get_root :: "u32 \<Rightarrow> 's \<Rightarrow> u32"

record 's vfs_file_ops =
  p_read :: "(u32 \<Rightarrow> u32 \<Rightarrow> u32 \<Rightarrow> 's \<Rightarrow> ('s \<times> int) option) option"
  p_read_at :: "(u32 \<Rightarrow> u32 \<Rightarrow> u32 \<Rightarrow> u32 \<Rightarrow> 's \<Rightarrow> ('s \<times> int) option) option"
  p_write :: "(u32 \<Rightarrow> u32 \<Rightarrow> u32 \<Rightarrow> 's \<Rightarrow> ('s \<times> int) option) option"
  p_write_at :: "(u32 \<Rightarrow> u32 \<Rightarrow> u32 \<Rightarrow> u32 \<Rightarrow> 's \<Rightarrow> ('s \<times> int) option) option"
  p_seek :: "(u32 \<Rightarrow> u32 \<Rightarrow> int \<Rightarrow> 's \<Rightarrow> ('s \<times> u32) option) option"
  p_stat :: "(u32 \<Rightarrow> 's \<Rightarrow> ('s \<times> int \<times> vfs_stat_rec) option) option"

text \<open>
  What the layer calls: the allocator, and the operation tables.
\<close>

record 's fs_env =
  k_kmalloc :: "u32 \<Rightarrow> 's \<Rightarrow> ('s \<times> u32) option"
  k_kzalloc :: "u32 \<Rightarrow> 's \<Rightarrow> ('s \<times> u32) option"
  k_kfree :: "u32 \<Rightarrow> 's \<Rightarrow> 's option"
  k_ops :: "fs_table \<Rightarrow> 's vfs_ops"
  k_file_ops :: "file_table \<Rightarrow> 's vfs_file_ops"

definition upd_node :: "u32 \<Rightarrow> (vfs_node \<Rightarrow> vfs_node) \<Rightarrow> 'a fsys_scheme \<Rightarrow> 'a fsys_scheme" where
  "upd_node n f s = s\<lparr>vnodes := (vnodes s)(n := f (vnodes s n))\<rparr>"

definition upd_fs :: "u32 \<Rightarrow> (vfs_rec \<Rightarrow> vfs_rec) \<Rightarrow> 'a fsys_scheme \<Rightarrow> 'a fsys_scheme" where
  "upd_fs n f s = s\<lparr>filesystems := (filesystems s)(n := f (filesystems s n))\<rparr>"

definition upd_file :: "u32 \<Rightarrow> (vfs_file \<Rightarrow> vfs_file) \<Rightarrow> 'a fsys_scheme \<Rightarrow> 'a fsys_scheme" where
  "upd_file n f s = s\<lparr>vfiles := (vfiles s)(n := f (vfiles s n))\<rparr>"

definition node_ops :: "'a fsys_scheme fs_env \<Rightarrow> 'a fsys_scheme \<Rightarrow> u32 \<Rightarrow> 'a fsys_scheme vfs_ops" where
  "node_ops E s n = k_ops E (fs_ops (filesystems s (n_fs (vnodes s n))))"

definition fs_ops_of :: "'a fsys_scheme fs_env \<Rightarrow> 'a fsys_scheme \<Rightarrow> u32 \<Rightarrow> 'a fsys_scheme vfs_ops" where
  "fs_ops_of E s fs = k_ops E (fs_ops (filesystems s fs))"

text \<open>\<open>strndup\<close> into the store of strings; \<open>NULL\<close> when the allocation fails.\<close>

definition str_dup :: "'a fsys_scheme fs_env \<Rightarrow> string \<Rightarrow> 'a fsys_scheme \<Rightarrow> ('a fsys_scheme \<times> u32) option" where
  "str_dup E str s = do {
     (s, p) \<leftarrow> k_kmalloc E (word_of_nat (length str) + 1) s;
     Some (if p = 0 then s else s\<lparr>strs := (strs s)(p := str)\<rparr>, p)
   }"

definition str_at :: "'a fsys_scheme \<Rightarrow> u32 \<Rightarrow> string option" where
  "str_at s p = (if p = 0 then None else Some (strs s p))"

section \<open>Roots and the working directory\<close>

definition vfs_get_root :: "'a fsys_scheme fs_env \<Rightarrow> 'a fsys_scheme \<Rightarrow> u32" where
  "vfs_get_root E s = o_get_root (fs_ops_of E s (vfs_root s)) (vfs_root s) s"

definition vfs_get_cwd :: "'a fsys_scheme fs_env \<Rightarrow> 'a fsys_scheme \<Rightarrow> 'a fsys_scheme \<times> u32" where
  "vfs_get_cwd E s =
     (let s = (if t_cwd (tasks s (current s)) = 0
               then upd_task (current s) (\<lambda>k. k\<lparr>t_cwd := vfs_get_root E s\<rparr>) s else s)
      in (s, t_cwd (tasks s (current s))))"

definition or_cwd :: "'a fsys_scheme fs_env \<Rightarrow> u32 \<Rightarrow> 'a fsys_scheme \<Rightarrow> 'a fsys_scheme \<times> u32" where
  "or_cwd E dir s = (if dir = 0 then vfs_get_cwd E s else (s, dir))"

section \<open>Operations on file systems\<close>

partial_function (option) vfs_lookup ::
  "'a fsys_scheme fs_env \<Rightarrow> u32 \<Rightarrow> string option \<Rightarrow> 'a fsys_scheme \<Rightarrow> ('a fsys_scheme \<times> int \<times> u32) option" where
  "vfs_lookup E dir name s =
     (case name of None \<Rightarrow> Some (s, -EINVAL, 0)
      | Some nm \<Rightarrow>
        (case or_cwd E dir s of (s, dir) \<Rightarrow>
          (case o_lookup (node_ops E s dir) of None \<Rightarrow> Some (s, -ENOTSUP, 0)
           | Some lookup \<Rightarrow>
             if n_type (vnodes s dir) \<noteq> nt_dir \<and> n_type (vnodes s dir) \<noteq> nt_mountpoint
             then Some (s, -ENOTDIR, 0)
             else do {
               (s, ret, node) \<leftarrow> lookup dir nm s;
               if ret \<noteq> 0 then Some (s, ret, 0)
               else if node = 0 then None
               else if n_type (vnodes s node) = nt_mountpoint
               then (if nm = ''..''
                     then do {
                       stash \<leftarrow> Some (n_fs (vnodes s node));
                       s \<leftarrow> Some (upd_node node (\<lambda>n. n\<lparr>n_fs := fs_parent (filesystems s stash)\<rparr>) s);
                       (s, ret, out) \<leftarrow> vfs_lookup E node name s;
                       Some (upd_node node (\<lambda>n. n\<lparr>n_fs := stash\<rparr>) s, ret, out)
                     }
                     else Some (s, 0, o_get_root (node_ops E s node) (n_fs (vnodes s node)) s))
               else Some (s, 0, node)
             })))"

text \<open>\<open>readdir\<close> and \<open>open\<close> are called here with a non-null output parameter.\<close>

definition vfs_readdir :: "'a fsys_scheme fs_env \<Rightarrow> u32 \<Rightarrow> u32 \<Rightarrow> 'a fsys_scheme \<Rightarrow> ('a fsys_scheme \<times> int \<times> u32) option" where
  "vfs_readdir E dir idx s =
     (case or_cwd E dir s of (s, dir) \<Rightarrow>
       (case o_readdir (node_ops E s dir) of None \<Rightarrow> Some (s, -ENOTSUP, 0)
        | Some readdir \<Rightarrow> readdir dir idx s))"

definition vfs_open :: "'a fsys_scheme fs_env \<Rightarrow> u32 \<Rightarrow> 'a fsys_scheme \<Rightarrow> ('a fsys_scheme \<times> int \<times> u32) option" where
  "vfs_open E node s =
     (case o_open (node_ops E s node) of None \<Rightarrow> Some (s, -ENOTSUP, 0) | Some f \<Rightarrow> f node s)"

definition vfs_close :: "'a fsys_scheme fs_env \<Rightarrow> u32 \<Rightarrow> 'a fsys_scheme \<Rightarrow> ('a fsys_scheme \<times> int) option" where
  "vfs_close E file s =
     (if file = 0 then Some (s, -EINVAL)
      else (case o_close (node_ops E s (f_node (vfiles s file))) of None \<Rightarrow> Some (s, -ENOTSUP) | Some f \<Rightarrow> f file s))"

definition vfs_create ::
  "'a fsys_scheme fs_env \<Rightarrow> u32 \<Rightarrow> string option \<Rightarrow> u16 \<Rightarrow> 'a fsys_scheme \<Rightarrow> ('a fsys_scheme \<times> int) option" where
  "vfs_create E dir name mode s =
     (case name of None \<Rightarrow> Some (s, -EINVAL)
      | Some nm \<Rightarrow>
        (case or_cwd E dir s of (s, dir) \<Rightarrow>
          (case o_create (node_ops E s dir) of None \<Rightarrow> Some (s, -ENOTSUP)
           | Some create \<Rightarrow> do {
               (s, ret, _) \<leftarrow> vfs_lookup E dir name s;
               if ret = 0 then Some (s, -EEXIST) else create dir nm mode s
             })))"

definition vfs_mkdir ::
  "'a fsys_scheme fs_env \<Rightarrow> u32 \<Rightarrow> string option \<Rightarrow> u16 \<Rightarrow> 'a fsys_scheme \<Rightarrow> ('a fsys_scheme \<times> int) option" where
  "vfs_mkdir E dir name mode s =
     (case name of None \<Rightarrow> Some (s, -EINVAL)
      | Some nm \<Rightarrow>
        (case or_cwd E dir s of (s, dir) \<Rightarrow>
          (case o_mkdir (node_ops E s dir) of None \<Rightarrow> Some (s, -ENOTSUP)
           | Some mkdir \<Rightarrow> do {
               (s, ret, _) \<leftarrow> vfs_lookup E dir name s;
               if ret = 0 then Some (s, -EEXIST) else mkdir dir nm mode s
             })))"

section \<open>Operations on open files\<close>

definition file_ops_of :: "'a fsys_scheme fs_env \<Rightarrow> u32 \<Rightarrow> 'a fsys_scheme \<Rightarrow> 'a fsys_scheme vfs_file_ops" where
  "file_ops_of E file s = k_file_ops E (f_ops (vfiles s file))"

definition vfs_read :: "'a fsys_scheme fs_env \<Rightarrow> u32 \<Rightarrow> u32 \<Rightarrow> u32 \<Rightarrow> 'a fsys_scheme \<Rightarrow> ('a fsys_scheme \<times> int) option" where
  "vfs_read E file buf bytes s =
     (case p_read (file_ops_of E file s) of None \<Rightarrow> Some (s, -ENOTSUP) | Some f \<Rightarrow> f file buf bytes s)"

definition vfs_read_at ::
  "'a fsys_scheme fs_env \<Rightarrow> u32 \<Rightarrow> u32 \<Rightarrow> u32 \<Rightarrow> u32 \<Rightarrow> 'a fsys_scheme \<Rightarrow> ('a fsys_scheme \<times> int) option" where
  "vfs_read_at E file buf bytes pos s =
     (case p_read_at (file_ops_of E file s) of None \<Rightarrow> Some (s, -ENOTSUP) | Some f \<Rightarrow> f file buf bytes pos s)"

definition vfs_write :: "'a fsys_scheme fs_env \<Rightarrow> u32 \<Rightarrow> u32 \<Rightarrow> u32 \<Rightarrow> 'a fsys_scheme \<Rightarrow> ('a fsys_scheme \<times> int) option" where
  "vfs_write E file buf bytes s =
     (case p_write (file_ops_of E file s) of None \<Rightarrow> Some (s, -ENOTSUP) | Some f \<Rightarrow> f file buf bytes s)"

definition vfs_write_at ::
  "'a fsys_scheme fs_env \<Rightarrow> u32 \<Rightarrow> u32 \<Rightarrow> u32 \<Rightarrow> u32 \<Rightarrow> 'a fsys_scheme \<Rightarrow> ('a fsys_scheme \<times> int) option" where
  "vfs_write_at E file buf bytes pos s =
     (case p_write_at (file_ops_of E file s) of None \<Rightarrow> Some (s, -ENOTSUP) | Some f \<Rightarrow> f file buf bytes pos s)"

text \<open>\<open>off_t\<close> is unsigned: a negative error code wraps.\<close>

definition vfs_seek :: "'a fsys_scheme fs_env \<Rightarrow> u32 \<Rightarrow> u32 \<Rightarrow> int \<Rightarrow> 'a fsys_scheme \<Rightarrow> ('a fsys_scheme \<times> u32) option" where
  "vfs_seek E file offset mode s =
     (case p_seek (file_ops_of E file s) of None \<Rightarrow> Some (s, word_of_int (-ENOTSUP)) | Some f \<Rightarrow> f file offset mode s)"

definition no_stat :: vfs_stat_rec where
  "no_stat = \<lparr>st_size = 0, st_block_size = 0, st_offset = 0, st_id = 0, st_mode = 0, st_links = 0, st_uid = 0,
     st_gid = 0, st_atime = 0, st_mtime = 0, st_ctime = 0\<rparr>"

definition vfs_stat :: "'a fsys_scheme fs_env \<Rightarrow> u32 \<Rightarrow> 'a fsys_scheme \<Rightarrow> ('a fsys_scheme \<times> int \<times> vfs_stat_rec) option" where
  "vfs_stat E file s =
     (case p_stat (file_ops_of E file s) of None \<Rightarrow> Some (s, -ENOTSUP, no_stat) | Some f \<Rightarrow> f file s)"

section \<open>Paths\<close>

text \<open>
  The loop \<open>while ((part = v_tok_consume(&split), !v_tok_empty(part)))\<close> takes these parts of the
  path in turn: \<open>Vlib.v_tok_consume_bytes\<close> gives the part and the rest of each call.
\<close>

function path_parts :: "'a \<Rightarrow> 'a list \<Rightarrow> 'a list list" where
  "path_parts sep p =
     (let q = dropWhile (\<lambda>c. c = sep) p in
      if q = [] then []
      else takeWhile (\<lambda>c. c \<noteq> sep) q # path_parts sep (tl (dropWhile (\<lambda>c. c \<noteq> sep) q)))"
  by pat_completeness auto
termination
proof (relation "measure (\<lambda>(_, p). length p)", simp, unfold in_measure split)
  fix sep :: 'a and p q
  assume q: "q = dropWhile (\<lambda>c. c = sep) p" "q \<noteq> []"
  then have "hd q \<noteq> sep" using hd_dropWhile [of "\<lambda>c. c = sep" p] by simp
  then have "length (tl (dropWhile (\<lambda>c. c \<noteq> sep) q)) < length q"
    using q(2) length_dropWhile_le [of "\<lambda>c. c \<noteq> sep" "tl q"] by (cases q) simp_all
  moreover have "length q \<le> length p" unfolding q(1) by (rule length_dropWhile_le)
  ultimately show "length (tl (dropWhile (\<lambda>c. c \<noteq> sep) q)) < length p" by simp
qed

declare path_parts.simps [simp del]

primrec traverse_parts ::
  "'a fsys_scheme fs_env \<Rightarrow> string list \<Rightarrow> u32 \<Rightarrow> 'a fsys_scheme \<Rightarrow> ('a fsys_scheme \<times> int \<times> u32) option" where
  "traverse_parts E [] cur s = Some (s, 0, cur)"
| "traverse_parts E (part # parts) cur s = do {
     (s, name) \<leftarrow> str_dup E part s;
     (s, ret, nxt) \<leftarrow> vfs_lookup E cur (str_at s name) s;
     s \<leftarrow> k_kfree E name s;
     if ret \<noteq> 0 then Some (s, ret, 0) else traverse_parts E parts nxt s
   }"

definition vfs_traverse ::
  "'a fsys_scheme fs_env \<Rightarrow> u32 \<Rightarrow> string option \<Rightarrow> 'a fsys_scheme \<Rightarrow> ('a fsys_scheme \<times> int \<times> u32) option" where
  "vfs_traverse E start path s =
     (case path of None \<Rightarrow> Some (s, -EINVAL, 0)
      | Some p \<Rightarrow>
        (case (if p \<noteq> [] \<and> hd p = CHR ''/'' then (s, vfs_get_root E s) else or_cwd E start s) of (s, cur) \<Rightarrow>
          if cur = 0 then None else traverse_parts E (path_parts (CHR ''/'') p) cur s))"

definition vfs_chdir :: "'a fsys_scheme fs_env \<Rightarrow> string option \<Rightarrow> 'a fsys_scheme \<Rightarrow> ('a fsys_scheme \<times> int) option" where
  "vfs_chdir E path s =
     (if path = None then Some (s, -EINVAL)
      else do {
        (s, ret, new) \<leftarrow> vfs_traverse E 0 path s;
        if ret \<noteq> 0 then Some (s, ret)
        else if new = 0 then None
        else if n_type (vnodes s new) \<noteq> nt_dir then Some (s, -ENOTDIR)
        else Some (upd_task (current s) (\<lambda>k. k\<lparr>t_cwd := new\<rparr>) s, 0)
      })"

definition vfs_open_file :: "'a fsys_scheme fs_env \<Rightarrow> string option \<Rightarrow> 'a fsys_scheme \<Rightarrow> ('a fsys_scheme \<times> u32) option" where
  "vfs_open_file E path s = do {
     (s, ret, node) \<leftarrow> vfs_traverse E 0 path s;
     if ret \<noteq> 0 then Some (s, 0)
     else do {
       (s, ret, f) \<leftarrow> vfs_open E node s;
       if ret \<noteq> 0 then Some (s, 0) else Some (s, f)
     }
   }"

section \<open>Mounting\<close>

definition vfs_mount :: "'a fsys_scheme fs_env \<Rightarrow> u32 \<Rightarrow> string \<Rightarrow> 'a fsys_scheme \<Rightarrow> ('a fsys_scheme \<times> int) option" where
  "vfs_mount E fs mountpoint s =
     (if vfs_root s = 0 \<and> mountpoint = ''/''
      then do {
        (s, ret) \<leftarrow> o_mount (fs_ops_of E s fs) fs s;
        if ret \<noteq> 0 then Some (s, ret)
        else do {
          s \<leftarrow> Some (s\<lparr>vfs_root := fs\<rparr>);
          Some (upd_fs fs (\<lambda>f. f\<lparr>fs_parent_node := vfs_get_root E s\<rparr>) s, 0)
        }
      }
      else do {
        (s, ret, mp) \<leftarrow> vfs_traverse E 0 (Some mountpoint) s;
        if ret \<noteq> 0 then Some (s, ret)
        else if n_type (vnodes s mp) \<noteq> nt_dir then Some (s, -ENOTDIR)
        else do {
          s \<leftarrow> Some (upd_fs fs (\<lambda>f. f\<lparr>fs_parent_node := mp, fs_parent := n_fs (vnodes s mp)\<rparr>) s);
          (s, ret) \<leftarrow> o_mount (fs_ops_of E s fs) fs s;
          if ret \<noteq> 0 then Some (s, ret)
          else Some (upd_node mp (\<lambda>n. n\<lparr>n_type := nt_mountpoint, n_fs := fs\<rparr>) s, 0)
        }
      })"

definition vfs_unmount :: "'a fsys_scheme fs_env \<Rightarrow> u32 \<Rightarrow> 'a fsys_scheme \<Rightarrow> ('a fsys_scheme \<times> int) option" where
  "vfs_unmount E fs s =
     (let mp = fs_parent_node (filesystems s fs) in
      if mp \<noteq> 0 \<and> n_type (vnodes s mp) \<noteq> nt_mountpoint then None
      else do {
        s \<leftarrow> Some (if mp = 0 then s
                   else upd_node mp (\<lambda>n. n\<lparr>n_type := nt_dir, n_fs := fs_parent (filesystems s fs)\<rparr>) s);
        (s, ret) \<leftarrow> o_unmount (fs_ops_of E s fs) fs s;
        if ret \<noteq> 0 then Some (s, ret)
        else Some (if fs = vfs_root s then s\<lparr>vfs_root := 0\<rparr> else s, 0)
      })"

section \<open>Paths compose\<close>

lemma path_parts_skip: "path_parts sep (sep # p) = path_parts sep p"
  unfolding path_parts.simps [of sep p] path_parts.simps [of sep "sep # p"] by simp

lemma path_parts_Nil [simp]: "path_parts sep [] = []"
  unfolding path_parts.simps [of sep "[]"] by simp

lemma path_parts_step:
  assumes "dropWhile (\<lambda>c. c = sep) p = w" "w \<noteq> []"
  shows "path_parts sep p = takeWhile (\<lambda>c. c \<noteq> sep) w # path_parts sep (tl (dropWhile (\<lambda>c. c \<noteq> sep) w))"
  unfolding path_parts.simps [of sep p] assms(1) Let_def using assms(2) by simp

lemma path_parts_all_sep: "dropWhile (\<lambda>c. c = sep) p = [] \<Longrightarrow> path_parts sep p = []"
  unfolding path_parts.simps [of sep p] by simp

lemma path_parts_sep_prefix: "\<forall>c \<in> set p. c = sep \<Longrightarrow> path_parts sep (p @ q) = path_parts sep q"
  by (induction p) (simp_all add: path_parts_skip)

lemma append_not_Nil: "xs @ y # ys \<noteq> []"
  by simp

lemma path_parts_append:
  "path_parts sep (p @ sep # q) = path_parts sep p @ path_parts sep q"
proof (induction sep p rule: path_parts.induct)
  case (1 sep p)
  let ?w = "dropWhile (\<lambda>c. c = sep) p"
  show ?case
  proof (cases "?w = []")
    case True
    then show ?thesis
      by (simp add: path_parts_sep_prefix path_parts_all_sep path_parts_skip)
  next
    case False
    then have w: "dropWhile (\<lambda>c. c = sep) (p @ sep # q) = ?w @ sep # q"
      by (induction p) auto
    have tw: "takeWhile (\<lambda>c. c \<noteq> sep) (w @ sep # q) = takeWhile (\<lambda>c. c \<noteq> sep) w" for w
      by (induction w) auto
    have dw: "tl (dropWhile (\<lambda>c. c \<noteq> sep) (w @ sep # q)) =
        (if dropWhile (\<lambda>c. c \<noteq> sep) w = [] then q else tl (dropWhile (\<lambda>c. c \<noteq> sep) w) @ sep # q)" for w
      by (induction w) auto
    define r where "r = dropWhile (\<lambda>c. c \<noteq> sep) ?w"
    have "path_parts sep (if r = [] then q else tl r @ sep # q) = path_parts sep (tl r) @ path_parts sep q"
      using "1.IH" [OF refl False, folded r_def] by (cases "r = []") (simp_all only: if_True if_False list.sel path_parts_Nil append_Nil simp_thms)
    then show ?thesis
      by (simp only: path_parts_step [OF w append_not_Nil] path_parts_step [OF refl False] tw dw r_def append_Cons)
  qed
qed

lemma traverse_parts_append:
  "traverse_parts E (ps @ qs) cur s = do {
     (s, ret, n) \<leftarrow> traverse_parts E ps cur s;
     if ret \<noteq> 0 then Some (s, ret, 0) else traverse_parts E qs n s
   }"
proof (induction ps arbitrary: cur s)
  case (Cons part ps)
  show ?case
    by (simp add: Cons.IH split_def if_distrib [of "\<lambda>x. Option.bind x _"] cong: if_cong)
qed simp



end
