(* ===== verification/Memfs.thy ===== *)
theory Memfs
  imports Vfs
begin

text \<open>
  \<open>kernel/fs/mem.c\<close>: the file system that keeps its tree and its data in memory. A \<open>struct memfs_node\<close>
  starts with its \<open>struct vfs_node\<close>, so one address gives an entry of \<open>vnodes\<close> and one of \<open>mnodes\<close>;
  a \<open>struct memfs\<close> likewise gives an entry of \<open>filesystems\<close> and one of \<open>memfss\<close>. The bytes of a
  file are in the kernel's byte memory \<open>kmem\<close>.
\<close>

section \<open>Data\<close>

record memfs_node =
  mn_name :: u32
  mn_up :: u32
  mn_next :: u32
  mn_children :: u32
  mn_data :: u32
  mn_capacity :: u32

record memfs_rec =
  mf_root :: u32
  mf_last_id :: u32

record memfs_state = fsys +
  mnodes :: "u32 \<Rightarrow> memfs_node"
  memfss :: "u32 \<Rightarrow> memfs_rec"

abbreviation SIZEOF_MEMFS_NODE :: u32 where "SIZEOF_MEMFS_NODE \<equiv> 40"
abbreviation SIZEOF_MEMFS :: u32 where "SIZEOF_MEMFS \<equiv> 24"
abbreviation SIZEOF_VFS_FILE :: u32 where "SIZEOF_VFS_FILE \<equiv> 16"

definition upd_mnode :: "u32 \<Rightarrow> (memfs_node \<Rightarrow> memfs_node) \<Rightarrow> 'a memfs_state_scheme \<Rightarrow> 'a memfs_state_scheme" where
  "upd_mnode n f s = s\<lparr>mnodes := (mnodes s)(n := f (mnodes s n))\<rparr>"

definition upd_memfs :: "u32 \<Rightarrow> (memfs_rec \<Rightarrow> memfs_rec) \<Rightarrow> 'a memfs_state_scheme \<Rightarrow> 'a memfs_state_scheme" where
  "upd_memfs n f s = s\<lparr>memfss := (memfss s)(n := f (memfss s n))\<rparr>"

type_synonym 'a menv = "'a memfs_state_scheme fs_env"

text \<open>What \<open>kzalloc\<close> leaves in a fresh node and a fresh file system.\<close>

definition zero_node :: vfs_node where
  "zero_node = \<lparr>n_fs = 0, n_id = 0, n_type = nt_unknown, n_mode = 0\<rparr>"

definition zero_mnode :: memfs_node where
  "zero_mnode = \<lparr>mn_name = 0, mn_up = 0, mn_next = 0, mn_children = 0, mn_data = 0, mn_capacity = 0\<rparr>"

section \<open>The tree\<close>

definition memfs_node_create ::
  "'a menv \<Rightarrow> u32 \<Rightarrow> string \<Rightarrow> node_type \<Rightarrow> 'a memfs_state_scheme \<Rightarrow> ('a memfs_state_scheme \<times> u32) option" where
  "memfs_node_create E fs name type s = do {
     (s, n) \<leftarrow> k_kzalloc E SIZEOF_MEMFS_NODE s;
     s \<leftarrow> Some (upd_mnode n (\<lambda>_. zero_mnode) (upd_node n (\<lambda>_. zero_node) s));
     (s, nm) \<leftarrow> str_dup E name s;
     s \<leftarrow> Some (upd_mnode n (\<lambda>m. m\<lparr>mn_name := nm\<rparr>) s);
     s \<leftarrow> Some (upd_node n (\<lambda>v. v\<lparr>n_fs := fs, n_type := type, n_id := mf_last_id (memfss s fs)\<rparr>) s);
     s \<leftarrow> Some (upd_memfs fs (\<lambda>f. f\<lparr>mf_last_id := mf_last_id f + 1\<rparr>) s);
     Some (s, n)
   }"

definition memfs_mount :: "'a menv \<Rightarrow> u32 \<Rightarrow> 'a memfs_state_scheme \<Rightarrow> ('a memfs_state_scheme \<times> int) option" where
  "memfs_mount E fs s = do {
     (s, n) \<leftarrow> memfs_node_create E fs ''/'' nt_dir s;
     s \<leftarrow> Some (upd_memfs fs (\<lambda>f. f\<lparr>mf_root := n\<rparr>) s);
     p \<leftarrow> Some (fs_parent_node (filesystems s fs));
     s \<leftarrow> Some (upd_mnode n (\<lambda>m. m\<lparr>mn_up := (if p \<noteq> 0 then p else n)\<rparr>) s);
     s \<leftarrow> Some (upd_node n (\<lambda>v. v\<lparr>n_mode := 0x1ED\<rparr>) s);
     Some (s, 0)
   }"

text \<open>
  The loop of \<open>memfs_recurse_free\<close> from index \<open>idx\<close>. The names that \<open>vfs_readdir\<close> returns are not
  freed by the code.
\<close>

partial_function (option) recurse_free_loop ::
  "'a menv \<Rightarrow> u32 \<Rightarrow> u32 \<Rightarrow> 'a memfs_state_scheme \<Rightarrow> 'a memfs_state_scheme option" where
  "recurse_free_loop E dir idx s = do {
     (s, ret, cur_name) \<leftarrow> vfs_readdir E dir idx s;
     if ret \<noteq> 0 then Some s
     else do {
       (s, ret, node) \<leftarrow> vfs_lookup E dir (str_at s cur_name) s;
       if ret \<noteq> 0 then None
       else do {
         s \<leftarrow> (if n_type (vnodes s node) = nt_dir then recurse_free_loop E node 2 s else Some s);
         s \<leftarrow> (if mn_data (mnodes s node) \<noteq> 0 then k_kfree E (mn_data (mnodes s node)) s else Some s);
         s \<leftarrow> k_kfree E node s;
         recurse_free_loop E dir (idx + 1) s
       }
     }
   }"

definition memfs_recurse_free :: "'a menv \<Rightarrow> u32 \<Rightarrow> 'a memfs_state_scheme \<Rightarrow> ('a memfs_state_scheme \<times> int) option" where
  "memfs_recurse_free E dir s = do { s \<leftarrow> recurse_free_loop E dir 2 s; Some (s, 0) }"

definition memfs_unmount :: "'a menv \<Rightarrow> u32 \<Rightarrow> 'a memfs_state_scheme \<Rightarrow> ('a memfs_state_scheme \<times> int) option" where
  "memfs_unmount E fs s = do {
     (s, ret) \<leftarrow> memfs_recurse_free E (mf_root (memfss s fs)) s;
     if ret \<noteq> 0 then Some (s, ret)
     else do { s \<leftarrow> k_kfree E fs s; Some (s, 0) }
   }"

definition memfs_get_root :: "u32 \<Rightarrow> 'a memfs_state_scheme \<Rightarrow> u32" where
  "memfs_get_root fs s = mf_root (memfss s fs)"

partial_function (option) find_child :: "'a memfs_state_scheme \<Rightarrow> string \<Rightarrow> u32 \<Rightarrow> (int \<times> u32) option" where
  "find_child s name c =
     (if c = 0 then Some (-ENOENT, 0)
      else if strs s (mn_name (mnodes s c)) = name then Some (0, c)
      else find_child s name (mn_next (mnodes s c)))"

definition memfs_lookup :: "u32 \<Rightarrow> string \<Rightarrow> 'a memfs_state_scheme \<Rightarrow> ('a memfs_state_scheme \<times> int \<times> u32) option" where
  "memfs_lookup d name s =
     (if name = ''.'' then Some (s, 0, d)
      else if name = ''..'' then Some (s, 0, mn_up (mnodes s d))
      else do { (ret, n) \<leftarrow> find_child s name (mn_children (mnodes s d)); Some (s, ret, n) })"

partial_function (option) nth_child :: "'a memfs_state_scheme \<Rightarrow> u32 \<Rightarrow> u32 \<Rightarrow> u32 \<Rightarrow> u32 option" where
  "nth_child s idx i c =
     (if c = 0 then Some 0
      else if i = idx then Some c
      else nth_child s idx (i + 1) (mn_next (mnodes s c)))"

definition memfs_readdir ::
  "'a menv \<Rightarrow> u32 \<Rightarrow> u32 \<Rightarrow> 'a memfs_state_scheme \<Rightarrow> ('a memfs_state_scheme \<times> int \<times> u32) option" where
  "memfs_readdir E d idx s =
     (if idx = 0 then do { (s, p) \<leftarrow> str_dup E ''.'' s; Some (s, 0, p) }
      else if idx = 1 then do { (s, p) \<leftarrow> str_dup E ''..'' s; Some (s, 0, p) }
      else do {
        c \<leftarrow> nth_child s (idx - 2) 0 (mn_children (mnodes s d));
        if c = 0 then Some (s, -ENOENT, 0)
        else do { (s, p) \<leftarrow> str_dup E (strs s (mn_name (mnodes s c))) s; Some (s, 0, p) }
      })"

definition memfs_add_child :: "u32 \<Rightarrow> u32 \<Rightarrow> 'a memfs_state_scheme \<Rightarrow> 'a memfs_state_scheme" where
  "memfs_add_child parent child s =
     (let s = upd_mnode child (\<lambda>m. m\<lparr>mn_up := parent\<rparr>) s;
          s = upd_mnode child (\<lambda>m. m\<lparr>mn_next := mn_children (mnodes s parent)\<rparr>) s
      in upd_mnode parent (\<lambda>m. m\<lparr>mn_children := child\<rparr>) s)"

definition memfs_create ::
  "'a menv \<Rightarrow> u32 \<Rightarrow> string \<Rightarrow> u16 \<Rightarrow> 'a memfs_state_scheme \<Rightarrow> ('a memfs_state_scheme \<times> int) option" where
  "memfs_create E dir name mode s = do {
     (s, new) \<leftarrow> memfs_node_create E (n_fs (vnodes s dir)) name nt_file s;
     s \<leftarrow> Some (upd_node new (\<lambda>v. v\<lparr>n_mode := mode\<rparr>) s);
     Some (memfs_add_child dir new s, 0)
   }"

definition memfs_mkdir ::
  "'a menv \<Rightarrow> u32 \<Rightarrow> string \<Rightarrow> u16 \<Rightarrow> 'a memfs_state_scheme \<Rightarrow> ('a memfs_state_scheme \<times> int) option" where
  "memfs_mkdir E dir name mode s = do {
     (s, new) \<leftarrow> memfs_node_create E (n_fs (vnodes s dir)) name nt_dir s;
     s \<leftarrow> Some (upd_node new (\<lambda>v. v\<lparr>n_mode := mode\<rparr>) s);
     Some (memfs_add_child dir new s, 0)
   }"

section \<open>File contents\<close>

definition memfs_read :: "u32 \<Rightarrow> u32 \<Rightarrow> u32 \<Rightarrow> 'a memfs_state_scheme \<Rightarrow> ('a memfs_state_scheme \<times> int) option" where
  "memfs_read file buf bytes s =
     (let n = mnodes s (f_node (vfiles s file)); off = f_offset (vfiles s file) in
      if off \<ge> mn_capacity n then Some (s, 0)
      else
        (let remain = mn_capacity n - off; to_read = (if bytes \<le> remain then bytes else remain);
             s = s\<lparr>kmem := memcpy (kmem s) buf (mn_data n + off) to_read\<rparr>
         in Some (upd_file file (\<lambda>f. f\<lparr>f_offset := f_offset f + to_read\<rparr>) s, sint to_read)))"

text \<open>Growing the buffer: the new size is \<open>offset + bytes\<close>, which wraps.\<close>

definition memfs_grow ::
  "'a menv \<Rightarrow> u32 \<Rightarrow> u32 \<Rightarrow> 'a memfs_state_scheme \<Rightarrow> ('a memfs_state_scheme \<times> bool) option" where
  "memfs_grow E node newsize s = do {
     (s, newbuf) \<leftarrow> k_kmalloc E newsize s;
     if newbuf = 0 then Some (s, False)
     else do {
       n \<leftarrow> Some (mnodes s node);
       s \<leftarrow> Some (s\<lparr>kmem := memcpy (kmem s) newbuf (mn_data n) (mn_capacity n)\<rparr>);
       s \<leftarrow> k_kfree E (mn_data n) s;
       Some (upd_mnode node (\<lambda>m. m\<lparr>mn_data := newbuf, mn_capacity := newsize\<rparr>) s, True)
     }
   }"

definition memfs_write ::
  "'a menv \<Rightarrow> u32 \<Rightarrow> u32 \<Rightarrow> u32 \<Rightarrow> 'a memfs_state_scheme \<Rightarrow> ('a memfs_state_scheme \<times> int) option" where
  "memfs_write E file buf bytes s =
     (let node = f_node (vfiles s file); last = f_offset (vfiles s file) + bytes in do {
        (s, ok) \<leftarrow> (if last > mn_capacity (mnodes s node) then memfs_grow E node last s else Some (s, True));
        if \<not> ok then Some (s, -ENOMEM)
        else do {
          s \<leftarrow> Some (s\<lparr>kmem := memcpy (kmem s) (mn_data (mnodes s node) + f_offset (vfiles s file)) buf bytes\<rparr>);
          Some (upd_file file (\<lambda>f. f\<lparr>f_offset := f_offset f + bytes\<rparr>) s, sint bytes)
        }
      })"

definition memfs_seek :: "u32 \<Rightarrow> u32 \<Rightarrow> int \<Rightarrow> 'a memfs_state_scheme \<Rightarrow> ('a memfs_state_scheme \<times> u32) option" where
  "memfs_seek file offset mode s =
     (let n = mnodes s (f_node (vfiles s file));
          s = (if mode = SEEK_SET then upd_file file (\<lambda>f. f\<lparr>f_offset := offset\<rparr>) s
               else if mode = SEEK_CUR then upd_file file (\<lambda>f. f\<lparr>f_offset := f_offset f + offset\<rparr>) s
               else if mode = SEEK_END then upd_file file (\<lambda>f. f\<lparr>f_offset := mn_capacity n + offset\<rparr>) s
               else s)
      in Some (s, f_offset (vfiles s file)))"

definition memfs_stat :: "u32 \<Rightarrow> 'a memfs_state_scheme \<Rightarrow> ('a memfs_state_scheme \<times> int \<times> vfs_stat_rec) option" where
  "memfs_stat file s =
     (let n = f_node (vfiles s file) in
      Some (s, 0, no_stat\<lparr>st_size := mn_capacity (mnodes s n), st_block_size := 512,
        st_offset := f_offset (vfiles s file), st_id := n_id (vnodes s n), st_mode := n_mode (vnodes s n),
        st_links := 0, st_uid := 1000, st_gid := 1000\<rparr>))"

definition memfs_file_ops :: "'a menv \<Rightarrow> 'a memfs_state_scheme vfs_file_ops" where
  "memfs_file_ops E = \<lparr>p_read = Some memfs_read, p_read_at = None, p_write = Some (memfs_write E), p_write_at = None,
     p_seek = Some memfs_seek, p_stat = Some memfs_stat\<rparr>"

definition memfs_open :: "'a menv \<Rightarrow> u32 \<Rightarrow> 'a memfs_state_scheme \<Rightarrow> ('a memfs_state_scheme \<times> int \<times> u32) option" where
  "memfs_open E node s = do {
     (s, f) \<leftarrow> k_kmalloc E SIZEOF_VFS_FILE s;
     if f = 0 then Some (s, -ENOMEM, 0)
     else Some (upd_file f (\<lambda>_. \<lparr>f_node = node, f_offset = 0, f_ops = Memfs_file_ops, f_next = 0\<rparr>) s, 0, f)
   }"

definition memfs_close :: "'a menv \<Rightarrow> u32 \<Rightarrow> 'a memfs_state_scheme \<Rightarrow> ('a memfs_state_scheme \<times> int) option" where
  "memfs_close E file s = do { s \<leftarrow> k_kfree E file s; Some (s, 0) }"

definition memfs_ops :: "'a menv \<Rightarrow> 'a memfs_state_scheme vfs_ops" where
  "memfs_ops E = \<lparr>o_mount = memfs_mount E, o_unmount = memfs_unmount E, o_lookup = Some memfs_lookup,
     o_readdir = Some (memfs_readdir E), o_open = Some (memfs_open E), o_close = Some (memfs_close E),
     o_create = Some (memfs_create E), o_mkdir = Some (memfs_mkdir E), o_get_root = memfs_get_root\<rparr>"

definition memfs_new :: "'a menv \<Rightarrow> 'a memfs_state_scheme \<Rightarrow> ('a memfs_state_scheme \<times> u32) option" where
  "memfs_new E s = do {
     (s, fs) \<leftarrow> k_kzalloc E SIZEOF_MEMFS s;
     s \<leftarrow> Some (upd_memfs fs (\<lambda>_. \<lparr>mf_root = 0, mf_last_id = 0\<rparr>) s);
     Some (upd_fs fs (\<lambda>_. \<lparr>fs_name = ''memfs'', fs_parent = 0, fs_parent_node = 0, fs_ops = Memfs_ops\<rparr>) s, fs)
   }"

section \<open>Directories as lists\<close>

text \<open>\<open>kids m c xs\<close>: the list of children that starts at \<open>c\<close> is \<open>xs\<close>.\<close>

fun kids :: "(u32 \<Rightarrow> memfs_node) \<Rightarrow> u32 \<Rightarrow> u32 list \<Rightarrow> bool" where
  "kids m c [] = (c = 0)"
| "kids m c (x # xs) = (c = x \<and> x \<noteq> 0 \<and> kids m (mn_next (m x)) xs)"

abbreviation node_name :: "'a memfs_state_scheme \<Rightarrow> u32 \<Rightarrow> string" where
  "node_name s n \<equiv> strs s (mn_name (mnodes s n))"

lemma kids_cong: "(\<And>x. x \<in> set xs \<Longrightarrow> mn_next (m' x) = mn_next (m x)) \<Longrightarrow> kids m' c xs = kids m c xs"
  by (induction xs arbitrary: c) auto

lemma find_child_kids:
  "kids (mnodes s) c xs \<Longrightarrow> find_child s name c =
     Some (case find (\<lambda>x. node_name s x = name) xs of None \<Rightarrow> (-ENOENT, 0) | Some x \<Rightarrow> (0, x))"
  by (induction xs arbitrary: c) (subst find_child.simps, auto)+

lemma nth_child_kids:
  assumes "kids (mnodes s) c xs" "unat i + length xs < 2 ^ 32" "i \<le> idx"
  shows "nth_child s idx i c = Some (if unat (idx - i) < length xs then xs ! unat (idx - i) else 0)"
  using assms
proof (induction xs arbitrary: c i)
  case Nil
  then show ?case by (subst nth_child.simps) simp
next
  case (Cons x xs)
  show ?case
  proof (cases "i = idx")
    case False
    have i1: "unat (i + 1) = Suc (unat i)"
      using Cons.prems(2) by (subst unat_add_small) auto
    have le: "i + 1 \<le> idx" using False Cons.prems(3) i1 by (simp add: word_le_nat_alt word_unat_eq_iff)
    have "unat (idx - i) = Suc (unat (idx - (i + 1)))"
      using i1 le Cons.prems(3) by (simp add: unat_sub word_le_nat_alt)
    moreover have "nth_child s idx (i + 1) (mn_next (mnodes s x)) =
        Some (if unat (idx - (i + 1)) < length xs then xs ! unat (idx - (i + 1)) else 0)"
      using Cons.prems i1 le by (intro Cons.IH) auto
    ultimately show ?thesis using Cons.prems(1) False by (subst nth_child.simps) simp
  qed (use Cons.prems in \<open>subst nth_child.simps, simp\<close>)
qed

text \<open>
  The tree of the file system at \<open>fs\<close>: its nodes \<open>N\<close> are allocated (\<open>L\<close>), \<open>K d\<close> are the children of
  \<open>d\<close>, each child points up to its directory, the names in a directory differ, and files have no
  children.
\<close>

definition node_ok :: "'a memfs_state_scheme \<Rightarrow> u32 \<Rightarrow> u32 set \<Rightarrow> u32 set \<Rightarrow> (u32 \<Rightarrow> u32 list) \<Rightarrow> u32 \<Rightarrow> bool" where
  "node_ok s fs L N K d \<longleftrightarrow>
     n_fs (vnodes s d) = fs \<and> n_type (vnodes s d) \<in> {nt_dir, nt_file} \<and> mn_name (mnodes s d) \<in> L \<and>
     kids (mnodes s) (mn_children (mnodes s d)) (K d) \<and> set (K d) \<subseteq> N \<and>
     (\<forall>c \<in> set (K d). mn_up (mnodes s c) = d) \<and> distinct (map (node_name s) (K d)) \<and>
     (n_type (vnodes s d) = nt_file \<longrightarrow> K d = [])"

definition memfs_tree :: "'a memfs_state_scheme \<Rightarrow> u32 \<Rightarrow> u32 set \<Rightarrow> u32 set \<Rightarrow> (u32 \<Rightarrow> u32 list) \<Rightarrow> bool" where
  "memfs_tree s fs L N K \<longleftrightarrow>
     fs_ops (filesystems s fs) = Memfs_ops \<and> 0 \<notin> N \<and> N \<subseteq> L \<and> (\<forall>d \<in> N. node_ok s fs L N K d)"

section \<open>Selectors after an update\<close>

lemma upd_sels [simp]:
  "vnodes (upd_node n f s) = (vnodes s)(n := f (vnodes s n))" "strs (upd_node n f s) = strs s"
  "filesystems (upd_node n f s) = filesystems s" "vfiles (upd_node n f s) = vfiles s"
  "vfs_root (upd_node n f s) = vfs_root s" "tasks (upd_node n f s) = tasks s" "current (upd_node n f s) = current s"
  "kmem (upd_node n f s) = kmem s"
  "filesystems (upd_fs x g s) = (filesystems s)(x := g (filesystems s x))" "vnodes (upd_fs x g s) = vnodes s"
  "vfiles (upd_file y h s) = (vfiles s)(y := h (vfiles s y))" "kmem (upd_file y h s) = kmem s"
  "vnodes (upd_file y h s) = vnodes s" "filesystems (upd_file y h s) = filesystems s"
  by (simp_all add: upd_node_def upd_fs_def upd_file_def)

lemma upd_msels [simp]:
  "mnodes (upd_node n f s) = mnodes s" "memfss (upd_node n f s) = memfss s"
  "mnodes (upd_file y h s) = mnodes s" "mnodes (upd_fs x g s) = mnodes s"
  "mnodes (upd_mnode k j s) = (mnodes s)(k := j (mnodes s k))" "memfss (upd_mnode k j s) = memfss s"
  "vnodes (upd_mnode k j s) = vnodes s" "strs (upd_mnode k j s) = strs s" "kmem (upd_mnode k j s) = kmem s"
  "filesystems (upd_mnode k j s) = filesystems s" "vfiles (upd_mnode k j s) = vfiles s"
  "vfs_root (upd_mnode k j s) = vfs_root s" "tasks (upd_mnode k j s) = tasks s" "current (upd_mnode k j s) = current s"
  "memfss (upd_memfs q r s) = (memfss s)(q := r (memfss s q))" "mnodes (upd_memfs q r s) = mnodes s"
  "vnodes (upd_memfs q r s) = vnodes s" "strs (upd_memfs q r s) = strs s" "kmem (upd_memfs q r s) = kmem s"
  "filesystems (upd_memfs q r s) = filesystems s" "vfiles (upd_memfs q r s) = vfiles s"
  "vfs_root (upd_memfs q r s) = vfs_root s" "tasks (upd_memfs q r s) = tasks s" "current (upd_memfs q r s) = current s"
  by (simp_all add: upd_node_def upd_file_def upd_fs_def upd_mnode_def upd_memfs_def)

section \<open>A name added to a directory\<close>

text \<open>The state after a node \<open>n\<close> with its name at \<open>nm\<close> was made and put in front of the children of \<open>d\<close>.\<close>

definition added ::
  "'a memfs_state_scheme \<Rightarrow> u32 \<Rightarrow> u32 \<Rightarrow> u32 \<Rightarrow> string \<Rightarrow> node_type \<Rightarrow> u16 \<Rightarrow> 'b memfs_state_scheme \<Rightarrow> bool" where
  "added s d n nm name type mode s' \<longleftrightarrow>
     vnodes s' = (vnodes s)(n := \<lparr>n_fs = n_fs (vnodes s d), n_id = mf_last_id (memfss s (n_fs (vnodes s d))),
        n_type = type, n_mode = mode\<rparr>) \<and>
     strs s' = (strs s)(nm := name) \<and> filesystems s' = filesystems s \<and>
     mnodes s' = (mnodes s)(n := \<lparr>mn_name = nm, mn_up = d, mn_next = mn_children (mnodes s d), mn_children = 0,
        mn_data = 0, mn_capacity = 0\<rparr>, d := (mnodes s d)\<lparr>mn_children := n\<rparr>)"

lemma added_tree:
  assumes tree: "memfs_tree s fs L N K" and d: "d \<in> N" "n_type (vnodes s d) = nt_dir"
    and new: "n \<notin> L" "nm \<notin> L" "n \<noteq> 0" "added s d n nm name type mode s'" "type \<in> {nt_dir, nt_file}"
    and name: "\<forall>x \<in> set (K d). node_name s x \<noteq> name"
  shows "memfs_tree s' fs (insert nm (insert n L)) (insert n N) (K(d := n # K d, n := []))"
proof -
  note T = tree [unfolded memfs_tree_def] and A = new(4) [unfolded added_def]
  have ok: "node_ok s fs L N K x" if "x \<in> N" for x using T that by blast
  have neq: "x \<noteq> n" "mn_name (mnodes s x) \<noteq> nm" "mn_name (mnodes s x) \<in> L" "n_fs (vnodes s x) = fs" if "x \<in> N" for x
    using that T new ok [OF that] by (auto simp: node_ok_def)
  have mn: "mnodes s' x = (if x = d then (mnodes s d)\<lparr>mn_children := n\<rparr> else mnodes s x)" if "x \<in> N" for x
    using A neq(1) [OF that] by simp
  have names: "node_name s' x = node_name s x" if "x \<in> N" for x
    using mn [OF that] neq [OF that] A by auto
  have new_n: "mnodes s' n = \<lparr>mn_name = nm, mn_up = d, mn_next = mn_children (mnodes s d), mn_children = 0,
      mn_data = 0, mn_capacity = 0\<rparr>" using A neq(1) [OF d(1)] by simp
  have kN: "set (K x) \<subseteq> N" if "x \<in> N" for x using ok [OF that] by (auto simp: node_ok_def)
  have kids: "kids (mnodes s') c (K x) = kids (mnodes s) c (K x)" if "x \<in> N" for x c
    by (rule kids_cong) (use mn kN [OF that] in \<open>auto split: if_splits\<close>)
  have up: "mn_up (mnodes s' x) = mn_up (mnodes s x)" if "x \<in> N" for x using mn [OF that] by simp
  have same: "map (node_name s') (K x) = map (node_name s) (K x)" if "x \<in> N" for x
    using names kN [OF that] by auto
  let ?N = "insert n N" and ?L = "insert nm (insert n L)" and ?K = "K(d := n # K d, n := [])"
  have "node_ok s' fs ?L ?N ?K n"
    using new_n A new(5) neq(4) [OF d(1)] by (simp add: node_ok_def)
  moreover have "node_ok s' fs ?L ?N ?K x" if x: "x \<in> N" for x
  proof -
    have vn: "vnodes s' x = vnodes s x" using A neq(1) [OF x] by simp
    have ux: "\<forall>c \<in> set (K x). mn_up (mnodes s' c) = x" using ok [OF x] up kN [OF x] by (auto simp: node_ok_def)
    have o: "n_fs (vnodes s x) = fs" "n_type (vnodes s x) \<in> {nt_dir, nt_file}" "kids (mnodes s) (mn_children (mnodes s x)) (K x)"
      "distinct (map (node_name s) (K x))" "n_type (vnodes s x) = nt_file \<longrightarrow> K x = []"
      using ok [OF x] by (auto simp: node_ok_def)
    show ?thesis
    proof (cases "x = d")
      case True
      have "node_name s' n = name" using new_n A by simp
      then have "map (node_name s') (n # K d) = name # map (node_name s) (K d)"
        unfolding list.map same [OF d(1)] by simp
      moreover have "name \<notin> set (map (node_name s) (K d))" using name by auto
      ultimately have "distinct (map (node_name s') (n # K d))"
        using o(4) True by (simp only: distinct.simps simp_thms)
      then show ?thesis
        using True o ux kids [OF x] mn [OF x] new_n new(3) neq [OF x] kN [OF x] d(2) vn
        unfolding node_ok_def by auto
    next
      case False
      have "distinct (map (node_name s') (K x))" unfolding same [OF x] by (rule o(4))
      then show ?thesis
        using False o ux kids [OF x] mn [OF x] neq [OF x] kN [OF x] vn unfolding node_ok_def by auto
    qed
  qed
  ultimately show ?thesis
    using T A new(3) unfolding memfs_tree_def by auto
qed

section \<open>The heap the file system relies on\<close>

text \<open>Nothing of the file systems differs between \<open>s\<close> and \<open>s'\<close>, apart from strings in \<open>same_but_strs\<close>.\<close>

definition same_but_strs :: "'a memfs_state_scheme \<Rightarrow> 'a memfs_state_scheme \<Rightarrow> bool" where
  "same_but_strs s s' \<longleftrightarrow> vnodes s' = vnodes s \<and> filesystems s' = filesystems s \<and> vfiles s' = vfiles s \<and>
     vfs_root s' = vfs_root s \<and> mnodes s' = mnodes s \<and> memfss s' = memfss s \<and> current s' = current s \<and>
     (\<forall>t. t_cwd (tasks s' t) = t_cwd (tasks s t))"

definition same_fs :: "'a memfs_state_scheme \<Rightarrow> 'a memfs_state_scheme \<Rightarrow> bool" where
  "same_fs s s' \<longleftrightarrow> same_but_strs s s' \<and> strs s' = strs s"

text \<open>
  What the file system relies on of \<open>kmalloc.c\<close>. \<open>heap k L s\<close>: the blocks \<open>L\<close> are allocated in \<open>s\<close> and
  \<open>k\<close> more requests of up to a page are certain to succeed.
\<close>

locale kernel_heap =
  fixes E :: "'a memfs_state_scheme fs_env" and heap :: "nat \<Rightarrow> u32 set \<Rightarrow> 'a memfs_state_scheme \<Rightarrow> bool"
  assumes kmalloc_fresh: "heap (Suc k) L s \<Longrightarrow> n \<le> PAGE_SIZE \<Longrightarrow>
      \<exists>s' p. k_kmalloc E n s = Some (s', p) \<and> p \<noteq> 0 \<and> p \<notin> L \<and> heap k (insert p L) s' \<and> same_fs s s'"
    and kzalloc_fresh: "heap (Suc k) L s \<Longrightarrow> n \<le> PAGE_SIZE \<Longrightarrow>
      \<exists>s' p. k_kzalloc E n s = Some (s', p) \<and> p \<noteq> 0 \<and> p \<notin> L \<and> heap k (insert p L) s' \<and> same_fs s s'"
    and heap_cong: "heap k L s \<Longrightarrow> vm.truncate s' = vm.truncate s \<Longrightarrow> heap k L s'"
begin

lemma heap_upd:
  assumes "heap k L s"
  shows "heap k L (upd_node n f s)" "heap k L (upd_mnode n g s)" "heap k L (upd_memfs n h s)"
    "heap k L (upd_fs n j s)" "heap k L (s\<lparr>strs := x\<rparr>)" "heap k L (upd_file n l s)"
  using assms
  by (auto elim!: heap_cong simp: upd_node_def upd_mnode_def upd_memfs_def upd_fs_def upd_file_def vm.defs)

lemma str_dup_fresh:
  assumes "heap (Suc k) L s" "length str < 4096"
  shows "\<exists>s' p. str_dup E str s = Some (s', p) \<and> p \<noteq> 0 \<and> p \<notin> L \<and> heap k (insert p L) s' \<and>
    same_but_strs s s' \<and> strs s' = (strs s)(p := str)"
proof -
  have "unat (word_of_nat (length str) + 1 :: u32) = length str + 1"
    using assms(2) by (subst unat_add_small) (simp_all add: unat_of_nat_small)
  then have "word_of_nat (length str) + 1 \<le> PAGE_SIZE"
    using assms(2) by (simp add: word_le_nat_alt PAGE_SIZE_def)
  from kmalloc_fresh [OF assms(1) this] obtain s1 p where
    p: "k_kmalloc E (word_of_nat (length str) + 1) s = Some (s1, p)" "p \<noteq> 0" "p \<notin> L" "heap k (insert p L) s1" "same_fs s s1"
    by blast
  then show ?thesis
    by (intro exI [of _ "s1\<lparr>strs := (strs s1)(p := str)\<rparr>"] exI [of _ p])
      (simp add: str_dup_def heap_upd same_fs_def same_but_strs_def)
qed

lemma node_create_fresh:
  assumes h: "heap (Suc (Suc k)) L s" and name: "length name < 4096"
  shows "\<exists>s' n nm. memfs_node_create E fs name type s = Some (s', n) \<and> n \<notin> L \<and> nm \<notin> L \<and> n \<noteq> 0 \<and> nm \<noteq> 0 \<and>
    heap k (insert nm (insert n L)) s' \<and> strs s' = (strs s)(nm := name) \<and> filesystems s' = filesystems s \<and>
    vnodes s' = (vnodes s)(n := \<lparr>n_fs = fs, n_id = mf_last_id (memfss s fs), n_type = type, n_mode = 0\<rparr>) \<and>
    mnodes s' = (mnodes s)(n := zero_mnode\<lparr>mn_name := nm\<rparr>) \<and>
    memfss s' = (memfss s)(fs := (memfss s fs)\<lparr>mf_last_id := mf_last_id (memfss s fs) + 1\<rparr>)"
proof -
  have "SIZEOF_MEMFS_NODE \<le> PAGE_SIZE" by (simp add: PAGE_SIZE_def)
  from kzalloc_fresh [OF h this] obtain s1 n where
    n: "k_kzalloc E SIZEOF_MEMFS_NODE s = Some (s1, n)" "n \<noteq> 0" "n \<notin> L" "heap (Suc k) (insert n L) s1" "same_fs s s1"
    by blast
  let ?s1 = "upd_mnode n (\<lambda>_. zero_mnode) (upd_node n (\<lambda>_. zero_node) s1)"
  from str_dup_fresh [OF heap_upd(2) [OF heap_upd(1) [OF n(4)]] name] obtain s2 nm where
    nm: "str_dup E name ?s1 = Some (s2, nm)" "nm \<noteq> 0" "nm \<notin> insert n L" "heap k (insert nm (insert n L)) s2"
      "same_but_strs ?s1 s2" "strs s2 = (strs ?s1)(nm := name)"
    by blast
  let ?s3 = "upd_node n (\<lambda>v. v\<lparr>n_fs := fs, n_type := type, n_id := mf_last_id (memfss s2 fs)\<rparr>) (upd_mnode n (\<lambda>m. m\<lparr>mn_name := nm\<rparr>) s2)"
  have "memfs_node_create E fs name type s = Some (upd_memfs fs (\<lambda>f. f\<lparr>mf_last_id := mf_last_id f + 1\<rparr>) ?s3, n)"
    using n(1) nm(1) by (simp add: memfs_node_create_def)
  moreover have "heap k (insert nm (insert n L)) (upd_memfs fs (\<lambda>f. f\<lparr>mf_last_id := mf_last_id f + 1\<rparr>) ?s3)"
    by (intro heap_upd nm(4))
  ultimately show ?thesis
    using n(2,3,5) nm(2,3,5,6)
    by (intro exI [of _ "upd_memfs fs (\<lambda>f. f\<lparr>mf_last_id := mf_last_id f + 1\<rparr>) ?s3"] exI [of _ n] exI [of _ nm])
      (simp add: same_fs_def same_but_strs_def zero_node_def)
qed

lemma add_node_fresh:
  assumes h: "heap (Suc (Suc k)) L s" and name: "length name < 4096" and d: "d \<in> L"
  shows "\<exists>s1 n nm. memfs_node_create E (n_fs (vnodes s d)) name type s = Some (s1, n) \<and> n \<notin> L \<and> nm \<notin> L \<and> n \<noteq> 0 \<and>
    heap k (insert nm (insert n L)) (memfs_add_child d n (upd_node n (\<lambda>v. v\<lparr>n_mode := mode\<rparr>) s1)) \<and>
    added s d n nm name type mode (memfs_add_child d n (upd_node n (\<lambda>v. v\<lparr>n_mode := mode\<rparr>) s1))"
proof -
  from node_create_fresh [OF h name, of "n_fs (vnodes s d)" type] obtain s1 n nm where
    n: "memfs_node_create E (n_fs (vnodes s d)) name type s = Some (s1, n)" "n \<notin> L" "nm \<notin> L" "n \<noteq> 0"
      "heap k (insert nm (insert n L)) s1" "strs s1 = (strs s)(nm := name)" "filesystems s1 = filesystems s"
      "vnodes s1 = (vnodes s)(n := \<lparr>n_fs = n_fs (vnodes s d), n_id = mf_last_id (memfss s (n_fs (vnodes s d))),
         n_type = type, n_mode = 0\<rparr>)" "mnodes s1 = (mnodes s)(n := zero_mnode\<lparr>mn_name := nm\<rparr>)"
    by blast
  have "d \<noteq> n" using d n(2) by auto
  then show ?thesis
    using n by (intro exI [of _ s1] exI [of _ n] exI [of _ nm])
      (simp add: memfs_add_child_def Let_def heap_upd added_def zero_mnode_def)
qed

lemma memfs_create_added:
  assumes "heap (Suc (Suc k)) L s" "length name < 4096" "d \<in> L"
  shows "\<exists>s' n nm. memfs_create E d name mode s = Some (s', 0) \<and> n \<notin> L \<and> nm \<notin> L \<and> n \<noteq> 0 \<and>
    heap k (insert nm (insert n L)) s' \<and> added s d n nm name nt_file mode s'"
  using add_node_fresh [OF assms, of nt_file mode] by (fastforce simp: memfs_create_def)

lemma memfs_mkdir_added:
  assumes "heap (Suc (Suc k)) L s" "length name < 4096" "d \<in> L"
  shows "\<exists>s' n nm. memfs_mkdir E d name mode s = Some (s', 0) \<and> n \<notin> L \<and> nm \<notin> L \<and> n \<noteq> 0 \<and>
    heap k (insert nm (insert n L)) s' \<and> added s d n nm name nt_dir mode s'"
  using add_node_fresh [OF assms, of nt_dir mode] by (fastforce simp: memfs_mkdir_def)

end

section \<open>Through the VFS layer\<close>

text \<open>\<open>E\<close> routes the operations on a memfs to \<open>mem.c\<close>.\<close>

definition runs_memfs :: "'a menv \<Rightarrow> bool" where
  "runs_memfs E \<longleftrightarrow> o_lookup (k_ops E Memfs_ops) = Some memfs_lookup \<and> o_create (k_ops E Memfs_ops) = Some (memfs_create E) \<and>
     o_mkdir (k_ops E Memfs_ops) = Some (memfs_mkdir E)"

lemma tree_node_ops: "memfs_tree s fs L N K \<Longrightarrow> d \<in> N \<Longrightarrow> node_ops E s d = k_ops E Memfs_ops"
  by (simp add: memfs_tree_def node_ok_def node_ops_def)

lemma tree_lookup:
  assumes E: "runs_memfs E" and tree: "memfs_tree s fs L N K" and d: "d \<in> N" "n_type (vnodes s d) = nt_dir"
    and name: "name \<noteq> ''.''" "name \<noteq> ''..''"
  shows "vfs_lookup E d (Some name) s =
    Some (case find (\<lambda>x. node_name s x = name) (K d) of None \<Rightarrow> (s, -ENOENT, 0) | Some x \<Rightarrow> (s, 0, x))"
proof -
  have T: "0 \<notin> N" "kids (mnodes s) (mn_children (mnodes s d)) (K d)" "set (K d) \<subseteq> N"
    using tree d by (auto simp: memfs_tree_def node_ok_def)
  have look: "memfs_lookup d name s =
      Some (case find (\<lambda>x. node_name s x = name) (K d) of None \<Rightarrow> (s, -ENOENT, 0) | Some x \<Rightarrow> (s, 0, x))"
    using name find_child_kids [OF T(2), of name] by (simp add: memfs_lookup_def split: option.splits)
  have "x \<noteq> 0 \<and> n_type (vnodes s x) \<noteq> nt_mountpoint" if "find (\<lambda>x. node_name s x = name) (K d) = Some x" for x
  proof -
    have "x \<in> N" using that T(3) by (auto simp: find_Some_iff)
    then show ?thesis using T(1) tree by (auto simp: memfs_tree_def node_ok_def)
  qed
  moreover have "d \<noteq> 0" using d(1) T(1) by auto
  ultimately show ?thesis
    using E d(2) look
    by (subst vfs_lookup.simps)
      (simp add: or_cwd_def tree_node_ops [OF tree d(1)] runs_memfs_def ENOENT_def split: option.splits)
qed

text \<open>Looking up every name after one was added: the new name gives the new node, all others are as before.\<close>

lemma added_lookup:
  assumes tree: "memfs_tree s fs L N K" and d: "d \<in> N" "e \<in> N"
    and new: "n \<notin> L" "nm \<notin> L" "added s d n nm name type mode s'"
    and absent: "\<forall>x \<in> set (K d). node_name s x \<noteq> name"
  shows "find (\<lambda>x. node_name s' x = nm') ((K(d := n # K d, n := [])) e) =
    (if e = d \<and> nm' = name then Some n else find (\<lambda>x. node_name s x = nm') (K e))"
proof -
  note T = tree [unfolded memfs_tree_def] and A = new(3) [unfolded added_def]
  have ne: "x \<noteq> n" "mn_name (mnodes s x) \<noteq> nm" if "x \<in> N" for x
    using that T new by (auto simp: node_ok_def)
  have names: "node_name s' x = node_name s x" if "x \<in> N" for x
    using A ne [OF that] by (cases "x = d") simp_all
  have "set (K e) \<subseteq> N" using T d(2) by (auto simp: node_ok_def)
  then have f: "find (\<lambda>x. node_name s' x = nm') (K e) = find (\<lambda>x. node_name s x = nm') (K e)"
    using names by (intro find_cong) auto
  have "node_name s' n = name" using A ne(1) [OF d(1)] by simp
  moreover have "find (\<lambda>x. node_name s x = name) (K d) = None" using absent by (auto simp: find_None_iff)
  ultimately show ?thesis using f ne(1) [OF d(2)] by auto
qed

context kernel_heap
begin

text \<open>Creating a name through \<open>vfs.c\<close>, for both kinds of node.\<close>

lemma vfs_make_tree:
  assumes E: "runs_memfs E" and h: "heap (Suc (Suc k)) L s" and tree: "memfs_tree s fs L N K"
    and d: "d \<in> N" "n_type (vnodes s d) = nt_dir" and name: "name \<noteq> ''.''" "name \<noteq> ''..''" "length name < 4096"
    and mk: "mk = (if type = nt_file then vfs_create else vfs_mkdir)" and type: "type \<in> {nt_dir, nt_file}"
  shows "if \<exists>x \<in> set (K d). node_name s x = name then mk E d (Some name) mode s = Some (s, -EEXIST)
    else \<exists>s' n L'. mk E d (Some name) mode s = Some (s', 0) \<and> heap k L' s' \<and> n \<notin> N \<and>
      memfs_tree s' fs L' (insert n N) (K(d := n # K d, n := [])) \<and> n_type (vnodes s' n) = type \<and> n_mode (vnodes s' n) = mode \<and>
      (\<forall>e \<in> N. n_type (vnodes s' e) = n_type (vnodes s e)) \<and>
      (\<forall>e \<in> N. \<forall>nm. find (\<lambda>x. node_name s' x = nm) ((K(d := n # K d, n := [])) e) =
        (if e = d \<and> nm = name then Some n else find (\<lambda>x. node_name s x = nm) (K e)))"
proof (cases "\<exists>x \<in> set (K d). node_name s x = name")
  case True
  then obtain x where x: "find (\<lambda>x. node_name s x = name) (K d) = Some x"
    by (cases "find (\<lambda>x. node_name s x = name) (K d)") (auto simp: find_None_iff)
  have "d \<noteq> 0" using tree d(1) by (auto simp: memfs_tree_def)
  then have "mk E d (Some name) mode s = Some (s, -EEXIST)"
    using E tree_lookup [OF E tree d name(1,2)] x
    by (simp add: mk vfs_create_def vfs_mkdir_def or_cwd_def tree_node_ops [OF tree d(1)] runs_memfs_def)
  then show ?thesis using True by simp
next
  case False
  then have none: "find (\<lambda>x. node_name s x = name) (K d) = None" by (auto simp: find_None_iff)
  have d0: "d \<noteq> 0" "d \<in> L" using tree d(1) by (auto simp: memfs_tree_def)
  obtain s' n nm where new: "(if type = nt_file then memfs_create E else memfs_mkdir E) d name mode s = Some (s', 0)"
    "n \<notin> L" "nm \<notin> L" "n \<noteq> 0" "heap k (insert nm (insert n L)) s'" "added s d n nm name type mode s'"
    using type memfs_create_added [OF h name(3) d0(2), of mode] memfs_mkdir_added [OF h name(3) d0(2), of mode]
    by (cases "type = nt_file") auto
  have absent: "\<forall>x \<in> set (K d). node_name s x \<noteq> name" using False by blast
  have nN: "n \<notin> N" using tree new(2) by (auto simp: memfs_tree_def)
  have vn: "vnodes s' = (vnodes s)(n := \<lparr>n_fs = n_fs (vnodes s d), n_id = mf_last_id (memfss s (n_fs (vnodes s d))),
      n_type = type, n_mode = mode\<rparr>)" using new(6) by (simp add: added_def)
  have "mk E d (Some name) mode s = Some (s', 0)"
    using E tree_lookup [OF E tree d name(1,2)] none new(1) d0(1) type
    by (auto simp: mk vfs_create_def vfs_mkdir_def or_cwd_def tree_node_ops [OF tree d(1)] runs_memfs_def ENOENT_def)
  moreover have "n_type (vnodes s' e) = n_type (vnodes s e)" if "e \<in> N" for e using that nN vn by auto
  moreover note added_tree [OF tree d new(2,3,4,6) type absent] added_lookup [OF tree d(1) _ new(2,3,6) absent]
  ultimately show ?thesis
    unfolding if_not_P [OF False] using nN new(5) vn
    by (intro exI [of _ s'] exI [of _ n] exI [of _ "insert nm (insert n L)"]) simp
qed

end

end
