(* ===== verification/Kheap.thy ===== *)
theory Kheap
  imports Memfs
begin

text \<open>
  \<open>kernel/kmalloc.c\<close> put together with what it runs on: the slab allocator under its lock, and the
  page frames under the slabs. The allocator keeps the promises of \<open>Memfs.kernel_heap\<close>, so the
  in-memory file system runs on it.
\<close>

section \<open>The allocator of the running kernel\<close>

text \<open>
  \<open>slab_alloc\<close> takes the lock \<open>slab_sem\<close>, and requests above a page go to \<open>vmalloc\<close>, here the argument \<open>big_alloc\<close>; \<open>others\<close> is what other
  tasks do while this one waits.
\<close>

definition locked_slab_alloc ::
  "('a kernel_scheme \<Rightarrow> 'a kernel_scheme option) \<Rightarrow> (u32 \<Rightarrow> 'a kernel_scheme \<Rightarrow> ('a kernel_scheme \<times> u32) option) \<Rightarrow>
   u32 \<Rightarrow> 'a kernel_scheme \<Rightarrow> ('a kernel_scheme \<times> u32) option" where
  "locked_slab_alloc others purge = slab_alloc (sem_pend others Sem_slab) (\<lambda>s. Some (sem_post Sem_slab s)) purge"

definition locked_slab_free ::
  "('a kernel_scheme \<Rightarrow> 'a kernel_scheme option) \<Rightarrow> u32 \<Rightarrow> 'a kernel_scheme \<Rightarrow> 'a kernel_scheme option" where
  "locked_slab_free others = slab_free (sem_pend others Sem_slab) (\<lambda>s. Some (sem_post Sem_slab s))"

definition kernel_env ::
  "('a memfs_state_scheme \<Rightarrow> 'a memfs_state_scheme option) \<Rightarrow>
   (u32 \<Rightarrow> 'a memfs_state_scheme \<Rightarrow> ('a memfs_state_scheme \<times> u32) option) \<Rightarrow>
   (u32 \<Rightarrow> 'a memfs_state_scheme \<Rightarrow> ('a memfs_state_scheme \<times> u32) option) \<Rightarrow>
   (u32 \<Rightarrow> 'a memfs_state_scheme \<Rightarrow> 'a memfs_state_scheme option) \<Rightarrow>
   (fs_table \<Rightarrow> 'a memfs_state_scheme vfs_ops) \<Rightarrow> (file_table \<Rightarrow> 'a memfs_state_scheme vfs_file_ops) \<Rightarrow> 'a menv" where
  "kernel_env others purge big_alloc big_free T FT =
     \<lparr>k_kmalloc = kmalloc (locked_slab_alloc others purge) big_alloc,
      k_kzalloc = kzalloc (locked_slab_alloc others purge) big_alloc,
      k_kfree = kfree (locked_slab_free others) big_free, k_ops = T, k_file_ops = FT\<rparr>"

text \<open>
  \<open>kheap k L s\<close>: the slabs are well formed with the blocks \<open>L\<close> in use, there are frames for \<open>k\<close> more
  requests even when each needs a slab and a slab of metadata, and the lock is free.
\<close>

definition kheap :: "nat \<Rightarrow> u32 set \<Rightarrow> 'a kernel_scheme \<Rightarrow> bool" where
  "kheap k L s \<longleftrightarrow> (\<exists>F fs. slab_inv s F fs \<and> meta_room s F \<and> 2 * k \<le> length fs \<and> L \<subseteq> used s F) \<and>
     sem_count (sems s Sem_slab) \<noteq> 0"

section \<open>It keeps its promises\<close>

lemma slab_state_cong:
  assumes "kmem s' = kmem s" "page_freelist s' = page_freelist s" "metas s' = metas s" "slabs s' = slabs s"
  shows "slab_inv s' F fs = slab_inv s F fs" "meta_room s' F = meta_room s F" "used s' F = used s F"
proof -
  have l: "linked s' = linked s" using assms(4) by (simp add: linked_def)
  show "slab_inv s' F fs = slab_inv s F fs"
    using sinv_state_cong [OF assms(1-3)] by (simp add: slab_inv_def l assms(4))
  show "meta_room s' F = meta_room s F" by (simp add: meta_room_def assms(4))
  show "used s' F = used s F" by (simp add: used_def l assms(3))
qed

lemma kheap_cong:
  assumes "kmem s' = kmem s" "page_freelist s' = page_freelist s" "metas s' = metas s" "slabs s' = slabs s"
    "sem_count (sems s' Sem_slab) = sem_count (sems s Sem_slab)"
  shows "kheap k L s' = kheap k L s"
  unfolding kheap_def slab_state_cong [OF assms(1-4)] assms(5) ..

lemma slab_more_kernel:
  "slab.more s' = slab.more s \<Longrightarrow> sems s' = sems s \<and> tasks s' = tasks s \<and> current s' = current s \<and> kernel.more s' = kernel.more s"
  by (cases s rule: kernel.cases_scheme; cases s' rule: kernel.cases_scheme) simp

lemma upd_sem_slab [simp]:
  "kmem (upd_sem i f s) = kmem s" "page_freelist (upd_sem i f s) = page_freelist s" "metas (upd_sem i f s) = metas s"
  "slabs (upd_sem i f s) = slabs s" "kernel.more (upd_sem i f s) = kernel.more s"
  by (simp_all add: upd_sem_def)

lemma sem_post_slab:
  "kmem (sem_post i s) = kmem s" "page_freelist (sem_post i s) = page_freelist s" "metas (sem_post i s) = metas s"
  "slabs (sem_post i s) = slabs s" "kernel.more (sem_post i s) = kernel.more s" "current (sem_post i s) = current s"
  "sem_count (sems (sem_post i s) i) = sem_count (sems s i) + 1" "t_cwd (tasks (sem_post i s) t) = t_cwd (tasks s t)"
  by (auto simp: sem_post_def upd_sem_def upd_task_def Let_def split: list.splits)

lemma locked_slab_alloc_fresh:
  assumes h: "kheap (Suc k) L s" and n: "n \<le> PAGE_SIZE"
  shows "\<exists>s' c. locked_slab_alloc others purge n s = Some (s', c) \<and> c \<noteq> 0 \<and> c \<notin> L \<and> kheap k (insert c L) s' \<and>
    (\<forall>x. x - c < n \<longrightarrow> kmem s' x = 0) \<and> kernel.more s' = kernel.more s \<and> current s' = current s \<and>
    (\<forall>t. t_cwd (tasks s' t) = t_cwd (tasks s t))"
proof -
  obtain F fs where F: "slab_inv s F fs" "meta_room s F" "2 * Suc k \<le> length fs" "L \<subseteq> used s F"
    and cnt: "sem_count (sems s Sem_slab) \<noteq> 0" using h by (auto simp: kheap_def)
  then obtain p q fs0 where fs: "fs = p # q # fs0" by (cases fs; cases "tl fs") auto
  let ?s1 = "upd_sem Sem_slab (\<lambda>q. q\<lparr>sem_count := sem_count q - 1\<rparr>) s"
  have inv1: "slab_inv ?s1 F (p # q # fs0)" "meta_room ?s1 F" "used ?s1 F = used s F"
    using F fs slab_state_cong [of ?s1 s] by simp_all
  have b: "n \<le> 4096" using n by (simp add: PAGE_SIZE_def)
  obtain s2 F2 fs2 c i where c: "do_slab_alloc (\<lambda>_ _. None) n ?s1 = Some (s2, c)" "n \<le> chunk_sizes ! i"
    "fresh ?s1 F s2 F2 fs2 i c" "meta_room s2 F2" "length fs0 \<le> length fs2"
    using do_slab_alloc_ok [OF inv1(1,2) b] by blast
  note np = do_slab_alloc_no_purge [OF c(1) refl, of purge]
  have more: "sems s2 = sems ?s1" "tasks s2 = tasks ?s1" "current s2 = current ?s1" "kernel.more s2 = kernel.more ?s1"
    using np slab_more_kernel [of s2 ?s1] by auto
  let ?s3 = "sem_post Sem_slab s2"
  note post = slab_state_cong [OF sem_post_slab(1-4) [of Sem_slab s2]]
  have "locked_slab_alloc others purge n s = Some (?s3, c)"
    using np cnt by (simp add: locked_slab_alloc_def slab_alloc_def sem_pend_available)
  moreover have "c \<noteq> 0"
  proof -
    obtain m where m: "(i, m) \<in> linked s2" "chunk_of (m_slab (metas s2 m)) i c" "sinv (linked s2) s2 F2 fs2"
      using c(3) by (auto simp: fresh_def slab_inv_def)
    then have "page_of c = m_slab (metas s2 m)" "m_slab (metas s2 m) \<noteq> 0"
      using sinvD [OF m(3,1)] page_of_chunk by blast+
    then show ?thesis by (auto simp: page_of_def)
  qed
  moreover have "c \<notin> L" using c(3) F(4) inv1(3) by (auto simp: fresh_def)
  moreover have "kheap k (insert c L) ?s3"
  proof -
    have "slab_inv ?s3 F2 fs2" "meta_room ?s3 F2" "insert c L \<subseteq> used ?s3 F2"
      using c(3,4) F(4) inv1(3) unfolding post by (auto simp: fresh_def)
    moreover have "2 * k \<le> length fs2" using c(5) F(3) fs by simp
    moreover have "sem_count (sems ?s3 Sem_slab) \<noteq> 0" using cnt by (simp add: sem_post_slab more upd_sem_def)
    ultimately show ?thesis unfolding kheap_def by blast
  qed
  moreover have "\<forall>x. x - c < n \<longrightarrow> kmem ?s3 x = 0"
    using c(2,3) by (auto simp: fresh_def sem_post_slab)
  ultimately show ?thesis by (auto simp: sem_post_slab more)
qed

lemma kernel_more_fs:
  "kernel.more s' = kernel.more (s :: 'a memfs_state_scheme) \<Longrightarrow> current s' = current s \<Longrightarrow>
   (\<forall>t. t_cwd (tasks s' t) = t_cwd (tasks s t)) \<Longrightarrow> same_fs s s'"
  by (cases s rule: memfs_state.cases_scheme; cases s' rule: memfs_state.cases_scheme)
    (simp add: same_fs_def same_but_strs_def)

lemma kmalloc_fresh:
  assumes "kheap (Suc k) L s" "n \<le> PAGE_SIZE"
  shows "\<exists>s' p. kmalloc (locked_slab_alloc others purge) big_alloc n s = Some (s', p) \<and> p \<noteq> 0 \<and> p \<notin> L \<and>
    kheap k (insert p L) s' \<and> same_fs s s'"
  using locked_slab_alloc_fresh [OF assms, of others purge] assms(2) kernel_more_fs
  by (fastforce simp: kmalloc_def)

lemma kzalloc_fresh:
  assumes "kheap (Suc k) L s" "n \<le> PAGE_SIZE"
  shows "\<exists>s' p. kzalloc (locked_slab_alloc others purge) big_alloc n s = Some (s', p) \<and> p \<noteq> 0 \<and> p \<notin> L \<and>
    kheap k (insert p L) s' \<and> same_fs s s'"
proof -
  obtain s' c where c: "locked_slab_alloc others purge n s = Some (s', c)" "c \<noteq> 0" "c \<notin> L" "kheap k (insert c L) s'"
    "\<forall>x. x - c < n \<longrightarrow> kmem s' x = 0" "same_fs s s'"
    using locked_slab_alloc_fresh [OF assms, of others purge] kernel_more_fs by blast
  have "memset (kmem s') c 0 n = kmem s'" using c(2,5) by (auto simp: memset_eq)
  then show ?thesis using c assms(2) by (auto simp: kzalloc_def kmalloc_def)
qed

lemma kheap_truncate:
  assumes "kheap k L s" "vm.truncate s' = vm.truncate s"
  shows "kheap k L s'"
proof -
  have "kmem s' = kmem s" "page_freelist s' = page_freelist s" "metas s' = metas s" "slabs s' = slabs s" "sems s' = sems s"
    using assms(2) by (simp_all add: vm.defs)
  then show ?thesis using kheap_cong [of s' s] assms(1) by simp
qed

interpretation kh: kernel_heap "kernel_env others purge big_alloc big_free T FT" kheap
  for others purge big_alloc big_free T FT
  by unfold_locales (simp_all add: kernel_env_def kmalloc_fresh kzalloc_fresh kheap_truncate)

text \<open>
  The operations of \<open>mem.c\<close> depend on the environment through the allocator only, so the table may
  have been built in any environment with the same allocator.
\<close>

lemma runs_memfs_kernel:
  assumes "T Memfs_ops = memfs_ops (kernel_env others purge big_alloc big_free T' FT')"
  shows "runs_memfs (kernel_env others purge big_alloc big_free T FT)"
  by (simp add: runs_memfs_def assms kernel_env_def memfs_ops_def memfs_create_def [abs_def] memfs_mkdir_def [abs_def]
      memfs_node_create_def [abs_def] str_dup_def [abs_def])

section \<open>Names on the running kernel\<close>

text \<open>
  C11. On the kernel's own allocator, with frames left for two requests, \<open>vfs_create\<close> and \<open>vfs_mkdir\<close>
  in a directory of a memfs return. A name that is already there is refused with \<open>-EEXIST\<close> and
  nothing changes. Otherwise a new node of the right type and mode is made that no node in use
  shares, \<open>vfs_lookup\<close> of the name then gives it, every other look-up in every directory gives what
  it gave before, and the tree stays well formed: in particular no directory has a name twice.
\<close>

theorem vfs_names_created:
  assumes "kheap (Suc (Suc k)) L s" "memfs_tree s fs L N K" "d \<in> N" "n_type (vnodes s d) = nt_dir"
    and "name \<noteq> ''.''" "name \<noteq> ''..''" "length name < 4096"
    and "T Memfs_ops = memfs_ops (kernel_env others purge big_alloc big_free T' FT')"
    and "E = kernel_env others purge big_alloc big_free T FT"
    and "mk = vfs_create \<and> type = nt_file \<or> mk = vfs_mkdir \<and> type = nt_dir"
  shows "if \<exists>x \<in> set (K d). node_name s x = name then mk E d (Some name) mode s = Some (s, -EEXIST)
    else \<exists>s' n L'. mk E d (Some name) mode s = Some (s', 0) \<and> kheap k L' s' \<and> n \<notin> N \<and>
      memfs_tree s' fs L' (insert n N) (K(d := n # K d, n := [])) \<and>
      n_type (vnodes s' n) = type \<and> n_mode (vnodes s' n) = mode \<and> vfs_lookup E d (Some name) s' = Some (s', 0, n) \<and>
      (\<forall>e nm. e \<in> N \<longrightarrow> n_type (vnodes s e) = nt_dir \<longrightarrow> nm \<noteq> ''.'' \<longrightarrow> nm \<noteq> ''..'' \<longrightarrow> (e, nm) \<noteq> (d, name) \<longrightarrow>
        (\<exists>ret x. vfs_lookup E e (Some nm) s = Some (s, ret, x) \<and> vfs_lookup E e (Some nm) s' = Some (s', ret, x)))"
proof -
  have E: "runs_memfs E" using assms(8,9) runs_memfs_kernel by blast
  have mk: "mk = (if type = nt_file then vfs_create else vfs_mkdir)" "type \<in> {nt_dir, nt_file}"
    using assms(10) by auto
  note made = kh.vfs_make_tree [OF E [unfolded assms(9)] assms(1-7) mk, of mode, folded assms(9)]
  show ?thesis
  proof (cases "\<exists>x \<in> set (K d). node_name s x = name")
    case False
    let ?K = "\<lambda>n. K(d := n # K d, n := [])"
    obtain s' n L' where new: "mk E d (Some name) mode s = Some (s', 0)" "kheap k L' s'" "n \<notin> N"
      "memfs_tree s' fs L' (insert n N) (?K n)" "n_type (vnodes s' n) = type" "n_mode (vnodes s' n) = mode"
      "\<forall>e \<in> N. n_type (vnodes s' e) = n_type (vnodes s e)"
      "\<forall>e \<in> N. \<forall>nm. find (\<lambda>x. node_name s' x = nm) (?K n e) =
        (if e = d \<and> nm = name then Some n else find (\<lambda>x. node_name s x = nm) (K e))"
      using made unfolding if_not_P [OF False] by blast
    have after: "vfs_lookup E e (Some nm) s' = Some (case (if e = d \<and> nm = name then Some n else
        find (\<lambda>x. node_name s x = nm) (K e)) of None \<Rightarrow> (s', -ENOENT, 0) | Some x \<Rightarrow> (s', 0, x))"
      if "e \<in> N" "n_type (vnodes s e) = nt_dir" "nm \<noteq> ''.''" "nm \<noteq> ''..''" for e nm
      using tree_lookup [OF E new(4) _ _ that(3,4), of e] new(7,8) that(1,2) by simp
    have "vfs_lookup E d (Some name) s' = Some (s', 0, n)" using after [OF assms(3-6)] by simp
    moreover have "\<exists>ret x. vfs_lookup E e (Some nm) s = Some (s, ret, x) \<and> vfs_lookup E e (Some nm) s' = Some (s', ret, x)"
      if "e \<in> N" "n_type (vnodes s e) = nt_dir" "nm \<noteq> ''.''" "nm \<noteq> ''..''" "(e, nm) \<noteq> (d, name)" for e nm
      using after [OF that(1-4)] tree_lookup [OF E assms(2) that(1-4)] that(5) by (auto split: option.splits)
    ultimately show ?thesis unfolding if_not_P [OF False] using new(1-6) by blast
  qed (use made in simp)
qed

definition mem4 :: mem where
  "mem4 = store32 0xD0004000 0xD0005000 (store32 0xD0002000 0xD0004000 (store32 0xD0001000 0xD0002000 (\<lambda>_. 0)))"

definition memfs0 :: memfs_state where
  "memfs0 = fsys.extend (vm.extend ((vm0 [] [] vs0)\<lparr>kmem := mem4, sems := \<lambda>_. \<lparr>sem_count = 1, sem_waiters = []\<rparr>\<rparr>)
     (fsys.fields (\<lambda>_. \<lparr>n_fs = 0x100, n_id = 0, n_type = nt_dir, n_mode = 0x1ED\<rparr>)
       (\<lambda>_. \<lparr>fs_name = ''memfs'', fs_parent = 0, fs_parent_node = 0, fs_ops = Memfs_ops\<rparr>)
       (\<lambda>_. \<lparr>f_node = 0, f_offset = 0, f_ops = No_file_ops, f_next = 0\<rparr>) (\<lambda>_. ''/'') 0x100))
     (memfs_state.fields (\<lambda>_. zero_mnode\<lparr>mn_name := 0xD0003040, mn_up := 0xD0003020\<rparr>)
       (\<lambda>_. \<lparr>mf_root = 0xD0003020, mf_last_id = 1\<rparr>))"

lemma memfs0_sel [simp]:
  "kmem memfs0 = mem4" "page_freelist memfs0 = 0xD0001000" "sems memfs0 = (\<lambda>_. \<lparr>sem_count = 1, sem_waiters = []\<rparr>)"
  "metas memfs0 = (\<lambda>_. \<lparr>m_slab = 0xD0003000, m_freelist = 0xD0003000, m_free_slots = 1\<rparr>)"
  "slabs memfs0 = (replicate 10 [])[2 := [0xC0100000]]"
  "vnodes memfs0 = (\<lambda>_. \<lparr>n_fs = 0x100, n_id = 0, n_type = nt_dir, n_mode = 0x1ED\<rparr>)"
  "mnodes memfs0 = (\<lambda>_. zero_mnode\<lparr>mn_name := 0xD0003040, mn_up := 0xD0003020\<rparr>)"
  "filesystems memfs0 = (\<lambda>_. \<lparr>fs_name = ''memfs'', fs_parent = 0, fs_parent_node = 0, fs_ops = Memfs_ops\<rparr>)"
  by (simp_all add: memfs0_def memfs_state.defs fsys.defs vm.defs vm0_def kernel.defs kernel0_def slab.defs slab1_def pfa.defs pfa0_def)

lemma memfs0_heap: "kheap 2 {0xD0003020, 0xD0003040} memfs0"
proof -
  let ?F = "\<lambda>_. [0xD0003000] :: u32 list" and ?fs = "[0xD0001000, 0xD0002000, 0xD0004000, 0xD0005000] :: u32 list"
  have lk: "linked memfs0 = {(2, 0xC0100000)}"
    by (auto simp: linked_def nth_list_update split: if_splits)
  have ch: "chunk_of 0xD0003000 2 (0xD0003000 + 0x20 * of_nat j)" if "j < 128" for j
    using that by (auto simp: chunk_of_def chunkj_def nslots_def chunk_sizes_def intro!: exI [of _ j])
  have l: "load32 mem4 0xD0001000 = 0xD0002000" "load32 mem4 0xD0002000 = 0xD0004000" "load32 mem4 0xD0004000 = 0xD0005000"
    "load32 mem4 0xD0005000 = 0" "load32 mem4 0xD0003000 = 0"
    by (simp_all add: mem4_def load32_store32 load32_store32_other word_aligned_def) (simp_all add: load32_def)
  have "slab_inv memfs0 ?F ?fs"
    using ch [of 0] l unfolding slab_inv_def sinv_def lk slab_ok_def free_frames_def
    by (simp add: page_of_def page_aligned_def word_aligned_def)
  moreover have "meta_room memfs0 ?F" by (simp add: meta_room_def)
  moreover have "{0xD0003020, 0xD0003040} \<subseteq> used memfs0 ?F"
    using ch [of 1] ch [of 2] by (simp add: used_def lk)
  ultimately show ?thesis
    unfolding kheap_def by (intro conjI exI [of _ ?F] exI [of _ ?fs]) simp_all
qed

theorem vfs_names_created_witness:
  "\<forall>T' FT FT'. let E0 = kernel_env Some (\<lambda>_ _. None) (\<lambda>_ _. None) (\<lambda>_ _. None) T' FT';
       E = kernel_env Some (\<lambda>_ _. None) (\<lambda>_ _. None) (\<lambda>_ _. None) (\<lambda>_. memfs_ops E0) FT in
     \<exists>s' n. vfs_create E 0xD0003020 (Some ''hello'') 0x1A4 memfs0 = Some (s', 0) \<and>
       vfs_lookup E 0xD0003020 (Some ''hello'') s' = Some (s', 0, n)"
proof (intro allI)
  fix T' FT FT'
  let ?base = "kernel_env Some (\<lambda>_ _. None) (\<lambda>_ _. None) (\<lambda>_ _. None) T' FT' :: unit menv"
  let ?E = "kernel_env Some (\<lambda>_ _. None) (\<lambda>_ _. None) (\<lambda>_ _. None) (\<lambda>_. memfs_ops ?base) FT"
  have h: "kheap (Suc (Suc 0)) {0xD0003020, 0xD0003040} memfs0" using memfs0_heap by (simp add: numeral_2_eq_2)
  have tree: "memfs_tree memfs0 0x100 {0xD0003020, 0xD0003040} {0xD0003020} (\<lambda>_. [])"
    by (simp add: memfs_tree_def node_ok_def zero_mnode_def)
  have "\<exists>s' n L'. vfs_create ?E 0xD0003020 (Some ''hello'') 0x1A4 memfs0 = Some (s', 0) \<and> kheap 0 L' s' \<and> n \<notin> {0xD0003020} \<and>
      memfs_tree s' 0x100 L' (insert n {0xD0003020}) ((\<lambda>_. [])(0xD0003020 := [n], n := [])) \<and>
      n_type (vnodes s' n) = nt_file \<and> n_mode (vnodes s' n) = 0x1A4 \<and>
      vfs_lookup ?E 0xD0003020 (Some ''hello'') s' = Some (s', 0, n)"
    using vfs_names_created [OF h tree, where d = "0xD0003020" and name = "''hello''" and T = "\<lambda>_. memfs_ops ?base"
        and others = Some and purge = "\<lambda>_ _. None" and big_alloc = "\<lambda>_ _. None" and big_free = "\<lambda>_ _. None"
        and T' = T' and FT' = FT' and FT = FT and E = ?E and mk = vfs_create and type = nt_file and mode = "0x1A4"] by auto
  then show "let E0 = ?base; E = kernel_env Some (\<lambda>_ _. None) (\<lambda>_ _. None) (\<lambda>_ _. None) (\<lambda>_. memfs_ops E0) FT in
     \<exists>s' n. vfs_create E 0xD0003020 (Some ''hello'') 0x1A4 memfs0 = Some (s', 0) \<and>
       vfs_lookup E 0xD0003020 (Some ''hello'') s' = Some (s', 0, n)"
    unfolding Let_def by blast
qed

end
