(* ===== verification/Memfile.thy ===== *)
theory Memfile
  imports Memfs Vlib
begin

text \<open>
  The contents of files of \<open>kernel/fs/mem.c\<close> as lists of bytes: \<open>memfs_write\<close> replaces a segment and
  grows the file, \<open>memfs_read\<close> returns a segment.
\<close>

section \<open>Regions of memory\<close>

definition clear_of :: "u32 \<Rightarrow> u32 \<Rightarrow> u32 \<Rightarrow> u32 \<Rightarrow> bool" where
  "clear_of a n b k \<longleftrightarrow> (\<forall>x. \<not> (x - a < n \<and> x - b < k))"

lemma clear_of_sym: "clear_of a n b k \<Longrightarrow> clear_of b k a n"
  by (auto simp: clear_of_def)

lemma clear_of_copy: "clear_of dst n src n \<Longrightarrow> n \<le> dst - src"
  unfolding clear_of_def by (drule spec [of _ dst]) (auto simp: not_less word_gt_0 [symmetric])

lemma within_sub: "unat (off :: u32) + unat n \<le> unat (cap :: u32) \<Longrightarrow> x - (d + off) < n \<Longrightarrow> x - d < cap"
  unfolding word_less_nat_alt
proof -
  assume le: "unat off + unat n \<le> unat cap" and lt: "unat (x - (d + off)) < unat n"
  have "x - d = (x - (d + off)) + off" by simp
  moreover have "unat ((x - (d + off)) + off) = unat (x - (d + off)) + unat off"
    using le lt unat_lt32 [of cap] by (intro unat_add_small) simp
  ultimately show "unat (x - d) < unat cap" using le lt by simp
qed

lemma clear_of_sub: "clear_of d cap b k \<Longrightarrow> unat off + unat n \<le> unat cap \<Longrightarrow> clear_of (d + off) n b k"
  unfolding clear_of_def using within_sub by blast

lemma bytes_in_range: "i < unat (n :: u32) \<Longrightarrow> a + of_nat i - a < n"
  using unat_lt32 [of n] by (simp add: word_less_nat_alt unat_of_nat_small)

lemma bytes_cong: "(\<And>x. x - a < n \<Longrightarrow> m' x = m x) \<Longrightarrow> bytes_at m' a (unat n) = bytes_at m a (unat n)"
  by (rule bytes_at_eqI) (use bytes_in_range in blast)

lemma memcpy_apart:
  assumes "clear_of dst n src n"
  shows "memcpy m dst src n = (\<lambda>a. if a - dst < n then m (src + (a - dst)) else m a)"
  using clear_of_copy [OF assms] by (intro memcpy_eq) simp

lemma memcpy_bytes:
  assumes "clear_of dst n src n"
  shows "bytes_at (memcpy m dst src n) dst (unat n) = bytes_at m src (unat n)"
  by (rule bytes_at_eqI) (use bytes_in_range in \<open>simp add: memcpy_apart [OF assms]\<close>)

lemma memcpy_other:
  assumes "clear_of dst n src n" "clear_of dst n b k"
  shows "bytes_at (memcpy m dst src n) b (unat k) = bytes_at m b (unat k)"
  by (rule bytes_cong) (use assms(2) in \<open>auto simp: memcpy_apart [OF assms(1)] clear_of_def\<close>)

definition splice :: "'a list \<Rightarrow> nat \<Rightarrow> 'a list \<Rightarrow> 'a list" where
  "splice xs off ys = take off xs @ ys @ drop (off + length ys) xs"

lemma unat_offset:
  assumes "unat (off :: u32) + unat n \<le> unat (cap :: u32)" "i < unat cap"
  shows "d + of_nat i - (d + off) < n \<longleftrightarrow> unat off \<le> i \<and> i < unat off + unat n"
proof (cases "unat off \<le> i")
  case True
  have i: "unat (of_nat i :: u32) = i" using assms(2) unat_lt32 [of cap] by (intro unat_of_nat_small) simp
  then have "off \<le> of_nat i" using True by (simp add: word_le_nat_alt)
  then have "unat (of_nat i - off) = i - unat off" using i by (simp add: unat_sub)
  then show ?thesis using True by (auto simp: word_less_nat_alt)
next
  case False
  have i: "unat (of_nat i :: u32) = i" using assms(2) unat_lt32 [of cap] by (intro unat_of_nat_small) simp
  have "\<not> of_nat i - off < n"
  proof
    assume "of_nat i - off < n"
    then have "unat (of_nat i - off) < unat n" by (simp add: word_less_nat_alt)
    moreover have "unat (of_nat i - off + off) = unat (of_nat i - off) + unat off"
      using calculation assms(1) unat_lt32 [of cap] by (intro unat_add_small) simp
    ultimately show False using False i by simp
  qed
  then show ?thesis using False by simp
qed

lemma memcpy_splice:
  assumes le: "unat off + unat n \<le> unat cap" and ap: "clear_of d cap src n"
  shows "bytes_at (memcpy m (d + off) src n) d (unat cap) =
    splice (bytes_at m d (unat cap)) (unat off) (bytes_at m src (unat n))"
proof (rule nth_equalityI)
  note cp = memcpy_apart [OF clear_of_sub [OF ap le]]
  show len: "length (bytes_at (memcpy m (d + off) src n) d (unat cap)) =
      length (splice (bytes_at m d (unat cap)) (unat off) (bytes_at m src (unat n)))"
    using le by (simp add: splice_def)
  fix i
  assume "i < length (bytes_at (memcpy m (d + off) src n) d (unat cap))"
  then have i: "i < unat cap" by simp
  have "src + (d + of_nat i - (d + off)) = src + of_nat (i - unat off)" if "unat off \<le> i"
    using that by (simp add: of_nat_diff)
  then show "bytes_at (memcpy m (d + off) src n) d (unat cap) ! i =
      splice (bytes_at m d (unat cap)) (unat off) (bytes_at m src (unat n)) ! i"
    using i le unat_offset [OF le i, of d] by (auto simp: cp splice_def nth_append)
qed

section \<open>Writing\<close>

definition contents :: "'a memfs_state_scheme \<Rightarrow> u32 \<Rightarrow> u8 list" where
  "contents s node = bytes_at (kmem s) (mn_data (mnodes s node)) (unat (mn_capacity (mnodes s node)))"

text \<open>
  What growing relies on of the allocator: the new block \<open>nb\<close> of \<open>sz\<close> bytes is apart from the old
  one and from the source, neither allocating nor freeing touches blocks in use, and the file
  system's own records stay.
\<close>

definition keeps :: "'a memfs_state_scheme \<Rightarrow> 'a memfs_state_scheme \<Rightarrow> bool" where
  "keeps s s' \<longleftrightarrow> vfiles s' = vfiles s \<and> mnodes s' = mnodes s \<and> vnodes s' = vnodes s"

definition grow_ok :: "'a menv \<Rightarrow> 'a memfs_state_scheme \<Rightarrow> u32 \<Rightarrow> u32 \<Rightarrow> u32 \<Rightarrow> u32 \<Rightarrow> u32 \<Rightarrow> u32 \<Rightarrow> bool" where
  "grow_ok E s old cap src n nb sz \<longleftrightarrow>
     (\<exists>s1. k_kmalloc E sz s = Some (s1, nb) \<and> nb \<noteq> 0 \<and> keeps s s1 \<and> clear_of nb sz old cap \<and> clear_of nb sz src n \<and>
        (\<forall>x. x - old < cap \<or> x - src < n \<longrightarrow> kmem s1 x = kmem s x) \<and>
        (\<forall>m. \<exists>s2. k_kfree E old (s1\<lparr>kmem := m\<rparr>) = Some s2 \<and> keeps s1 s2 \<and>
           (\<forall>x. x - nb < sz \<or> x - src < n \<longrightarrow> kmem s2 x = m x)))"

lemma bytes_take: "k \<le> n \<Longrightarrow> take k (bytes_at m a n) = bytes_at m a k"
  by (rule nth_equalityI) simp_all

lemma grow_contents:
  assumes g: "grow_ok E s (mn_data (mnodes s node)) (mn_capacity (mnodes s node)) src n nb sz"
    and lt: "mn_capacity (mnodes s node) < sz"
  shows "\<exists>s'. memfs_grow E node sz s = Some (s', True) \<and> vfiles s' = vfiles s \<and> vnodes s' = vnodes s \<and>
    mnodes s' = (mnodes s)(node := (mnodes s node)\<lparr>mn_data := nb, mn_capacity := sz\<rparr>) \<and>
    take (unat (mn_capacity (mnodes s node))) (contents s' node) = contents s node \<and>
    bytes_at (kmem s') src (unat n) = bytes_at (kmem s) src (unat n)"
proof -
  let ?old = "mn_data (mnodes s node)" and ?cap = "mn_capacity (mnodes s node)"
  obtain s1 where s1: "k_kmalloc E sz s = Some (s1, nb)" "nb \<noteq> 0" "keeps s s1" "clear_of nb sz ?old ?cap" "clear_of nb sz src n"
    "\<forall>x. x - ?old < ?cap \<or> x - src < n \<longrightarrow> kmem s1 x = kmem s x"
    and free: "\<forall>m. \<exists>s2. k_kfree E ?old (s1\<lparr>kmem := m\<rparr>) = Some s2 \<and> keeps s1 s2 \<and>
      (\<forall>x. x - nb < sz \<or> x - src < n \<longrightarrow> kmem s2 x = m x)"
    using g unfolding grow_ok_def by blast
  let ?m = "memcpy (kmem s1) nb ?old ?cap"
  obtain s2 where s2: "k_kfree E ?old (s1\<lparr>kmem := ?m\<rparr>) = Some s2" "keeps s1 s2"
    "\<forall>x. x - nb < sz \<or> x - src < n \<longrightarrow> kmem s2 x = ?m x" using free by blast
  have cap: "unat ?cap < unat sz" using lt by (simp add: word_less_nat_alt)
  have le: "unat 0 + unat ?cap \<le> unat sz" using cap by simp
  have ap: "clear_of nb ?cap ?old ?cap" "clear_of nb ?cap src n"
    using clear_of_sub [OF s1(4) le] clear_of_sub [OF s1(5) le] by simp_all
  have "bytes_at (kmem s2) nb (unat ?cap) = bytes_at ?m nb (unat ?cap)"
    by (rule bytes_cong) (use s2(3) lt in auto)
  also have "\<dots> = bytes_at (kmem s1) ?old (unat ?cap)" by (rule memcpy_bytes [OF ap(1)])
  also have "\<dots> = bytes_at (kmem s) ?old (unat ?cap)" by (rule bytes_cong) (use s1(6) in auto)
  finally have data: "bytes_at (kmem s2) nb (unat ?cap) = contents s node" by (simp add: contents_def)
  have "bytes_at (kmem s2) src (unat n) = bytes_at ?m src (unat n)" by (rule bytes_cong) (use s2(3) in auto)
  also have "\<dots> = bytes_at (kmem s1) src (unat n)" by (rule memcpy_other [OF ap])
  also have "\<dots> = bytes_at (kmem s) src (unat n)" by (rule bytes_cong) (use s1(6) in auto)
  finally have src: "bytes_at (kmem s2) src (unat n) = bytes_at (kmem s) src (unat n)" .
  let ?s' = "upd_mnode node (\<lambda>m. m\<lparr>mn_data := nb, mn_capacity := sz\<rparr>) s2"
  have "memfs_grow E node sz s = Some (?s', True)"
    using s1(1-3) s2(1) by (simp add: memfs_grow_def keeps_def)
  moreover have "take (unat ?cap) (contents ?s' node) = contents s node"
    using cap data by (simp add: contents_def bytes_take)
  ultimately show ?thesis using s1(3) s2(2) src by (intro exI [of _ ?s']) (simp add: keeps_def)
qed

lemma write_contents:
  assumes f: "f_node (vfiles s file) = node" "f_offset (vfiles s file) = off"
    and off: "off \<le> mn_capacity (mnodes s node)" "unat off + unat n < 2 ^ 31"
    and data: "mn_data (mnodes s node) = old" "mn_capacity (mnodes s node) = cap"
    and ap: "cap < off + n \<longrightarrow> grow_ok E s old cap src n nb (off + n)" "off + n \<le> cap \<longrightarrow> nb = old"
      "clear_of nb (max cap (off + n)) src n"
  shows "\<exists>s'. memfs_write E file src n s = Some (s', uint n) \<and> vnodes s' = vnodes s \<and>
    vfiles s' = (vfiles s)(file := (vfiles s file)\<lparr>f_offset := off + n\<rparr>) \<and>
    mn_data (mnodes s' node) = nb \<and> mn_capacity (mnodes s' node) = max cap (off + n) \<and>
    contents s' node = splice (contents s node) (unat off) (bytes_at (kmem s) src (unat n))"
proof -
  have sz: "unat (off + n) = unat off + unat n" using off(2) by (intro unat_add_small) simp
  have sn: "sint n = uint n"
  proof -
    have "unat n < 2 ^ 31" by (rule le_less_trans [OF _ off(2)]) simp
    from sint_small [OF this] show ?thesis by simp
  qed
  define new where "new = max cap (off + n)"
  have new: "unat off + unat n \<le> unat new" by (simp add: new_def sz word_le_nat_alt max_def)
  obtain s1 where s1: "(if off + n > cap then memfs_grow E node (off + n) s else Some (s, True)) = Some (s1, True)"
    "vfiles s1 = vfiles s" "vnodes s1 = vnodes s" "mn_data (mnodes s1 node) = nb" "mn_capacity (mnodes s1 node) = new"
    "take (unat cap) (contents s1 node) = contents s node" "bytes_at (kmem s1) src (unat n) = bytes_at (kmem s) src (unat n)"
  proof (cases "cap < off + n")
    case True
    then have n: "new = off + n" by (simp add: new_def max_def less_imp_le)
    from grow_contents [of E s node src n nb "off + n"] ap(1) True data obtain s' where
      s': "memfs_grow E node (off + n) s = Some (s', True)" "vfiles s' = vfiles s" "vnodes s' = vnodes s"
      "mnodes s' = (mnodes s)(node := (mnodes s node)\<lparr>mn_data := nb, mn_capacity := off + n\<rparr>)"
      "take (unat cap) (contents s' node) = contents s node"
      "bytes_at (kmem s') src (unat n) = bytes_at (kmem s) src (unat n)" by auto
    show ?thesis using s' True n by (intro that [of s']) simp_all
  next
    case False
    then have "new = cap" "nb = old" using ap(2) by (auto simp: new_def max_def not_less intro: antisym)
    then show ?thesis using False data by (intro that [of s]) (simp_all add: contents_def bytes_take)
  qed
  let ?m = "memcpy (kmem s1) (nb + off) src n"
  let ?s' = "upd_file file (\<lambda>f. f\<lparr>f_offset := f_offset f + n\<rparr>) (s1\<lparr>kmem := ?m\<rparr>)"
  have "memfs_write E file src n s = Some (?s', uint n)"
    using s1 f data sn by (simp add: memfs_write_def Let_def)
  moreover have "contents ?s' node = splice (contents s node) (unat off) (bytes_at (kmem s) src (unat n))"
  proof -
    have le: "unat off \<le> unat cap" using off(1) data(2) by (simp add: word_le_nat_alt)
    have "contents ?s' node = splice (contents s1 node) (unat off) (bytes_at (kmem s1) src (unat n))"
      using memcpy_splice [OF new ap(3) [folded new_def], of "kmem s1"] s1(4,5) by (simp add: contents_def)
    moreover have "take (unat off) (contents s1 node) = take (unat off) (contents s node)"
      using s1(6) le by (metis min.absorb1 take_take)
    moreover have "drop (unat off + unat n) (contents s1 node) = drop (unat off + unat n) (contents s node)"
    proof (cases "cap < off + n")
      case True
      then have "new = off + n" "unat cap < unat off + unat n"
        using sz by (simp_all add: new_def max_def less_imp_le) (simp add: word_less_nat_alt)
      then show ?thesis using s1(5) data(2) sz by (simp add: contents_def)
    next
      case False
      then have "new = cap" by (auto simp: new_def max_def not_less intro: antisym)
      then have "contents s1 node = contents s node" using s1(5,6) by (simp add: contents_def)
      then show ?thesis by simp
    qed
    ultimately show ?thesis using s1(7) by (simp add: splice_def)
  qed
  ultimately show ?thesis using s1 f by (intro exI [of _ ?s']) (simp add: new_def)
qed

section \<open>Reading back\<close>

lemma bytes_sub: "unat off + k \<le> n \<Longrightarrow> bytes_at m (a + off) k = take k (drop (unat off) (bytes_at m a n))"
  by (rule nth_equalityI) (simp_all add: add.assoc)

lemma read_contents:
  assumes f: "f_node (vfiles s file) = node" "f_offset (vfiles s file) = off"
    and data: "mn_data (mnodes s node) = d" "mn_capacity (mnodes s node) = cap"
    and le: "unat off + unat n \<le> unat cap" "unat n < 2 ^ 31" and ap: "clear_of d cap dst n"
  shows "\<exists>s'. memfs_read file dst n s = Some (s', uint n) \<and>
    bytes_at (kmem s') dst (unat n) = take (unat n) (drop (unat off) (contents s node))"
proof (cases "cap \<le> off")
  case True
  then have "unat n = 0" using le(1) by (simp add: word_le_nat_alt)
  then have "n = 0" by (simp add: unat_eq_zero)
  then show ?thesis using True f data by (simp add: memfs_read_def)
next
  case False
  then have "unat (cap - off) = unat cap - unat off" by (simp add: unat_sub)
  then have n: "n \<le> cap - off" using le(1) by (simp add: word_le_nat_alt)
  have cl: "clear_of dst n (d + off) n" by (rule clear_of_sym [OF clear_of_sub [OF ap le(1)]])
  have "sint n = uint n" using sint_small [OF le(2)] by simp
  then show ?thesis
    using False n f data memcpy_bytes [OF cl, of "kmem s"] bytes_sub [OF le(1), of "kmem s" d]
    by (simp add: memfs_read_def Let_def contents_def)
qed

lemma splice_segment: "off \<le> length xs \<Longrightarrow> take (length ys) (drop off (splice xs off ys)) = ys"
  by (simp add: splice_def min_def)

text \<open>
  C9. Writing \<open>n\<close> bytes at the current offset of a file of a memfs, at most at its end, returns \<open>n\<close>
  and replaces exactly that segment of the contents, growing the file when it ends further on;
  seeking back and reading \<open>n\<close> bytes returns \<open>n\<close> and delivers the bytes written. The allocator is
  asked for a block only when the file grows, and then has to keep blocks apart.
\<close>

theorem memfs_write_read:
  assumes E: "k_file_ops E Memfs_file_ops = memfs_file_ops E'"
    and f: "vfiles s file = \<lparr>f_node = node, f_offset = off, f_ops = Memfs_file_ops, f_next = nxt\<rparr>"
    and data: "mn_data (mnodes s node) = old" "mn_capacity (mnodes s node) = cap"
    and off: "off \<le> cap" "unat off + unat n < 2 ^ 31"
    and grow: "cap < off + n \<longrightarrow> grow_ok E' s old cap src n nb (off + n)" "off + n \<le> cap \<longrightarrow> nb = old"
    and clear: "clear_of nb (max cap (off + n)) src n" "clear_of nb (max cap (off + n)) dst n"
  shows "\<exists>s1 s2 s3. vfs_write E file src n s = Some (s1, uint n) \<and>
    contents s1 node = splice (contents s node) (unat off) (bytes_at (kmem s) src (unat n)) \<and>
    vfs_seek E file off SEEK_SET s1 = Some (s2, off) \<and> vfs_read E file dst n s2 = Some (s3, uint n) \<and>
    bytes_at (kmem s3) dst (unat n) = bytes_at (kmem s) src (unat n)"
proof -
  obtain s1 where s1: "memfs_write E' file src n s = Some (s1, uint n)"
    "vfiles s1 = (vfiles s)(file := (vfiles s file)\<lparr>f_offset := off + n\<rparr>)"
    "mn_data (mnodes s1 node) = nb" "mn_capacity (mnodes s1 node) = max cap (off + n)"
    "contents s1 node = splice (contents s node) (unat off) (bytes_at (kmem s) src (unat n))"
    using write_contents [of s "file" node off n old cap E' src nb] assms by auto
  let ?s2 = "upd_file file (\<lambda>f. f\<lparr>f_offset := off\<rparr>) s1"
  have "unat (off + n) = unat off + unat n" using off(2) by (intro unat_add_small) simp
  then have le: "unat off + unat n \<le> unat (max cap (off + n))" "unat n < 2 ^ 31"
    using le_less_trans [OF _ off(2), of "unat n"] by (simp_all add: word_le_nat_alt max_def)
  have "contents ?s2 node = contents s1 node" by (simp add: contents_def)
  moreover have "length (contents s node) = unat cap" using data by (simp add: contents_def)
  ultimately have "take (unat n) (drop (unat off) (contents ?s2 node)) = bytes_at (kmem s) src (unat n)"
    using splice_segment [of "unat off" "contents s node" "bytes_at (kmem s) src (unat n)"] off(1) s1(5)
    by (simp add: word_le_nat_alt)
  moreover obtain s3 where "memfs_read file dst n ?s2 = Some (s3, uint n)"
    "bytes_at (kmem s3) dst (unat n) = take (unat n) (drop (unat off) (contents ?s2 node))"
    using read_contents [of ?s2 "file" node off nb "max cap (off + n)" n dst] s1 f le clear(2) by auto
  ultimately show ?thesis
    using s1 f E
    by (intro exI [of _ s1] exI [of _ ?s2] exI [of _ s3])
      (simp add: vfs_write_def vfs_seek_def vfs_read_def file_ops_of_def memfs_file_ops_def memfs_seek_def)
qed

lemma clear_ofI:
  assumes "unat a + unat n \<le> unat b" "unat b + unat k \<le> 2 ^ 32"
  shows "clear_of a n b k" "clear_of b k a n"
proof -
  have "\<not> (x - a < n \<and> x - b < k)" for x
  proof
    assume x: "x - a < n \<and> x - b < k"
    have "unat ((x - a) + a) = unat (x - a) + unat a" "unat ((x - b) + b) = unat (x - b) + unat b"
      using x assms unat_lt32 [of b] by (intro unat_add_small, simp add: word_less_nat_alt)+
    then show False using x assms(1) by (simp add: word_less_nat_alt)
  qed
  then show "clear_of a n b k" "clear_of b k a n" by (auto simp: clear_of_def)
qed

definition file_state :: "memfs_state \<Rightarrow> memfs_state" where
  "file_state s = s\<lparr>vfiles := \<lambda>_. \<lparr>f_node = 8, f_offset = 2, f_ops = Memfs_file_ops, f_next = 0\<rparr>,
     mnodes := \<lambda>_. zero_mnode\<lparr>mn_data := 0x5000, mn_capacity := 2\<rparr>\<rparr>"

theorem memfs_write_read_witness:
  "\<forall>s T FT. let E' = \<lparr>k_kmalloc = \<lambda>n s. Some (s, 0x8000), k_kzalloc = \<lambda>n s. None, k_kfree = \<lambda>p s. Some s, k_ops = T, k_file_ops = FT\<rparr>;
     E = E'\<lparr>k_file_ops := \<lambda>_. memfs_file_ops E'\<rparr> in
     \<exists>s1 s2 s3. vfs_write E 4 0x6000 3 (file_state s) = Some (s1, 3) \<and> vfs_seek E 4 2 SEEK_SET s1 = Some (s2, 2) \<and>
       vfs_read E 4 0x7000 3 s2 = Some (s3, 3) \<and> bytes_at (kmem s3) 0x7000 3 = bytes_at (kmem s) 0x6000 3"
proof (intro allI)
  fix s T FT
  let ?A = "\<lparr>k_kmalloc = \<lambda>n s. Some (s, 0x8000), k_kzalloc = \<lambda>n s. None, k_kfree = \<lambda>p s. Some s, k_ops = T, k_file_ops = FT\<rparr> :: unit menv"
  have g: "grow_ok ?A (file_state s) 0x5000 2 0x6000 3 0x8000 5"
    unfolding grow_ok_def by (intro exI [of _ "file_state s"]) (simp add: keeps_def clear_ofI)
  have "\<exists>s1 s2 s3. vfs_write (?A\<lparr>k_file_ops := \<lambda>_. memfs_file_ops ?A\<rparr>) 4 0x6000 3 (file_state s) = Some (s1, uint (3 :: u32)) \<and>
    contents s1 8 = splice (contents (file_state s) 8) (unat (2 :: u32)) (bytes_at (kmem (file_state s)) 0x6000 (unat (3 :: u32))) \<and>
    vfs_seek (?A\<lparr>k_file_ops := \<lambda>_. memfs_file_ops ?A\<rparr>) 4 2 SEEK_SET s1 = Some (s2, 2) \<and>
    vfs_read (?A\<lparr>k_file_ops := \<lambda>_. memfs_file_ops ?A\<rparr>) 4 0x7000 3 s2 = Some (s3, uint (3 :: u32)) \<and>
    bytes_at (kmem s3) 0x7000 (unat (3 :: u32)) = bytes_at (kmem (file_state s)) 0x6000 (unat (3 :: u32))"
    using g by (intro memfs_write_read [where old = "0x5000" and cap = 2 and nb = "0x8000" and E' = ?A and nxt = 0])
      (simp_all add: file_state_def zero_mnode_def max_def clear_ofI)
  then show "let E' = ?A; E = E'\<lparr>k_file_ops := \<lambda>_. memfs_file_ops E'\<rparr> in
     \<exists>s1 s2 s3. vfs_write E 4 0x6000 3 (file_state s) = Some (s1, 3) \<and> vfs_seek E 4 2 SEEK_SET s1 = Some (s2, 2) \<and>
       vfs_read E 4 0x7000 3 s2 = Some (s3, 3) \<and> bytes_at (kmem s3) 0x7000 3 = bytes_at (kmem s) 0x6000 3"
    unfolding Let_def by (simp add: file_state_def) blast
qed

text \<open>
  The end of a write is computed modulo \<open>2\<^sup>3\<^sup>2\<close>: at an offset near the top the file does not grow and
  the copy goes to addresses outside the file's block, sixteen bytes below it.
\<close>

lemma wrapping_write_skips_growth:
  assumes "f_offset (vfiles s file) = 0xFFFFFFF0" "f_node (vfiles s file) = node"
    "mn_capacity (mnodes s node) = 0x20" "mn_data (mnodes s node) = d"
  shows "memfs_write E file src 0x20 s =
    Some (upd_file file (\<lambda>f. f\<lparr>f_offset := f_offset f + 0x20\<rparr>) (s\<lparr>kmem := memcpy (kmem s) (d + 0xFFFFFFF0) src 0x20\<rparr>), 32)"
  using assms by (simp add: memfs_write_def)

end
