(* ===== verification/Devfs.thy ===== *)
theory Devfs
  imports Memfs
begin

text \<open>
  \<open>kernel/fs/dev.c\<close>: the file system of devices, and \<open>kernel/drivers/chardev.c\<close>: the devices
  \<open>null\<close>, \<open>zero\<close> and \<open>full\<close>. A device is known by its address; the functions a driver put into its
  \<open>struct dev_char\<close> or \<open>struct dev_block\<close> are given by the record \<open>dev_env\<close>, \<open>None\<close> for \<open>NULL\<close>.
\<close>

section \<open>Data\<close>

datatype devfs_node_type = dev_unknown | dev_char | dev_block

record device =
  dv_name :: string
  dv_refs :: u32
  dv_ctx :: u32

record devfs_node =
  dn_dev :: u32
  dn_type :: devfs_node_type
  dn_next :: u32

record devfs_state = memfs_state +
  devs :: "u32 \<Rightarrow> device"
  dnodes :: "u32 \<Rightarrow> devfs_node"
  devfs_devices :: "u32 \<Rightarrow> u32"
  s_devfs :: u32

type_synonym 'a denv = "'a devfs_state_scheme fs_env"

record 's dev_env =
  d_read :: "u32 \<Rightarrow> (u32 \<Rightarrow> u32 \<Rightarrow> u32 \<Rightarrow> 's \<Rightarrow> ('s \<times> int) option) option"
  d_write :: "u32 \<Rightarrow> (u32 \<Rightarrow> u32 \<Rightarrow> u32 \<Rightarrow> 's \<Rightarrow> ('s \<times> int) option) option"
  d_block_count :: "u32 \<Rightarrow> (u32 \<Rightarrow> 's \<Rightarrow> ('s \<times> int) option) option"
  d_block_size :: "u32 \<Rightarrow> (u32 \<Rightarrow> 's \<Rightarrow> ('s \<times> int) option) option"
  d_block_read :: "u32 \<Rightarrow> (u32 \<Rightarrow> u32 \<Rightarrow> u32 \<Rightarrow> 's \<Rightarrow> ('s \<times> int) option) option"
  d_block_write :: "u32 \<Rightarrow> (u32 \<Rightarrow> u32 \<Rightarrow> u32 \<Rightarrow> 's \<Rightarrow> ('s \<times> int) option) option"
  d_others :: "'s \<Rightarrow> 's option"

abbreviation SIZEOF_DEVFS :: u32 where "SIZEOF_DEVFS \<equiv> 52"
abbreviation SIZEOF_DEVFS_NODE :: u32 where "SIZEOF_DEVFS_NODE \<equiv> 28"

text \<open>\<open>&fs->root\<close>: the root node is a member of \<open>struct devfs\<close>, behind the 16 bytes of its base.\<close>

definition devfs_root :: "u32 \<Rightarrow> u32" where "devfs_root fs = fs + 16"

text \<open>The locks \<open>devices_lock\<close> and \<open>blk_sem\<close>, by the address of the structure they are in.\<close>

abbreviation devices_lock :: "u32 \<Rightarrow> sem_id" where "devices_lock fs \<equiv> Sem_at fs"
abbreviation blk_sem :: "u32 \<Rightarrow> sem_id" where "blk_sem dev \<equiv> Sem_at dev"

definition upd_dev :: "u32 \<Rightarrow> (device \<Rightarrow> device) \<Rightarrow> 'a devfs_state_scheme \<Rightarrow> 'a devfs_state_scheme" where
  "upd_dev n f s = s\<lparr>devs := (devs s)(n := f (devs s n))\<rparr>"

definition upd_dnode :: "u32 \<Rightarrow> (devfs_node \<Rightarrow> devfs_node) \<Rightarrow> 'a devfs_state_scheme \<Rightarrow> 'a devfs_state_scheme" where
  "upd_dnode n f s = s\<lparr>dnodes := (dnodes s)(n := f (dnodes s n))\<rparr>"

section \<open>Character devices\<close>

definition file_dev :: "'a devfs_state_scheme \<Rightarrow> u32 \<Rightarrow> u32" where
  "file_dev s file = dn_dev (dnodes s (f_node (vfiles s file)))"

definition devfs_read_char ::
  "'a devfs_state_scheme dev_env \<Rightarrow> u32 \<Rightarrow> u32 \<Rightarrow> u32 \<Rightarrow> 'a devfs_state_scheme \<Rightarrow> ('a devfs_state_scheme \<times> int) option" where
  "devfs_read_char D file buf bytes s =
     (case d_read D (file_dev s file) of None \<Rightarrow> Some (s, 0) | Some f \<Rightarrow> f (file_dev s file) buf bytes s)"

definition devfs_read_block ::
  "u32 \<Rightarrow> u32 \<Rightarrow> u32 \<Rightarrow> 'a devfs_state_scheme \<Rightarrow> ('a devfs_state_scheme \<times> int) option" where
  "devfs_read_block file buf bytes s = Some (s, -ENOTSUP)"

definition devfs_read ::
  "'a devfs_state_scheme dev_env \<Rightarrow> u32 \<Rightarrow> u32 \<Rightarrow> u32 \<Rightarrow> 'a devfs_state_scheme \<Rightarrow> ('a devfs_state_scheme \<times> int) option" where
  "devfs_read D file buf bytes s =
     (case dn_type (dnodes s (f_node (vfiles s file))) of
        dev_char \<Rightarrow> devfs_read_char D file buf bytes s
      | dev_block \<Rightarrow> devfs_read_block file buf bytes s
      | dev_unknown \<Rightarrow> None)"

definition devfs_write_char ::
  "'a devfs_state_scheme dev_env \<Rightarrow> u32 \<Rightarrow> u32 \<Rightarrow> u32 \<Rightarrow> 'a devfs_state_scheme \<Rightarrow> ('a devfs_state_scheme \<times> int) option" where
  "devfs_write_char D file buf bytes s =
     (case d_write D (file_dev s file) of None \<Rightarrow> Some (s, 0) | Some f \<Rightarrow> f (file_dev s file) buf bytes s)"

definition devfs_write_block ::
  "u32 \<Rightarrow> u32 \<Rightarrow> u32 \<Rightarrow> 'a devfs_state_scheme \<Rightarrow> ('a devfs_state_scheme \<times> int) option" where
  "devfs_write_block file buf bytes s = Some (s, -ENOTSUP)"

definition devfs_write ::
  "'a devfs_state_scheme dev_env \<Rightarrow> u32 \<Rightarrow> u32 \<Rightarrow> u32 \<Rightarrow> 'a devfs_state_scheme \<Rightarrow> ('a devfs_state_scheme \<times> int) option" where
  "devfs_write D file buf bytes s =
     (case dn_type (dnodes s (f_node (vfiles s file))) of
        dev_char \<Rightarrow> devfs_write_char D file buf bytes s
      | dev_block \<Rightarrow> devfs_write_block file buf bytes s
      | dev_unknown \<Rightarrow> None)"

section \<open>Block devices\<close>

definition devfs_get_block_size ::
  "'a devfs_state_scheme dev_env \<Rightarrow> u32 \<Rightarrow> 'a devfs_state_scheme \<Rightarrow> ('a devfs_state_scheme \<times> int) option" where
  "devfs_get_block_size D dev s =
     (case d_block_size D dev of None \<Rightarrow> Some (s, -ENOTSUP)
      | Some f \<Rightarrow> do {
          s \<leftarrow> sem_pend (d_others D) (blk_sem dev) s;
          (s, ret) \<leftarrow> f dev s;
          Some (sem_post (blk_sem dev) s, ret)
        })"

definition devfs_get_block_count ::
  "'a devfs_state_scheme dev_env \<Rightarrow> u32 \<Rightarrow> 'a devfs_state_scheme \<Rightarrow> ('a devfs_state_scheme \<times> int) option" where
  "devfs_get_block_count D dev s =
     (case d_block_count D dev of None \<Rightarrow> Some (s, -ENOTSUP)
      | Some f \<Rightarrow> do {
          s \<leftarrow> sem_pend (d_others D) (blk_sem dev) s;
          (s, ret) \<leftarrow> f dev s;
          Some (sem_post (blk_sem dev) s, ret)
        })"

definition devfs_stat_char ::
  "u32 \<Rightarrow> 'a devfs_state_scheme \<Rightarrow> ('a devfs_state_scheme \<times> int \<times> vfs_stat_rec) option" where
  "devfs_stat_char n s = Some (s, 0, no_stat\<lparr>st_size := 0, st_block_size := 1, st_offset := 0, st_id := n_id (vnodes s n),
     st_mode := n_mode (vnodes s n), st_links := 1, st_uid := 1000, st_gid := 1000\<rparr>)"

definition devfs_stat_block ::
  "'a devfs_state_scheme dev_env \<Rightarrow> u32 \<Rightarrow> 'a devfs_state_scheme \<Rightarrow> ('a devfs_state_scheme \<times> int \<times> vfs_stat_rec) option" where
  "devfs_stat_block D file s = do {
     n \<leftarrow> Some (f_node (vfiles s file));
     dev \<leftarrow> Some (dn_dev (dnodes s n));
     (s, ret) \<leftarrow> devfs_get_block_size D dev s;
     if ret < 0 then Some (s, ret, no_stat)
     else do {
       block_size \<leftarrow> Some (word_of_int ret);
       (s, ret) \<leftarrow> devfs_get_block_count D dev s;
       if ret < 0 then Some (s, ret, no_stat)
       else do {
         block_count \<leftarrow> Some (word_of_int ret);
         Some (s, 0, no_stat\<lparr>st_size := block_count * block_size, st_block_size := block_size,
           st_offset := f_offset (vfiles s file), st_id := n_id (vnodes s n), st_mode := n_mode (vnodes s n),
           st_links := 1, st_uid := 1000, st_gid := 1000\<rparr>)
       }
     }
   }"

definition devfs_stat ::
  "'a devfs_state_scheme dev_env \<Rightarrow> u32 \<Rightarrow> 'a devfs_state_scheme \<Rightarrow> ('a devfs_state_scheme \<times> int \<times> vfs_stat_rec) option" where
  "devfs_stat D file s =
     (let n = f_node (vfiles s file) in
      case dn_type (dnodes s n) of
        dev_char \<Rightarrow> devfs_stat_char n s
      | dev_block \<Rightarrow> devfs_stat_block D file s
      | dev_unknown \<Rightarrow> Some (s, -ENOTSUP, no_stat))"

definition devfs_read_at ::
  "'a devfs_state_scheme dev_env \<Rightarrow> u32 \<Rightarrow> u32 \<Rightarrow> u32 \<Rightarrow> u32 \<Rightarrow> 'a devfs_state_scheme \<Rightarrow>
   ('a devfs_state_scheme \<times> int) option" where
  "devfs_read_at D file buf bytes pos s =
     (let dev = file_dev s file in
      case d_block_read D dev of None \<Rightarrow> Some (s, -ENOTSUP)
      | Some f \<Rightarrow> do {
          (s, ret) \<leftarrow> devfs_get_block_size D dev s;
          if ret < 0 then Some (s, ret)
          else do {
            block_size \<leftarrow> Some (word_of_int ret);
            if bytes \<noteq> block_size \<or> block_size = 0 \<or> pos mod block_size \<noteq> 0 then None
            else f dev (pos div block_size) buf s
          }
        })"

definition devfs_write_at ::
  "'a devfs_state_scheme dev_env \<Rightarrow> u32 \<Rightarrow> u32 \<Rightarrow> u32 \<Rightarrow> u32 \<Rightarrow> 'a devfs_state_scheme \<Rightarrow>
   ('a devfs_state_scheme \<times> int) option" where
  "devfs_write_at D file buf bytes pos s =
     (let dev = file_dev s file in
      case d_block_write D dev of None \<Rightarrow> Some (s, -ENOTSUP)
      | Some f \<Rightarrow> do {
          (s, ret) \<leftarrow> devfs_get_block_size D dev s;
          if ret < 0 then Some (s, ret)
          else do {
            block_size \<leftarrow> Some (word_of_int ret);
            if bytes \<noteq> block_size \<or> block_size = 0 \<or> pos mod block_size \<noteq> 0 then None
            else f dev (pos div block_size) buf s
          }
        })"

definition devfs_char_ops :: "'a devfs_state_scheme dev_env \<Rightarrow> 'a devfs_state_scheme vfs_file_ops" where
  "devfs_char_ops D = \<lparr>p_read = Some (devfs_read D), p_read_at = None, p_write = Some (devfs_write D), p_write_at = None,
     p_seek = None, p_stat = Some (devfs_stat D)\<rparr>"

definition devfs_block_ops :: "'a devfs_state_scheme dev_env \<Rightarrow> 'a devfs_state_scheme vfs_file_ops" where
  "devfs_block_ops D = \<lparr>p_read = None, p_read_at = Some (devfs_read_at D), p_write = None,
     p_write_at = Some (devfs_write_at D), p_seek = None, p_stat = Some (devfs_stat D)\<rparr>"

section \<open>The directory\<close>

definition devfs_mount :: "u32 \<Rightarrow> 'a devfs_state_scheme \<Rightarrow> ('a devfs_state_scheme \<times> int) option" where
  "devfs_mount fs s = Some (upd_node (devfs_root fs) (\<lambda>_. \<lparr>n_fs = fs, n_id = 0, n_type = nt_dir, n_mode = 0x1B6\<rparr>) s, 0)"

definition devfs_unmount :: "u32 \<Rightarrow> 'a devfs_state_scheme \<Rightarrow> ('a devfs_state_scheme \<times> int) option" where
  "devfs_unmount fs s = Some (s, -ENOTSUP)"

partial_function (option) find_device :: "'a devfs_state_scheme \<Rightarrow> string \<Rightarrow> u32 \<Rightarrow> (int \<times> u32) option" where
  "find_device s name d =
     (if dv_name (devs s (dn_dev (dnodes s d))) = name then Some (0, d)
      else if dn_next (dnodes s d) = 0 then Some (-ENOENT, 0)
      else find_device s name (dn_next (dnodes s d)))"

definition devfs_lookup :: "u32 \<Rightarrow> string \<Rightarrow> 'a devfs_state_scheme \<Rightarrow> ('a devfs_state_scheme \<times> int \<times> u32) option" where
  "devfs_lookup dir name s =
     (let fs = n_fs (vnodes s dir) in
      if name = ''.'' then Some (s, 0, dir)
      else if dir = devfs_root fs \<and> name = ''..'' then Some (s, 0, fs_parent_node (filesystems s fs))
      else if devfs_devices s fs = 0 then Some (s, -ENOENT, 0)
      else do { (ret, n) \<leftarrow> find_device s name (devfs_devices s fs); Some (s, ret, n) })"

partial_function (option) nth_device :: "'a devfs_state_scheme \<Rightarrow> u32 \<Rightarrow> u32 \<Rightarrow> u32 \<Rightarrow> u32 option" where
  "nth_device s idx cur d =
     (if cur = idx then Some d
      else if dn_next (dnodes s d) = 0 then Some 0
      else nth_device s idx (cur + 1) (dn_next (dnodes s d)))"

definition devfs_readdir ::
  "'a denv \<Rightarrow> u32 \<Rightarrow> u32 \<Rightarrow> 'a devfs_state_scheme \<Rightarrow> ('a devfs_state_scheme \<times> int \<times> u32) option" where
  "devfs_readdir E dir idx s =
     (let fs = n_fs (vnodes s dir) in
      if devfs_devices s fs = 0 then Some (s, -ENOENT, 0)
      else do {
        d \<leftarrow> nth_device s (idx - 2) 0 (devfs_devices s fs);
        if d = 0 then Some (s, -ENOENT, 0)
        else do { (s, p) \<leftarrow> str_dup E (dv_name (devs s (dn_dev (dnodes s d)))) s; Some (s, 0, p) }
      })"

definition devfs_open :: "'a denv \<Rightarrow> u32 \<Rightarrow> 'a devfs_state_scheme \<Rightarrow> ('a devfs_state_scheme \<times> int \<times> u32) option" where
  "devfs_open E node s = do {
     (s, f) \<leftarrow> k_kmalloc E SIZEOF_VFS_FILE s;
     if f = 0 then Some (s, -ENOMEM, 0)
     else do {
       s \<leftarrow> Some (upd_file f (\<lambda>r. r\<lparr>f_node := node, f_offset := 0, f_next := 0\<rparr>) s);
       s \<leftarrow> (case dn_type (dnodes s node) of
               dev_char \<Rightarrow> Some (upd_file f (\<lambda>r. r\<lparr>f_ops := Devfs_char_ops\<rparr>) s)
             | dev_block \<Rightarrow> Some (upd_file f (\<lambda>r. r\<lparr>f_ops := Devfs_block_ops\<rparr>) s)
             | dev_unknown \<Rightarrow> None);
       Some (upd_dev (dn_dev (dnodes s node)) (\<lambda>d. d\<lparr>dv_refs := dv_refs d + 1\<rparr>) s, 0, f)
     }
   }"

definition devfs_close :: "'a denv \<Rightarrow> u32 \<Rightarrow> 'a devfs_state_scheme \<Rightarrow> ('a devfs_state_scheme \<times> int) option" where
  "devfs_close E file s = do {
     s \<leftarrow> Some (upd_dev (file_dev s file) (\<lambda>d. d\<lparr>dv_refs := dv_refs d - 1\<rparr>) s);
     s \<leftarrow> k_kfree E file s;
     Some (s, 0)
   }"

definition devfs_get_root :: "u32 \<Rightarrow> 'a devfs_state_scheme \<Rightarrow> u32" where
  "devfs_get_root fs s = devfs_root fs"

definition devfs_ops :: "'a denv \<Rightarrow> 'a devfs_state_scheme vfs_ops" where
  "devfs_ops E = \<lparr>o_mount = devfs_mount, o_unmount = devfs_unmount, o_lookup = Some devfs_lookup,
     o_readdir = Some (devfs_readdir E), o_open = Some (devfs_open E), o_close = Some (devfs_close E),
     o_create = None, o_mkdir = None, o_get_root = devfs_get_root\<rparr>"

definition devfs_get :: "'a denv \<Rightarrow> 'a devfs_state_scheme \<Rightarrow> ('a devfs_state_scheme \<times> u32) option" where
  "devfs_get E s =
     (if s_devfs s \<noteq> 0 then Some (s, s_devfs s)
      else do {
        (s, fs) \<leftarrow> k_kzalloc E SIZEOF_DEVFS s;
        s \<leftarrow> Some (s\<lparr>s_devfs := fs\<rparr>);
        s \<leftarrow> Some (upd_node (devfs_root fs) (\<lambda>_. zero_node) s);
        s \<leftarrow> Some (upd_fs fs (\<lambda>_. \<lparr>fs_name = ''devfs'', fs_parent = 0, fs_parent_node = 0, fs_ops = Devfs_ops\<rparr>) s);
        s \<leftarrow> Some (s\<lparr>devfs_devices := (devfs_devices s)(fs := 0)\<rparr>);
        Some (sem_init (devices_lock fs) 1 s, fs)
      })"

text \<open>Putting a node in front of the list of devices, under its lock.\<close>

definition add_device ::
  "'a devfs_state_scheme dev_env \<Rightarrow> u32 \<Rightarrow> 'a devfs_state_scheme \<Rightarrow> 'a devfs_state_scheme option" where
  "add_device D n s = do {
     s \<leftarrow> sem_pend (d_others D) (devices_lock (s_devfs s)) s;
     s \<leftarrow> Some (upd_dnode n (\<lambda>d. d\<lparr>dn_next := devfs_devices s (s_devfs s)\<rparr>) s);
     s \<leftarrow> Some (s\<lparr>devfs_devices := (devfs_devices s)(s_devfs s := n)\<rparr>);
     Some (sem_post (devices_lock (s_devfs s)) s)
   }"

definition devfs_register_char ::
  "'a denv \<Rightarrow> 'a devfs_state_scheme dev_env \<Rightarrow> u32 \<Rightarrow> 'a devfs_state_scheme \<Rightarrow> ('a devfs_state_scheme \<times> u32) option" where
  "devfs_register_char E D dev s = do {
     (s, n) \<leftarrow> k_kmalloc E SIZEOF_DEVFS_NODE s;
     s \<leftarrow> Some (upd_node n (\<lambda>_. \<lparr>n_fs = s_devfs s, n_id = 999, n_type = nt_dev_char, n_mode = 0x1B6\<rparr>) s);
     s \<leftarrow> Some (upd_dnode n (\<lambda>d. d\<lparr>dn_type := dev_char, dn_dev := dev\<rparr>) s);
     s \<leftarrow> add_device D n s;
     Some (s, n)
   }"

definition devfs_register_block ::
  "'a denv \<Rightarrow> 'a devfs_state_scheme dev_env \<Rightarrow> u32 \<Rightarrow> 'a devfs_state_scheme \<Rightarrow> ('a devfs_state_scheme \<times> u32) option" where
  "devfs_register_block E D dev s = do {
     (s, n) \<leftarrow> k_kmalloc E SIZEOF_DEVFS_NODE s;
     s \<leftarrow> Some (upd_node n (\<lambda>_. \<lparr>n_fs = s_devfs s, n_id = 999, n_type = nt_dev_block, n_mode = 0x1B6\<rparr>) s);
     s \<leftarrow> Some (upd_dnode n (\<lambda>d. d\<lparr>dn_type := dev_block, dn_dev := dev\<rparr>) s);
     s \<leftarrow> Some (sem_init (blk_sem dev) 1 s);
     s \<leftarrow> add_device D n s;
     Some (s, n)
   }"

definition devfs_unregister :: "u32 \<Rightarrow> 'a devfs_state_scheme \<Rightarrow> 'a devfs_state_scheme \<times> int" where
  "devfs_unregister dev s = (s, -ENOTSUP)"

section \<open>The devices of \<open>chardev.c\<close>\<close>

definition zero_read :: "u32 \<Rightarrow> u32 \<Rightarrow> u32 \<Rightarrow> 'a devfs_state_scheme \<Rightarrow> ('a devfs_state_scheme \<times> int) option" where
  "zero_read dev buf n s = Some (s\<lparr>kmem := memset (kmem s) buf 0 n\<rparr>, sint n)"

definition null_read :: "u32 \<Rightarrow> u32 \<Rightarrow> u32 \<Rightarrow> 'a devfs_state_scheme \<Rightarrow> ('a devfs_state_scheme \<times> int) option" where
  "null_read dev buf n s = Some (s, 0)"

definition null_write :: "u32 \<Rightarrow> u32 \<Rightarrow> u32 \<Rightarrow> 'a devfs_state_scheme \<Rightarrow> ('a devfs_state_scheme \<times> int) option" where
  "null_write dev buf n s = Some (s, sint n)"

definition full_write :: "u32 \<Rightarrow> u32 \<Rightarrow> u32 \<Rightarrow> 'a devfs_state_scheme \<Rightarrow> ('a devfs_state_scheme \<times> int) option" where
  "full_write dev buf n s = Some (s, -ENOSPC)"

text \<open>The array \<open>devices\<close>: name, \<open>read\<close> and \<open>write\<close> of each.\<close>

definition chardev_devices ::
  "(string \<times> (u32 \<Rightarrow> u32 \<Rightarrow> u32 \<Rightarrow> 'a devfs_state_scheme \<Rightarrow> ('a devfs_state_scheme \<times> int) option) \<times>
    (u32 \<Rightarrow> u32 \<Rightarrow> u32 \<Rightarrow> 'a devfs_state_scheme \<Rightarrow> ('a devfs_state_scheme \<times> int) option)) list" where
  "chardev_devices = [(''null'', null_read, null_write), (''zero'', zero_read, null_write), (''full'', zero_read, full_write)]"

primrec chardev_probe ::
  "'a denv \<Rightarrow> 'a devfs_state_scheme dev_env \<Rightarrow> u32 list \<Rightarrow> 'a devfs_state_scheme \<Rightarrow> ('a devfs_state_scheme \<times> int) option" where
  "chardev_probe E D [] s = Some (s, 0)"
| "chardev_probe E D (dev # rest) s = do {
     (s, _) \<leftarrow> devfs_register_char E D dev s;
     chardev_probe E D rest s
   }"

section \<open>Every registered device can be opened\<close>

fun dlist :: "(u32 \<Rightarrow> devfs_node) \<Rightarrow> u32 \<Rightarrow> u32 list \<Rightarrow> bool" where
  "dlist m d [] = (d = 0)"
| "dlist m d (x # xs) = (d = x \<and> x \<noteq> 0 \<and> dlist m (dn_next (m x)) xs)"

lemma dlist_zero: "dlist m d xs \<Longrightarrow> d = 0 \<longleftrightarrow> xs = []"
  by (cases xs) auto

lemma dlist_cong: "(\<And>x. x \<in> set xs \<Longrightarrow> m' x = m x) \<Longrightarrow> dlist m' d xs = dlist m d xs"
  by (induction xs arbitrary: d) auto

abbreviation device_name :: "'a devfs_state_scheme \<Rightarrow> u32 \<Rightarrow> string" where
  "device_name s x \<equiv> dv_name (devs s (dn_dev (dnodes s x)))"

lemma find_device_list:
  "dlist (dnodes s) d xs \<Longrightarrow> d \<noteq> 0 \<Longrightarrow> find_device s name d =
     Some (case find (\<lambda>x. device_name s x = name) xs of None \<Rightarrow> (-ENOENT, 0) | Some x \<Rightarrow> (0, x))"
proof (induction xs arbitrary: d)
  case (Cons x xs)
  then show ?case
    using dlist_zero [of "dnodes s" "dn_next (dnodes s x)" xs] by (subst find_device.simps) auto
qed simp

text \<open>The kind of a node as the VFS layer sees it agrees with the kind \<open>dev.c\<close> keeps for it.\<close>

definition dnode_ok :: "'a devfs_state_scheme \<Rightarrow> u32 \<Rightarrow> bool" where
  "dnode_ok s x \<longleftrightarrow> n_fs (vnodes s x) = s_devfs s \<and>
     (n_type (vnodes s x), dn_type (dnodes s x)) \<in> {(nt_dev_char, dev_char), (nt_dev_block, dev_block)}"

definition devfs_ok :: "'a devfs_state_scheme \<Rightarrow> u32 list \<Rightarrow> bool" where
  "devfs_ok s xs \<longleftrightarrow> dlist (dnodes s) (devfs_devices s (s_devfs s)) xs \<and> (\<forall>x \<in> set xs. dnode_ok s x) \<and>
     devfs_root (s_devfs s) \<notin> set xs \<and> n_fs (vnodes s (devfs_root (s_devfs s))) = s_devfs s \<and>
     sem_count (sems s (devices_lock (s_devfs s))) = 1"

text \<open>An allocation that leaves the devices alone.\<close>

definition dev_same :: "'a devfs_state_scheme \<Rightarrow> 'a devfs_state_scheme \<Rightarrow> bool" where
  "dev_same s s' \<longleftrightarrow> vnodes s' = vnodes s \<and> dnodes s' = dnodes s \<and> devs s' = devs s \<and> devfs_devices s' = devfs_devices s \<and>
     s_devfs s' = s_devfs s \<and> sems s' = sems s \<and> filesystems s' = filesystems s"

lemma dev_sels [simp]:
  "dnodes (upd_node n f s) = dnodes s" "devs (upd_node n f s) = devs s" "devfs_devices (upd_node n f s) = devfs_devices s"
  "s_devfs (upd_node n f s) = s_devfs s" "sems (upd_node n f s) = sems s"
  "dnodes (upd_dnode k g s) = (dnodes s)(k := g (dnodes s k))" "devs (upd_dnode k g s) = devs s"
  "vnodes (upd_dnode k g s) = vnodes s" "devfs_devices (upd_dnode k g s) = devfs_devices s"
  "s_devfs (upd_dnode k g s) = s_devfs s" "sems (upd_dnode k g s) = sems s" "filesystems (upd_dnode k g s) = filesystems s"
  "dnodes (upd_file k h s) = dnodes s"
  by (simp_all add: upd_node_def upd_dnode_def upd_file_def)

lemma sem_dev_sels [simp]:
  "vnodes (upd_sem i f s) = vnodes s" "dnodes (upd_sem i f s) = dnodes s" "devs (upd_sem i f s) = devs s"
  "devfs_devices (upd_sem i f s) = devfs_devices s" "s_devfs (upd_sem i f s) = s_devfs s" "filesystems (upd_sem i f s) = filesystems s"
  "vnodes (sem_post i s) = vnodes s" "dnodes (sem_post i s) = dnodes s" "devs (sem_post i s) = devs s"
  "devfs_devices (sem_post i s) = devfs_devices s" "s_devfs (sem_post i s) = s_devfs s" "filesystems (sem_post i s) = filesystems s"
  "vnodes (sem_init i v s) = vnodes s" "dnodes (sem_init i v s) = dnodes s" "devs (sem_init i v s) = devs s"
  "devfs_devices (sem_init i v s) = devfs_devices s" "s_devfs (sem_init i v s) = s_devfs s" "filesystems (sem_init i v s) = filesystems s"
  by (simp_all add: upd_sem_def sem_post_def sem_init_def upd_task_def Let_def split: list.splits)

lemma sem_post_count: "sem_count (sems (sem_post i s) i) = sem_count (sems s i) + 1"
  by (simp add: sem_post_def upd_sem_def upd_task_def Let_def split: list.splits)

lemma add_device_eq:
  assumes "sem_count (sems s (devices_lock (s_devfs s))) = 1"
  shows "\<exists>s'. add_device D n s = Some s' \<and> vnodes s' = vnodes s \<and> devs s' = devs s \<and> s_devfs s' = s_devfs s \<and>
    filesystems s' = filesystems s \<and> sem_count (sems s' (devices_lock (s_devfs s))) = 1 \<and>
    dnodes s' = (dnodes s)(n := (dnodes s n)\<lparr>dn_next := devfs_devices s (s_devfs s)\<rparr>) \<and>
    devfs_devices s' = (devfs_devices s)(s_devfs s := n)"
proof -
  let ?l = "devices_lock (s_devfs s)"
  have "sem_pend (d_others D) ?l s = Some (upd_sem ?l (\<lambda>q. q\<lparr>sem_count := sem_count q - 1\<rparr>) s)"
    using assms by (intro sem_pend_available) simp
  then show ?thesis using assms by (simp add: add_device_def sem_post_count upd_sem_def)
qed

text \<open>Registering a device of either kind puts a well-typed node in front of the list.\<close>

lemma register_ok:
  assumes ok: "devfs_ok s xs" and alloc: "k_kmalloc E SIZEOF_DEVFS_NODE s = Some (s1, n)" "dev_same s s1"
    and n: "n \<noteq> 0" "n \<notin> set xs" "n \<noteq> devfs_root (s_devfs s)" "dev \<noteq> s_devfs s"
    and reg: "reg = devfs_register_char \<and> kind = nt_dev_char \<or> reg = devfs_register_block \<and> kind = nt_dev_block"
  shows "\<exists>s'. reg E D dev s = Some (s', n) \<and> devfs_ok s' (n # xs) \<and> n_type (vnodes s' n) = kind \<and> s_devfs s' = s_devfs s \<and>
    dn_dev (dnodes s' n) = dev \<and> devs s' = devs s \<and> filesystems s' = filesystems s \<and> (\<forall>x \<in> set xs. dnodes s' x = dnodes s x)"
proof -
  note S = alloc(2) [unfolded dev_same_def]
  let ?dn = "if kind = nt_dev_char then dev_char else dev_block"
  let ?s2 = "upd_dnode n (\<lambda>d. d\<lparr>dn_type := ?dn, dn_dev := dev\<rparr>)
    (upd_node n (\<lambda>_. \<lparr>n_fs = s_devfs s, n_id = 999, n_type = kind, n_mode = 0x1B6\<rparr>) s1)"
  define s3 where "s3 = (if kind = nt_dev_char then ?s2 else sem_init (blk_sem dev) 1 ?s2)"
  have s3: "vnodes s3 = (vnodes s)(n := \<lparr>n_fs = s_devfs s, n_id = 999, n_type = kind, n_mode = 0x1B6\<rparr>)"
    "dnodes s3 = (dnodes s)(n := (dnodes s n)\<lparr>dn_type := ?dn, dn_dev := dev\<rparr>)" "devs s3 = devs s"
    "devfs_devices s3 = devfs_devices s" "s_devfs s3 = s_devfs s" "filesystems s3 = filesystems s"
    "sem_count (sems s3 (devices_lock (s_devfs s))) = 1"
    using S ok n(4) by (simp_all add: s3_def devfs_ok_def) (simp add: sem_init_def)
  obtain s' where s': "add_device D n s3 = Some s'" "vnodes s' = vnodes s3" "devs s' = devs s3" "s_devfs s' = s_devfs s3"
    "filesystems s' = filesystems s3" "sem_count (sems s' (devices_lock (s_devfs s))) = 1"
    "dnodes s' = (dnodes s3)(n := (dnodes s3 n)\<lparr>dn_next := devfs_devices s3 (s_devfs s3)\<rparr>)"
    "devfs_devices s' = (devfs_devices s3)(s_devfs s3 := n)"
    using add_device_eq [of s3 D n] s3(5,7) by auto
  have "reg E D dev s = Some (s', n)"
    using reg alloc(1) S s'(1) by (auto simp: devfs_register_char_def devfs_register_block_def s3_def)
  moreover have "dlist (dnodes s') (devfs_devices s' (s_devfs s')) (n # xs)"
  proof -
    have "dlist (dnodes s') (devfs_devices s (s_devfs s)) xs = dlist (dnodes s) (devfs_devices s (s_devfs s)) xs"
      by (rule dlist_cong) (use s' s3 n(2) in auto)
    then show ?thesis using ok s' s3 n(1) by (simp add: devfs_ok_def)
  qed
  moreover have "dnode_ok s' x" if "x \<in> set (n # xs)" for x
    using that ok s' s3 reg by (cases "x = n") (auto simp: dnode_ok_def devfs_ok_def)
  ultimately show ?thesis
    using ok s' s3 n reg unfolding devfs_ok_def by auto
qed

lemma devfs_lookup_root:
  assumes "devfs_ok s xs" "name \<noteq> ''.''" "name \<noteq> ''..''"
  shows "devfs_lookup (devfs_root (s_devfs s)) name s =
    Some (case find (\<lambda>x. device_name s x = name) xs of None \<Rightarrow> (s, -ENOENT, 0) | Some x \<Rightarrow> (s, 0, x))"
  using assms dlist_zero [of "dnodes s" "devfs_devices s (s_devfs s)" xs] find_device_list [of s "devfs_devices s (s_devfs s)" xs name]
  by (auto simp: devfs_ok_def devfs_lookup_def Let_def split: option.splits)

lemma devfs_open_typed:
  assumes "dnode_ok s x" "k_kmalloc E SIZEOF_VFS_FILE s = Some (s1, f)" "f \<noteq> 0" "dev_same s s1"
  shows "\<exists>s2. devfs_open E x s = Some (s2, 0, f) \<and> f_node (vfiles s2 f) = x \<and> f_offset (vfiles s2 f) = 0 \<and>
    f_ops (vfiles s2 f) = (if n_type (vnodes s x) = nt_dev_block then Devfs_block_ops else Devfs_char_ops)"
proof -
  have "dnodes s1 = dnodes s" using assms(4) by (simp add: dev_same_def)
  then show ?thesis using assms(1-3) by (auto simp: devfs_open_def dnode_ok_def upd_dev_def)
qed


definition devfs_start :: "devfs_state \<Rightarrow> devfs_state" where
  "devfs_start s = s\<lparr>s_devfs := 0x100, devfs_devices := \<lambda>_. 0, sems := \<lambda>_. \<lparr>sem_count = 1, sem_waiters = []\<rparr>,
     vnodes := \<lambda>_. \<lparr>n_fs = 0x100, n_id = 0, n_type = nt_dir, n_mode = 0x1B6\<rparr>,
     devs := \<lambda>_. \<lparr>dv_name = ''kbd'', dv_refs = 0, dv_ctx = 0\<rparr>\<rparr>"


section \<open>Errors\<close>

text \<open>
  C39. \<open>vfs_unmount\<close> reports an error but does its work: with a devfs mounted on the node \<open>mp\<close>, which is
  called \<open>name\<close> in a directory \<open>d\<close> of a memfs, looking the name up gives the root of the devfs. An
  attempt to unmount it is refused with \<open>-ENOTSUP\<close>, but afterwards \<open>mp\<close> is an ordinary directory of the
  parent file system, and looking the name up gives \<open>mp\<close>: the devices are out of reach.
\<close>

theorem failed_unmount_detaches:
  assumes E: "o_lookup (k_ops E Memfs_ops) = Some memfs_lookup" "k_ops E Devfs_ops = devfs_ops E'"
    and fs: "filesystems s fs = \<lparr>fs_name = nm, fs_parent = pfs, fs_parent_node = mp, fs_ops = Devfs_ops\<rparr>"
    and mp: "mp \<noteq> 0" "n_type (vnodes s mp) = nt_mountpoint" "n_fs (vnodes s mp) = fs"
    and d: "d \<noteq> 0" "d \<noteq> mp" "n_type (vnodes s d) = nt_dir" "fs_ops (filesystems s (n_fs (vnodes s d))) = Memfs_ops"
    and entry: "kids (mnodes s) (mn_children (mnodes s d)) xs" "find (\<lambda>x. node_name s x = name) xs = Some mp"
      "name \<noteq> ''.''" "name \<noteq> ''..''"
  shows "vfs_lookup E d (Some name) s = Some (s, 0, devfs_root fs) \<and>
    (\<exists>s'. vfs_unmount E fs s = Some (s', -ENOTSUP) \<and> vfs_lookup E d (Some name) s' = Some (s', 0, mp) \<and>
       n_type (vnodes s' mp) = nt_dir \<and> n_fs (vnodes s' mp) = pfs)"
proof -
  let ?s' = "upd_node mp (\<lambda>n. n\<lparr>n_type := nt_dir, n_fs := pfs\<rparr>) s"
  have look: "memfs_lookup d name s = Some (s, 0, mp)" "memfs_lookup d name ?s' = Some (?s', 0, mp)"
    using entry find_child_kids [of s _ xs name] find_child_kids [of ?s' _ xs name] by (simp_all add: memfs_lookup_def)
  have "vfs_lookup E d (Some name) s = Some (s, 0, devfs_root fs)"
    using E fs mp d entry(4) look(1)
    by (subst vfs_lookup.simps) (simp add: or_cwd_def node_ops_def devfs_ops_def devfs_get_root_def)
  moreover have "vfs_unmount E fs s = Some (?s', -ENOTSUP)"
    using E fs mp by (simp add: vfs_unmount_def fs_ops_of_def devfs_ops_def devfs_unmount_def ENOTSUP_def)
  moreover have "vfs_lookup E d (Some name) ?s' = Some (?s', 0, mp)"
    using E mp(1) d look(2) by (subst vfs_lookup.simps) (simp add: or_cwd_def node_ops_def)
  ultimately show ?thesis by simp
qed

definition mounted_state :: "devfs_state \<Rightarrow> devfs_state" where
  "mounted_state s = s\<lparr>filesystems := (\<lambda>_. \<lparr>fs_name = ''memfs'', fs_parent = 0, fs_parent_node = 0, fs_ops = Memfs_ops\<rparr>)
       (0x100 := \<lparr>fs_name = ''devfs'', fs_parent = 0x80, fs_parent_node = 0x40, fs_ops = Devfs_ops\<rparr>),
     vnodes := (\<lambda>_. \<lparr>n_fs = 0x80, n_id = 0, n_type = nt_dir, n_mode = 0x1ED\<rparr>)
       (0x40 := \<lparr>n_fs = 0x100, n_id = 1, n_type = nt_mountpoint, n_mode = 0x1ED\<rparr>),
     mnodes := \<lambda>_. zero_mnode\<lparr>mn_children := 0x40\<rparr>, strs := \<lambda>_. ''dev''\<rparr>"

theorem failed_unmount_detaches_witness:
  "\<forall>s E0. let E = E0\<lparr>k_ops := \<lambda>t. if t = Devfs_ops then devfs_ops E0 else memfs_ops E0\<rparr> in
     vfs_lookup E 0x20 (Some ''dev'') (mounted_state s) = Some (mounted_state s, 0, 0x110) \<and>
     (\<exists>s'. vfs_unmount E 0x100 (mounted_state s) = Some (s', -ENOTSUP) \<and> vfs_lookup E 0x20 (Some ''dev'') s' = Some (s', 0, 0x40))"
proof (intro allI)
  fix s and E0 :: "unit denv"
  let ?A = "E0\<lparr>k_ops := \<lambda>t. if t = Devfs_ops then devfs_ops E0 else memfs_ops E0\<rparr>"
  have "vfs_lookup ?A 0x20 (Some ''dev'') (mounted_state s) = Some (mounted_state s, 0, devfs_root 0x100) \<and>
    (\<exists>s'. vfs_unmount ?A 0x100 (mounted_state s) = Some (s', -ENOTSUP) \<and> vfs_lookup ?A 0x20 (Some ''dev'') s' = Some (s', 0, 0x40) \<and>
       n_type (vnodes s' 0x40) = nt_dir \<and> n_fs (vnodes s' 0x40) = 0x80)"
    by (rule failed_unmount_detaches [where xs = "[0x40]" and E' = E0 and nm = "''devfs''"])
      (simp_all add: mounted_state_def memfs_ops_def zero_mnode_def)
  then show "let E = ?A in vfs_lookup E 0x20 (Some ''dev'') (mounted_state s) = Some (mounted_state s, 0, 0x110) \<and>
     (\<exists>s'. vfs_unmount E 0x100 (mounted_state s) = Some (s', -ENOTSUP) \<and> vfs_lookup E 0x20 (Some ''dev'') s' = Some (s', 0, 0x40))"
    unfolding Let_def by (auto simp: devfs_root_def)
qed

text \<open>
  \<open>vfs_create\<close> takes every failure of the look-up for an absent name, so it also makes nodes below a
  file, where no look-up finds them.
\<close>

lemma create_below_file:
  assumes "runs_memfs E" "d \<noteq> 0" "n_type (vnodes s d) = nt_file" "fs_ops (filesystems s (n_fs (vnodes s d))) = Memfs_ops"
  shows "vfs_create E d (Some name) mode s = memfs_create E d name mode s"
    "vfs_lookup E d (Some name) s = Some (s, -ENOTDIR, 0)"
proof -
  show l: "vfs_lookup E d (Some name) s = Some (s, -ENOTDIR, 0)"
    using assms by (subst vfs_lookup.simps) (simp add: or_cwd_def node_ops_def runs_memfs_def)
  show "vfs_create E d (Some name) mode s = memfs_create E d name mode s"
    using assms l by (simp add: vfs_create_def or_cwd_def node_ops_def runs_memfs_def ENOTDIR_def)
qed

text \<open>
  The index of an entry counts from 2, after \<open>.\<close> and \<open>..\<close>, but \<open>devfs_readdir\<close> has no such entries: it
  computes the index minus 2 in unsigned arithmetic, so the first two calls report the end of the
  directory.
\<close>

lemma devfs_readdir_starts_at_two:
  assumes "dlist (dnodes s) (devfs_devices s (n_fs (vnodes s dir))) [x]"
  shows "devfs_readdir E dir 0 s = Some (s, -ENOENT, 0)"
proof -
  have "nth_device s (-2) 0 x = Some 0" using assms by (subst nth_device.simps) simp
  then show ?thesis using assms by (simp add: devfs_readdir_def)
qed

text \<open>
  A memfs that was never mounted has no root, and its \<open>unmount\<close> then walks the working directory: a
  null directory means the working directory to \<open>vfs_readdir\<close> and \<open>vfs_lookup\<close>.
\<close>

lemma unmount_unmounted_walks_cwd:
  assumes "mf_root (memfss s fs) = 0" "t_cwd (tasks s (current s)) = d" "d \<noteq> 0"
  shows "vfs_readdir E (mf_root (memfss s fs)) 2 s = vfs_readdir E d 2 s"
    and "vfs_lookup E (mf_root (memfss s fs)) name s = vfs_lookup E d name s"
proof -
  have c: "or_cwd E 0 s = or_cwd E d s" using assms by (simp add: or_cwd_def vfs_get_cwd_def)
  show "vfs_readdir E (mf_root (memfss s fs)) 2 s = vfs_readdir E d 2 s"
    unfolding vfs_readdir_def assms(1) c ..
  show "vfs_lookup E (mf_root (memfss s fs)) name s = vfs_lookup E d name s"
    unfolding vfs_lookup.simps [of E d] vfs_lookup.simps [of E "mf_root (memfss s fs)"] unfolding assms(1) c ..
qed

end
