(* ===== verification/Purge.thy ===== *)
theory Purge
  imports Sched
begin

text \<open>
  \<open>kernel/mm/purge.c\<close>: memory that may be taken back when frames run out. A region is known by its
  address; its lock is a member. The callbacks are given by the address stored in the region, and
  \<open>kmalloc\<close> and \<open>kfree\<close> are arguments.
\<close>

record purgeable =
  pg_buf :: u32
  pg_bytes :: u32
  pg_on_purge :: u32
  pg_on_purge_ctx :: u32

record purge_state = kernel +
  purgeables :: "u32 \<Rightarrow> purgeable"
  s_purgeable :: "u32 list"

record 's purge_env =
  g_kmalloc :: "u32 \<Rightarrow> 's \<Rightarrow> ('s \<times> u32) option"
  g_kfree :: "u32 \<Rightarrow> 's \<Rightarrow> 's option"
  g_call :: "u32 \<Rightarrow> u32 \<Rightarrow> 's \<Rightarrow> 's option"
  g_others :: "'s \<Rightarrow> 's option"

abbreviation SIZEOF_PURGEABLE :: u32 where "SIZEOF_PURGEABLE \<equiv> 40"

abbreviation pg_lock :: "u32 \<Rightarrow> sem_id" where "pg_lock p \<equiv> Sem_at p"

definition upd_pg :: "u32 \<Rightarrow> (purgeable \<Rightarrow> purgeable) \<Rightarrow> 'a purge_state_scheme \<Rightarrow> 'a purge_state_scheme" where
  "upd_pg p f s = s\<lparr>purgeables := (purgeables s)(p := f (purgeables s p))\<rparr>"

type_synonym 'a penv = "'a purge_state_scheme purge_env"

definition purgeable_alloc ::
  "'a penv \<Rightarrow> u32 \<Rightarrow> u32 \<Rightarrow> u32 \<Rightarrow> 'a purge_state_scheme \<Rightarrow> ('a purge_state_scheme \<times> u32) option" where
  "purgeable_alloc E bytes on_purge ctx s = do {
     (s, p) \<leftarrow> g_kmalloc E SIZEOF_PURGEABLE s;
     if p = 0 then Some (s, 0)
     else do {
       (s, buf) \<leftarrow> g_kmalloc E bytes s;
       s \<leftarrow> Some (upd_pg p (\<lambda>_. \<lparr>pg_buf = buf, pg_bytes = bytes, pg_on_purge = on_purge, pg_on_purge_ctx = ctx\<rparr>) s);
       s \<leftarrow> Some (sem_init (pg_lock p) 1 s);
       s \<leftarrow> sem_pend (g_others E) Purge_list s;
       s \<leftarrow> Some (s\<lparr>s_purgeable := s_purgeable s @ [p]\<rparr>);
       Some (sem_post Purge_list s, p)
     }
   }"

definition mem_purge :: "'a penv \<Rightarrow> u32 \<Rightarrow> 'a purge_state_scheme \<Rightarrow> ('a purge_state_scheme \<times> u32) option" where
  "mem_purge E p s = do {
     s \<leftarrow> sem_pend (g_others E) (pg_lock p) s;
     if pg_buf (purgeables s p) = 0 then Some (sem_post (pg_lock p) s, 0)
     else do {
       s \<leftarrow> (if pg_on_purge (purgeables s p) \<noteq> 0
             then g_call E (pg_on_purge (purgeables s p)) (pg_on_purge_ctx (purgeables s p)) s else Some s);
       s \<leftarrow> g_kfree E (pg_buf (purgeables s p)) s;
       s \<leftarrow> Some (upd_pg p (\<lambda>r. r\<lparr>pg_buf := 0\<rparr>) s);
       s \<leftarrow> Some (sem_post (pg_lock p) s);
       Some (s, pg_bytes (purgeables s p))
     }
   }"

definition purgeable_free :: "'a penv \<Rightarrow> u32 \<Rightarrow> 'a purge_state_scheme \<Rightarrow> 'a purge_state_scheme option" where
  "purgeable_free E p s =
     (if p = 0 then None
      else do {
        s \<leftarrow> sem_pend (g_others E) (pg_lock p) s;
        if pg_bytes (purgeables s p) = 0 then None
        else do {
          s \<leftarrow> sem_pend (g_others E) Purge_list s;
          s \<leftarrow> Some (s\<lparr>s_purgeable := remove1 p (s_purgeable s)\<rparr>);
          s \<leftarrow> Some (sem_post Purge_list s);
          s \<leftarrow> (if pg_buf (purgeables s p) \<noteq> 0 then g_kfree E (pg_buf (purgeables s p)) s else Some s);
          g_kfree E p s
        }
      })"

text \<open>The second component of the result is the address, the third the value for \<open>was_purged\<close>.\<close>

definition purgeable_get :: "'a penv \<Rightarrow> u32 \<Rightarrow> 'a purge_state_scheme \<Rightarrow> ('a purge_state_scheme \<times> u32 \<times> bool) option" where
  "purgeable_get E p s =
     (if p = 0 then None
      else do {
        s \<leftarrow> sem_pend (g_others E) (pg_lock p) s;
        was_purged \<leftarrow> Some (pg_buf (purgeables s p) = 0);
        s \<leftarrow> (if pg_buf (purgeables s p) = 0
              then do {
                (s, buf) \<leftarrow> g_kmalloc E (pg_bytes (purgeables s p)) s;
                Some (upd_pg p (\<lambda>r. r\<lparr>pg_buf := buf\<rparr>) s)
              }
              else Some s);
        Some (s, pg_buf (purgeables s p), was_purged)
      })"

definition purgeable_put :: "u32 \<Rightarrow> 'a purge_state_scheme \<Rightarrow> 'a purge_state_scheme option" where
  "purgeable_put ptr s =
     (if ptr = 0 then None
      else (case find (\<lambda>p. pg_buf (purgeables s p) = ptr) (s_purgeable s) of
              None \<Rightarrow> Some s
            | Some p \<Rightarrow> Some (sem_post (pg_lock p) s)))"

fun purge_loop :: "'a penv \<Rightarrow> u32 \<Rightarrow> u32 list \<Rightarrow> u32 \<Rightarrow> 'a purge_state_scheme \<Rightarrow> ('a purge_state_scheme \<times> u32) option" where
  "purge_loop E bytes [] purged s = Some (s, purged)"
| "purge_loop E bytes (p # ps) purged s = do {
     (s, n) \<leftarrow> mem_purge E p s;
     if bytes \<noteq> 0 \<and> purged + n \<ge> bytes then Some (s, purged + n)
     else purge_loop E bytes ps (purged + n) s
   }"

definition purgeable_purge :: "'a penv \<Rightarrow> u32 \<Rightarrow> 'a purge_state_scheme \<Rightarrow> ('a purge_state_scheme \<times> u32) option" where
  "purgeable_purge E bytes s = do {
     s \<leftarrow> sem_pend (g_others E) Purge_list s;
     (s, purged) \<leftarrow> purge_loop E bytes (s_purgeable s) 0 s;
     Some (sem_post Purge_list s, purged)
   }"

section \<open>What a purge achieves\<close>

lemma pg_sels [simp]:
  "purgeables (upd_pg p f s) = (purgeables s)(p := f (purgeables s p))" "sems (upd_pg p f s) = sems s"
  "s_purgeable (upd_pg p f s) = s_purgeable s"
  "purgeables (upd_sem i g s) = purgeables s" "s_purgeable (upd_sem i g s) = s_purgeable s"
  "purgeables (sem_post i s) = purgeables s" "s_purgeable (sem_post i s) = s_purgeable s"
  by (simp_all add: upd_pg_def upd_sem_def sem_post_def upd_task_def Let_def split: list.splits)

lemma pg_sem_post:
  "sem_count (sems (sem_post i s) j) = (if j = i then sem_count (sems s i) + 1 else sem_count (sems s j))"
  by (auto simp: sem_post_def upd_sem_def upd_task_def Let_def split: list.splits)

text \<open>A heap and callbacks that leave the regions and their locks alone.\<close>

definition quiet_env :: "'a penv \<Rightarrow> bool" where
  "quiet_env E \<longleftrightarrow> (\<forall>x s. \<exists>s'. g_kfree E x s = Some s' \<and> purgeables s' = purgeables s \<and> sems s' = sems s \<and> s_purgeable s' = s_purgeable s) \<and>
     (\<forall>f x s. \<exists>s'. g_call E f x s = Some s' \<and> purgeables s' = purgeables s \<and> sems s' = sems s \<and> s_purgeable s' = s_purgeable s)"

lemma mem_purge_empties:
  assumes q: "quiet_env E" and l: "sem_count (sems s (pg_lock p)) \<noteq> 0"
  shows "\<exists>s'. mem_purge E p s = Some (s', if pg_buf (purgeables s p) = 0 then 0 else pg_bytes (purgeables s p)) \<and>
    purgeables s' = (purgeables s)(p := (purgeables s p)\<lparr>pg_buf := 0\<rparr>) \<and> (\<forall>j. sem_count (sems s' j) = sem_count (sems s j)) \<and>
    s_purgeable s' = s_purgeable s"
proof -
  let ?s = "upd_sem (pg_lock p) (\<lambda>q. q\<lparr>sem_count := sem_count q - 1\<rparr>) s" and ?r = "purgeables s p"
  show ?thesis
  proof (cases "pg_buf ?r = 0")
    case True
    then have "?r\<lparr>pg_buf := 0\<rparr> = ?r" by (cases ?r) simp
    then show ?thesis using True l by (auto simp: mem_purge_def sem_pend_available pg_sem_post upd_sem_def fun_upd_idem)
  next
    case False
    obtain s1 where s1: "(if pg_on_purge ?r \<noteq> 0 then g_call E (pg_on_purge ?r) (pg_on_purge_ctx ?r) ?s else Some ?s) = Some s1"
      "purgeables s1 = purgeables s" "sems s1 = sems ?s" "s_purgeable s1 = s_purgeable s"
    proof (cases "pg_on_purge ?r = 0")
      case False
      obtain s1 where "g_call E (pg_on_purge ?r) (pg_on_purge_ctx ?r) ?s = Some s1" "purgeables s1 = purgeables ?s"
        "sems s1 = sems ?s" "s_purgeable s1 = s_purgeable ?s" using q unfolding quiet_env_def by blast
      then show ?thesis using False by (intro that [of s1]) simp_all
    qed (use that [of ?s] in simp)
    obtain s2 where s2: "g_kfree E (pg_buf ?r) s1 = Some s2" "purgeables s2 = purgeables s" "sems s2 = sems ?s" "s_purgeable s2 = s_purgeable s"
      using q s1 unfolding quiet_env_def by metis
    show ?thesis
      using False l s1 s2 by (cases "pg_on_purge ?r = 0") (auto simp: mem_purge_def sem_pend_available pg_sem_post upd_sem_def)
  qed
qed

text \<open>
  A purge with a target either reaches the target or has emptied every region of the list; without a
  target it empties every region.
\<close>

lemma purge_loop_ok:
  assumes "quiet_env E" "\<forall>p \<in> set ps. sem_count (sems s (pg_lock p)) \<noteq> 0"
  shows "\<exists>s' n. purge_loop E bytes ps t s = Some (s', n) \<and>
    ((\<forall>p \<in> set ps. pg_buf (purgeables s' p) = 0) \<or> (bytes \<noteq> 0 \<and> bytes \<le> n)) \<and>
    (\<forall>p. pg_buf (purgeables s p) = 0 \<longrightarrow> pg_buf (purgeables s' p) = 0) \<and> (\<forall>j. sem_count (sems s' j) = sem_count (sems s j))"
  using assms(2)
proof (induction ps arbitrary: t s)
  case (Cons p ps)
  obtain s1 n where s1: "mem_purge E p s = Some (s1, n)" "purgeables s1 = (purgeables s)(p := (purgeables s p)\<lparr>pg_buf := 0\<rparr>)"
    "\<forall>j. sem_count (sems s1 j) = sem_count (sems s j)"
    using mem_purge_empties [OF assms(1), of s p] Cons.prems by auto
  show ?case
  proof (cases "bytes \<noteq> 0 \<and> bytes \<le> t + n")
    case True
    then show ?thesis using s1 by auto
  next
    case False
    have "\<forall>p \<in> set ps. sem_count (sems s1 (pg_lock p)) \<noteq> 0" using Cons.prems s1(3) by simp
    from Cons.IH [OF this, of "t + n"] obtain s' m where s': "purge_loop E bytes ps (t + n) s1 = Some (s', m)"
      "(\<forall>p \<in> set ps. pg_buf (purgeables s' p) = 0) \<or> (bytes \<noteq> 0 \<and> bytes \<le> m)"
      "\<forall>p. pg_buf (purgeables s1 p) = 0 \<longrightarrow> pg_buf (purgeables s' p) = 0" "\<forall>j. sem_count (sems s' j) = sem_count (sems s1 j)"
      by blast
    then show ?thesis using s1 False by (auto intro!: exI [of _ s'] exI [of _ m])
  qed
qed simp

text \<open>The header promises that at least \<open>bytes\<close> bytes are purged; with nothing registered nothing is.\<close>

lemma purge_may_fall_short:
  assumes "s_purgeable s = []" "sem_count (sems s Purge_list) \<noteq> 0"
  shows "\<exists>s'. purgeable_purge E bytes s = Some (s', 0)"
  using assms by (simp add: purgeable_purge_def sem_pend_available)

end
