(* ===== verification/Ringbuf.thy ===== *)
theory Ringbuf
  imports Purge
begin

text \<open>
  \<open>kernel/lib/ringbuf.c\<close>: the blocking ring buffer between interrupt handlers and readers. A buffer is
  known by its address \<open>b\<close>; its three semaphores are members of it. For elements of one byte, the
  only size the kernel uses, it is shown to refine a bounded queue.
\<close>

section \<open>Model\<close>

record ringbuf =
  rb_buf :: u32
  rb_cap :: u32
  rb_head :: u32
  rb_tail :: u32

record rb_state = purge_state +
  rbs :: "u32 \<Rightarrow> ringbuf"

abbreviation rb_queue :: "u32 \<Rightarrow> sem_id" where "rb_queue b \<equiv> Sem_at b"
abbreviation rb_n_free :: "u32 \<Rightarrow> sem_id" where "rb_n_free b \<equiv> Sem_at (b + 16)"
abbreviation rb_n_used :: "u32 \<Rightarrow> sem_id" where "rb_n_used b \<equiv> Sem_at (b + 32)"

definition upd_rb :: "u32 \<Rightarrow> (ringbuf \<Rightarrow> ringbuf) \<Rightarrow> 'a rb_state_scheme \<Rightarrow> 'a rb_state_scheme" where
  "upd_rb b f s = s\<lparr>rbs := (rbs s)(b := f (rbs s b))\<rparr>"

definition rb_initialize :: "u32 \<Rightarrow> u32 \<Rightarrow> u32 \<Rightarrow> 'a rb_state_scheme \<Rightarrow> 'a rb_state_scheme" where
  "rb_initialize b buf capacity s =
     (let s = upd_rb b (\<lambda>r. r\<lparr>rb_buf := buf, rb_cap := capacity\<rparr>) s;
          s = sem_init (rb_queue b) 1 s;
          s = sem_init (rb_n_free b) capacity s
      in sem_init (rb_n_used b) 0 s)"

definition rb_write ::
  "('a rb_state_scheme \<Rightarrow> 'a rb_state_scheme option) \<Rightarrow> u32 \<Rightarrow> u32 \<Rightarrow> u32 \<Rightarrow> 'a rb_state_scheme \<Rightarrow> 'a rb_state_scheme option" where
  "rb_write others b sz data s = do {
     s \<leftarrow> sem_pend others (rb_n_free b) s;
     s \<leftarrow> sem_pend others (rb_queue b) s;
     r \<leftarrow> Some (rbs s b);
     s \<leftarrow> Some (s\<lparr>kmem := memcpy (kmem s) (rb_buf r + ((rb_head r + 1) AND (rb_cap r - 1))) data sz\<rparr>);
     s \<leftarrow> Some (upd_rb b (\<lambda>r. r\<lparr>rb_head := (rb_head r + sz) AND (rb_cap r - 1)\<rparr>) s);
     s \<leftarrow> Some (sem_post (rb_queue b) s);
     Some (sem_post (rb_n_used b) s)
   }"

definition rb_read ::
  "('a rb_state_scheme \<Rightarrow> 'a rb_state_scheme option) \<Rightarrow> u32 \<Rightarrow> u32 \<Rightarrow> u32 \<Rightarrow> 'a rb_state_scheme \<Rightarrow> 'a rb_state_scheme option" where
  "rb_read others b sz out s = do {
     s \<leftarrow> sem_pend others (rb_n_used b) s;
     s \<leftarrow> sem_pend others (rb_queue b) s;
     r \<leftarrow> Some (rbs s b);
     s \<leftarrow> Some (s\<lparr>kmem := memcpy (kmem s) out (rb_buf r + ((rb_tail r + 1) AND (rb_cap r - 1))) sz\<rparr>);
     s \<leftarrow> Some (upd_rb b (\<lambda>r. r\<lparr>rb_tail := (rb_tail r + sz) AND (rb_cap r - 1)\<rparr>) s);
     s \<leftarrow> Some (sem_post (rb_queue b) s);
     Some (sem_post (rb_n_free b) s)
   }"

section \<open>A bounded queue\<close>

datatype 'e fifo_op = Put 'e | Get

text \<open>The specification: what a sequence of operations delivers, as long as none of them has to wait.\<close>

fun fifo_run :: "nat \<Rightarrow> 'e fifo_op list \<Rightarrow> 'e list \<Rightarrow> ('e list \<times> 'e list) option" where
  "fifo_run cap [] q = Some ([], q)"
| "fifo_run cap (Put x # ops) q = (if length q < cap then fifo_run cap ops (q @ [x]) else None)"
| "fifo_run cap (Get # ops) [] = None"
| "fifo_run cap (Get # ops) (x # q) = map_option (\<lambda>(out, q). (x # out, q)) (fifo_run cap ops q)"

text \<open>The same sequence on an implementation.\<close>

fun run_ops :: "('e \<Rightarrow> 's \<Rightarrow> 's option) \<Rightarrow> ('s \<Rightarrow> ('s \<times> 'e) option) \<Rightarrow> 'e fifo_op list \<Rightarrow> 's \<Rightarrow> ('e list \<times> 's) option" where
  "run_ops put get [] s = Some ([], s)"
| "run_ops put get (Put x # ops) s = do { s \<leftarrow> put x s; run_ops put get ops s }"
| "run_ops put get (Get # ops) s = do { (s, x) \<leftarrow> get s; (out, s) \<leftarrow> run_ops put get ops s; Some (x # out, s) }"

locale bounded_fifo =
  fixes put :: "'e \<Rightarrow> 's \<Rightarrow> 's option" and get :: "'s \<Rightarrow> ('s \<times> 'e) option" and rep :: "'s \<Rightarrow> 'e list \<Rightarrow> bool" and cap :: nat
  assumes put_rep: "rep s q \<Longrightarrow> length q < cap \<Longrightarrow> \<exists>s'. put x s = Some s' \<and> rep s' (q @ [x])"
    and get_rep: "rep s (x # q) \<Longrightarrow> \<exists>s'. get s = Some (s', x) \<and> rep s' q"
begin

lemma run_refines:
  "rep s q \<Longrightarrow> fifo_run cap ops q = Some (out, q') \<Longrightarrow> \<exists>s'. run_ops put get ops s = Some (out, s') \<and> rep s' q'"
proof (induction ops arbitrary: s q out)
  case (Cons act ops)
  show ?case
  proof (cases act)
    case (Put x)
    then have len: "length q < cap" and run: "fifo_run cap ops (q @ [x]) = Some (out, q')"
      using Cons.prems(2) by (auto split: if_splits)
    obtain s1 where s1: "put x s = Some s1" "rep s1 (q @ [x])" using put_rep [OF Cons.prems(1) len] by blast
    then show ?thesis using Cons.IH [OF s1(2) run] Put by auto
  next
    case Get
    then obtain x q1 out1 where q: "q = x # q1" "fifo_run cap ops q1 = Some (out1, q')" "out = x # out1"
      using Cons.prems(2) by (cases q) auto
    obtain s1 where s1: "get s = Some (s1, x)" "rep s1 q1" using get_rep Cons.prems(1) q(1) by blast
    then show ?thesis using Cons.IH [OF s1(2) q(2)] q(3) Get by auto
  qed
qed simp

end

section \<open>The ring buffer refines it\<close>

text \<open>Indices: with a capacity of \<open>2\<^sup>k\<close> the mask takes a number modulo the capacity.\<close>

definition slot :: "nat \<Rightarrow> u32 \<Rightarrow> nat \<Rightarrow> u32" where
  "slot k t i = (t + 1 + of_nat i) AND (2 ^ k - 1)"

lemma slot_take_bit: "slot k t i = take_bit k (t + 1 + of_nat i)"
  by (simp add: slot_def take_bit_eq_mask mask_eq_exp_minus_1)

lemma unat_slot: "k < 32 \<Longrightarrow> unat (slot k t i) = (unat t + 1 + i) mod 2 ^ k"
proof -
  assume k: "k < 32"
  have "unat (t + 1 + of_nat i) mod 2 ^ k = (unat t + 1 + i) mod 2 ^ k"
  proof -
    have "(2 :: nat) ^ k dvd 2 ^ 32" using k by (intro le_imp_power_dvd) simp
    then have "x mod 2 ^ 32 mod 2 ^ k = x mod 2 ^ k" for x :: nat by (rule mod_mod_cancel)
    moreover have "unat (t + 1 + of_nat i) = (unat t + 1 + i) mod 2 ^ 32"
      by (simp add: unat_word_ariths unat_of_nat take_bit_eq_mod mod_simps)
    ultimately show ?thesis by simp
  qed
  then show ?thesis by (simp add: slot_take_bit unat_take_bit)
qed

lemma slot_inj: "k < 32 \<Longrightarrow> i < 2 ^ k \<Longrightarrow> j < 2 ^ k \<Longrightarrow> slot k t i = slot k t j \<Longrightarrow> i = j"
proof (induction i j rule: linorder_wlog)
  case (le i j)
  have "(unat t + 1 + j) mod 2 ^ k = (unat t + 1 + i) mod 2 ^ k"
    using arg_cong [OF le(5), of unat] le(2) by (simp add: unat_slot)
  then have "2 ^ k dvd (unat t + 1 + j) - (unat t + 1 + i)" using le(1) by (subst mod_eq_dvd_iff_nat [symmetric]) simp_all
  then have "2 ^ k dvd j - i" by simp
  then show ?case using le(1,4) nat_dvd_not_less [of "j - i" "2 ^ k"] by (cases "j = i") auto
qed simp

lemma slot_Suc: "k < 32 \<Longrightarrow> slot k (slot k t 0) i = slot k t (Suc i)"
  by (rule word_unat_eq_iff [THEN iffD2]) (simp add: unat_slot, metis add_Suc mod_Suc_eq mod_add_left_eq)

text \<open>\<open>fifo b k a s q\<close>: the buffer at \<open>b\<close> of \<open>2\<^sup>k\<close> bytes holds the queue \<open>q\<close>; \<open>a\<close> is outside the buffer.\<close>

definition fifo :: "u32 \<Rightarrow> nat \<Rightarrow> u32 \<Rightarrow> 'a rb_state_scheme \<Rightarrow> u8 list \<Rightarrow> bool" where
  "fifo b k a s q \<longleftrightarrow>
     rb_cap (rbs s b) = 2 ^ k \<and> length q \<le> 2 ^ k \<and> \<not> a - rb_buf (rbs s b) < 2 ^ k \<and>
     rb_tail (rbs s b) < 2 ^ k \<and> rb_head (rbs s b) = (rb_tail (rbs s b) + of_nat (length q)) AND (2 ^ k - 1) \<and>
     sem_count (sems s (rb_queue b)) = 1 \<and> sem_count (sems s (rb_n_free b)) = 2 ^ k - of_nat (length q) \<and>
     sem_count (sems s (rb_n_used b)) = of_nat (length q) \<and>
     (\<forall>i < length q. kmem s (rb_buf (rbs s b) + slot k (rb_tail (rbs s b)) i) = q ! i)"

text \<open>Writing and reading one byte through the address \<open>a\<close>.\<close>

definition put_byte :: "('a rb_state_scheme \<Rightarrow> 'a rb_state_scheme option) \<Rightarrow> u32 \<Rightarrow> u32 \<Rightarrow> u8 \<Rightarrow> 'a rb_state_scheme \<Rightarrow> 'a rb_state_scheme option" where
  "put_byte others b a x s = rb_write others b 1 a (s\<lparr>kmem := (kmem s)(a := x)\<rparr>)"

definition get_byte :: "('a rb_state_scheme \<Rightarrow> 'a rb_state_scheme option) \<Rightarrow> u32 \<Rightarrow> u32 \<Rightarrow> 'a rb_state_scheme \<Rightarrow> ('a rb_state_scheme \<times> u8) option" where
  "get_byte others b a s = do { s \<leftarrow> rb_read others b 1 a s; Some (s, kmem s a) }"

lemma memcpy_one: "memcpy m dst src 1 = m(dst := m src)"
proof -
  have "dst = src \<or> 1 \<le> dst - src" by (cases "dst = src") (auto simp: word_le_nat_alt unat_eq_zero Suc_le_eq intro: unat_gt_0 [THEN iffD2])
  from memcpy_eq [OF this, of m] show ?thesis by (auto simp: fun_eq_iff word_less_nat_alt unat_eq_zero)
qed

lemma rb_sems [simp]:
  "(b :: u32) \<noteq> b + 16" "(b :: u32) \<noteq> b + 32" "(b :: u32) + 16 \<noteq> b" "(b :: u32) + 32 \<noteq> b"
  by simp_all

lemma rb_sem_post:
  "rbs (sem_post i s) = rbs s" "kmem (sem_post i s) = kmem s"
  "sem_count (sems (sem_post i s) j) = (if j = i then sem_count (sems s i) + 1 else sem_count (sems s j))"
  by (auto simp: sem_post_def upd_sem_def upd_task_def Let_def split: list.splits)

lemma rb_upd_sels [simp]:
  "rbs (upd_rb b f s) = (rbs s)(b := f (rbs s b))" "kmem (upd_rb b f s) = kmem s" "sems (upd_rb b f s) = sems s"
  "rbs (upd_sem i g s) = rbs s" "kmem (upd_sem i g s) = kmem s" "sems (upd_sem i g s) = (sems s)(i := g (sems s i))"
  by (simp_all add: upd_rb_def upd_sem_def)

lemma rb_write_byte:
  assumes "sem_count (sems s (rb_n_free b)) \<noteq> 0" "sem_count (sems s (rb_queue b)) = 1"
  shows "\<exists>s'. rb_write others b 1 a s = Some s' \<and>
    kmem s' = (kmem s)(rb_buf (rbs s b) + ((rb_head (rbs s b) + 1) AND (rb_cap (rbs s b) - 1)) := kmem s a) \<and>
    rbs s' = (rbs s)(b := (rbs s b)\<lparr>rb_head := (rb_head (rbs s b) + 1) AND (rb_cap (rbs s b) - 1)\<rparr>) \<and>
    sem_count (sems s' (rb_queue b)) = 1 \<and> sem_count (sems s' (rb_n_free b)) = sem_count (sems s (rb_n_free b)) - 1 \<and>
    sem_count (sems s' (rb_n_used b)) = sem_count (sems s (rb_n_used b)) + 1"
  using assms by (simp add: rb_write_def sem_pend_available memcpy_one rb_sem_post)

lemma rb_read_byte:
  assumes "sem_count (sems s (rb_n_used b)) \<noteq> 0" "sem_count (sems s (rb_queue b)) = 1"
  shows "\<exists>s'. rb_read others b 1 a s = Some s' \<and>
    kmem s' = (kmem s)(a := kmem s (rb_buf (rbs s b) + ((rb_tail (rbs s b) + 1) AND (rb_cap (rbs s b) - 1)))) \<and>
    rbs s' = (rbs s)(b := (rbs s b)\<lparr>rb_tail := (rb_tail (rbs s b) + 1) AND (rb_cap (rbs s b) - 1)\<rparr>) \<and>
    sem_count (sems s' (rb_queue b)) = 1 \<and> sem_count (sems s' (rb_n_used b)) = sem_count (sems s (rb_n_used b)) - 1 \<and>
    sem_count (sems s' (rb_n_free b)) = sem_count (sems s (rb_n_free b)) + 1"
  using assms by (simp add: rb_read_def sem_pend_available memcpy_one rb_sem_post)

lemma pow_word: "k < 32 \<Longrightarrow> unat (2 ^ k :: u32) = 2 ^ k"
proof -
  assume "k < 32"
  then have "(2 :: nat) ^ k < 2 ^ LENGTH(32)" by (intro power_strict_increasing) simp_all
  then have "unat (of_nat (2 ^ k) :: u32) = 2 ^ k" by (rule unat_of_nat_small)
  then show ?thesis by (simp only: of_nat_power of_nat_numeral)
qed

lemma slot_eqs:
  assumes "k < 32"
  shows "(((t + of_nat n) AND (2 ^ k - 1)) + 1) AND (2 ^ k - 1) = slot k t n"
    and "(t + of_nat (Suc n)) AND (2 ^ k - 1) = slot k t n"
    and "slot k t n < 2 ^ k" and "(slot k t 0 + of_nat n) AND (2 ^ k - 1) = (t + of_nat (Suc n)) AND (2 ^ k - 1)"
proof -
  have mask: "x AND (2 ^ k - 1) = take_bit k x" for x :: u32
    by (simp add: take_bit_eq_mask mask_eq_exp_minus_1)
  have low: "take_bit k (take_bit k x + y) = take_bit k (x + y)" for x y :: u32
  proof (rule word_unat_eq_iff [THEN iffD2])
    have "(2 :: nat) ^ k dvd 2 ^ 32" using assms by (intro le_imp_power_dvd) simp
    then have "n mod 2 ^ 32 mod 2 ^ k = n mod 2 ^ k" for n :: nat by (rule mod_mod_cancel)
    then show "unat (take_bit k (take_bit k x + y)) = unat (take_bit k (x + y))"
      by (simp add: unat_take_bit unat_word_ariths mod_add_left_eq)
  qed
  show e: "(t + of_nat (Suc n)) AND (2 ^ k - 1) = slot k t n" by (simp add: slot_def add.commute add.left_commute)
  show "(((t + of_nat n) AND (2 ^ k - 1)) + 1) AND (2 ^ k - 1) = slot k t n"
    unfolding mask slot_take_bit low by (simp add: add.commute add.left_commute)
  show "slot k t n < 2 ^ k" using assms by (simp add: word_less_nat_alt unat_slot pow_word)
  show "(slot k t 0 + of_nat n) AND (2 ^ k - 1) = (t + of_nat (Suc n)) AND (2 ^ k - 1)"
    unfolding mask slot_take_bit low by (simp add: add.assoc)
qed

lemma outside_slot: "k < 32 \<Longrightarrow> \<not> a - buf < 2 ^ k \<Longrightarrow> buf + slot k t i \<noteq> a"
  using slot_eqs(3) [of k t i] by auto

lemma pow_bound: "k < 31 \<Longrightarrow> (2 :: nat) ^ k < 2 ^ 32"
  by (rule power_strict_increasing) simp_all

lemma put_rep:
  assumes k: "k < 31" and f: "fifo b k a s q" and len: "length q < 2 ^ k"
  shows "\<exists>s'. put_byte others b a x s = Some s' \<and> fifo b k a s' (q @ [x])"
proof -
  have k32: "k < 32" using k by simp
  let ?s = "s\<lparr>kmem := (kmem s)(a := x)\<rparr>" and ?r = "rbs s b"
  have lt: "length q < 2 ^ 32" by (rule less_trans [OF len pow_bound [OF k]])
  then have ul: "unat (of_nat (length q) :: u32) = length q" by (intro unat_of_nat_small) simp
  have free: "sem_count (sems ?s (rb_n_free b)) \<noteq> 0"
    using f len ul pow_word [OF k32] by (auto simp: fifo_def)
  have queue: "sem_count (sems ?s (rb_queue b)) = 1" using f by (simp add: fifo_def)
  obtain s' where s': "rb_write others b 1 a ?s = Some s'"
    "kmem s' = (kmem ?s)(rb_buf ?r + slot k (rb_tail ?r) (length q) := x)"
    "rbs s' = (rbs s)(b := ?r\<lparr>rb_head := slot k (rb_tail ?r) (length q)\<rparr>)"
    "sem_count (sems s' (rb_queue b)) = 1" "sem_count (sems s' (rb_n_free b)) = sem_count (sems s (rb_n_free b)) - 1"
    "sem_count (sems s' (rb_n_used b)) = sem_count (sems s (rb_n_used b)) + 1"
    using rb_write_byte [OF free queue, of others a] f slot_eqs(1) [OF k32] by (auto simp: fifo_def)
  have old: "kmem s' (rb_buf ?r + slot k (rb_tail ?r) i) = q ! i" if "i < length q" for i
    using that s'(2) f slot_inj [OF k32, of i "length q" "rb_tail ?r"] len outside_slot [OF k32, of a "rb_buf ?r"]
    by (auto simp: fifo_def)
  have new: "kmem s' (rb_buf ?r + slot k (rb_tail ?r) (length q)) = x" using s'(2) by simp
  have "kmem s' (rb_buf ?r + slot k (rb_tail ?r) i) = (q @ [x]) ! i" if "i < length (q @ [x])" for i
    using that old new by (auto simp: nth_append less_Suc_eq)
  then show ?thesis
    using s' f len slot_eqs(2) [OF k32] by (intro exI [of _ s']) (simp add: put_byte_def fifo_def)
qed

lemma get_rep:
  assumes k: "k < 31" and f: "fifo b k a s (x # q)"
  shows "\<exists>s'. get_byte others b a s = Some (s', x) \<and> fifo b k a s' q"
proof -
  have k32: "k < 32" using k by simp
  let ?r = "rbs s b"
  have "Suc (length q) \<le> 2 ^ k" using f by (simp add: fifo_def)
  from le_less_trans [OF this pow_bound [OF k]] have "Suc (length q) < 2 ^ 32" .
  then have "unat (of_nat (Suc (length q)) :: u32) = Suc (length q)" by (intro unat_of_nat_small) simp
  then have used: "sem_count (sems s (rb_n_used b)) \<noteq> 0" using f by (auto simp: fifo_def)
  have queue: "sem_count (sems s (rb_queue b)) = 1" using f by (simp add: fifo_def)
  obtain s' where s': "rb_read others b 1 a s = Some s'"
    "kmem s' = (kmem s)(a := kmem s (rb_buf ?r + slot k (rb_tail ?r) 0))"
    "rbs s' = (rbs s)(b := ?r\<lparr>rb_tail := slot k (rb_tail ?r) 0\<rparr>)"
    "sem_count (sems s' (rb_queue b)) = 1" "sem_count (sems s' (rb_n_used b)) = sem_count (sems s (rb_n_used b)) - 1"
    "sem_count (sems s' (rb_n_free b)) = sem_count (sems s (rb_n_free b)) + 1"
    using rb_read_byte [OF used queue, of others a] f by (auto simp: fifo_def slot_def)
  have "kmem s' (rb_buf ?r + slot k (slot k (rb_tail ?r) 0) i) = q ! i" if "i < length q" for i
    using that s'(2) f outside_slot [OF k32, of a "rb_buf ?r"] by (auto simp: fifo_def slot_Suc [OF k32])
  moreover have "kmem s' a = x" using s'(2) f by (auto simp: fifo_def)
  ultimately show ?thesis
    using s'(1,3-6) f slot_eqs(3,4) [OF k32] by (intro exI [of _ s']) (simp add: get_byte_def fifo_def)
qed

interpretation rb: bounded_fifo "put_byte others b a" "get_byte others b a" "\<lambda>s q. k < 31 \<and> fifo b k a s q" "2 ^ k"
  for others b a k
  by unfold_locales (use put_rep get_rep in blast)+

text \<open>
  C2. The ring buffer, used for single bytes, implements a bounded queue: for every sequence of
  writes and reads none of which has to wait, the reads deliver exactly what a queue of the same
  capacity delivers, in order and across every wrap of the indices, and the buffer then holds the
  rest of the queue. In particular a buffer of \<open>2\<^sup>k\<close> bytes takes \<open>2\<^sup>k\<close> bytes before it is full.
\<close>

theorem ringbuf_refines_fifo:
  assumes "k < 31" "fifo b k a s q" "fifo_run (2 ^ k) ops q = Some (out, q')"
  shows "\<exists>s'. run_ops (put_byte others b a) (get_byte others b a) ops s = Some (out, s') \<and> fifo b k a s' q'"
  using rb.run_refines [of k b a s q ops out q' others] assms by blast

definition rb_start :: "rb_state \<Rightarrow> rb_state" where
  "rb_start s = rb_initialize 0x100 0x2000 4 (s\<lparr>rbs := \<lambda>_. \<lparr>rb_buf = 0, rb_cap = 0, rb_head = 0, rb_tail = 0\<rparr>\<rparr>)"

theorem ringbuf_refines_fifo_witness:
  "\<forall>s. \<exists>s'. run_ops (put_byte Some 0x100 0x3000) (get_byte Some 0x100 0x3000)
     [Put 1, Put 2, Put 3, Get, Put 4, Put 5, Get, Get, Get, Get] (rb_start s) = Some ([1, 2, 3, 4, 5], s')"
proof
  fix s
  have "fifo 0x100 2 0x3000 (rb_start s) []"
    by (simp add: fifo_def rb_start_def rb_initialize_def sem_init_def Let_def)
  then have "\<exists>s'. run_ops (put_byte Some 0x100 0x3000) (get_byte Some 0x100 0x3000)
     [Put 1, Put 2, Put 3, Get, Put 4, Put 5, Get, Get, Get, Get] (rb_start s) = Some ([1, 2, 3, 4, 5], s') \<and> fifo 0x100 2 0x3000 s' []"
    by (intro ringbuf_refines_fifo [where q = "[]"]) simp_all
  then show "\<exists>s'. run_ops (put_byte Some 0x100 0x3000) (get_byte Some 0x100 0x3000)
     [Put 1, Put 2, Put 3, Get, Put 4, Put 5, Get, Get, Get, Get] (rb_start s) = Some ([1, 2, 3, 4, 5], s')"
    by blast
qed

text \<open>
  For wider elements the buffer is not a queue: the semaphores count elements against a capacity in
  bytes, and a copy that starts in the last slot runs over the end of the buffer.
\<close>

lemma wide_write_overruns:
  assumes "rbs s b = \<lparr>rb_buf = 0x2000, rb_cap = 4, rb_head = 2, rb_tail = 0\<rparr>" "sem_count (sems s (rb_n_free b)) = 2"
    "sem_count (sems s (rb_queue b)) = 1"
  shows "\<exists>s'. rb_write others b 2 0x3000 s = Some s' \<and> kmem s' 0x2004 = kmem s 0x3001"
proof -
  have "memcpy (kmem s) 0x2003 0x3000 2 0x2004 = kmem s 0x3001" by (subst memcpy_eq) simp_all
  then show ?thesis using assms by (simp add: rb_write_def sem_pend_available rb_sem_post)
qed

end
