(* ===== verification/Drv.thy ===== *)
theory Drv
  imports Prelude "HOL-Library.Multiset"
begin

text \<open>
  \<open>kernel/drv.c\<close>: loading the drivers in an order that respects their dependencies. The three intrusive
  lists are lists of driver addresses, \<open>probe\<close> runs a driver's probe function. The iteration
  \<open>v_ilist_for_each_safe\<close> fetches the successor of a driver before it runs the body; since the body
  takes the driver out of the list and puts it, if at all, at the end, the successor is always the
  new first element, and the iteration ends after a driver that was alone in the list.
\<close>

section \<open>Model\<close>

record driver =
  dr_name :: string
  dr_on_demand :: bool
  dr_deps :: "string list"

record drv_state =
  drvs :: "u32 \<Rightarrow> driver"
  g_drivers :: "u32 list"
  g_drivers_initialized :: "u32 list"
  g_drivers_failed :: "u32 list"

definition find_driver :: "string \<Rightarrow> u32 list \<Rightarrow> 'a drv_state_scheme \<Rightarrow> u32 option" where
  "find_driver name l s = find (\<lambda>d. dr_name (drvs s d) = name) l"

definition clear_on_demand :: "u32 \<Rightarrow> 'a drv_state_scheme \<Rightarrow> 'a drv_state_scheme" where
  "clear_on_demand d s = s\<lparr>drvs := (drvs s)(d := (drvs s d)\<lparr>dr_on_demand := False\<rparr>)\<rparr>"

text \<open>\<open>deps_loaded\<close>; a missing dependency that is not in the list of drivers is a null dereference.\<close>

primrec deps_loaded :: "string list \<Rightarrow> 'a drv_state_scheme \<Rightarrow> ('a drv_state_scheme \<times> bool) option" where
  "deps_loaded [] s = Some (s, True)"
| "deps_loaded (depname # deps) s =
     (case find_driver depname (g_drivers_initialized s) s of
        Some _ \<Rightarrow> deps_loaded deps s
      | None \<Rightarrow> (case find_driver depname (g_drivers s) s of
                   None \<Rightarrow> None
                 | Some dep \<Rightarrow> Some (clear_on_demand dep s, False)))"

text \<open>The body of the first loop, for the first driver of the list.\<close>

definition load_driver ::
  "(u32 \<Rightarrow> 'a drv_state_scheme \<Rightarrow> ('a drv_state_scheme \<times> int) option) \<Rightarrow> u32 \<Rightarrow> 'a drv_state_scheme \<Rightarrow> 'a drv_state_scheme option" where
  "load_driver probe d s = do {
     s \<leftarrow> Some (s\<lparr>g_drivers := remove1 d (g_drivers s)\<rparr>);
     (s, ready) \<leftarrow> (if dr_on_demand (drvs s d) then Some (s, False) else deps_loaded (dr_deps (drvs s d)) s);
     if \<not> ready then Some (s\<lparr>g_drivers := g_drivers s @ [d]\<rparr>)
     else do {
       (s, ret) \<leftarrow> probe d s;
       if ret \<noteq> 0 then Some (s\<lparr>g_drivers_failed := g_drivers_failed s @ [d]\<rparr>)
       else Some (s\<lparr>g_drivers_initialized := g_drivers_initialized s @ [d]\<rparr>)
     }
   }"

partial_function (option) load_loop ::
  "(u32 \<Rightarrow> 'a drv_state_scheme \<Rightarrow> ('a drv_state_scheme \<times> int) option) \<Rightarrow> 'a drv_state_scheme \<Rightarrow> 'a drv_state_scheme option" where
  "load_loop probe s =
     (case g_drivers s of
        [] \<Rightarrow> Some s
      | d # rest \<Rightarrow> do {
          s \<leftarrow> load_driver probe d s;
          if rest = [] then Some s else load_loop probe s
        })"

text \<open>The second loop: what is left and was not on demand counts as failed. Its messages are left out.\<close>

primrec fail_rest :: "u32 list \<Rightarrow> 'a drv_state_scheme \<Rightarrow> 'a drv_state_scheme" where
  "fail_rest [] s = s"
| "fail_rest (d # ds) s =
     (let s = s\<lparr>g_drivers := remove1 d (g_drivers s)\<rparr>
      in fail_rest ds (if dr_on_demand (drvs s d) then s else s\<lparr>g_drivers_failed := g_drivers_failed s @ [d]\<rparr>))"

definition driver_init ::
  "(u32 \<Rightarrow> 'a drv_state_scheme \<Rightarrow> ('a drv_state_scheme \<times> int) option) \<Rightarrow> 'a drv_state_scheme \<Rightarrow> 'a drv_state_scheme option" where
  "driver_init probe s = do {
     s \<leftarrow> load_loop probe s;
     Some (fail_rest (g_drivers s) s)
   }"

section \<open>Every driver that is wanted gets loaded\<close>

text \<open>Probe functions that succeed and leave the bookkeeping of the drivers alone.\<close>

definition drv_same :: "'a drv_state_scheme \<Rightarrow> 'a drv_state_scheme \<Rightarrow> bool" where
  "drv_same s s' \<longleftrightarrow> drvs s' = drvs s \<and> g_drivers s' = g_drivers s \<and> g_drivers_initialized s' = g_drivers_initialized s \<and>
     g_drivers_failed s' = g_drivers_failed s"

definition probes_ok :: "(u32 \<Rightarrow> 'a drv_state_scheme \<Rightarrow> ('a drv_state_scheme \<times> int) option) \<Rightarrow> bool" where
  "probes_ok probe \<longleftrightarrow> (\<forall>d s. \<exists>s'. probe d s = Some (s', 0) \<and> drv_same s s')"

abbreviation name_of :: "'a drv_state_scheme \<Rightarrow> u32 \<Rightarrow> string" where "name_of s d \<equiv> dr_name (drvs s d)"
abbreviation on_demand :: "'a drv_state_scheme \<Rightarrow> u32 \<Rightarrow> bool" where "on_demand s d \<equiv> dr_on_demand (drvs s d)"

text \<open>Names differ, and every dependency is a driver of smaller rank: there is no cycle.\<close>

definition drv_ok :: "(u32 \<Rightarrow> nat) \<Rightarrow> u32 set \<Rightarrow> 'a drv_state_scheme \<Rightarrow> bool" where
  "drv_ok rank D s \<longleftrightarrow> inj_on (name_of s) D \<and>
     (\<forall>d \<in> D. \<forall>n \<in> set (dr_deps (drvs s d)). \<exists>e \<in> D. name_of s e = n \<and> rank e < rank d)"

text \<open>In \<open>xs\<close> every driver comes after its dependencies.\<close>

definition deps_first :: "'a drv_state_scheme \<Rightarrow> u32 list \<Rightarrow> bool" where
  "deps_first s xs \<longleftrightarrow> (\<forall>i < length xs. \<forall>n \<in> set (dr_deps (drvs s (xs ! i))). \<exists>j < i. name_of s (xs ! j) = n)"

definition drv_inv :: "(u32 \<Rightarrow> nat) \<Rightarrow> u32 set \<Rightarrow> 'a drv_state_scheme \<Rightarrow> bool" where
  "drv_inv rank D s \<longleftrightarrow> drv_ok rank D s \<and> distinct (g_drivers s @ g_drivers_initialized s) \<and>
     set (g_drivers s @ g_drivers_initialized s) = D \<and> deps_first s (g_drivers_initialized s) \<and> g_drivers_failed s = []"

text \<open>What the first driver of the list comes to.\<close>

lemma deps_loaded_cases:
  assumes "\<forall>n \<in> set deps. \<exists>e \<in> set (g_drivers s) \<union> set (g_drivers_initialized s). name_of s e = n"
  shows "(deps_loaded deps s = Some (s, True) \<and> (\<forall>n \<in> set deps. \<exists>e \<in> set (g_drivers_initialized s). name_of s e = n)) \<or>
    (\<exists>e \<in> set (g_drivers s). name_of s e \<in> set deps \<and> (\<forall>x \<in> set (g_drivers_initialized s). name_of s x \<noteq> name_of s e) \<and>
       deps_loaded deps s = Some (clear_on_demand e s, False))"
  using assms
proof (induction deps)
  case (Cons n deps)
  show ?case
  proof (cases "find_driver n (g_drivers_initialized s) s")
    case None
    then have none: "\<forall>x \<in> set (g_drivers_initialized s). name_of s x \<noteq> n" by (auto simp: find_driver_def find_None_iff)
    then obtain e0 where "e0 \<in> set (g_drivers s)" "name_of s e0 = n" using Cons.prems by auto
    then obtain e where "find_driver n (g_drivers s) s = Some e"
      unfolding find_driver_def by (cases "find (\<lambda>d. name_of s d = n) (g_drivers s)") (auto simp: find_None_iff)
    moreover from this have "e \<in> set (g_drivers s)" "name_of s e = n" by (auto simp: find_driver_def find_Some_iff)
    ultimately show ?thesis using None none by (intro disjI2 bexI [of _ e]) auto
  next
    case (Some x)
    then have "x \<in> set (g_drivers_initialized s)" "name_of s x = n" by (auto simp: find_driver_def find_Some_iff)
    then show ?thesis using Cons.IH Cons.prems Some by auto
  qed
qed simp

text \<open>Nothing but the flag \<open>on_demand\<close> of a driver changes, and only to false.\<close>

definition only_clears :: "'a drv_state_scheme \<Rightarrow> 'a drv_state_scheme \<Rightarrow> bool" where
  "only_clears s s' \<longleftrightarrow> (\<forall>x. name_of s' x = name_of s x \<and> dr_deps (drvs s' x) = dr_deps (drvs s x) \<and> (on_demand s' x \<longrightarrow> on_demand s x))"

lemma only_clears_refl: "drvs s' = drvs s \<Longrightarrow> only_clears s s'"
  by (simp add: only_clears_def)

lemma only_clears_trans: "only_clears s1 s2 \<Longrightarrow> only_clears s2 s3 \<Longrightarrow> only_clears s1 s3"
  by (simp add: only_clears_def)

lemma only_clears_clear: "drvs s' = (drvs s)(e := (drvs s e)\<lparr>dr_on_demand := False\<rparr>) \<Longrightarrow> only_clears s s'"
  by (simp add: only_clears_def)

lemma drv_ok_clears: "only_clears s s' \<Longrightarrow> drv_ok rank D s' = drv_ok rank D s"
  by (simp add: only_clears_def drv_ok_def inj_on_def)

lemma deps_first_clears: "only_clears s s' \<Longrightarrow> deps_first s' xs = deps_first s xs"
  by (simp add: only_clears_def deps_first_def)

lemma drv_inv_rotate:
  assumes "drv_inv rank D s" "g_drivers s = d # rest" "g_drivers s' = rest @ [d]" "only_clears s s'"
    "g_drivers_initialized s' = g_drivers_initialized s" "g_drivers_failed s' = g_drivers_failed s"
  shows "drv_inv rank D s'"
  using assms drv_ok_clears [OF assms(4), of rank D] deps_first_clears [OF assms(4)] by (auto simp: drv_inv_def)

lemma deps_first_append:
  assumes "deps_first s xs" "\<forall>n \<in> set (dr_deps (drvs s d)). \<exists>e \<in> set xs. name_of s e = n"
  shows "deps_first s (xs @ [d])"
  unfolding deps_first_def
proof (intro allI impI ballI)
  fix i n
  assume i: "i < length (xs @ [d])" and n: "n \<in> set (dr_deps (drvs s ((xs @ [d]) ! i)))"
  show "\<exists>j<i. name_of s ((xs @ [d]) ! j) = n"
  proof (cases "i < length xs")
    case True
    then obtain j where "j < i" "name_of s (xs ! j) = n" using assms(1) n by (auto simp: deps_first_def nth_append)
    then show ?thesis using True by (intro exI [of _ j]) (simp add: nth_append)
  next
    case False
    then have i: "i = length xs" using i by simp
    then obtain e where "e \<in> set xs" "name_of s e = n" using assms(2) n by auto
    then obtain j where "j < length xs" "name_of s (xs ! j) = n" by (auto simp: in_set_conv_nth)
    then show ?thesis using i by (intro exI [of _ j]) (simp add: nth_append)
  qed
qed

text \<open>One driver: it is loaded, or a dependency of it becomes wanted, or nothing but the order changes.\<close>

lemma load_driver_cases:
  assumes p: "probes_ok probe" and inv: "drv_inv rank D s" and g: "g_drivers s = d # rest"
  shows "\<exists>s'. load_driver probe d s = Some s' \<and> drv_inv rank D s' \<and> only_clears s s' \<and>
    (g_drivers s' = rest \<and> drvs s' = drvs s \<or>
     g_drivers s' = rest @ [d] \<and> drvs s' = drvs s \<and> (on_demand s d \<or> (\<exists>e \<in> set rest. rank e < rank d \<and> \<not> on_demand s e)) \<or>
     g_drivers s' = rest @ [d] \<and> (\<exists>e \<in> set rest. on_demand s e \<and> drvs s' = (drvs s)(e := (drvs s e)\<lparr>dr_on_demand := False\<rparr>)))"
proof (cases "on_demand s d")
  case True
  let ?s' = "s\<lparr>g_drivers := rest @ [d]\<rparr>"
  have "load_driver probe d s = Some ?s'" using True g by (simp add: load_driver_def)
  moreover have "drv_inv rank D ?s'" by (rule drv_inv_rotate [OF inv g]) (simp_all add: only_clears_refl)
  ultimately show ?thesis using True by (intro exI [of _ ?s']) (simp add: only_clears_refl)
next
  case False
  let ?s = "s\<lparr>g_drivers := rest\<rparr>" and ?deps = "dr_deps (drvs s d)"
  have inj: "inj_on (name_of s) D" and
    rk: "\<forall>d \<in> D. \<forall>n \<in> set (dr_deps (drvs s d)). \<exists>e \<in> D. name_of s e = n \<and> rank e < rank d" and
    setD: "D = set (d # rest) \<union> set (g_drivers_initialized s)" and dist: "distinct ((d # rest) @ g_drivers_initialized s)"
    using inv g by (simp_all add: drv_inv_def drv_ok_def)
  have D: "d \<in> D" "set rest \<subseteq> D" using setD by auto
  have closed: "\<exists>e \<in> set rest \<union> set (g_drivers_initialized s). name_of s e = n \<and> rank e < rank d" if n: "n \<in> set ?deps" for n
  proof -
    obtain e where e: "e \<in> D" "name_of s e = n" "rank e < rank d" using bspec [OF bspec [OF rk D(1)] n] by blast
    then have "e \<noteq> d" by auto
    then show ?thesis using e setD by auto
  qed
  have "(deps_loaded ?deps ?s = Some (?s, True) \<and> (\<forall>n \<in> set ?deps. \<exists>e \<in> set (g_drivers_initialized s). name_of s e = n)) \<or>
    (\<exists>e \<in> set rest. name_of s e \<in> set ?deps \<and> deps_loaded ?deps ?s = Some (clear_on_demand e ?s, False))"
    using deps_loaded_cases [of ?deps ?s] closed by fastforce
  then consider (ready) "deps_loaded ?deps ?s = Some (?s, True)" "\<forall>n \<in> set ?deps. \<exists>e \<in> set (g_drivers_initialized s). name_of s e = n"
    | (missing) e where "e \<in> set rest" "name_of s e \<in> set ?deps" "deps_loaded ?deps ?s = Some (clear_on_demand e ?s, False)"
    by blast
  then show ?thesis
  proof cases
    case ready
    obtain s1 where s1: "probe d ?s = Some (s1, 0)" "drv_same ?s s1" using p by (auto simp: probes_ok_def)
    let ?s' = "s1\<lparr>g_drivers_initialized := g_drivers_initialized s1 @ [d]\<rparr>"
    note S = s1(2) [unfolded drv_same_def]
    have cl: "only_clears s ?s'" using S by (intro only_clears_refl) simp
    have "drv_ok rank D ?s'" using inv drv_ok_clears [OF cl] by (simp add: drv_inv_def)
    moreover have "deps_first ?s' (g_drivers_initialized s @ [d])"
      using deps_first_append [OF _ ready(2)] deps_first_clears [OF cl] inv by (simp add: drv_inv_def)
    moreover have "distinct (g_drivers ?s' @ g_drivers_initialized ?s')" "set (g_drivers ?s' @ g_drivers_initialized ?s') = D"
      using dist setD S by auto
    ultimately have "drv_inv rank D ?s'" using S inv by (simp add: drv_inv_def)
    then show ?thesis using False g ready(1) s1 S cl by (intro exI [of _ ?s']) (simp add: load_driver_def)
  next
    case missing
    let ?s' = "(clear_on_demand e ?s)\<lparr>g_drivers := rest @ [d]\<rparr>"
    have upd: "drvs ?s' = (drvs s)(e := (drvs s e)\<lparr>dr_on_demand := False\<rparr>)" by (simp add: clear_on_demand_def)
    then have cl: "only_clears s ?s'" by (rule only_clears_clear)
    have load: "load_driver probe d s = Some ?s'" using False g missing(3) by (simp add: load_driver_def clear_on_demand_def)
    have i': "drv_inv rank D ?s'" by (rule drv_inv_rotate [OF inv g _ cl]) (simp_all add: clear_on_demand_def)
    obtain e' where e': "e' \<in> D" "name_of s e' = name_of s e" "rank e' < rank d" using closed [OF missing(2)] setD by auto
    then have "rank e < rank d" using inj_onD [OF inj, of e' e] missing(1) D(2) by auto
    moreover have "drvs ?s' = drvs s" if "\<not> on_demand s e"
      using that upd by (cases "drvs s e") (auto simp: fun_upd_idem_iff)
    ultimately have "g_drivers ?s' = rest @ [d] \<and> drvs ?s' = drvs s \<and> (\<exists>e \<in> set rest. rank e < rank d \<and> \<not> on_demand s e) \<or>
       g_drivers ?s' = rest @ [d] \<and> (\<exists>e \<in> set rest. on_demand s e \<and> drvs ?s' = (drvs s)(e := (drvs s e)\<lparr>dr_on_demand := False\<rparr>))"
      using upd missing(1) by (cases "on_demand s e") auto
    then show ?thesis using load i' cl by (intro exI [of _ ?s']) blast
  qed
qed

text \<open>What the loop still has to do: drivers to load and flags to clear.\<close>

definition work :: "'a drv_state_scheme \<Rightarrow> nat" where
  "work s = length (g_drivers s) + length (filter (on_demand s) (g_drivers s))"

lemma work_same: "drvs s' = drvs s \<Longrightarrow> mset (g_drivers s') = mset (g_drivers s) \<Longrightarrow> work s' = work s"
  unfolding work_def by (metis mset_filter size_mset)

lemma work_loaded:
  assumes "drvs s' = drvs s" "g_drivers s = d # rest" "g_drivers s' = rest"
  shows "work s' < work s"
  using assms by (simp add: work_def)

lemma work_cleared:
  assumes "g_drivers s = d # rest" "g_drivers s' = rest @ [d]" "e \<in> set rest" "on_demand s e"
    "drvs s' = (drvs s)(e := (drvs s e)\<lparr>dr_on_demand := False\<rparr>)"
  shows "work s' < work s"
proof -
  have le: "length (filter (on_demand s') xs) \<le> length (filter (on_demand s) xs)" for xs
    using assms(5) by (induction xs) auto
  have lt: "length (filter (on_demand s') xs) < length (filter (on_demand s) xs)" if "e \<in> set xs" for xs
    using that
  proof (induction xs)
    case (Cons x xs)
    then show ?case using le [of xs] assms(4,5) by (cases "x = e") auto
  qed simp
  have "length (filter (on_demand s') (rest @ [d])) < length (filter (on_demand s) (rest @ [d]))"
    by (rule lt) (use assms(3) in simp)
  then show ?thesis using assms(1,2) by (auto simp: work_def split: if_splits)
qed

definition few_on_demand :: "u32 set \<Rightarrow> 'a drv_state_scheme \<Rightarrow> bool" where
  "few_on_demand D s \<longleftrightarrow> (\<forall>x \<in> D. \<forall>y \<in> D. on_demand s x \<longrightarrow> on_demand s y \<longrightarrow> x = y)"

definition loads_all :: "(u32 \<Rightarrow> 'a drv_state_scheme \<Rightarrow> ('a drv_state_scheme \<times> int) option) \<Rightarrow> (u32 \<Rightarrow> nat) \<Rightarrow> u32 set \<Rightarrow> 'a drv_state_scheme \<Rightarrow> bool" where
  "loads_all probe rank D s \<longleftrightarrow> (\<exists>s'. load_loop probe s = Some s' \<and> drv_inv rank D s' \<and> only_clears s s' \<and>
     (\<forall>d \<in> set (g_drivers s'). on_demand s' d))"

lemma loads_all_step:
  assumes "g_drivers s = d # rest" "rest \<noteq> []" "load_driver probe d s = Some s1" "only_clears s s1" "loads_all probe rank D s1"
  shows "loads_all probe rank D s"
  using assms only_clears_trans unfolding loads_all_def by (subst load_loop.simps) fastforce

text \<open>With no wanted driver left the loop ends at once.\<close>

lemma loads_all_done:
  assumes p: "probes_ok probe" and inv: "drv_inv rank D s" and few: "few_on_demand D s" and od: "\<forall>d \<in> set (g_drivers s). on_demand s d"
  shows "loads_all probe rank D s"
proof (cases "g_drivers s")
  case Nil
  then show ?thesis using inv by (auto simp: loads_all_def load_loop.simps only_clears_refl)
next
  case (Cons d rest)
  have "rest = []"
  proof (cases rest)
    case (Cons x xs)
    then have "d \<in> D" "x \<in> D" "d \<noteq> x" using inv \<open>g_drivers s = d # rest\<close> by (auto simp: drv_inv_def)
    then show ?thesis using few od \<open>g_drivers s = d # rest\<close> Cons by (auto simp: few_on_demand_def)
  qed
  moreover have "load_driver probe d s = Some (s\<lparr>g_drivers := [] @ [d]\<rparr>)"
    using od Cons \<open>rest = []\<close> by (simp add: load_driver_def)
  ultimately have "load_loop probe s = Some s" using Cons by (subst load_loop.simps) simp
  then show ?thesis using inv od by (auto simp: loads_all_def only_clears_refl)
qed

lemma few_clears: "few_on_demand D s \<Longrightarrow> only_clears s s' \<Longrightarrow> few_on_demand D s'"
  by (auto simp: few_on_demand_def only_clears_def)

text \<open>
  The wanted driver of least rank makes progress when its turn comes; the induction is on the number
  of drivers in front of it.
\<close>

lemma loads_all_inner:
  assumes p: "probes_ok probe" and IH: "\<And>s'. work s' < work s \<Longrightarrow> drv_inv rank D s' \<Longrightarrow> few_on_demand D s' \<Longrightarrow> loads_all probe rank D s'"
    and inv: "drv_inv rank D s" and few: "few_on_demand D s" and g: "g_drivers s = xs @ d0 # ys" and d0: "\<not> on_demand s d0"
    and least: "\<forall>e \<in> set (g_drivers s). \<not> on_demand s e \<longrightarrow> rank d0 \<le> rank e"
  shows "loads_all probe rank D s"
  using assms(2-)
proof (induction xs arbitrary: s ys)
  case Nil
  then have g: "g_drivers s = d0 # ys" by simp
  obtain s1 where s1: "load_driver probe d0 s = Some s1" "drv_inv rank D s1" "only_clears s s1"
    and c: "g_drivers s1 = ys \<and> drvs s1 = drvs s \<or>
      g_drivers s1 = ys @ [d0] \<and> drvs s1 = drvs s \<and> (on_demand s d0 \<or> (\<exists>e \<in> set ys. rank e < rank d0 \<and> \<not> on_demand s e)) \<or>
      g_drivers s1 = ys @ [d0] \<and> (\<exists>e \<in> set ys. on_demand s e \<and> drvs s1 = (drvs s)(e := (drvs s e)\<lparr>dr_on_demand := False\<rparr>))"
    using load_driver_cases [OF p Nil(2) g] by blast
  have "\<not> (\<exists>e \<in> set ys. rank e < rank d0 \<and> \<not> on_demand s e)" using Nil(6) g by (auto simp: not_less)
  then have "work s1 < work s" using c Nil(5) g work_loaded [of s1 s d0 ys] work_cleared [of s d0 ys s1] by auto
  then have s1_all: "loads_all probe rank D s1" using Nil(1,3) s1(2,3) few_clears by blast
  show ?case
  proof (cases "ys = []")
    case True
    then have "g_drivers s1 = []" using c Nil(5) by auto
    then show ?thesis
      using s1 g True by (auto simp: loads_all_def load_loop.simps [of probe s] intro!: exI [of _ s1])
  qed (use loads_all_step [OF g _ s1(1,3) s1_all] in blast)
next
  case (Cons x xs)
  let ?rest = "xs @ d0 # ys"
  have g: "g_drivers s = x # ?rest" using Cons.prems(4) by simp
  obtain s1 where s1: "load_driver probe x s = Some s1" "drv_inv rank D s1" "only_clears s s1"
    and c: "g_drivers s1 = ?rest \<and> drvs s1 = drvs s \<or>
      g_drivers s1 = ?rest @ [x] \<and> drvs s1 = drvs s \<and> (on_demand s x \<or> (\<exists>e \<in> set ?rest. rank e < rank x \<and> \<not> on_demand s e)) \<or>
      g_drivers s1 = ?rest @ [x] \<and> (\<exists>e \<in> set ?rest. on_demand s e \<and> drvs s1 = (drvs s)(e := (drvs s e)\<lparr>dr_on_demand := False\<rparr>))"
    using load_driver_cases [OF p Cons.prems(2) g] by blast
  have "loads_all probe rank D s1"
  proof (cases "work s1 < work s")
    case True
    then show ?thesis using Cons.prems(1,3) s1(2,3) few_clears by blast
  next
    case False
    then have same: "g_drivers s1 = ?rest @ [x]" "drvs s1 = drvs s"
      using c g work_loaded [of s1 s x ?rest] work_cleared [of s x ?rest s1] by auto
    have "work s1 = work s" by (rule work_same) (use same g in simp_all)
    then show ?thesis
      using Cons.prems same s1 few_clears g by (intro Cons.IH [of s1 "ys @ [x]"]) auto
  qed
  then show ?case using loads_all_step [OF g _ s1(1,3)] by blast
qed

lemma load_loop_all:
  assumes "probes_ok probe" "drv_inv rank D s" "few_on_demand D s"
  shows "loads_all probe rank D s"
  using assms(2,3)
proof (induction "work s" arbitrary: s rule: less_induct)
  case less
  let ?W = "{d \<in> set (g_drivers s). \<not> on_demand s d}"
  show ?case
  proof (cases "?W = {}")
    case True
    then show ?thesis using less.prems by (intro loads_all_done [OF assms(1)]) auto
  next
    case False
    then obtain d0 where d0: "d0 \<in> ?W" "\<forall>e \<in> ?W. rank d0 \<le> rank e"
      using arg_min_if_finite(1) [of ?W rank] arg_min_least [of ?W _ rank] by simp
    then obtain xs ys where "g_drivers s = xs @ d0 # ys" using split_list [of d0 "g_drivers s"] by auto
    then show ?thesis using loads_all_inner [OF assms(1) less.hyps less.prems] d0 by auto
  qed
qed

lemma fail_rest_on_demand:
  "\<forall>d \<in> set ds. on_demand s d \<Longrightarrow> g_drivers_failed (fail_rest ds s) = g_drivers_failed s \<and>
     g_drivers_initialized (fail_rest ds s) = g_drivers_initialized s \<and> drvs (fail_rest ds s) = drvs s"
  by (induction ds arbitrary: s) (auto simp: Let_def)

text \<open>
  C18. Loading the drivers ends: when the dependencies have no cycle and are all registered, every
  probe succeeds and at most one driver is on demand, \<open>driver_init\<close> returns, every driver that was
  not on demand is initialised, each after all of its dependencies, and none has failed.
\<close>

theorem driver_init_loads:
  assumes "probes_ok probe" "drv_ok rank (set (g_drivers s)) s" "distinct (g_drivers s)" "few_on_demand (set (g_drivers s)) s"
    and "g_drivers_initialized s = []" "g_drivers_failed s = []"
  shows "\<exists>s'. driver_init probe s = Some s' \<and> g_drivers_failed s' = [] \<and> deps_first s' (g_drivers_initialized s') \<and>
    distinct (g_drivers_initialized s') \<and> set (g_drivers_initialized s') \<subseteq> set (g_drivers s) \<and>
    (\<forall>d \<in> set (g_drivers s). \<not> on_demand s d \<longrightarrow> d \<in> set (g_drivers_initialized s'))"
proof -
  let ?D = "set (g_drivers s)"
  have "drv_inv rank ?D s" using assms by (simp add: drv_inv_def deps_first_def)
  from load_loop_all [OF assms(1) this assms(4)] obtain s1 where s1: "load_loop probe s = Some s1" "drv_inv rank ?D s1" "only_clears s s1"
    "\<forall>d \<in> set (g_drivers s1). on_demand s1 d" by (auto simp: loads_all_def)
  let ?s' = "fail_rest (g_drivers s1) s1"
  note F = fail_rest_on_demand [OF s1(4)]
  have "deps_first ?s' (g_drivers_initialized ?s')" using F s1(2) deps_first_clears [OF only_clears_refl, of ?s' s1] by (simp add: drv_inv_def)
  moreover have "d \<in> set (g_drivers_initialized s1)" if "d \<in> ?D" "\<not> on_demand s d" for d
    using that s1(2,3,4) by (auto simp: drv_inv_def only_clears_def)
  ultimately show ?thesis
    using s1 F by (intro exI [of _ ?s']) (auto simp: driver_init_def drv_inv_def)
qed

definition drv0 :: drv_state where
  "drv0 = \<lparr>drvs = (\<lambda>_. \<lparr>dr_name = ''kbd'', dr_on_demand = False, dr_deps = []\<rparr>)
     (1 := \<lparr>dr_name = ''cmos'', dr_on_demand = True, dr_deps = []\<rparr>,
      3 := \<lparr>dr_name = ''floppy'', dr_on_demand = False, dr_deps = [''cmos'']\<rparr>),
     g_drivers = [1, 2, 3], g_drivers_initialized = [], g_drivers_failed = []\<rparr>"

theorem driver_init_loads_witness:
  "\<exists>s'. driver_init (\<lambda>d s. Some (s, 0)) drv0 = Some s' \<and> {2, 3} \<subseteq> set (g_drivers_initialized s') \<and>
     deps_first s' (g_drivers_initialized s')"
proof -
  have "\<exists>s'. driver_init (\<lambda>d s. Some (s, 0)) drv0 = Some s' \<and> g_drivers_failed s' = [] \<and> deps_first s' (g_drivers_initialized s') \<and>
    distinct (g_drivers_initialized s') \<and> set (g_drivers_initialized s') \<subseteq> set (g_drivers drv0) \<and>
    (\<forall>d \<in> set (g_drivers drv0). \<not> on_demand drv0 d \<longrightarrow> d \<in> set (g_drivers_initialized s'))"
    by (rule driver_init_loads [where rank = "\<lambda>d. if d = 3 then 1 else 0"])
      (simp_all add: drv0_def probes_ok_def drv_same_def drv_ok_def few_on_demand_def inj_on_def)
  then show ?thesis by (auto simp: drv0_def)
qed

text \<open>
  Two drivers that are on demand and that no other driver asks for keep postponing each other: the
  loop never returns.
\<close>

lemma two_on_demand_diverge:
  assumes "g_drivers s = [a, b] \<or> g_drivers s = [b, a]" "a \<noteq> b" "on_demand s a" "on_demand s b"
  shows "load_loop probe s = None"
proof (rule ccontr)
  assume "load_loop probe s \<noteq> None"
  then obtain r where "load_loop probe s = Some r" by auto
  then show False using assms
  proof (induction rule: load_loop.raw_induct [rotated, consumes 1, case_names step])
    case (step loop probe s r)
    obtain x y where xy: "g_drivers s = [x, y]" "(x, y) = (a, b) \<or> (x, y) = (b, a)" using step(3) by auto
    have "load_driver probe x s = Some (s\<lparr>g_drivers := [y, x]\<rparr>)"
      using xy step(4-6) by (auto simp: load_driver_def)
    then have "loop probe (s\<lparr>g_drivers := [y, x]\<rparr>) = Some r" using step(2) xy(1) by simp
    from step(1) [OF this] show False using xy(2) step(4-6) by auto
  qed
qed

end
