(* ===== verification/Portio.thy ===== *)
theory Portio
  imports Ringbuf
begin

text \<open>
  Port input and output of \<open>include/io.h\<close>, and the small device drivers that only talk to ports: the
  ISA DMA controller (\<open>dma.c\<close>), the CMOS memory (\<open>drivers/cmos.c\<close>) and the interrupt controllers (the PIC half of \<open>idt.c\<close>).

  The state keeps the history of port accesses. What a device answers is hardware: it is the argument
  \<open>dev\<close>, a function from the history so far and the port to the byte read, so a device may react
  in any way to everything written to it before.
\<close>

section \<open>Ports\<close>

datatype io_event = Out8 u16 u8 | In8 u16 u8

type_synonym device_io = "io_event list \<Rightarrow> u16 \<Rightarrow> u8"

record io_state = rb_state +
  io_log :: "io_event list"
  s_nmi_disabled :: u8
  s_cmos_initialized :: u8
  s_cmos_cached :: u8
  s_cmos_fdtype :: u8

definition io_out8 :: "u16 \<Rightarrow> u8 \<Rightarrow> 'a io_state_scheme \<Rightarrow> 'a io_state_scheme" where
  "io_out8 port v s = s\<lparr>io_log := io_log s @ [Out8 port v]\<rparr>"

definition io_in8 :: "device_io \<Rightarrow> u16 \<Rightarrow> 'a io_state_scheme \<Rightarrow> 'a io_state_scheme \<times> u8" where
  "io_in8 dev port s = (let v = dev (io_log s) port in (s\<lparr>io_log := io_log s @ [In8 port v]\<rparr>, v))"

definition io_wait :: "'a io_state_scheme \<Rightarrow> 'a io_state_scheme" where
  "io_wait s = io_out8 0x80 0 s"

lemma io_out8_log [simp]: "io_log (io_out8 p v s) = io_log s @ [Out8 p v]"
  by (simp add: io_out8_def)

section \<open>The DMA controller\<close>

abbreviation dma_dir_read :: int where "dma_dir_read \<equiv> 1"
abbreviation dma_dir_write :: int where "dma_dir_write \<equiv> 2"

abbreviation DMA_SLAVE_OFFSET :: u8 where "DMA_SLAVE_OFFSET \<equiv> 0xC0"
abbreviation DMA_WREG_SINGLE_CHAN_MASK :: u8 where "DMA_WREG_SINGLE_CHAN_MASK \<equiv> 0x0A"
abbreviation DMA_WREG_MODE :: u8 where "DMA_WREG_MODE \<equiv> 0x0B"
abbreviation DMA_WREG_FLIPFLOP_RESET :: u8 where "DMA_WREG_FLIPFLOP_RESET \<equiv> 0x0C"
abbreviation DMA_MODE_TRANSFER_DEV_TO_MEM :: u8 where "DMA_MODE_TRANSFER_DEV_TO_MEM \<equiv> 0x04"
abbreviation DMA_MODE_TRANSFER_MEM_TO_DEV :: u8 where "DMA_MODE_TRANSFER_MEM_TO_DEV \<equiv> 0x08"

abbreviation addr_regs :: "u8 list" where "addr_regs \<equiv> [0x00, 0x02, 0x04, 0x06]"
abbreviation count_regs :: "u8 list" where "count_regs \<equiv> [0x01, 0x03, 0x05, 0x07]"
abbreviation page_regs :: "u8 list" where "page_regs \<equiv> [0x87, 0x83, 0x81, 0x82]"

definition dma_reg_write :: "u8 \<Rightarrow> u8 \<Rightarrow> u8 \<Rightarrow> 'a io_state_scheme \<Rightarrow> 'a io_state_scheme" where
  "dma_reg_write channel reg value s =
     (let reg = (if 3 < channel then (if 0x0F < reg then reg + 8 else reg * 2 + DMA_SLAVE_OFFSET) else reg)
      in io_out8 (ucast reg) value s)"

definition dma_reg_write16 :: "u8 \<Rightarrow> u8 \<Rightarrow> u16 \<Rightarrow> 'a io_state_scheme \<Rightarrow> 'a io_state_scheme" where
  "dma_reg_write16 channel reg value s =
     (let s = dma_reg_write channel DMA_WREG_FLIPFLOP_RESET 0xFF s;
          s = dma_reg_write channel reg (ucast (value AND 0xFF)) s
      in dma_reg_write channel reg (ucast (drop_bit 8 value AND 0xFF)) s)"

definition dma_set_start_addr :: "u8 \<Rightarrow> u32 \<Rightarrow> 'a io_state_scheme \<Rightarrow> 'a io_state_scheme option" where
  "dma_set_start_addr channel addr s =
     (if drop_bit 24 addr \<noteq> 0 then None
      else let s = dma_reg_write16 channel (addr_regs ! unat (channel mod 4)) (ucast (addr AND 0x0000FFFF)) s
           in Some (dma_reg_write channel (page_regs ! unat (channel mod 4)) (ucast (drop_bit 16 addr AND 0xFF)) s))"

definition dma_setup :: "u8 \<Rightarrow> u8 \<Rightarrow> u32 \<Rightarrow> u32 \<Rightarrow> int \<Rightarrow> 'a io_state_scheme \<Rightarrow> 'a io_state_scheme option" where
  "dma_setup channel mode buf bytes dir s =
     (let count = bytes - 1
      in if drop_bit 24 buf \<noteq> 0 \<or> drop_bit 16 count \<noteq> 0 \<or> drop_bit 16 ((buf AND 0xFFFF) + count) \<noteq> 0 then None
         else let mode = mode OR (channel mod 4)
              in do {
                   mode \<leftarrow> (if dir = dma_dir_read then Some (mode OR DMA_MODE_TRANSFER_DEV_TO_MEM)
                            else if dir = dma_dir_write then Some (mode OR DMA_MODE_TRANSFER_MEM_TO_DEV)
                            else None);
                   s \<leftarrow> Some (dma_reg_write channel DMA_WREG_SINGLE_CHAN_MASK 0x06 s);
                   s \<leftarrow> dma_set_start_addr channel buf s;
                   s \<leftarrow> Some (dma_reg_write16 channel (count_regs ! unat (channel mod 4)) (ucast ((bytes - 1) AND 0x0000FFFF)) s);
                   s \<leftarrow> Some (dma_reg_write channel DMA_WREG_MODE mode s);
                   Some (dma_reg_write channel DMA_WREG_SINGLE_CHAN_MASK 0x02 s)
                 })"

section \<open>CMOS\<close>

abbreviation CMOS_PORT_REG :: u16 where "CMOS_PORT_REG \<equiv> 0x70"
abbreviation CMOS_PORT_DOUT :: u16 where "CMOS_PORT_DOUT \<equiv> 0x71"
abbreviation CMOS_REG_FD_INFO :: u8 where "CMOS_REG_FD_INFO \<equiv> 0x10"
abbreviation CMOS_CACHED_FDTYPE :: u8 where "CMOS_CACHED_FDTYPE \<equiv> 1"
abbreviation CMOS_FD_B :: u8 where "CMOS_FD_B \<equiv> 1"

text \<open>\<open>None\<close> stands for a read outside the table of month offsets.\<close>

definition day_of_week :: "u16 \<Rightarrow> u8 \<Rightarrow> u8 \<Rightarrow> int option" where
  "day_of_week y m d =
     (let t = [0, 3, 2, 5, 0, 3, 5, 1, 4, 6, 2, 4];
          y = (if m < 3 then y - 1 else y)
      in if 1 \<le> m \<and> m \<le> 12
         then Some ((uint y + uint y div 4 - uint y div 100 + uint y div 400 + t ! (unat m - 1) + uint d) mod 7)
         else None)"

definition cmos_read :: "device_io \<Rightarrow> u8 \<Rightarrow> 'a io_state_scheme \<Rightarrow> 'a io_state_scheme \<times> u8" where
  "cmos_read dev reg s =
     (let s = io_out8 CMOS_PORT_REG (push_bit 7 (s_nmi_disabled s) OR reg) s;
          s = io_wait s
      in io_in8 dev CMOS_PORT_DOUT s)"

definition cmos_init :: "'a io_state_scheme \<Rightarrow> 'a io_state_scheme" where
  "cmos_init s = s\<lparr>s_nmi_disabled := 0, s_cmos_cached := 0, s_cmos_initialized := 1\<rparr>"

definition cmos_disable_nmi :: "'a io_state_scheme \<Rightarrow> 'a io_state_scheme option" where
  "cmos_disable_nmi s = (if s_nmi_disabled s = 0 then Some (s\<lparr>s_nmi_disabled := 1\<rparr>) else None)"

definition cmos_enable_nmi :: "'a io_state_scheme \<Rightarrow> 'a io_state_scheme option" where
  "cmos_enable_nmi s = (if s_nmi_disabled s \<noteq> 0 then Some (s\<lparr>s_nmi_disabled := 0\<rparr>) else None)"

definition cmos_fd_type :: "device_io \<Rightarrow> u8 \<Rightarrow> 'a io_state_scheme \<Rightarrow> ('a io_state_scheme \<times> u8) option" where
  "cmos_fd_type dev drive s =
     (if s_cmos_initialized s = 0 then None
      else if CMOS_FD_B < drive then Some (s, 0)
      else let s = (if s_cmos_cached s AND CMOS_CACHED_FDTYPE = 0
                    then case cmos_read dev CMOS_REG_FD_INFO s of
                      (s, v) \<Rightarrow> s\<lparr>s_cmos_fdtype := v, s_cmos_cached := s_cmos_cached s OR CMOS_CACHED_FDTYPE\<rparr>
                    else s)
           in Some (s, if drive \<noteq> 0 then s_cmos_fdtype s AND 0x0F else drop_bit 4 (s_cmos_fdtype s AND 0xF0)))"

definition cmos_probe :: "'a io_state_scheme \<Rightarrow> 'a io_state_scheme \<times> int" where
  "cmos_probe s = (cmos_init s, 0)"

section \<open>The interrupt controllers\<close>

abbreviation IRQ0_OFFSET :: u32 where "IRQ0_OFFSET \<equiv> 0x20"
abbreviation PIC1_CMD :: u16 where "PIC1_CMD \<equiv> 0x20"
abbreviation PIC2_CMD :: u16 where "PIC2_CMD \<equiv> 0xA0"
abbreviation PIC1_DAT :: u16 where "PIC1_DAT \<equiv> PIC1_CMD + 1"
abbreviation PIC2_DAT :: u16 where "PIC2_DAT \<equiv> PIC2_CMD + 1"
abbreviation PIC_EOI :: u8 where "PIC_EOI \<equiv> 0x20"
abbreviation PIC_OCW3_READ_IRR :: u8 where "PIC_OCW3_READ_IRR \<equiv> 0x0A"
abbreviation PIC_OCW3_READ_ISR :: u8 where "PIC_OCW3_READ_ISR \<equiv> 0x0B"
abbreviation ICW1_ICW4 :: u8 where "ICW1_ICW4 \<equiv> 0x01"
abbreviation ICW1_INIT :: u8 where "ICW1_INIT \<equiv> 0x10"
abbreviation ICW4_8086 :: u8 where "ICW4_8086 \<equiv> 0x01"
abbreviation CASCADE_IRQ :: nat where "CASCADE_IRQ \<equiv> 2"

definition pic_remap :: "'a io_state_scheme \<Rightarrow> 'a io_state_scheme" where
  "pic_remap s =
     (let offset_1 = 0x20; offset_2 = 0x28;
          s = io_wait (io_out8 PIC1_CMD (ICW1_INIT OR ICW1_ICW4) s);
          s = io_wait (io_out8 PIC2_CMD (ICW1_INIT OR ICW1_ICW4) s);
          s = io_wait (io_out8 PIC1_DAT offset_1 s);
          s = io_wait (io_out8 PIC2_DAT offset_2 s);
          s = io_wait (io_out8 PIC1_DAT (push_bit CASCADE_IRQ 1) s);
          s = io_wait (io_out8 PIC2_DAT 2 s);
          s = io_wait (io_out8 PIC1_DAT ICW4_8086 s);
          s = io_wait (io_out8 PIC2_DAT ICW4_8086 s);
          s = io_out8 PIC1_DAT 0 s
      in io_out8 PIC2_DAT 0 s)"

definition pic_get_port :: "u8 \<Rightarrow> u16 \<times> u8" where
  "pic_get_port irq =
     (let port = (if irq < 8 then PIC1_DAT else PIC2_DAT)
      in (port, if port = PIC2_DAT then irq - 8 else irq))"

definition pic_mask_irq :: "device_io \<Rightarrow> u8 \<Rightarrow> 'a io_state_scheme \<Rightarrow> 'a io_state_scheme" where
  "pic_mask_irq dev irq s =
     (case pic_get_port irq of (port, irq) \<Rightarrow>
      case io_in8 dev port s of (s, v) \<Rightarrow> io_out8 port (v OR push_bit (unat irq) 1) s)"

definition pic_unmask_irq :: "device_io \<Rightarrow> u8 \<Rightarrow> 'a io_state_scheme \<Rightarrow> 'a io_state_scheme" where
  "pic_unmask_irq dev irq s =
     (case pic_get_port irq of (port, irq) \<Rightarrow>
      case io_in8 dev port s of (s, v) \<Rightarrow> io_out8 port (v AND NOT (push_bit (unat irq) 1)) s)"

definition pic_get_irq_reg :: "device_io \<Rightarrow> u8 \<Rightarrow> 'a io_state_scheme \<Rightarrow> 'a io_state_scheme \<times> u16" where
  "pic_get_irq_reg dev ocw3 s =
     (let s = io_out8 PIC1_CMD ocw3 s;
          s = io_out8 PIC2_CMD ocw3 s
      in case io_in8 dev PIC2_CMD s of (s, hi) \<Rightarrow>
         case io_in8 dev PIC1_CMD s of (s, lo) \<Rightarrow> (s, push_bit 8 (ucast hi) OR ucast lo))"

definition pic_get_irr :: "device_io \<Rightarrow> 'a io_state_scheme \<Rightarrow> 'a io_state_scheme \<times> u16" where
  "pic_get_irr dev s = pic_get_irq_reg dev PIC_OCW3_READ_IRR s"

definition pic_get_isr :: "device_io \<Rightarrow> 'a io_state_scheme \<Rightarrow> 'a io_state_scheme \<times> u16" where
  "pic_get_isr dev s = pic_get_irq_reg dev PIC_OCW3_READ_ISR s"

definition pic_eoi :: "u8 \<Rightarrow> 'a io_state_scheme \<Rightarrow> 'a io_state_scheme" where
  "pic_eoi irq s =
     (let s = (if unat IRQ0_OFFSET + 8 \<le> unat irq then io_out8 PIC2_CMD PIC_EOI s else s)
      in io_out8 PIC1_CMD PIC_EOI s)"

section \<open>What the DMA controller is told\<close>

text \<open>The buffers the controller can reach: below 16 MB, and inside one 64 KB page.\<close>

definition dma_window :: "u32 \<Rightarrow> u32 \<Rightarrow> bool" where
  "dma_window buf bytes \<longleftrightarrow> 0 < bytes \<and> unat buf + unat bytes \<le> 2 ^ 24 \<and>
     unat buf div 65536 = (unat buf + unat bytes - 1) div 65536"

lemma drop_bit_zero_iff: "drop_bit n (w :: u32) = 0 \<longleftrightarrow> unat w < 2 ^ n"
proof -
  have "unat (drop_bit n w) = unat w div 2 ^ n" by (subst unat_drop_bit_eq) (simp only: drop_bit_eq_div)
  then show ?thesis by (metis div_eq_0_iff power_not_zero unat_eq_zero zero_neq_numeral)
qed

lemma low16: "unat ((w :: u32) AND 0xFFFF) = unat w mod 65536"
proof -
  have "w AND 0xFFFF = take_bit 16 w" by (simp add: take_bit_eq_mask mask_eq_exp_minus_1)
  then show ?thesis by (simp add: unat_take_bit)
qed

lemma page_arith:
  fixes b n :: nat
  assumes "0 < n" "b < 2 ^ 24"
  shows "n - 1 < 65536 \<and> b mod 65536 + (n - 1) < 65536 \<longleftrightarrow> b + n \<le> 2 ^ 24 \<and> b div 65536 = (b + n - 1) div 65536"
proof -
  define q r where "q = b div 65536" and "r = b mod 65536"
  have b: "b = q * 65536 + r" "r < 65536" by (simp_all add: q_def r_def)
  have q: "q < 256" using assms(2) by (simp add: q_def less_mult_imp_div_less)
  have "b + n - 1 = (r + (n - 1)) + q * 65536" using b(1) assms(1) by simp
  then have "(b + n - 1) div 65536 = q + (r + (n - 1)) div 65536" by simp
  then have "q = (b + n - 1) div 65536 \<longleftrightarrow> r + (n - 1) < 65536" by (simp add: div_eq_0_iff)
  then show ?thesis unfolding q_def [symmetric] r_def [symmetric] using b q assms(1) by auto
qed

lemma dma_guard:
  "drop_bit 24 buf \<noteq> 0 \<or> drop_bit 16 (bytes - 1) \<noteq> 0 \<or> drop_bit 16 ((buf AND 0xFFFF) + (bytes - 1)) \<noteq> 0 \<longleftrightarrow>
     \<not> dma_window buf (bytes :: u32)"
proof (cases "bytes = 0")
  case False
  then have n: "unat (bytes - 1) = unat bytes - 1" "0 < unat bytes" by (simp_all add: unat_minus_one unat_gt_0)
  show ?thesis
  proof (cases "unat buf < 2 ^ 24")
    case True
    have "unat ((buf AND 0xFFFF) + (bytes - 1)) = unat buf mod 65536 + (unat bytes - 1)" if "unat bytes - 1 < 65536"
      using that by (subst unat_add_small) (simp_all add: low16 n add_less_le_mono [of _ 65536])
    then show ?thesis using True page_arith [OF n(2) True] n(2)
      by (auto simp: dma_window_def drop_bit_zero_iff n(1) word_gt_0 False)
  next
    case far: False
    then have "drop_bit 24 buf \<noteq> 0" by (simp add: drop_bit_zero_iff)
    moreover have "\<not> dma_window buf bytes" using far n(2) by (simp add: dma_window_def)
    ultimately show ?thesis by blast
  qed
qed (simp add: dma_window_def)

lemma byte_of: "ucast ((v :: u16) AND 0xFF) = (ucast v :: u8)" "ucast (drop_bit 8 (v :: u16) AND 0xFF) = (ucast (drop_bit 8 v) :: u8)"
proof -
  have m: "w AND 0xFF = take_bit 8 w" for w :: u16 by (simp add: take_bit_eq_mask mask_eq_exp_minus_1)
  show "ucast (v AND 0xFF) = (ucast v :: u8)" "ucast (drop_bit 8 v AND 0xFF) = (ucast (drop_bit 8 v) :: u8)"
    unfolding m by (auto intro!: bit_word_eqI simp: bit_simps)
qed

lemma u16_bytes: "unat (ucast v :: u8) + 256 * unat (ucast (drop_bit 8 v) :: u8) = unat (v :: u16)"
proof -
  have lo: "unat (ucast v :: u8) = unat v mod 256" by (simp add: unsigned_ucast_eq take_bit_eq_mod)
  have "unat (drop_bit 8 v) = unat v div 256" by (subst unat_drop_bit_eq) (simp add: drop_bit_eq_div)
  then have hi: "unat (ucast (drop_bit 8 v) :: u8) = unat v div 256"
    using unat_lt16 [of v] by (simp add: unsigned_ucast_eq take_bit_eq_mod)
  show ?thesis unfolding lo hi by simp
qed

lemma u16_of_low: "unat (ucast ((w :: u32) AND 0xFFFF) :: u16) = unat w mod 65536"
  by (simp add: unsigned_ucast_eq take_bit_eq_mod low16)

lemma page_byte: "unat w < 2 ^ 24 \<Longrightarrow> unat (ucast (drop_bit 16 (w :: u32) AND 0xFF) :: u8) = unat w div 65536"
proof -
  assume "unat w < 2 ^ 24"
  then have lt: "unat w div 65536 < 256" by (simp add: less_mult_imp_div_less)
  have "drop_bit 16 w AND 0xFF = take_bit 8 (drop_bit 16 w)" by (simp add: take_bit_eq_mask mask_eq_exp_minus_1)
  moreover have "unat (drop_bit 16 w) = unat w div 65536" by (subst unat_drop_bit_eq) (simp add: drop_bit_eq_div)
  ultimately have "unat (drop_bit 16 w AND 0xFF) = unat w div 65536" using lt by (simp add: unat_take_bit)
  then show ?thesis using lt by (simp add: unsigned_ucast_eq take_bit_eq_mod)
qed

lemma dma_setup_log:
  assumes "ch < 4" "dma_window buf bytes" "dir = dma_dir_read \<or> dir = dma_dir_write"
  shows "dma_setup ch mode buf bytes dir s = Some (s\<lparr>io_log := io_log s @
     (let a = ucast (buf AND 0xFFFF) :: u16; n = ucast ((bytes - 1) AND 0xFFFF) :: u16 in
     [Out8 0x0A 6, Out8 0x0C 0xFF, Out8 (ucast (addr_regs ! unat ch)) (ucast a), Out8 (ucast (addr_regs ! unat ch)) (ucast (drop_bit 8 a)),
      Out8 (ucast (page_regs ! unat ch)) (ucast (drop_bit 16 buf AND 0xFF)),
      Out8 0x0C 0xFF, Out8 (ucast (count_regs ! unat ch)) (ucast n), Out8 (ucast (count_regs ! unat ch)) (ucast (drop_bit 8 n)),
      Out8 0x0B (mode OR ch OR (if dir = dma_dir_read then 4 else 8)), Out8 0x0A 2])\<rparr>)"
proof -
  have "ch mod 4 = ch" "\<not> 3 < ch" using assms(1) by (simp_all add: word_less_nat_alt word_unat_eq_iff unat_mod_distrib)
  moreover have "drop_bit 24 buf = 0" "\<not> (drop_bit 24 buf \<noteq> 0 \<or> drop_bit 16 (bytes - 1) \<noteq> 0 \<or> drop_bit 16 ((buf AND 0xFFFF) + (bytes - 1)) \<noteq> 0)"
    using dma_guard [of buf bytes] assms(2) by blast+
  ultimately show ?thesis using assms(3)
    by (auto simp: dma_setup_def Let_def dma_set_start_addr_def dma_reg_write16_def dma_reg_write_def io_out8_def byte_of or.assoc)
qed



end
