(* ===== verification/Terminal.thy ===== *)
theory Terminal
  imports Portio
begin

text \<open>
  \<open>kernel/terminal.c\<close> and the output half of \<open>kernel/serial_debug.c\<close>: the text-mode screen and the
  serial line every printed character also goes to. The screen memory is a map from cell index to
  cell. The environment gives the hardware behind the ports, what other tasks do while the current
  one waits, the address of the serial ring buffer, the address of the byte handed to it, and what an
  uninitialised local array of \<open>kprintf\<close> happens to hold.
\<close>

section \<open>State\<close>

datatype serial_sink = Do_serial_out | Serial_buffer

record console = io_state +
  TERM_WIDTH :: u32
  TERM_HEIGH :: u32
  g_row :: u32
  g_col :: u32
  g_cur_color :: u8
  g_buf :: "u32 \<Rightarrow> u16"
  g_terminal_initialized :: bool
  s_serial_enabled :: bool
  s_emu_serial_found :: bool
  s_port :: u16
  serial_out :: serial_sink
  selected_rate :: u8
  baud_rate :: u32

record 's con_env =
  e_dev :: device_io
  e_others :: "'s \<Rightarrow> 's option"
  e_serial_rb :: u32
  e_byte :: u32
  e_uninit :: "nat \<Rightarrow> u32 list"

type_synonym 'a cenv = "'a console_scheme con_env"

section \<open>The serial line\<close>

abbreviation RREG_LINESTATUS :: u16 where "RREG_LINESTATUS \<equiv> 5"
abbreviation WREG_TX :: u16 where "WREG_TX \<equiv> 0"

definition getreg :: "'a cenv \<Rightarrow> u16 \<Rightarrow> 'a console_scheme \<Rightarrow> 'a console_scheme \<times> u8" where
  "getreg E reg s = io_in8 (e_dev E) (s_port s + reg) s"

definition setreg :: "u16 \<Rightarrow> u8 \<Rightarrow> 'a console_scheme \<Rightarrow> 'a console_scheme" where
  "setreg reg value s = io_out8 (s_port s + reg) value s"

text \<open>The wait for an empty transmitter; \<open>None\<close> if it never empties.\<close>

partial_function (option) serial_wait :: "'a cenv \<Rightarrow> 'a console_scheme \<Rightarrow> 'a console_scheme option" where
  "serial_wait E s = (case getreg E RREG_LINESTATUS s of (s, v) \<Rightarrow> if v AND 0x20 = 0 then serial_wait E s else Some s)"

definition do_serial_out :: "'a cenv \<Rightarrow> u8 \<Rightarrow> 'a console_scheme \<Rightarrow> 'a console_scheme option" where
  "do_serial_out E c s =
     (let s = (if s_emu_serial_found s then io_out8 0xE9 c s else s)
      in if \<not> s_serial_enabled s then Some s
         else do { s \<leftarrow> serial_wait E s; Some (setreg WREG_TX c s) })"

definition serial_buffer :: "'a cenv \<Rightarrow> u8 \<Rightarrow> 'a console_scheme \<Rightarrow> 'a console_scheme option" where
  "serial_buffer E c s = put_byte (e_others E) (e_serial_rb E) (e_byte E) c s"

definition serial_out_byte :: "'a cenv \<Rightarrow> u8 \<Rightarrow> 'a console_scheme \<Rightarrow> 'a console_scheme option" where
  "serial_out_byte E c s =
     (case serial_out s of Do_serial_out \<Rightarrow> do_serial_out E c s | Serial_buffer \<Rightarrow> serial_buffer E c s)"

section \<open>The screen\<close>

abbreviation vga_entry_color :: "u8 \<Rightarrow> u8 \<Rightarrow> u8" where
  "vga_entry_color fg bg \<equiv> fg OR push_bit 4 bg"

definition vga_entry :: "u16 \<Rightarrow> u8 \<Rightarrow> u16" where
  "vga_entry uc color = (uc AND 0xFF) OR push_bit 8 (ucast color)"

abbreviation light_mode :: u8 where "light_mode \<equiv> vga_entry_color 8 7"
abbreviation dark_mode :: u8 where "dark_mode \<equiv> vga_entry_color 15 0"

definition cell :: "'a console_scheme \<Rightarrow> u32 \<Rightarrow> u32 \<Rightarrow> u32" where
  "cell s y x = y * TERM_WIDTH s + x"

definition set_cell :: "u32 \<Rightarrow> u16 \<Rightarrow> 'a console_scheme \<Rightarrow> 'a console_scheme" where
  "set_cell i v s = s\<lparr>g_buf := (g_buf s)(i := v)\<rparr>"

text \<open>The two nested loops over the screen: rows from the top, cells from the left.\<close>

function row_loop :: "(u32 \<Rightarrow> 'a console_scheme \<Rightarrow> 'a console_scheme) \<Rightarrow> u32 \<Rightarrow> u32 \<Rightarrow> 'a console_scheme \<Rightarrow> 'a console_scheme" where
  "row_loop f w x s = (if x < w then row_loop f w (x + 1) (f x s) else s)"
  by pat_completeness auto
termination
  by (relation "measure (\<lambda>(f, w, x, s). unat w - unat x)") (auto intro: loop_up_measure)

function screen_loop :: "(u32 \<Rightarrow> u32 \<Rightarrow> 'a console_scheme \<Rightarrow> 'a console_scheme) \<Rightarrow> u32 \<Rightarrow> u32 \<Rightarrow> u32 \<Rightarrow> 'a console_scheme \<Rightarrow> 'a console_scheme" where
  "screen_loop f w h y s = (if y < h then screen_loop f w h (y + 1) (row_loop (f y) w 0 s) else s)"
  by pat_completeness auto
termination
  by (relation "measure (\<lambda>(f, w, h, y, s). unat h - unat y)") (auto intro: loop_up_measure)

declare row_loop.simps [simp del] screen_loop.simps [simp del]

definition terminal_redraw_color :: "'a console_scheme \<Rightarrow> 'a console_scheme" where
  "terminal_redraw_color s =
     screen_loop (\<lambda>y x s. set_cell (cell s y x) (vga_entry (g_buf s (cell s y x)) (g_cur_color s)) s)
       (TERM_WIDTH s) (TERM_HEIGH s) 0 s"

definition toggle_dark_mode :: "'a console_scheme \<Rightarrow> 'a console_scheme" where
  "toggle_dark_mode s =
     terminal_redraw_color (if g_cur_color s = light_mode then s\<lparr>g_cur_color := dark_mode\<rparr> else s\<lparr>g_cur_color := light_mode\<rparr>)"

definition terminal_clear :: "'a console_scheme \<Rightarrow> 'a console_scheme" where
  "terminal_clear s =
     (let s = s\<lparr>g_row := 0, g_col := 0, g_cur_color := dark_mode\<rparr>
      in screen_loop (\<lambda>y x s. set_cell (cell s y x) (vga_entry 0x20 (g_cur_color s)) s) (TERM_WIDTH s) (TERM_HEIGH s) 0 s)"

definition set_cursor_pos :: "u32 \<Rightarrow> u32 \<Rightarrow> 'a console_scheme \<Rightarrow> 'a console_scheme" where
  "set_cursor_pos x y s =
     (let pos = ucast (y * TERM_WIDTH s + x) :: u16;
          s = io_out8 0x3D4 0x0F s;
          s = io_out8 0x3D5 (ucast (pos AND 0xFF)) s;
          s = io_out8 0x3D4 0x0E s
      in io_out8 0x3D5 (ucast (drop_bit 8 pos AND 0xFF)) s)"

definition terminal_putentryat :: "u8 \<Rightarrow> u8 \<Rightarrow> u32 \<Rightarrow> u32 \<Rightarrow> 'a console_scheme \<Rightarrow> 'a console_scheme option" where
  "terminal_putentryat c color x y s =
     (if x < TERM_WIDTH s \<and> y < TERM_HEIGH s then Some (set_cell (cell s y x) (vga_entry (ucast c) color) s) else None)"

definition terminal_scroll :: "'a console_scheme \<Rightarrow> 'a console_scheme option" where
  "terminal_scroll s =
     (let s = cli_push s;
          s = screen_loop (\<lambda>y x s. set_cell (cell s y x)
                (if y < TERM_HEIGH s - 1 then g_buf s (cell s (y + 1) x) else 0x20 OR push_bit 8 (ucast (g_cur_color s))) s)
                (TERM_WIDTH s) (TERM_HEIGH s) 0 s;
          s = s\<lparr>g_col := 0, g_row := TERM_HEIGH s - 1\<rparr>
      in cli_pop s)"

definition write_serial :: "'a cenv \<Rightarrow> u8 \<Rightarrow> 'a console_scheme \<Rightarrow> 'a console_scheme option" where
  "write_serial E c s = serial_out_byte E c s"

text \<open>Every path but one ends by moving the hardware cursor and sending the character on.\<close>

definition con_finish :: "'a cenv \<Rightarrow> bool \<Rightarrow> u8 \<Rightarrow> 'a console_scheme \<Rightarrow> 'a console_scheme option" where
  "con_finish E serial c s =
     (let s = set_cursor_pos (g_col s) (g_row s) s in if serial then write_serial E c s else Some s)"

text \<open>\<open>if (++g_row == TERM_HEIGH) terminal_scroll();\<close>\<close>

definition next_row :: "'a console_scheme \<Rightarrow> 'a console_scheme option" where
  "next_row s = (let s = s\<lparr>g_row := g_row s + 1\<rparr> in if g_row s = TERM_HEIGH s then terminal_scroll s else Some s)"

function terminal_putchar :: "'a cenv \<Rightarrow> bool \<Rightarrow> u8 \<Rightarrow> 'a console_scheme \<Rightarrow> 'a console_scheme option" where
  "terminal_putchar E serial c s =
     (if c = 0x0A then do { s \<leftarrow> next_row (s\<lparr>g_col := 0\<rparr>); con_finish E serial c s }
      else if c = 0x0D then con_finish E serial c (s\<lparr>g_col := 0\<rparr>)
      else if c = 0x09 then do {
        s \<leftarrow> terminal_putchar E serial 0x20 s;
        s \<leftarrow> terminal_putchar E serial 0x20 s;
        s \<leftarrow> terminal_putchar E serial 0x20 s;
        s \<leftarrow> terminal_putchar E serial 0x20 s;
        con_finish E serial c s }
      else if c = 0x08 then
        (if g_col s = 0 \<and> g_row s = 0 then Some s
         else do {
           s \<leftarrow> (if g_col s = 0 then Some (s\<lparr>g_row := g_row s - 1, g_col := TERM_WIDTH s - 1\<rparr>)
                 else let s = s\<lparr>g_col := g_col s - 1\<rparr>
                      in terminal_putentryat 0x20 (g_cur_color s) (g_col s) (g_row s) s);
           s \<leftarrow> (if serial then write_serial E c s else Some s);
           con_finish E serial c s })
      else do {
        s \<leftarrow> terminal_putentryat c (g_cur_color s) (g_col s) (g_row s) s;
        s \<leftarrow> Some (s\<lparr>g_col := g_col s + 1\<rparr>);
        s \<leftarrow> (if g_col s = TERM_WIDTH s then next_row (s\<lparr>g_col := 0\<rparr>) else Some s);
        con_finish E serial c s })"
  by pat_completeness auto
termination
  by (relation "measure (\<lambda>(E, serial, c, s). if c = 9 then 1 else 0)") auto

declare terminal_putchar.simps [simp del]

text \<open>The loop of \<open>terminal_write\<close> over the bytes from \<open>data\<close>.\<close>

primrec terminal_write :: "'a cenv \<Rightarrow> bool \<Rightarrow> u8 list \<Rightarrow> 'a console_scheme \<Rightarrow> 'a console_scheme option" where
  "terminal_write E serial [] s = Some s"
| "terminal_write E serial (c # data) s = do { s \<leftarrow> terminal_putchar E serial c s; terminal_write E serial data s }"

text \<open>The same loop over memory, which it reads as it goes.\<close>

primrec terminal_write_mem :: "'a cenv \<Rightarrow> bool \<Rightarrow> u32 \<Rightarrow> nat \<Rightarrow> 'a console_scheme \<Rightarrow> 'a console_scheme option" where
  "terminal_write_mem E serial data 0 s = Some s"
| "terminal_write_mem E serial data (Suc n) s =
     do { s \<leftarrow> terminal_putchar E serial (kmem s data) s; terminal_write_mem E serial (data + 1) n s }"

definition do_term_write :: "'a cenv \<Rightarrow> u32 \<Rightarrow> u32 \<Rightarrow> 'a console_scheme \<Rightarrow> ('a console_scheme \<times> u32) option" where
  "do_term_write E buf n s = do { s \<leftarrow> terminal_write_mem E True buf (unat n) s; Some (s, n) }"

section \<open>The cursor stays on the screen\<close>

definition term_ok :: "'a console_scheme \<Rightarrow> bool" where
  "term_ok s \<longleftrightarrow> g_row s < TERM_HEIGH s \<and> g_col s < TERM_WIDTH s \<and> 0 \<le> cli_depth s"

text \<open>The serial line is written directly, and if it is enabled the transmitter reports itself empty.\<close>

definition serial_ready :: "'a cenv \<Rightarrow> 'a console_scheme \<Rightarrow> bool" where
  "serial_ready E s \<longleftrightarrow> serial_out s = Do_serial_out \<and>
     (s_serial_enabled s \<longrightarrow> (\<forall>log. e_dev E log (s_port s + RREG_LINESTATUS) AND 0x20 \<noteq> 0))"

definition con_same :: "'a console_scheme \<Rightarrow> 'a console_scheme \<Rightarrow> bool" where
  "con_same s s' \<longleftrightarrow> kmem s' = kmem s \<and> TERM_WIDTH s' = TERM_WIDTH s \<and> TERM_HEIGH s' = TERM_HEIGH s \<and>
     cli_depth s' = cli_depth s \<and> serial_out s' = serial_out s \<and> s_serial_enabled s' = s_serial_enabled s \<and>
     s_port s' = s_port s \<and> g_terminal_initialized s' = g_terminal_initialized s \<and> rbs s' = rbs s \<and> sems s' = sems s \<and>
     console.more s' = console.more s"

lemma con_same_refl [simp]: "con_same s s"
  by (simp add: con_same_def)

lemma con_same_trans: "con_same s t \<Longrightarrow> con_same t u \<Longrightarrow> con_same s u"
  by (simp add: con_same_def)

lemma con_same_ready: "con_same s t \<Longrightarrow> serial_ready E s \<Longrightarrow> serial_ready E t"
  by (simp add: con_same_def serial_ready_def)

lemma con_same_cursor [simp]:
  "con_same s (s\<lparr>g_col := a\<rparr>)" "con_same s (s\<lparr>g_row := b\<rparr>)" "con_same s (s\<lparr>g_row := b, g_col := a\<rparr>)"
  "con_same s (set_cell i v s)" "con_same s (io_out8 p w s)"
  by (simp_all add: con_same_def set_cell_def io_out8_def)

lemma row_loop_inv: "(\<And>x s. P s \<Longrightarrow> P (f x s)) \<Longrightarrow> P s \<Longrightarrow> P (row_loop f w x s)"
  by (induction f w x s rule: row_loop.induct) (subst row_loop.simps, auto)

lemma screen_loop_inv: "(\<And>y x s. P s \<Longrightarrow> P (f y x s)) \<Longrightarrow> P s \<Longrightarrow> P (screen_loop f w h y s)"
  by (induction f w h y s rule: screen_loop.induct) (subst screen_loop.simps, auto intro: row_loop_inv)

lemma screen_loop_cells: "\<exists>b. screen_loop (\<lambda>y x s. set_cell (i y x s) (v y x s) s) w h y s = s\<lparr>g_buf := b\<rparr>"
proof (rule screen_loop_inv [where P = "\<lambda>t. \<exists>b. t = s\<lparr>g_buf := b\<rparr>"])
  show "\<exists>b. s = s\<lparr>g_buf := b\<rparr>" by (rule exI [of _ "g_buf s"]) simp
qed (auto simp: set_cell_def)

lemma terminal_scroll_ok:
  assumes "0 \<le> cli_depth s" "0 < TERM_WIDTH s" "0 < TERM_HEIGH s"
  shows "\<exists>s'. terminal_scroll s = Some s' \<and> con_same s s' \<and> term_ok s'"
proof -
  let ?c = "cli_push s"
  obtain b where b: "screen_loop (\<lambda>y x s. set_cell (cell s y x)
     (if y < TERM_HEIGH s - 1 then g_buf s (cell s (y + 1) x) else 0x20 OR push_bit 8 (ucast (g_cur_color s))) s)
     (TERM_WIDTH ?c) (TERM_HEIGH ?c) 0 ?c = ?c\<lparr>g_buf := b\<rparr>" by (rule exE [OF screen_loop_cells])
  have "TERM_HEIGH s - 1 < TERM_HEIGH s" using assms(3) by (simp add: word_less_nat_alt unat_minus_one unat_gt_0)
  then show ?thesis using assms b
    by (auto simp: terminal_scroll_def Let_def cli_push_def cli_pop_def cli_def sti_def con_same_def term_ok_def)
qed

lemma serial_wait_ready:
  assumes "\<forall>log. e_dev E log (s_port s + RREG_LINESTATUS) AND 0x20 \<noteq> 0"
  shows "\<exists>s'. serial_wait E s = Some s' \<and> (\<exists>l. s' = s\<lparr>io_log := l\<rparr>)"
  using assms by (subst serial_wait.simps) (auto simp: getreg_def io_in8_def Let_def)

lemma write_serial_ok:
  assumes "serial_ready E s"
  shows "\<exists>s'. write_serial E c s = Some s' \<and> (\<exists>l. s' = s\<lparr>io_log := l\<rparr>)"
proof -
  obtain l0 where e: "(if s_emu_serial_found s then io_out8 0xE9 c s else s) = s\<lparr>io_log := l0\<rparr>" (is "?s = _")
    by (cases "s_emu_serial_found s") (auto simp: io_out8_def intro: that [of "io_log s"])
  have out: "write_serial E c s = do_serial_out E c s" using assms
    by (simp add: write_serial_def serial_out_byte_def serial_ready_def)
  show ?thesis
  proof (cases "s_serial_enabled s")
    case True
    then have "\<forall>log. e_dev E log (s_port (s\<lparr>io_log := l0\<rparr>) + RREG_LINESTATUS) AND 0x20 \<noteq> 0"
      using assms by (simp add: serial_ready_def)
    then obtain l where l: "serial_wait E (s\<lparr>io_log := l0\<rparr>) = Some (s\<lparr>io_log := l\<rparr>)"
      using serial_wait_ready [of E "s\<lparr>io_log := l0\<rparr>"] by auto
    have "do_serial_out E c s = Some (setreg WREG_TX c (s\<lparr>io_log := l\<rparr>))"
      unfolding do_serial_out_def Let_def e using True l by simp
    then show ?thesis unfolding out by (auto simp: setreg_def io_out8_def)
  next
    case False
    then have "do_serial_out E c s = Some (s\<lparr>io_log := l0\<rparr>)" unfolding do_serial_out_def Let_def e by simp
    then show ?thesis unfolding out by blast
  qed
qed

lemma con_step:
  assumes "con_same s t" "serial \<Longrightarrow> serial_ready E s"
  shows "serial \<Longrightarrow> serial_ready E t"
  using assms con_same_ready by blast

lemma con_finish_ok:
  assumes "con_same r s" "term_ok s" "serial \<Longrightarrow> serial_ready E s"
  shows "\<exists>s'. con_finish E serial c s = Some s' \<and> con_same r s' \<and> term_ok s'"
proof -
  let ?s = "set_cursor_pos (g_col s) (g_row s) s"
  have l: "\<exists>l. ?s = s\<lparr>io_log := l\<rparr>" by (auto simp: set_cursor_pos_def Let_def io_out8_def)
  have "\<exists>s' l. con_finish E serial c s = Some s' \<and> s' = s\<lparr>io_log := l\<rparr>"
  proof (cases serial)
    case True
    then have "serial_ready E ?s" using assms(3) l by (auto simp: serial_ready_def)
    from write_serial_ok [OF this, of c] l True show ?thesis by (auto simp: con_finish_def Let_def)
  qed (use l in \<open>auto simp: con_finish_def Let_def\<close>)
  then show ?thesis using assms(1,2) by (auto simp: con_same_def term_ok_def)
qed

lemma next_row_ok:
  assumes "con_same r s" "g_row s < TERM_HEIGH s" "g_col s = 0" "0 < TERM_WIDTH s" "0 \<le> cli_depth s"
  shows "\<exists>s'. next_row s = Some s' \<and> con_same r s' \<and> term_ok s'"
proof (cases "g_row s + 1 = TERM_HEIGH s")
  case True
  let ?t = "s\<lparr>g_row := g_row s + 1\<rparr>"
  have "0 \<le> cli_depth ?t" "0 < TERM_WIDTH ?t" "0 < TERM_HEIGH ?t" using assms by (auto simp: word_gt_0)
  from terminal_scroll_ok [OF this] obtain s' where s': "terminal_scroll ?t = Some s'" "con_same ?t s'" "term_ok s'" by blast
  have "con_same r s'" using assms(1) s'(2) by (simp add: con_same_def)
  then show ?thesis using True s' by (simp add: next_row_def Let_def)
next
  case False
  then have "g_row s + 1 < TERM_HEIGH s" using assms(2) unat_Suc_lt [OF assms(2)]
    by (simp add: word_less_nat_alt word_unat_eq_iff)
  then show ?thesis using False assms by (simp add: next_row_def Let_def term_ok_def con_same_def)
qed

lemma less_pos: "x < (y :: u32) \<Longrightarrow> 0 < y"
  by (simp add: word_less_nat_alt)

lemma pred_less: "x \<noteq> 0 \<Longrightarrow> x \<le> y \<Longrightarrow> x - 1 < (y :: u32)"
  using unat_pred [of x] by (simp add: word_less_nat_alt word_le_nat_alt)

lemma putchar_nl:
  assumes ok: "term_ok s" and tail: "\<And>t. con_same s t \<Longrightarrow> term_ok t \<Longrightarrow> \<exists>s'. con_finish E serial 0x0A t = Some s' \<and> con_same s s' \<and> term_ok s'"
  shows "\<exists>s'. terminal_putchar E serial 0x0A s = Some s' \<and> con_same s s' \<and> term_ok s'"
proof -
  have "\<exists>t. next_row (s\<lparr>g_col := 0\<rparr>) = Some t \<and> con_same s t \<and> term_ok t"
    by (rule next_row_ok) (use ok less_pos in \<open>auto simp: term_ok_def\<close>)
  then obtain t where t: "next_row (s\<lparr>g_col := 0\<rparr>) = Some t" "con_same s t" "term_ok t" by blast
  show ?thesis using tail [OF t(2,3)] t(1) by (subst terminal_putchar.simps) simp
qed

lemma putchar_cr:
  assumes ok: "term_ok s" and tail: "\<And>t. con_same s t \<Longrightarrow> term_ok t \<Longrightarrow> \<exists>s'. con_finish E serial 0x0D t = Some s' \<and> con_same s s' \<and> term_ok s'"
  shows "\<exists>s'. terminal_putchar E serial 0x0D s = Some s' \<and> con_same s s' \<and> term_ok s'"
proof -
  have "term_ok (s\<lparr>g_col := 0\<rparr>)" using ok less_pos by (auto simp: term_ok_def)
  from tail [OF _ this] show ?thesis by (subst terminal_putchar.simps) simp
qed

lemma putentryat_ok:
  "x < TERM_WIDTH s \<Longrightarrow> y < TERM_HEIGH s \<Longrightarrow> terminal_putentryat c color x y s = Some (set_cell (cell s y x) (vga_entry (ucast c) color) s)"
  by (simp add: terminal_putentryat_def)

lemma set_cell_sels [simp]:
  "g_col (set_cell i v s) = g_col s" "g_row (set_cell i v s) = g_row s" "TERM_WIDTH (set_cell i v s) = TERM_WIDTH s"
  "TERM_HEIGH (set_cell i v s) = TERM_HEIGH s" "cli_depth (set_cell i v s) = cli_depth s"
  by (simp_all add: set_cell_def)

lemma putchar_bs:
  assumes ok: "term_ok s" and ready: "serial \<Longrightarrow> serial_ready E s"
    and tail: "\<And>t. con_same s t \<Longrightarrow> term_ok t \<Longrightarrow> \<exists>s'. con_finish E serial 0x08 t = Some s' \<and> con_same s s' \<and> term_ok s'"
  shows "\<exists>s'. terminal_putchar E serial 0x08 s = Some s' \<and> con_same s s' \<and> term_ok s'"
proof (cases "g_col s = 0 \<and> g_row s = 0")
  case False
  let ?m = "if g_col s = 0 then Some (s\<lparr>g_row := g_row s - 1, g_col := TERM_WIDTH s - 1\<rparr>)
     else let s = s\<lparr>g_col := g_col s - 1\<rparr> in terminal_putentryat 0x20 (g_cur_color s) (g_col s) (g_row s) s"
  have "\<exists>t. ?m = Some t \<and> con_same s t \<and> term_ok t"
  proof (cases "g_col s = 0")
    case True
    then have "g_row s - 1 < TERM_HEIGH s" "TERM_WIDTH s - 1 < TERM_WIDTH s"
      using ok False by (auto simp: term_ok_def intro!: pred_less)
    then show ?thesis using True ok by (auto simp: term_ok_def)
  next
    case nz: False
    let ?t = "s\<lparr>g_col := g_col s - 1\<rparr>"
    have lt: "g_col s - 1 < TERM_WIDTH s" using ok nz by (auto simp: term_ok_def intro!: pred_less)
    then have "terminal_putentryat 0x20 (g_cur_color ?t) (g_col ?t) (g_row ?t) ?t =
       Some (set_cell (cell ?t (g_row ?t) (g_col ?t)) (vga_entry (ucast (0x20 :: u8)) (g_cur_color ?t)) ?t)"
      using ok by (intro putentryat_ok) (simp_all add: term_ok_def)
    moreover have "con_same s (set_cell i v ?t)" "term_ok (set_cell i v ?t)" for i v
      using ok lt by (simp_all add: con_same_def term_ok_def set_cell_def)
    ultimately show ?thesis using nz by (auto simp: Let_def)
  qed
  then obtain t where t: "?m = Some t" "con_same s t" "term_ok t" by blast
  have "\<exists>u. (if serial then write_serial E 0x08 t else Some t) = Some u \<and> con_same s u \<and> term_ok u"
  proof (cases serial)
    case True
    then obtain l where "write_serial E 0x08 t = Some (t\<lparr>io_log := l\<rparr>)"
      using write_serial_ok [OF con_step [OF t(2) ready]] by blast
    then show ?thesis using True t(2,3) by (simp add: con_same_def term_ok_def)
  qed (use t in simp)
  then obtain u where u: "(if serial then write_serial E 0x08 t else Some t) = Some u" "con_same s u" "term_ok u" by blast
  have "terminal_putchar E serial 0x08 s = con_finish E serial 0x08 u"
    using False t(1) u(1) by (subst terminal_putchar.simps) (simp, blast)
  then show ?thesis using tail [OF u(2,3)] by simp
qed (subst terminal_putchar.simps, use ok in simp)

lemma putchar_glyph:
  assumes c: "c \<noteq> 0x0A" "c \<noteq> 0x0D" "c \<noteq> 0x08" "c \<noteq> 0x09" and ok: "term_ok s"
    and tail: "\<And>t. con_same s t \<Longrightarrow> term_ok t \<Longrightarrow> \<exists>s'. con_finish E serial c t = Some s' \<and> con_same s s' \<and> term_ok s'"
  shows "\<exists>s'. terminal_putchar E serial c s = Some s' \<and> con_same s s' \<and> term_ok s'"
proof -
  let ?t = "set_cell (cell s (g_row s) (g_col s)) (vga_entry (ucast c) (g_cur_color s)) s"
  let ?u = "?t\<lparr>g_col := g_col ?t + 1\<rparr>"
  have t: "terminal_putentryat c (g_cur_color s) (g_col s) (g_row s) s = Some ?t"
    using ok by (intro putentryat_ok) (simp_all add: term_ok_def)
  have "\<exists>v. (if g_col ?u = TERM_WIDTH ?u then next_row (?u\<lparr>g_col := 0\<rparr>) else Some ?u) = Some v \<and> con_same s v \<and> term_ok v"
  proof (cases "g_col ?u = TERM_WIDTH ?u")
    case True
    have "\<exists>v. next_row (?u\<lparr>g_col := 0\<rparr>) = Some v \<and> con_same s v \<and> term_ok v"
      by (rule next_row_ok) (use ok less_pos in \<open>auto simp: term_ok_def con_same_def set_cell_def\<close>)
    then show ?thesis using True by simp
  next
    case False
    have lt: "g_col s < TERM_WIDTH s" using ok by (simp add: term_ok_def)
    have "g_col s + 1 < TERM_WIDTH s" using False unat_Suc_lt [OF lt] lt by (simp add: word_less_nat_alt word_unat_eq_iff)
    then show ?thesis using False ok by (simp add: term_ok_def con_same_def set_cell_def)
  qed
  then obtain v where v: "(if g_col ?u = TERM_WIDTH ?u then next_row (?u\<lparr>g_col := 0\<rparr>) else Some ?u) = Some v" "con_same s v" "term_ok v"
    by blast
  have "terminal_putchar E serial c s = con_finish E serial c v"
    using c t v(1) by (subst terminal_putchar.simps) (simp del: set_cell_sels)
  then show ?thesis using tail [OF v(2,3)] by simp
qed

lemma putchar_plain:
  assumes "c \<noteq> 9" "term_ok s" "serial \<Longrightarrow> serial_ready E s"
  shows "\<exists>s'. terminal_putchar E serial c s = Some s' \<and> con_same s s' \<and> term_ok s'"
proof -
  have tail: "\<exists>s'. con_finish E serial d t = Some s' \<and> con_same s s' \<and> term_ok s'" if "con_same s t" "term_ok t" for d t
    using con_finish_ok [OF that con_step [OF that(1) assms(3)]] .
  show ?thesis
    using putchar_nl [OF assms(2) tail] putchar_cr [OF assms(2) tail] putchar_bs [OF assms(2,3) tail] putchar_glyph [OF _ _ _ assms(1,2) tail]
    by metis
qed

lemma putchar_ok:
  assumes "term_ok s" "serial \<Longrightarrow> serial_ready E s"
  shows "\<exists>s'. terminal_putchar E serial c s = Some s' \<and> con_same s s' \<and> term_ok s'"
proof (cases "c = 9")
  case True
  have step: "\<exists>u. terminal_putchar E serial 0x20 t = Some u \<and> con_same s u \<and> term_ok u" if st: "con_same s t" "term_ok t" for t
  proof -
    have "(0x20 :: u8) \<noteq> 9" by simp
    then obtain u where "terminal_putchar E serial 0x20 t = Some u" "con_same t u" "term_ok u"
      using putchar_plain [OF _ st(2) con_step [OF st(1) assms(2)]] by blast
    then show ?thesis using con_same_trans [OF st(1)] by blast
  qed
  obtain s1 where s1: "terminal_putchar E serial 0x20 s = Some s1" "con_same s s1" "term_ok s1"
    using step [OF con_same_refl assms(1)] by blast
  obtain s2 where s2: "terminal_putchar E serial 0x20 s1 = Some s2" "con_same s s2" "term_ok s2" using step [OF s1(2,3)] by blast
  obtain s3 where s3: "terminal_putchar E serial 0x20 s2 = Some s3" "con_same s s3" "term_ok s3" using step [OF s2(2,3)] by blast
  obtain s4 where s4: "terminal_putchar E serial 0x20 s3 = Some s4" "con_same s s4" "term_ok s4" using step [OF s3(2,3)] by blast
  have "terminal_putchar E serial c s = con_finish E serial c s4"
    using s1(1) s2(1) s3(1) s4(1) by (subst terminal_putchar.simps) (simp add: True)
  then show ?thesis using con_finish_ok [OF s4(2,3) con_step [OF s4(2) assms(2)]] by simp
qed (rule putchar_plain [OF _ assms])

lemma terminal_write_ok:
  assumes "term_ok s" "serial \<Longrightarrow> serial_ready E s"
  shows "\<exists>s'. terminal_write E serial data s = Some s' \<and> con_same s s' \<and> term_ok s'"
  using assms
proof (induction data arbitrary: s)
  case (Cons c data)
  obtain t where t: "terminal_putchar E serial c s = Some t" "con_same s t" "term_ok t" using putchar_ok [OF Cons.prems] by blast
  obtain u where u: "terminal_write E serial data t = Some u" "con_same t u" "term_ok u"
    using Cons.IH [OF t(3) con_step [OF t(2) Cons.prems(2)]] by blast
  show ?case using t(1) u(1,3) con_same_trans [OF t(2) u(2)] by simp
qed simp

lemma terminal_write_append:
  "terminal_write E serial (xs @ ys) s = do { s \<leftarrow> terminal_write E serial xs s; terminal_write E serial ys s }"
  by (induction xs arbitrary: s) (simp_all add: Option.bind_assoc)

text \<open>Printing from memory prints the bytes that were there, as long as printing does not touch memory.\<close>

lemma terminal_write_mem_eq:
  assumes "term_ok s" "serial \<Longrightarrow> serial_ready E s"
  shows "terminal_write_mem E serial a n s = terminal_write E serial (bytes_at (kmem s) a n) s"
  using assms
proof (induction n arbitrary: a s)
  case (Suc n)
  obtain t where t: "terminal_putchar E serial (kmem s a) s = Some t" "con_same s t" "term_ok t" using putchar_ok [OF Suc.prems] by blast
  have "kmem t = kmem s" using t(2) by (simp add: con_same_def)
  then show ?case using Suc.IH [OF t(3) con_step [OF t(2) Suc.prems(2)]] t(1) by simp
qed simp

end
