(* ===== verification/Kprintf.thy ===== *)
theory Kprintf
  imports Terminal
begin

text \<open>
  \<open>kernel/kprintf.c\<close>: formatted output to the terminal. A format is the bytes of a C string without
  its NUL, the variable arguments are a list of 32-bit words; reading past the last argument,
  writing past a local array and calling \<open>panic\<close> are \<open>None\<close>. The theorem compares the interpreter
  of the format string with a reference that renders a list of directives.
\<close>

section \<open>Model\<close>

definition do_kput :: "'a cenv \<Rightarrow> bool \<Rightarrow> u8 \<Rightarrow> 'a console_scheme \<Rightarrow> 'a console_scheme option" where
  "do_kput E serial byte s = (if \<not> g_terminal_initialized s then None else terminal_putchar E serial byte s)"

abbreviation kput :: "'a cenv \<Rightarrow> u8 \<Rightarrow> 'a console_scheme \<Rightarrow> 'a console_scheme option" where
  "kput E byte s \<equiv> do_kput E True byte s"

definition kput_noserial :: "'a cenv \<Rightarrow> u8 \<Rightarrow> 'a console_scheme \<Rightarrow> 'a console_scheme option" where
  "kput_noserial E byte s = do_kput E False byte s"

function places_loop :: "u32 \<Rightarrow> u32 \<Rightarrow> u32" where
  "places_loop n p = (if 10 \<le> n then places_loop (n div 10) (p + 1) else p)"
  by pat_completeness auto
termination
  by (relation "measure (\<lambda>(n, p). unat n)") (auto simp: word_le_nat_alt unat_div_distrib)

declare places_loop.simps [simp del]

definition places :: "u32 \<Rightarrow> u32" where
  "places n = places_loop n 1"

text \<open>The loop of \<open>pru32\<close>, filling \<open>buf\<close> from its end.\<close>

primrec digits_loop :: "nat \<Rightarrow> nat \<Rightarrow> nat \<Rightarrow> u32 \<Rightarrow> u8 list \<Rightarrow> u8 list" where
  "digits_loop 0 len i num buf = buf"
| "digits_loop (Suc k) len i num buf = digits_loop k len (i + 1) (num div 10) (buf[len - i - 1 := ucast (num mod 10) + 0x30])"

definition pru32 :: "'a cenv \<Rightarrow> bool \<Rightarrow> u32 \<Rightarrow> 'a console_scheme \<Rightarrow> 'a console_scheme option" where
  "pru32 E serial num s =
     (let len = unat (ucast (places num) :: u8)
      in terminal_write E serial (digits_loop len len 0 num (replicate len 0)) s)"

definition pri32 :: "'a cenv \<Rightarrow> bool \<Rightarrow> u32 \<Rightarrow> 'a console_scheme \<Rightarrow> 'a console_scheme option" where
  "pri32 E serial num s =
     (if sint num < 0 then do { s \<leftarrow> terminal_putchar E serial 0x2D s; pru32 E serial (- num) s }
      else pru32 E serial num s)"

definition hexchars :: "u8 list" where
  "hexchars = [0x30, 0x31, 0x32, 0x33, 0x34, 0x35, 0x36, 0x37, 0x38, 0x39, 0x41, 0x42, 0x43, 0x44, 0x45, 0x46]"

definition kprinthex_internal :: "'a cenv \<Rightarrow> bool \<Rightarrow> u8 \<Rightarrow> 'a console_scheme \<Rightarrow> 'a console_scheme option" where
  "kprinthex_internal E serial byte s =
     (let c0 = hexchars ! unat (byte mod 16);
          byte = byte div 16;
          c1 = hexchars ! unat (byte mod 16)
      in do { s \<leftarrow> do_kput E serial c1 s; do_kput E serial c0 s })"

definition is_num :: "u8 \<Rightarrow> bool" where
  "is_num c \<longleftrightarrow> 0x30 \<le> c \<and> c \<le> 0x39"

definition str_at :: "u8 list \<Rightarrow> nat \<Rightarrow> u8" where
  "str_at str i = (if i < length str then str ! i else 0)"

text \<open>
  \<open>try_get_num\<close> parses a decimal number at the start of a string: how many digits it read, and the
  number. \<open>p\<close> is the array of scaled digits, initially whatever is on the stack.
\<close>

function num_loop :: "u8 list \<Rightarrow> nat \<Rightarrow> u32 list \<Rightarrow> (nat \<times> u32 list) option" where
  "num_loop str idx p =
     (if is_num (str_at str idx)
      then if idx < 11 then num_loop str (idx + 1) ((map (\<lambda>x. x * 10) p)[idx := ucast (str_at str idx - 0x30)]) else None
      else Some (idx, p))"
  by pat_completeness auto
termination
  by (relation "measure (\<lambda>(str, idx, p). 11 - idx)") auto

declare num_loop.simps [simp del]

primrec sum_places :: "u32 list \<Rightarrow> u32 \<Rightarrow> u32 option" where
  "sum_places [] acc = Some acc"
| "sum_places (x # xs) acc = (if acc \<le> acc + x then sum_places xs (acc + x) else None)"

definition try_get_num :: "u32 list \<Rightarrow> u8 list \<Rightarrow> (nat \<times> u32) option" where
  "try_get_num uninit str = do {
     (idx, p) \<leftarrow> num_loop str 0 uninit;
     if idx = 0 then Some (0, 0)
     else do { acc \<leftarrow> sum_places (take idx p) 0; Some (idx, acc) }
   }"

definition kprinthex4 :: "'a cenv \<Rightarrow> bool \<Rightarrow> u32 \<Rightarrow> 'a console_scheme \<Rightarrow> 'a console_scheme option" where
  "kprinthex4 E serial val s = do {
     s \<leftarrow> terminal_write E serial [0x30, 0x78] s;
     s \<leftarrow> kprinthex_internal E serial (ucast (drop_bit 24 val)) s;
     s \<leftarrow> kprinthex_internal E serial (ucast (drop_bit 16 val)) s;
     s \<leftarrow> kprinthex_internal E serial (ucast (drop_bit 8 val)) s;
     kprinthex_internal E serial (ucast val) s
   }"

definition kprinthex3 :: "'a cenv \<Rightarrow> bool \<Rightarrow> u32 \<Rightarrow> 'a console_scheme \<Rightarrow> 'a console_scheme option" where
  "kprinthex3 E serial val s = do {
     s \<leftarrow> terminal_write E serial [0x30, 0x78] s;
     s \<leftarrow> kprinthex_internal E serial (ucast (drop_bit 16 val)) s;
     s \<leftarrow> kprinthex_internal E serial (ucast (drop_bit 8 val)) s;
     kprinthex_internal E serial (ucast val) s
   }"

definition kprinthex2 :: "'a cenv \<Rightarrow> bool \<Rightarrow> u16 \<Rightarrow> 'a console_scheme \<Rightarrow> 'a console_scheme option" where
  "kprinthex2 E serial val s = do {
     s \<leftarrow> terminal_write E serial [0x30, 0x78] s;
     s \<leftarrow> kprinthex_internal E serial (ucast (drop_bit 8 val)) s;
     kprinthex_internal E serial (ucast val) s
   }"

definition kprinthex1 :: "'a cenv \<Rightarrow> bool \<Rightarrow> u8 \<Rightarrow> 'a console_scheme \<Rightarrow> 'a console_scheme option" where
  "kprinthex1 E serial val s = do {
     s \<leftarrow> terminal_write E serial [0x30, 0x78] s;
     kprinthex_internal E serial val s
   }"

definition kprinthex1_noprefix :: "'a cenv \<Rightarrow> bool \<Rightarrow> u8 \<Rightarrow> 'a console_scheme \<Rightarrow> 'a console_scheme option" where
  "kprinthex1_noprefix E serial val s = kprinthex_internal E serial val s"

fun va_arg :: "u32 list \<Rightarrow> (u32 \<times> u32 list) option" where
  "va_arg [] = None"
| "va_arg (x # vl) = Some (x, vl)"

text \<open>The cases \<open>h\<close> and \<open>s\<close> of the conversion switch.\<close>

definition conv_h :: "'a cenv \<Rightarrow> bool \<Rightarrow> nat \<Rightarrow> u32 \<Rightarrow> u32 \<Rightarrow> 'a console_scheme \<Rightarrow> 'a console_scheme option" where
  "conv_h E serial num_chars num x s =
     (if num_chars = 0 then kprinthex4 E serial x s
      else if num = 0 then kprinthex1_noprefix E serial (ucast x) s
      else if num \<le> 1 then kprinthex1 E serial (ucast x) s
      else if num \<le> 2 then kprinthex2 E serial (ucast x) s
      else if num \<le> 3 then kprinthex3 E serial x s
      else kprinthex4 E serial x s)"

definition conv_s :: "'a cenv \<Rightarrow> bool \<Rightarrow> nat \<Rightarrow> u32 \<Rightarrow> u32 \<Rightarrow> 'a console_scheme \<Rightarrow> 'a console_scheme option" where
  "conv_s E serial num_chars num str s =
     (if str = 0 then terminal_write E serial [0x28, 0x6E, 0x75, 0x6C, 0x6C, 0x29] s
      else do {
        str_len \<leftarrow> strlen (kmem s) str;
        let str_len = (if num_chars \<noteq> 0 then min str_len num else str_len) in
        terminal_write_mem E serial str (unat str_len) s
      })"

text \<open>One conversion character; \<open>None\<close> inside the result is the default case of the switch.\<close>

definition conversion ::
  "'a cenv \<Rightarrow> bool \<Rightarrow> u8 \<Rightarrow> nat \<Rightarrow> u32 \<Rightarrow> u32 list \<Rightarrow> 'a console_scheme \<Rightarrow> (u32 list \<times> 'a console_scheme) option option" where
  "conversion E serial c num_chars num vl s =
     (if c = 0x25 then do { s \<leftarrow> terminal_putchar E serial 0x25 s; Some (Some (vl, s)) }
      else if c = 0x68 then do { (x, vl) \<leftarrow> va_arg vl; s \<leftarrow> conv_h E serial num_chars num x s; Some (Some (vl, s)) }
      else if c = 0x75 then do { (x, vl) \<leftarrow> va_arg vl; s \<leftarrow> pru32 E serial x s; Some (Some (vl, s)) }
      else if c = 0x69 then do { (x, vl) \<leftarrow> va_arg vl; s \<leftarrow> pri32 E serial x s; Some (Some (vl, s)) }
      else if c = 0x73 then do { (x, vl) \<leftarrow> va_arg vl; s \<leftarrow> conv_s E serial num_chars num x s; Some (Some (vl, s)) }
      else if c = 0x63 then do { (x, vl) \<leftarrow> va_arg vl; s \<leftarrow> terminal_putchar E serial (ucast x) s; Some (Some (vl, s)) }
      else Some None)"

function kprintf_loop :: "'a cenv \<Rightarrow> bool \<Rightarrow> u8 list \<Rightarrow> nat \<Rightarrow> u32 list \<Rightarrow> 'a console_scheme \<Rightarrow> 'a console_scheme option" where
  "kprintf_loop E serial fmt i vl s =
     (if str_at fmt i = 0 then Some s
      else if str_at fmt i = 0x25 then do {
        (num_chars, num) \<leftarrow> try_get_num (e_uninit E i) (drop (i + 1) fmt);
        r \<leftarrow> conversion E serial (str_at fmt (i + num_chars + 1)) num_chars num vl s;
        case r of
          Some (vl, s) \<Rightarrow> kprintf_loop E serial fmt (i + num_chars + 2) vl s
        | None \<Rightarrow> do {
            s \<leftarrow> terminal_putchar E serial (str_at fmt (i + num_chars)) s;
            kprintf_loop E serial fmt (i + num_chars + 1) vl s }
      }
      else do { s \<leftarrow> terminal_putchar E serial (str_at fmt i) s; kprintf_loop E serial fmt (i + 1) vl s })"
  by pat_completeness auto
termination
  by (relation "measure (\<lambda>(E, serial, fmt, i, vl, s). length fmt - i)") (auto simp: str_at_def split: if_splits)

declare kprintf_loop.simps [simp del]

definition do_kprintf_internal :: "'a cenv \<Rightarrow> bool \<Rightarrow> u8 list option \<Rightarrow> u32 list \<Rightarrow> 'a console_scheme \<Rightarrow> 'a console_scheme option" where
  "do_kprintf_internal E serial fmt vl s =
     (if \<not> g_terminal_initialized s then None
      else case fmt of None \<Rightarrow> Some s | Some fmt \<Rightarrow> kprintf_loop E serial fmt 0 vl s)"

abbreviation kprintf_internal :: "'a cenv \<Rightarrow> u8 list option \<Rightarrow> u32 list \<Rightarrow> 'a console_scheme \<Rightarrow> 'a console_scheme option" where
  "kprintf_internal E fmt vl s \<equiv> do_kprintf_internal E True fmt vl s"

abbreviation kprintf_internal_noserial :: "'a cenv \<Rightarrow> u8 list option \<Rightarrow> u32 list \<Rightarrow> 'a console_scheme \<Rightarrow> 'a console_scheme option" where
  "kprintf_internal_noserial E fmt vl s \<equiv> do_kprintf_internal E False fmt vl s"

definition bytes_of :: "string \<Rightarrow> u8 list" where
  "bytes_of = map of_char"

definition kprintf :: "'a cenv \<Rightarrow> string \<Rightarrow> u32 list \<Rightarrow> 'a console_scheme \<Rightarrow> 'a console_scheme option" where
  "kprintf E fmt args s = kprintf_internal E (Some (bytes_of fmt)) args s"

definition kprintf_noserial :: "'a cenv \<Rightarrow> string \<Rightarrow> u32 list \<Rightarrow> 'a console_scheme \<Rightarrow> 'a console_scheme option" where
  "kprintf_noserial E fmt args s = kprintf_internal_noserial E (Some (bytes_of fmt)) args s"

section \<open>Reference\<close>

text \<open>Decimal and hexadecimal numerals.\<close>

fun dec :: "nat \<Rightarrow> u8 list" where
  "dec n = (if n < 10 then [] else dec (n div 10)) @ [of_nat (n mod 10) + 0x30]"

declare dec.simps [simp del]

definition hex2 :: "u8 \<Rightarrow> u8 list" where
  "hex2 b = [hexchars ! (unat b div 16), hexchars ! (unat b mod 16)]"

fun hex :: "nat \<Rightarrow> u32 \<Rightarrow> u8 list" where
  "hex 0 x = []"
| "hex (Suc k) x = hex2 (ucast (drop_bit (8 * k) x)) @ hex k x"

datatype directive =
    Lit u8
  | Percent
  | Dec u32
  | Signed u32
  | Hex "nat option" u32
  | Str "nat option" "u8 list" u32
  | Chr u32

text \<open>
  What a directive prints. A width limits the length of a string, and selects the number of bytes
  of a hexadecimal number: \<open>%h\<close> prints four, \<open>%0h\<close> one without the prefix.
\<close>

fun render :: "directive \<Rightarrow> u8 list" where
  "render (Lit c) = [c]"
| "render Percent = [0x25]"
| "render (Dec n) = dec (unat n)"
| "render (Signed n) = (if sint n < 0 then 0x2D # dec (nat (- sint n)) else dec (nat (sint n)))"
| "render (Hex None n) = [0x30, 0x78] @ hex 4 n"
| "render (Hex (Some k) n) = (if k = 0 then hex 1 n else [0x30, 0x78] @ hex (min k 4) n)"
| "render (Str w t p) = (if p = 0 then bytes_of ''(null)'' else case w of None \<Rightarrow> t | Some k \<Rightarrow> take k t)"
| "render (Chr n) = [ucast n]"

text \<open>How it is written in a format string, and its arguments.\<close>

fun spell :: "directive \<Rightarrow> u8 list" where
  "spell (Lit c) = [c]"
| "spell Percent = [0x25, 0x25]"
| "spell (Dec n) = [0x25, 0x75]"
| "spell (Signed n) = [0x25, 0x69]"
| "spell (Hex w n) = [0x25] @ (case w of None \<Rightarrow> [] | Some k \<Rightarrow> dec k) @ [0x68]"
| "spell (Str w t p) = [0x25] @ (case w of None \<Rightarrow> [] | Some k \<Rightarrow> dec k) @ [0x73]"
| "spell (Chr n) = [0x25, 0x63]"

fun dargs :: "directive \<Rightarrow> u32 list" where
  "dargs (Dec n) = [n]"
| "dargs (Signed n) = [n]"
| "dargs (Hex w n) = [n]"
| "dargs (Str w t p) = [p]"
| "dargs (Chr n) = [n]"
| "dargs _ = []"

text \<open>Literal characters are not special, widths fit a word, and string arguments point to their text.\<close>

fun dir_ok :: "mem \<Rightarrow> directive \<Rightarrow> bool" where
  "dir_ok m (Lit c) = (c \<noteq> 0 \<and> c \<noteq> 0x25)"
| "dir_ok m (Hex (Some k) n) = (k < 2 ^ 32)"
| "dir_ok m (Str w t p) = ((\<forall>k. w = Some k \<longrightarrow> k < 2 ^ 32) \<and> (p \<noteq> 0 \<longrightarrow> cstr m p t \<and> length t < 2 ^ 32))"
| "dir_ok m _ = True"

section \<open>Numerals\<close>

lemma dec_not_empty [simp]: "dec n \<noteq> []"
  by (subst dec.simps) simp

lemma is_num_digit: "d < 10 \<Longrightarrow> is_num (of_nat d + 0x30)" and digit_val: "d < 10 \<Longrightarrow> of_nat d + 0x30 - 0x30 = (of_nat d :: u8)"
proof -
  assume "d < 10"
  then have "unat (of_nat d + 0x30 :: u8) = d + 48" by (subst unat_add_small) simp_all
  then show "is_num (of_nat d + 0x30)" using \<open>d < 10\<close> by (simp add: is_num_def word_le_nat_alt)
qed simp

text \<open>The digits of a numeral and its value; \<open>scaled\<close> is what the array of \<open>try_get_num\<close> holds.\<close>

definition numval :: "nat list \<Rightarrow> nat" where
  "numval ds = foldl (\<lambda>v d. 10 * v + d) 0 ds"

definition scaled :: "nat list \<Rightarrow> nat list" where
  "scaled ds = foldl (\<lambda>acc d. map ((*) 10) acc @ [d]) [] ds"

lemma numval_snoc [simp]: "numval [] = 0" "numval (ds @ [d]) = 10 * numval ds + d"
  by (simp_all add: numval_def)

lemma scaled_snoc [simp]: "scaled [] = []" "scaled (ds @ [d]) = map ((*) 10) (scaled ds) @ [d]"
  by (simp_all add: scaled_def)

lemma length_scaled [simp]: "length (scaled ds) = length ds"
  by (induction ds rule: rev_induct) simp_all

lemma sum_scaled: "sum_list (scaled ds) = numval ds"
  by (induction ds rule: rev_induct) (simp_all add: sum_list_const_mult)

text \<open>A numeral is its list of digits.\<close>

fun ddigits :: "nat \<Rightarrow> nat list" where
  "ddigits n = (if n < 10 then [] else ddigits (n div 10)) @ [n mod 10]"

declare ddigits.simps [simp del]

lemma dec_ddigits: "dec n = map (\<lambda>d. of_nat d + 0x30) (ddigits n)"
  by (induction n rule: dec.induct) (subst dec.simps, subst ddigits.simps, simp)

lemma ddigits_lt: "\<forall>d \<in> set (ddigits n). d < 10"
  by (induction n rule: ddigits.induct) (subst ddigits.simps, auto)

lemma numval_ddigits: "numval (ddigits n) = n"
  by (induction n rule: ddigits.induct) (subst ddigits.simps, auto)

lemma length_ddigits: "n < 10 ^ k \<Longrightarrow> 0 < k \<Longrightarrow> length (ddigits n) \<le> k"
proof (induction k arbitrary: n)
  case (Suc k)
  show ?case
  proof (cases "n < 10")
    case True
    then show ?thesis by (subst ddigits.simps) simp
  next
    case False
    then have "0 < k" using Suc.prems by (cases k) auto
    moreover have "n div 10 < 10 ^ k" using Suc.prems by (simp add: less_mult_imp_div_less)
    ultimately show ?thesis using Suc.IH [of "n div 10"] False by (subst ddigits.simps) simp
  qed
qed simp

lemma sum_places_ok:
  "acc + sum_list ws < 2 ^ 32 \<Longrightarrow> sum_places (map of_nat ws) (of_nat acc) = Some (of_nat (acc + sum_list ws))"
proof (induction ws arbitrary: acc)
  case (Cons w ws)
  have lt: "acc + w < 2 ^ 32" using Cons.prems by simp
  then have u: "unat (of_nat acc :: u32) = acc" "unat (of_nat (acc + w) :: u32) = acc + w"
    by (intro unat_of_nat_small, simp)+
  have "of_nat acc \<le> (of_nat (acc + w) :: u32)" unfolding word_le_nat_alt u by simp
  then show ?case using Cons.IH [of "acc + w"] Cons.prems by (simp add: add.assoc)
qed simp

lemma num_loop_ok:
  assumes "drop idx str = map (\<lambda>d. of_nat d + 0x30) ds @ rest" "\<forall>d \<in> set ds. d < 10" "\<not> is_num (str_at rest 0)"
    "idx + length ds \<le> 11" "length p = 11" "take idx p = map of_nat (scaled pre)" "length pre = idx"
  shows "\<exists>q. num_loop str idx p = Some (idx + length ds, q) \<and> take (idx + length ds) q = map of_nat (scaled (pre @ ds))"
  using assms
proof (induction ds arbitrary: idx p pre)
  case Nil
  then have "str_at str idx = str_at rest 0"
    by (cases "idx < length str") (auto simp: str_at_def nth_via_drop hd_drop_conv_nth)
  then show ?case using Nil by (subst num_loop.simps) simp
next
  case (Cons d ds)
  have c: "str_at str idx = of_nat d + 0x30"
    using Cons.prems(1) by (auto simp: str_at_def nth_via_drop not_less)
  let ?p = "(map (\<lambda>x. x * 10) p)[idx := ucast (str_at str idx - 0x30)]"
  have d: "d < 10" using Cons.prems(2) by simp
  have "ucast (str_at str idx - 0x30) = (of_nat d :: u32)"
  proof (rule word_unat_eq_iff [THEN iffD2])
    show "unat (ucast (str_at str idx - 0x30) :: u32) = unat (of_nat d :: u32)"
      using d unfolding c digit_val [OF d] by (simp add: unsigned_ucast_eq take_bit_nat_eq_self)
  qed
  then have p: "take (Suc idx) ?p = map of_nat (scaled (pre @ [d]))"
    using Cons.prems(4-7) by (simp add: take_Suc_conv_app_nth take_map comp_def mult.commute)
  have "num_loop str idx p = num_loop str (Suc idx) ?p"
    using Cons.prems(4) is_num_digit [OF d] c by (subst num_loop.simps) simp
  moreover have "drop (Suc idx) str = tl (drop idx str)" by (simp add: drop_Suc tl_drop)
  ultimately show ?case using Cons.IH [of "Suc idx" ?p "pre @ [d]"] Cons.prems p by (simp add: Cons.prems(1))
qed

lemma try_get_num_dec:
  assumes "k < 2 ^ 32" "\<not> is_num (str_at rest 0)" "length u = 11"
  shows "try_get_num u (dec k @ rest) = Some (length (dec k), of_nat k)"
proof -
  have "k < 10 ^ 10" using assms(1) by simp
  then have len: "length (ddigits k) \<le> 10" by (rule length_ddigits) simp
  obtain q where q: "num_loop (dec k @ rest) 0 u = Some (length (ddigits k), q)"
    "take (length (ddigits k)) q = map of_nat (scaled (ddigits k))"
    using num_loop_ok [of 0 "dec k @ rest" "ddigits k" rest u "[]"] assms(2,3) ddigits_lt len by (auto simp: dec_ddigits)
  have ne: "ddigits k \<noteq> []" using dec_not_empty [of k] unfolding dec_ddigits by simp
  have "sum_places (map of_nat (scaled (ddigits k))) 0 = Some (of_nat k)"
    using sum_places_ok [of 0 "scaled (ddigits k)"] assms(1) by (simp add: sum_scaled numval_ddigits)
  then show ?thesis using q ne by (simp add: try_get_num_def dec_ddigits)
qed

lemma try_get_num_none: "\<not> is_num (str_at rest 0) \<Longrightarrow> try_get_num u rest = Some (0, 0)"
  by (simp add: try_get_num_def num_loop.simps)

primrec last_digits :: "nat \<Rightarrow> nat \<Rightarrow> u8 list" where
  "last_digits 0 n = []"
| "last_digits (Suc k) n = last_digits k (n div 10) @ [of_nat (n mod 10) + 0x30]"

lemma last_digits_dec: "last_digits (length (dec n)) n = dec n"
  by (induction n rule: dec.induct) (subst (1 2) dec.simps, simp)

lemma places_loop_eq:
  "unat n < 10 ^ k \<Longrightarrow> 0 < k \<Longrightarrow> places_loop n p = p + of_nat (length (dec (unat n)) - 1)"
proof (induction n p arbitrary: k rule: places_loop.induct)
  case (1 n p)
  show ?case
  proof (cases "10 \<le> n")
    case True
    have d: "unat (n div 10) = unat n div 10" by (simp add: unat_div_distrib)
    have len: "length (dec (unat n)) = Suc (length (dec (unat n div 10)))"
      using True by (subst dec.simps) (simp add: word_le_nat_alt)
    have "0 < length (dec (unat n div 10))" by simp
    then obtain l where l: "length (dec (unat n div 10)) = Suc l" by (cases "length (dec (unat n div 10))") auto
    have "places_loop (n div 10) (p + 1) = p + 1 + of_nat (length (dec (unat n div 10)) - 1)"
      using 1(1) [OF True, of k] 1(2,3) by (simp add: d le_less_trans [OF div_le_dividend])
    then show ?thesis using True len l by (subst places_loop.simps) simp
  next
    case False
    then show ?thesis by (subst places_loop.simps, subst dec.simps) (simp add: word_le_nat_alt)
  qed
qed

lemma places_eq: "unat (ucast (places n) :: u8) = length (dec (unat n))"
proof -
  have lt: "unat n < 10 ^ 10" using unat_lt32 [of n] by simp
  have "length (dec (unat n)) \<le> 10" using length_ddigits [OF lt] by (simp add: dec_ddigits)
  moreover obtain l where "length (dec (unat n)) = Suc l" by (cases "dec (unat n)") auto
  ultimately have "places n = of_nat (length (dec (unat n)))" "length (dec (unat n)) < 256"
    unfolding places_def using places_loop_eq [OF lt, of 1] by auto
  then show ?thesis by (simp add: unsigned_ucast_eq take_bit_nat_eq_self)
qed

lemma digits_loop_eq:
  "length buf = len \<Longrightarrow> k + i = len \<Longrightarrow> digits_loop k len i num buf = last_digits k (unat num) @ drop k buf"
proof (induction k arbitrary: i num buf)
  case (Suc k)
  have d: "unat (num div 10) = unat num div 10" "unat (num mod 10) = unat num mod 10"
    by (simp_all add: unat_div_distrib unat_mod_distrib)
  have c: "ucast (num mod 10) = (of_nat (unat num mod 10) :: u8)"
    by (rule word_unat_eq_iff [THEN iffD2]) (simp add: unsigned_ucast_eq d(2) unsigned_of_nat)
  have idx: "len - i - 1 = k" "k < length buf" using Suc.prems by auto
  have "drop k (buf[k := v]) = v # drop (Suc k) buf" for v
    using idx(2) by (simp add: Cons_nth_drop_Suc [symmetric])
  then show ?case using Suc.IH [of "buf[k := ucast (num mod 10) + 0x30]" "i + 1" "num div 10"] Suc.prems idx(1)
    by (simp add: d c)
qed simp

lemma pru32_eq: "pru32 E serial num s = terminal_write E serial (dec (unat num)) s"
  by (simp add: pru32_def Let_def places_eq digits_loop_eq last_digits_dec)

lemma unat_neg: "sint (n :: u32) < 0 \<Longrightarrow> unat (- n) = nat (- sint n)" "0 \<le> sint n \<Longrightarrow> unat n = nat (sint n)"
proof -
  have b: "- (2 ^ 31) \<le> sint n" "sint n < 2 ^ 31" using sint_ge [of n] sint_lt [of n] by simp_all
  have "uint (word_of_int (- sint n) :: u32) = (- sint n) mod 2 ^ 32" by (subst uint_word_of_int) simp
  then have "uint (- n) = (- sint n) mod 2 ^ 32" by simp
  then show "sint n < 0 \<Longrightarrow> unat (- n) = nat (- sint n)" unfolding unat_eq_nat_uint using b by simp
  have "uint (word_of_int (sint n) :: u32) = sint n mod 2 ^ 32" by (subst uint_word_of_int) simp
  then have "uint n = sint n mod 2 ^ 32" by simp
  then show "0 \<le> sint n \<Longrightarrow> unat n = nat (sint n)" unfolding unat_eq_nat_uint using b by simp
qed

lemma pri32_eq: "pri32 E serial num s = terminal_write E serial (render (Signed num)) s"
  by (simp add: pri32_def pru32_eq unat_neg)

section \<open>The interpreter renders its directives\<close>

definition printing :: "'a cenv \<Rightarrow> bool \<Rightarrow> 'a console_scheme \<Rightarrow> bool" where
  "printing E serial s \<longleftrightarrow> term_ok s \<and> (serial \<longrightarrow> serial_ready E s) \<and> g_terminal_initialized s \<and> (\<forall>i. length (e_uninit E i) = 11)"

lemma printing_write:
  assumes "printing E serial s"
  shows "\<exists>s'. terminal_write E serial data s = Some s' \<and> printing E serial s' \<and> kmem s' = kmem s"
proof -
  have r: "serial \<Longrightarrow> serial_ready E s" using assms by (simp add: printing_def)
  obtain s' where s': "terminal_write E serial data s = Some s'" "con_same s s'" "term_ok s'"
    using terminal_write_ok [OF _ r] assms unfolding printing_def by blast
  then show ?thesis using assms con_same_ready [OF s'(2)] by (auto simp: printing_def con_same_def)
qed

lemma printing_then:
  assumes "printing E serial s" "\<And>s'. printing E serial s' \<Longrightarrow> kmem s' = kmem s \<Longrightarrow> f s' = terminal_write E serial ys s'"
  shows "do { s \<leftarrow> terminal_write E serial xs s; f s } = terminal_write E serial (xs @ ys) s"
  using printing_write [OF assms(1), of xs] assms(2) by (auto simp: terminal_write_append)

lemma putchar_write: "terminal_putchar E serial c s = terminal_write E serial [c] s"
  by simp

lemma kprinthex_internal_eq:
  assumes "printing E serial s"
  shows "kprinthex_internal E serial b s = terminal_write E serial (hex2 b) s"
proof -
  have d: "unat (b mod 16) = unat b mod 16" "unat (b div 16 mod 16) = unat b div 16"
    using unat_lt8 [of b] by (simp_all add: unat_div_distrib unat_mod_distrib)
  have k: "do_kput E serial c t = terminal_write E serial [c] t" if "printing E serial t" for c t
    using that by (simp add: do_kput_def printing_def)
  show ?thesis unfolding kprinthex_internal_def Let_def d hex2_def k [OF assms]
    by (subst printing_then [OF assms k]) simp_all
qed

lemma hex_unfold:
  "hex 1 x = hex2 (ucast x)" "hex 2 x = hex2 (ucast (drop_bit 8 x)) @ hex 1 x"
  "hex 3 x = hex2 (ucast (drop_bit 16 x)) @ hex 2 x" "hex 4 x = hex2 (ucast (drop_bit 24 x)) @ hex 3 x"
  by (simp_all add: numeral_eq_Suc)

lemma ucast16: "ucast (ucast (x :: u32) :: u16) = (ucast x :: u8)" "ucast (drop_bit 8 (ucast x :: u16)) = (ucast (drop_bit 8 x) :: u8)"
  by (auto intro!: bit_word_eqI simp: bit_simps)

lemma kprinthex_eq:
  assumes "printing E serial s"
  shows "kprinthex4 E serial x s = terminal_write E serial ([0x30, 0x78] @ hex 4 x) s"
    and "kprinthex3 E serial x s = terminal_write E serial ([0x30, 0x78] @ hex 3 x) s"
    and "kprinthex2 E serial (ucast x) s = terminal_write E serial ([0x30, 0x78] @ hex 2 x) s"
    and "kprinthex1 E serial (ucast x) s = terminal_write E serial ([0x30, 0x78] @ hex 1 x) s"
    and "kprinthex1_noprefix E serial (ucast x) s = terminal_write E serial (hex 1 x) s"
proof -
  note [simp del] = terminal_write.simps
  have h1: "kprinthex_internal E serial (ucast x) t = terminal_write E serial (hex 1 x) t" if "printing E serial t" for t
    using kprinthex_internal_eq [OF that] by (simp add: hex_unfold)
  have step: "do { s \<leftarrow> kprinthex_internal E serial b t; f s } = terminal_write E serial (hex2 b @ ys) t"
    if "printing E serial t" "\<And>u. printing E serial u \<Longrightarrow> f u = terminal_write E serial ys u" for b f ys t
    unfolding kprinthex_internal_eq [OF that(1)] by (rule printing_then [OF that(1)]) (rule that(2))
  show "kprinthex1_noprefix E serial (ucast x) s = terminal_write E serial (hex 1 x) s"
    using h1 [OF assms] by (simp add: kprinthex1_noprefix_def)
  show "kprinthex1 E serial (ucast x) s = terminal_write E serial ([0x30, 0x78] @ hex 1 x) s"
    unfolding kprinthex1_def by (rule printing_then [OF assms h1])
  show "kprinthex2 E serial (ucast x) s = terminal_write E serial ([0x30, 0x78] @ hex 2 x) s"
    unfolding kprinthex2_def ucast16 hex_unfold(2) by (intro printing_then [OF assms] step h1)
  show "kprinthex3 E serial x s = terminal_write E serial ([0x30, 0x78] @ hex 3 x) s"
    unfolding kprinthex3_def hex_unfold(2,3) by (intro printing_then [OF assms] step h1)
  show "kprinthex4 E serial x s = terminal_write E serial ([0x30, 0x78] @ hex 4 x) s"
    unfolding kprinthex4_def hex_unfold(2-4) by (intro printing_then [OF assms] step h1)
qed

lemma conv_h_eq:
  assumes "printing E serial s"
  shows "conv_h E serial 0 num x s = terminal_write E serial (render (Hex None x)) s"
    and "k < 2 ^ 32 \<Longrightarrow> nc \<noteq> 0 \<Longrightarrow> conv_h E serial nc (of_nat k) x s = terminal_write E serial (render (Hex (Some k) x)) s"
proof -
  show "conv_h E serial 0 num x s = terminal_write E serial (render (Hex None x)) s"
    by (simp add: conv_h_def kprinthex_eq [OF assms])
  assume k: "k < 2 ^ 32" and nc: "nc \<noteq> 0"
  have u: "unat (of_nat k :: u32) = k" using k by (intro unat_of_nat_small) simp
  have le: "(of_nat k :: u32) \<le> 1 \<longleftrightarrow> k \<le> 1" "(of_nat k :: u32) \<le> 2 \<longleftrightarrow> k \<le> 2" "(of_nat k :: u32) \<le> 3 \<longleftrightarrow> k \<le> 3"
    "(of_nat k :: u32) = 0 \<longleftrightarrow> k = 0"
    by (simp_all add: word_le_nat_alt u word_unat_eq_iff)
  consider "k = 0" | "k = 1" | "k = 2" | "k = 3" | "4 \<le> k" by linarith
  then show "conv_h E serial nc (of_nat k) x s = terminal_write E serial (render (Hex (Some k) x)) s"
    unfolding conv_h_def le using nc by cases (simp_all add: kprinthex_eq [OF assms] min_def)
qed

lemma cstr_bytes: "cstr m a t \<Longrightarrow> k \<le> length t \<Longrightarrow> bytes_at m a k = take k t"
proof (induction t arbitrary: a k)
  case (Cons x t)
  then show ?case by (cases k) simp_all
qed simp

lemma conv_s_eq:
  assumes "printing E serial s" "dir_ok (kmem s) (Str w t p)"
  shows "conv_s E serial (case w of None \<Rightarrow> 0 | Some k \<Rightarrow> Suc nc) (case w of None \<Rightarrow> 0 | Some k \<Rightarrow> of_nat k) p s =
     terminal_write E serial (render (Str w t p)) s"
proof (cases "p = 0")
  case True
  then show ?thesis by (simp add: conv_s_def bytes_of_def del: terminal_write.simps)
next
  case False
  then have t: "cstr (kmem s) p t" using assms(2) by simp
  obtain n where n: "strlen (kmem s) p = Some n" "unat n = length t"
    using strlen_is_len [OF cstr_is_len [OF t]] cstr_length [OF t] by auto
  have mem: "terminal_write_mem E serial p k s = terminal_write E serial (take k t) s" if "k \<le> length t" for k
    using terminal_write_mem_eq [of s serial E p k] assms(1) cstr_bytes [OF t that] by (auto simp: printing_def)
  show ?thesis
  proof (cases w)
    case None
    then show ?thesis using False n mem [of "length t"] by (simp add: conv_s_def)
  next
    case (Some k)
    then have "unat (of_nat k :: u32) = k" using assms(2) by (intro unat_of_nat_small) simp
    then have "unat (min n (of_nat k)) = min (length t) k" by (simp add: min_def word_le_nat_alt n(2))
    moreover have "take (min (length t) k) t = take k t" by (simp add: min_def)
    ultimately show ?thesis using False n(1) mem [of "min (length t) k"] Some by (simp add: conv_s_def)
  qed
qed

lemma str_at_drop: "drop i fmt = x # rest \<Longrightarrow> str_at fmt i = x"
  by (auto simp: str_at_def nth_via_drop not_less)

lemma str_at_skip: "drop i fmt = xs @ x # rest \<Longrightarrow> str_at fmt (i + length xs) = x"
  by (rule str_at_drop [where rest = rest]) (simp add: drop_drop [symmetric] add.commute [of i])

text \<open>A directive is \<open>%\<close>, an optional width, and a conversion character.\<close>

lemma loop_conversion:
  assumes s: "printing E serial s" and i: "drop i fmt = 0x25 # width @ c # rest"
    and w: "width = [] \<and> num = 0 \<or> (\<exists>k. width = dec k \<and> k < 2 ^ 32 \<and> num = of_nat k)" and c: "\<not> is_num c"
    and conv: "conversion E serial c (length width) num vl s = do { s \<leftarrow> terminal_write E serial out s; Some (Some (vl', s)) }"
  shows "kprintf_loop E serial fmt i vl s =
    do { s \<leftarrow> terminal_write E serial out s; kprintf_loop E serial fmt (i + length width + 2) vl' s }"
proof -
  have d: "drop (i + 1) fmt = width @ c # rest"
    using arg_cong [OF i, of tl] by (simp add: drop_Suc tl_drop)
  have "str_at (c # rest) 0 = c" by (simp add: str_at_def)
  then have n: "try_get_num (e_uninit E i) (drop (i + 1) fmt) = Some (length width, num)"
    unfolding d using w c s try_get_num_dec [of _ "c # rest" "e_uninit E i"] try_get_num_none [of "c # rest"]
    by (auto simp: printing_def)
  have "str_at fmt (i + 1 + length width) = c" by (rule str_at_skip [OF d])
  then have cc: "str_at fmt (i + length width + 1) = c" by (simp add: add.commute add.left_commute)
  have "str_at fmt i = 0x25" by (rule str_at_drop [OF i])
  then have "kprintf_loop E serial fmt i vl s =
     conversion E serial c (length width) num vl s \<bind> (\<lambda>r. case r of
          Some (vl, s) \<Rightarrow> kprintf_loop E serial fmt (i + length width + 2) vl s
        | None \<Rightarrow> do {
            s \<leftarrow> terminal_putchar E serial (str_at fmt (i + length width)) s;
            kprintf_loop E serial fmt (i + length width + 1) vl s })"
    using n cc by (subst kprintf_loop.simps) simp
  then show ?thesis unfolding conv by (simp add: Option.bind_assoc)
qed

lemma dec_length: "\<exists>n. length (dec k) = Suc n"
  by (cases "dec k") auto

lemma conv_chars:
  "\<not> is_num 0x25" "\<not> is_num 0x68" "\<not> is_num 0x75" "\<not> is_num 0x69" "\<not> is_num 0x73" "\<not> is_num 0x63"
  by (simp_all add: is_num_def)

lemma loop_directive:
  assumes s: "printing E serial s" and d: "dir_ok (kmem s) d" and i: "drop i fmt = spell d @ rest"
  shows "kprintf_loop E serial fmt i (dargs d @ vl) s =
    do { s \<leftarrow> terminal_write E serial (render d) s; kprintf_loop E serial fmt (i + length (spell d)) vl s }"
proof (cases d)
  case (Lit c)
  then have "str_at fmt i = c" using i by (intro str_at_drop [where rest = rest]) simp
  then show ?thesis using Lit d by (subst kprintf_loop.simps) simp
next
  case Percent
  show ?thesis using loop_conversion [OF s, of i fmt "[]" "0x25" rest 0 vl "[0x25]" vl] i Percent
    by (simp add: conv_chars conversion_def)
next
  case (Dec n)
  show ?thesis using loop_conversion [OF s, of i fmt "[]" "0x75" rest 0 "n # vl" "dec (unat n)" vl] i Dec
    by (simp add: conv_chars conversion_def pru32_eq)
next
  case (Signed n)
  show ?thesis using loop_conversion [OF s, of i fmt "[]" "0x69" rest 0 "n # vl" "render (Signed n)" vl] i Signed
    by (simp add: conv_chars conversion_def pri32_eq del: render.simps)
next
  case (Chr n)
  show ?thesis using loop_conversion [OF s, of i fmt "[]" "0x63" rest 0 "n # vl" "[ucast n]" vl] i Chr
    by (simp add: conv_chars conversion_def)
next
  case (Hex w n)
  show ?thesis
  proof (cases w)
    case None
    show ?thesis using loop_conversion [OF s, of i fmt "[]" "0x68" rest 0 "n # vl" "render (Hex None n)" vl] i Hex None
      by (simp add: conv_chars conversion_def conv_h_eq [OF s] del: render.simps)
  next
    case (Some k)
    then have k: "k < 2 ^ 32" using d Hex by simp
    show ?thesis using loop_conversion [OF s, of i fmt "dec k" "0x68" rest "of_nat k" "n # vl" "render (Hex (Some k) n)" vl] i Hex Some k
      by (auto simp: conv_chars conversion_def conv_h_eq(2) [OF s k] simp del: render.simps)
  qed
next
  case (Str w t p)
  have ok: "dir_ok (kmem s) (Str w t p)" using d Str by simp
  show ?thesis
  proof (cases w)
    case None
    show ?thesis using loop_conversion [OF s, of i fmt "[]" "0x73" rest 0 "p # vl" "render (Str w t p)" vl] i Str
      conv_s_eq [OF s ok, of undefined] None by (simp add: conv_chars conversion_def del: render.simps)
  next
    case (Some k)
    then have k: "k < 2 ^ 32" using ok by simp
    obtain n where n: "length (dec k) = Suc n" using dec_length by blast
    show ?thesis using loop_conversion [OF s, of i fmt "dec k" "0x73" rest "of_nat k" "p # vl" "render (Str w t p)" vl] i Str
      conv_s_eq [OF s ok, of n] Some k n by (auto simp: conv_chars conversion_def simp del: render.simps)
  qed
qed

lemma loop_directives:
  assumes "printing E serial s" "\<forall>d \<in> set ds. dir_ok (kmem s) d" "drop i fmt = concat (map spell ds)"
  shows "kprintf_loop E serial fmt i (concat (map dargs ds)) s = terminal_write E serial (concat (map render ds)) s"
  using assms
proof (induction ds arbitrary: i s)
  case Nil
  then have "str_at fmt i = 0" by (simp add: str_at_def)
  then show ?case by (subst kprintf_loop.simps) simp
next
  case (Cons d ds)
  have i: "drop i fmt = spell d @ concat (map spell ds)" using Cons.prems(3) by simp
  have "drop (i + length (spell d)) fmt = drop (length (spell d)) (drop i fmt)" by (simp add: add.commute)
  then have rest: "drop (i + length (spell d)) fmt = concat (map spell ds)" unfolding i by simp
  have "kprintf_loop E serial fmt (i + length (spell d)) (concat (map dargs ds)) t = terminal_write E serial (concat (map render ds)) t"
    if "printing E serial t" "kmem t = kmem s" for t
    using Cons.IH [OF that(1) _ rest] that(2) Cons.prems(2) by simp
  from printing_then [OF Cons.prems(1) this] loop_directive [OF Cons.prems(1) _ i] Cons.prems(2) show ?case by simp
qed

text \<open>
  C14. \<open>kprintf\<close> prints what its format says. For every sequence of directives (plain characters,
  \<open>%%\<close>, \<open>%u\<close>, \<open>%i\<close>, \<open>%c\<close>, and \<open>%h\<close> and \<open>%s\<close> with or without a width) the call on the format
  string that spells them returns, without a panic, in the state that printing the reference
  rendering character by character gives: unsigned and signed numbers in decimal, hexadecimal
  numbers with the number of bytes the width selects, strings cut to their width. The
  cursor is then still on the screen and memory is unchanged. In particular the scaled-digit array
  of \<open>try_get_num\<close>, which is never initialised, does not influence the result, and the assertion
  on its sum does not fail, for widths below \<open>2\<^sup>3\<^sup>2\<close>.
\<close>

theorem kprintf_renders:
  assumes "term_ok s" "g_terminal_initialized s" "serial \<longrightarrow> serial_ready E s" "\<forall>i. length (e_uninit E i) = 11"
    and "\<forall>d \<in> set ds. dir_ok (kmem s) d"
  shows "\<exists>s'. do_kprintf_internal E serial (Some (concat (map spell ds))) (concat (map dargs ds)) s = Some s' \<and>
     terminal_write E serial (concat (map render ds)) s = Some s' \<and> term_ok s' \<and> kmem s' = kmem s"
proof -
  have p: "printing E serial s" using assms(1-4) by (simp add: printing_def)
  have "do_kprintf_internal E serial (Some (concat (map spell ds))) (concat (map dargs ds)) s =
     terminal_write E serial (concat (map render ds)) s"
    using loop_directives [OF p assms(5), of 0] assms(2) by (simp add: do_kprintf_internal_def)
  then show ?thesis using printing_write [OF p, of "concat (map render ds)"] by (auto simp: printing_def)
qed

definition term_start :: "console \<Rightarrow> console" where
  "term_start s = s\<lparr>cli_depth := 0, TERM_WIDTH := 80, TERM_HEIGH := 25, g_row := 24, g_col := 78,
     g_terminal_initialized := True, s_serial_enabled := False, serial_out := Do_serial_out,
     kmem := (\<lambda>_. 0)(0x100 := 0x68, 0x101 := 0x69)\<rparr>"

definition env_start :: "console con_env" where
  "env_start = \<lparr>e_dev = \<lambda>_ _. 0, e_others = Some, e_serial_rb = 0, e_byte = 0, e_uninit = \<lambda>_. replicate 11 7\<rparr>"

theorem kprintf_renders_witness:
  "\<forall>s. \<exists>s'. do_kprintf_internal env_start True (Some (bytes_of ''a%1s%u%2h'')) [0x100, 1042, 0xBEEF] (term_start s) = Some s' \<and>
     terminal_write env_start True (bytes_of ''ah10420xBEEF'') (term_start s) = Some s'"
proof
  fix s
  let ?ds = "[Lit 0x61, Str (Some 1) [0x68, 0x69] 0x100, Dec 1042, Hex (Some 2) 0xBEEF]"
  have d: "dec (Suc 0) = [0x31]" "dec 2 = [0x32]" "dec 1042 = [0x31, 0x30, 0x34, 0x32]" by (simp_all add: dec.simps)
  have fmt: "concat (map spell ?ds) = bytes_of ''a%1s%u%2h''" by (simp add: d bytes_of_def)
  have out: "concat (map render ?ds) = bytes_of ''ah10420xBEEF''"
    by (simp add: d bytes_of_def hex_unfold hex2_def hexchars_def)
  have args: "concat (map dargs ?ds) = [0x100, 1042, 0xBEEF]" by simp
  have ok: "\<forall>d \<in> set ?ds. dir_ok (kmem (term_start s)) d" by (simp add: term_start_def)
  from kprintf_renders [where s = "term_start s" and E = env_start and serial = True and ds = ?ds, OF _ _ _ _ ok]
  show "\<exists>s'. do_kprintf_internal env_start True (Some (bytes_of ''a%1s%u%2h'')) [0x100, 1042, 0xBEEF] (term_start s) = Some s' \<and>
     terminal_write env_start True (bytes_of ''ah10420xBEEF'') (term_start s) = Some s'"
    unfolding fmt out args by (auto simp: term_start_def env_start_def term_ok_def serial_ready_def)
qed

text \<open>A twelfth digit is written past the array.\<close>

lemma long_width_overruns: "try_get_num u (bytes_of ''000000000001s'') = None"
  by (simp add: try_get_num_def num_loop.simps bytes_of_def str_at_def is_num_def)

end
