(* ===== verification/Idt.thy ===== *)
theory Idt
  imports Kprintf
begin

text \<open>
  \<open>kernel/idt.c\<close>: the interrupt descriptor table, the dispatcher behind it and the registration of
  handlers, with the devices that hang off it: the setup half of \<open>serial_debug.c\<close>, the timer chip
  of \<open>pit.c\<close> and \<open>terminal_init\<close>. Handlers are named, the five built in by constructors, attached
  ones by the address of the function; running one is an argument of the dispatcher. The addresses
  of the assembly stubs and the allocator are arguments too.
\<close>

section \<open>State\<close>

record idt_entry =
  offset_lowerbits :: u16
  selector :: u16
  zero :: u8
  type_attr :: u8
  offset_higherbits :: u16

datatype irq_fn = Do_default | Do_panic | Do_gp_fault | Do_page_fault | Do_syscall | Attached u32

record irq_handler =
  ih_name :: string
  ih_attr :: u8
  ih_handler :: irq_fn

record irq_state = console +
  idt_entries :: "u8 \<Rightarrow> idt_entry"
  irq_handlers :: "u32 \<Rightarrow> irq_handler option"
  irq_counts :: "u32 \<Rightarrow> u32"
  idt_loaded :: bool

section \<open>Gates\<close>

abbreviation GDT_KERNEL_CODE :: u16 where "GDT_KERNEL_CODE \<equiv> 0x08"
abbreviation IDT_PRESENT :: u8 where "IDT_PRESENT \<equiv> 0x80"
abbreviation IDT_INTERRUPT_GATE :: u8 where "IDT_INTERRUPT_GATE \<equiv> 0x0E"
abbreviation DPL_KERNEL :: u8 where "DPL_KERNEL \<equiv> 0"
abbreviation DPL_USER :: u8 where "DPL_USER \<equiv> 3"
abbreviation IDT_DPL :: "u8 \<Rightarrow> u8" where "IDT_DPL val \<equiv> push_bit 5 (val AND 0x03)"
abbreviation IRQ_KERNEL :: u8 where "IRQ_KERNEL \<equiv> IDT_PRESENT OR IDT_INTERRUPT_GATE OR IDT_DPL DPL_KERNEL"
abbreviation IRQ_USER :: u8 where "IRQ_USER \<equiv> IDT_PRESENT OR IDT_INTERRUPT_GATE OR IDT_DPL DPL_USER"

abbreviation NUM_IRQS :: u32 where "NUM_IRQS \<equiv> 256"

definition set_idt_entry :: "u8 \<Rightarrow> u32 \<Rightarrow> u8 \<Rightarrow> 'a irq_state_scheme \<Rightarrow> 'a irq_state_scheme" where
  "set_idt_entry idx handler attr s = s\<lparr>idt_entries := (idt_entries s)(idx :=
     \<lparr>offset_lowerbits = ucast (handler AND 0xFFFF), selector = GDT_KERNEL_CODE, zero = 0, type_attr = attr,
      offset_higherbits = ucast (drop_bit 16 handler)\<rparr>)\<rparr>"

definition zero_entry :: idt_entry where
  "zero_entry = \<lparr>offset_lowerbits = 0, selector = 0, zero = 0, type_attr = 0, offset_higherbits = 0\<rparr>"

definition IRQ_LIST :: "(string \<times> u8 \<times> u8 \<times> irq_fn) list" where
  "IRQ_LIST = [
     (''div_err'', 0, IRQ_KERNEL, Do_panic), (''dbg_exc'', 1, IRQ_KERNEL, Do_default),
     (''nmi'', 2, IRQ_KERNEL, Do_panic), (''breakpoint'', 3, IRQ_KERNEL, Do_default),
     (''into_overflow'', 4, IRQ_KERNEL, Do_default), (''bound_range'', 5, IRQ_KERNEL, Do_default),
     (''invalid_opcode'', 6, IRQ_KERNEL, Do_panic), (''copro_not_avail'', 7, IRQ_KERNEL, Do_default),
     (''double_fault'', 8, IRQ_KERNEL, Do_panic), (''copro_seg_overrun'', 9, IRQ_KERNEL, Do_default),
     (''invalid_tss'', 10, IRQ_KERNEL, Do_default), (''seg_not_present'', 11, IRQ_KERNEL, Do_default),
     (''fault_stack'', 12, IRQ_KERNEL, Do_default), (''fault_gp'', 13, IRQ_KERNEL, Do_gp_fault),
     (''fault_page'', 14, IRQ_KERNEL, Do_page_fault), (''copro_error'', 16, IRQ_KERNEL, Do_default),
     (''irq0'', 32, IRQ_KERNEL, Do_default), (''irq1'', 33, IRQ_KERNEL, Do_default),
     (''irq2'', 34, IRQ_KERNEL, Do_default), (''irq3'', 35, IRQ_KERNEL, Do_default),
     (''irq4'', 36, IRQ_KERNEL, Do_default), (''irq5'', 37, IRQ_KERNEL, Do_default),
     (''irq6'', 38, IRQ_KERNEL, Do_default), (''spurious7'', 39, IRQ_KERNEL, Do_default),
     (''irq8'', 40, IRQ_KERNEL, Do_default), (''irq9'', 41, IRQ_KERNEL, Do_default),
     (''irq10'', 42, IRQ_KERNEL, Do_default), (''irq11'', 43, IRQ_KERNEL, Do_default),
     (''irq12'', 44, IRQ_KERNEL, Do_default), (''irq13'', 45, IRQ_KERNEL, Do_default),
     (''irq14'', 46, IRQ_KERNEL, Do_default), (''spurious15'', 47, IRQ_KERNEL, Do_default),
     (''syscall'', 128, IRQ_USER, Do_syscall)]"

text \<open>The initialiser of \<open>irq_handlers\<close>, and the gates \<open>idt_init\<close> installs; \<open>stub\<close> gives the address of \<open>irq##num\<close>.\<close>

definition initial_handlers :: "u32 \<Rightarrow> irq_handler option" where
  "initial_handlers i = map_option (\<lambda>(name, num, attr, f). \<lparr>ih_name = name, ih_attr = attr, ih_handler = f\<rparr>)
     (find (\<lambda>(name, num, attr, f). ucast num = i) IRQ_LIST)"

definition install_gates :: "(u8 \<Rightarrow> u32) \<Rightarrow> 'a irq_state_scheme \<Rightarrow> 'a irq_state_scheme" where
  "install_gates stub s = fold (\<lambda>(name, num, attr, f) s. set_idt_entry num (stub num) attr s) IRQ_LIST s"

definition idt_init :: "(u8 \<Rightarrow> u32) \<Rightarrow> 'a irq_state_scheme \<Rightarrow> 'a irq_state_scheme" where
  "idt_init stub s =
     (let s = pic_remap s;
          s = s\<lparr>irq_counts := \<lambda>i. if i < NUM_IRQS then 0 else irq_counts s i\<rparr>;
          s = s\<lparr>idt_entries := \<lambda>_. zero_entry\<rparr>;
          s = install_gates stub s
      in s\<lparr>idt_loaded := True\<rparr>)"

section \<open>Dispatch\<close>

text \<open>
  \<open>run f irq_num s\<close> is the call of a handler. A NULL entry of the table is dereferenced: \<open>None\<close>. The
  in-service register is read from the second controller first.
\<close>

definition do_irq ::
  "device_io \<Rightarrow> (irq_fn \<Rightarrow> u32 \<Rightarrow> 'a irq_state_scheme \<Rightarrow> ('a irq_state_scheme \<times> int) option) \<Rightarrow> u32 \<Rightarrow> 'a irq_state_scheme \<Rightarrow> ('a irq_state_scheme \<times> int) option" where
  "do_irq dev run irq_num s =
     (let s = s\<lparr>irq_counts := (irq_counts s)(irq_num := irq_counts s irq_num + 1)\<rparr>;
          (s, isr7) = (if irq_num = IRQ0_OFFSET + 7 then pic_get_isr dev s else (s, 0))
      in if irq_num = IRQ0_OFFSET + 7 \<and> isr7 AND 0x80 = 0 then Some (s, 0)
         else let (s, isr15) = (if irq_num = IRQ0_OFFSET + 15 then pic_get_isr dev s else (s, 0))
              in if irq_num = IRQ0_OFFSET + 15 \<and> isr15 AND 0x8000 = 0 then Some (io_out8 PIC1_CMD PIC_EOI s, 0)
                 else let s = (if IRQ0_OFFSET \<le> irq_num \<and> irq_num \<le> IRQ0_OFFSET + 15 then pic_eoi (ucast irq_num) s else s)
                      in case irq_handlers s irq_num of None \<Rightarrow> None | Some h \<Rightarrow> run (ih_handler h) irq_num s)"

text \<open>\<open>do_panic\<close> stops the machine and \<open>do_default\<close> only returns.\<close>

definition do_panic :: "u32 \<Rightarrow> 'a irq_state_scheme \<Rightarrow> ('a irq_state_scheme \<times> int) option" where
  "do_panic irq_num s = None"

definition do_default :: "u32 \<Rightarrow> 'a irq_state_scheme \<Rightarrow> ('a irq_state_scheme \<times> int) option" where
  "do_default irq_num s = Some (s, 0)"

definition attach_irq ::
  "('a irq_state_scheme \<Rightarrow> ('a irq_state_scheme \<times> u32) option) \<Rightarrow> u32 \<Rightarrow> irq_fn \<Rightarrow> string \<Rightarrow> 'a irq_state_scheme \<Rightarrow> ('a irq_state_scheme \<times> int) option" where
  "attach_irq alloc irq handler name s =
     (if NUM_IRQS \<le> irq then Some (s, -EINVAL)
      else if type_attr (idt_entries s (ucast irq)) = 0 then None
      else case irq_handlers s irq of
        Some h \<Rightarrow>
          if ih_handler h \<noteq> Do_default then Some (s, -EEXIST)
          else Some (s\<lparr>irq_handlers := (irq_handlers s)(irq := Some \<lparr>ih_name = name, ih_attr = IRQ_KERNEL, ih_handler = handler\<rparr>)\<rparr>, 0)
      | None \<Rightarrow> do {
          (s, h) \<leftarrow> alloc s;
          if h = 0 then None
          else Some (s\<lparr>irq_handlers := (irq_handlers s)(irq := Some \<lparr>ih_name = name, ih_attr = IRQ_KERNEL, ih_handler = handler\<rparr>)\<rparr>, 0)
        })"

section \<open>Devices set up through it\<close>

definition nl :: string where "nl = [CHR 0x0A]"

definition get_irq :: "u16 \<Rightarrow> int" where
  "get_irq port =
     (if port = 0x3F8 then uint IRQ0_OFFSET + 4 else if port = 0x2F8 then uint IRQ0_OFFSET + 3
      else if port = 0x3E8 then uint IRQ0_OFFSET + 4 else if port = 0x2E8 then uint IRQ0_OFFSET + 3 else -1)"

definition get_name :: "u16 \<Rightarrow> string" where
  "get_name port =
     (if port = 0x3F8 then ''COM1'' else if port = 0x2F8 then ''COM2'' else if port = 0x3E8 then ''COM3''
      else if port = 0x2E8 then ''COM4'' else if port = 0x5F8 then ''COM5'' else if port = 0x4F8 then ''COM6''
      else if port = 0x5E8 then ''COM7'' else if port = 0x4E8 then ''COM8'' else ''COM?'')"

definition rates :: "u32 list" where
  "rates = [50, 75, 150, 200, 300, 600, 1200, 1800, 2400, 4800, 9600, 19200, 28800, 38400, 57600, 115200]"

abbreviation RWREG_IRQ_ENABLE :: u16 where "RWREG_IRQ_ENABLE \<equiv> 1"
abbreviation RWREG_DLAB_DIV_LSB :: u16 where "RWREG_DLAB_DIV_LSB \<equiv> 0"
abbreviation RWREG_DLAB_DIV_MSB :: u16 where "RWREG_DLAB_DIV_MSB \<equiv> 1"
abbreviation WREG_FIFOCTL :: u16 where "WREG_FIFOCTL \<equiv> 2"
abbreviation RWREG_LINECTL :: u16 where "RWREG_LINECTL \<equiv> 3"
abbreviation RWREG_MODEMCTL :: u16 where "RWREG_MODEMCTL \<equiv> 4"

definition set_dlab :: "'a cenv \<Rightarrow> 'a console_scheme \<Rightarrow> 'a console_scheme" where
  "set_dlab E s = (case getreg E RWREG_LINECTL s of (s, lc) \<Rightarrow> setreg RWREG_LINECTL (lc OR 0x80) s)"

definition clear_dlab :: "'a cenv \<Rightarrow> 'a console_scheme \<Rightarrow> 'a console_scheme" where
  "clear_dlab E s = (case getreg E RWREG_LINECTL s of (s, lc) \<Rightarrow> setreg RWREG_LINECTL (lc AND NOT 0x80) s)"

definition set_baudrate :: "'a cenv \<Rightarrow> u32 \<Rightarrow> 'a console_scheme \<Rightarrow> 'a console_scheme option" where
  "set_baudrate E baud s =
     (let base_clock = 115200 :: u32
      in if baud = 0 \<or> base_clock mod baud \<noteq> 0 then None
         else let divisor = base_clock div baud;
                  s = set_dlab E s;
                  s = setreg RWREG_DLAB_DIV_LSB (ucast (divisor AND 0xFF)) s;
                  s = setreg RWREG_DLAB_DIV_MSB (ucast (drop_bit 8 divisor AND 0xFF)) s
              in Some (clear_dlab E s))"

definition init_e9 :: "'a cenv \<Rightarrow> 'a console_scheme \<Rightarrow> 'a console_scheme" where
  "init_e9 E s = (case io_in8 (e_dev E) 0xE9 s of (s, test) \<Rightarrow> if test = 0xE9 then s\<lparr>s_emu_serial_found := True\<rparr> else s)"

text \<open>\<open>handler\<close> is \<open>do_serial\<close>; the name of the port is the string at \<open>name_at port\<close>.\<close>

definition set_up_irq ::
  "'a irq_state_scheme con_env \<Rightarrow> _ \<Rightarrow> irq_fn \<Rightarrow> (u16 \<Rightarrow> u32) \<Rightarrow> 'a irq_state_scheme \<Rightarrow> 'a irq_state_scheme option" where
  "set_up_irq E alloc handler name_at s =
     (let irq = get_irq (s_port s)
      in if irq < 0 then Some s
         else do {
           (s, ret) \<leftarrow> attach_irq alloc (of_int irq) handler (get_name (s_port s)) s;
           if ret \<noteq> 0 then kprintf E (''failed to attach %s IRQ %i'' @ nl) [name_at (s_port s), of_int irq] s
           else Some s
         })"

definition prepare_serial_device ::
  "'a irq_state_scheme con_env \<Rightarrow> _ \<Rightarrow> irq_fn \<Rightarrow> (u16 \<Rightarrow> u32) \<Rightarrow> u16 \<Rightarrow> 'a irq_state_scheme \<Rightarrow> 'a irq_state_scheme option" where
  "prepare_serial_device E alloc handler name_at port s = do {
     s \<leftarrow> Some (s\<lparr>s_port := port\<rparr>);
     s \<leftarrow> Some (init_e9 E s);
     s \<leftarrow> set_up_irq E alloc handler name_at s;
     s \<leftarrow> Some (setreg RWREG_IRQ_ENABLE 0x00 s);
     s \<leftarrow> set_baudrate E (baud_rate s) s;
     s \<leftarrow> Some (setreg RWREG_LINECTL 0x03 s);
     s \<leftarrow> Some (setreg WREG_FIFOCTL 0xC7 s);
     s \<leftarrow> Some (setreg RWREG_MODEMCTL 0x0B s);
     Some (s\<lparr>s_serial_enabled := True\<rparr>)
   }"

definition serial_setup ::
  "'a irq_state_scheme con_env \<Rightarrow> _ \<Rightarrow> irq_fn \<Rightarrow> (u16 \<Rightarrow> u32) \<Rightarrow> 'a irq_state_scheme \<Rightarrow> 'a irq_state_scheme option" where
  "serial_setup E alloc handler name_at s = prepare_serial_device E alloc handler name_at 0x2F8 s"

text \<open>One round of the endless loop of \<open>serial_flush\<close>.\<close>

definition serial_flush_step :: "'a cenv \<Rightarrow> 'a console_scheme \<Rightarrow> 'a console_scheme option" where
  "serial_flush_step E s = do { (s, c) \<leftarrow> get_byte (e_others E) (e_serial_rb E) (e_byte E) s; do_serial_out E c s }"

abbreviation SERIAL_RINGBUF_SIZE :: u32 where "SERIAL_RINGBUF_SIZE \<equiv> 8192"

text \<open>\<open>spawn\<close> is \<open>task_create(serial_flush, NULL, "kserial", 0)\<close>.\<close>

definition serial_enable_buffering ::
  "'a cenv \<Rightarrow> (u32 \<Rightarrow> 'a console_scheme \<Rightarrow> ('a console_scheme \<times> u32) option) \<Rightarrow> ('a console_scheme \<Rightarrow> ('a console_scheme \<times> int) option) \<Rightarrow> 'a console_scheme \<Rightarrow> 'a console_scheme option" where
  "serial_enable_buffering E alloc spawn s = do {
     (s, buf) \<leftarrow> alloc SERIAL_RINGBUF_SIZE s;
     s \<leftarrow> Some (rb_initialize (e_serial_rb E) buf SERIAL_RINGBUF_SIZE s);
     (s, _) \<leftarrow> spawn s;
     Some (s\<lparr>serial_out := Serial_buffer\<rparr>)
   }"

definition decrease_baud :: "'a cenv \<Rightarrow> 'a console_scheme \<Rightarrow> ('a console_scheme \<times> int) option" where
  "decrease_baud E s = do {
     s \<leftarrow> (if selected_rate s \<noteq> 0
           then let s = s\<lparr>selected_rate := selected_rate s - 1\<rparr>;
                    s = s\<lparr>baud_rate := rates ! unat (selected_rate s)\<rparr>
                in set_baudrate E (baud_rate s) s
           else Some s);
     s \<leftarrow> kprintf E (''baud_rate: %i'' @ nl) [baud_rate s] s;
     Some (s, 0)
   }"

definition increase_baud :: "'a cenv \<Rightarrow> 'a console_scheme \<Rightarrow> ('a console_scheme \<times> int) option" where
  "increase_baud E s = do {
     s \<leftarrow> (if unat (selected_rate s) < length rates - 1
           then let s = s\<lparr>selected_rate := selected_rate s + 1\<rparr>;
                    s = s\<lparr>baud_rate := rates ! unat (selected_rate s)\<rparr>
                in set_baudrate E (baud_rate s) s
           else Some s);
     s \<leftarrow> kprintf E (''baud_rate: %i'' @ nl) [baud_rate s] s;
     Some (s, 0)
   }"

definition toggle_serial :: "'a cenv \<Rightarrow> 'a console_scheme \<Rightarrow> ('a console_scheme \<times> int) option" where
  "toggle_serial E s = do {
     s \<leftarrow> Some (s\<lparr>s_serial_enabled := \<not> s_serial_enabled s\<rparr>);
     s \<leftarrow> kprintf E (''enabled: %i'' @ nl) [of_bool (s_serial_enabled s)] s;
     Some (s, 0)
   }"

definition pit_initialize :: "'a cenv \<Rightarrow> 'a console_scheme \<Rightarrow> 'a console_scheme option" where
  "pit_initialize E s =
     (let s = io_out8 0x43 0x34 s;
          reload = 1193 :: u16;
          s = io_out8 0x40 (ucast (reload AND 0xFF)) s;
          s = io_out8 0x40 (ucast (drop_bit 8 (reload AND 0xFF00))) s
      in kprintf E (''pit: firing irq0 @ (3579545 / 3) / 1193 = ~1000.152277Hz'' @ nl) [] s)"

text \<open>\<open>banner\<close> is the greeting, which contains the version of the build.\<close>

definition terminal_init :: "'a cenv \<Rightarrow> string \<Rightarrow> u32 \<Rightarrow> u32 \<Rightarrow> 'a console_scheme \<Rightarrow> 'a console_scheme option" where
  "terminal_init E banner width height s =
     (let s = s\<lparr>TERM_WIDTH := width, TERM_HEIGH := height\<rparr>;
          s = terminal_clear s;
          s = s\<lparr>g_terminal_initialized := True\<rparr>
      in kprintf E banner [] s)"

text \<open>The body of the loop of \<open>dump_irq_counts\<close>; \<open>name_at i\<close> is the address of the name of handler \<open>i\<close>, or of an empty string.\<close>

function dump_irq_loop :: "'a irq_state_scheme con_env \<Rightarrow> (u32 \<Rightarrow> u32) \<Rightarrow> u32 \<Rightarrow> 'a irq_state_scheme \<Rightarrow> 'a irq_state_scheme option" where
  "dump_irq_loop E name_at i s =
     (if i < NUM_IRQS
      then case irq_handlers s i of
        None \<Rightarrow> dump_irq_loop E name_at (i + 1) s
      | Some h \<Rightarrow> do {
          s \<leftarrow> kprintf E ([CHR 0x09] @ ''[%u]%s: %u'' @ nl)
                 [i, name_at i, irq_counts s i] s;
          dump_irq_loop E name_at (i + 1) s }
      else Some s)"
  by pat_completeness auto
termination
  by (relation "measure (\<lambda>(E, name_at, i, s). unat NUM_IRQS - unat i)") (use loop_up_measure [of _ NUM_IRQS] in auto)

declare dump_irq_loop.simps [simp del]

definition dump_irq_counts :: "'a irq_state_scheme con_env \<Rightarrow> (u32 \<Rightarrow> u32) \<Rightarrow> 'a irq_state_scheme \<Rightarrow> ('a irq_state_scheme \<times> int) option" where
  "dump_irq_counts E name_at s = do {
     s \<leftarrow> kprintf E (''IRQ counts:'' @ nl) [] s;
     s \<leftarrow> dump_irq_loop E name_at 0 s;
     Some (s, 0)
   }"

section \<open>Gates and handlers agree\<close>

text \<open>The address a gate transfers control to.\<close>

definition gate_offset :: "idt_entry \<Rightarrow> u32" where
  "gate_offset e = push_bit 16 (ucast (offset_higherbits e)) OR ucast (offset_lowerbits e)"

lemma gate_offset_set: "gate_offset (idt_entries (set_idt_entry i f attr s) i) = f"
proof -
  have "f AND 0xFFFF = take_bit 16 f" by (simp add: take_bit_eq_mask mask_eq_exp_minus_1)
  moreover have "(push_bit 16 (ucast (ucast (drop_bit 16 f) :: u16)) OR ucast (ucast (take_bit 16 f) :: u16) :: u32) = f"
  proof (rule bit_word_eqI)
    fix n assume "n < LENGTH(32)"
    then show "bit (push_bit 16 (ucast (ucast (drop_bit 16 f) :: u16)) OR ucast (ucast (take_bit 16 f) :: u16) :: u32) n = bit f n"
      by (cases "n < 16") (auto simp: bit_simps)
  qed
  ultimately show ?thesis by (simp add: gate_offset_def set_idt_entry_def)
qed

definition gates :: "(string \<times> u8 \<times> u8 \<times> irq_fn) list \<Rightarrow> (u8 \<Rightarrow> u32) \<Rightarrow> 'a irq_state_scheme \<Rightarrow> 'a irq_state_scheme" where
  "gates xs stub s = fold (\<lambda>(name, num, attr, f) s. set_idt_entry num (stub num) attr s) xs s"

lemma gates_other: "i \<notin> (\<lambda>(name, num, attr, f). num) ` set xs \<Longrightarrow> idt_entries (gates xs stub s) i = idt_entries s i"
  unfolding gates_def by (induction xs arbitrary: s) (auto simp: set_idt_entry_def)

lemma gates_entry:
  assumes "distinct (map (\<lambda>(name, num, attr, f). num) xs)" "(name, num, attr, f) \<in> set xs"
  shows "gate_offset (idt_entries (gates xs stub s) num) = stub num \<and> type_attr (idt_entries (gates xs stub s) num) = attr"
  using assms
proof (induction xs arbitrary: s)
  case (Cons x xs)
  obtain n' m' a' f' where x: "x = (n', m', a', f')" by (cases x) auto
  have step: "gates (x # xs) stub s = gates xs stub (set_idt_entry m' (stub m') a' s)" by (simp add: gates_def x)
  show ?case
  proof (cases "(name, num, attr, f) \<in> set xs")
    case True
    then show ?thesis using Cons unfolding step by simp
  next
    case False
    then have e: "m' = num" "a' = attr" using Cons.prems(2) x by auto
    have "num \<notin> (\<lambda>(name, num, attr, f). num) ` set xs" using Cons.prems(1) x e(1) by (force simp: image_iff)
    then show ?thesis unfolding step by (simp add: gates_other e gate_offset_set) (simp add: set_idt_entry_def)
  qed
qed simp

lemma IRQ_LIST_distinct: "distinct (map (\<lambda>(name, num, attr, f). num) IRQ_LIST)"
  by (simp add: IRQ_LIST_def)

text \<open>
  After \<open>idt_init\<close> every listed vector has a gate to its own stub with the listed privilege, no other
  vector has a gate, and every vector with a gate has a handler, so the dispatcher never meets a
  NULL entry and \<open>attach_irq\<close> never allocates.
\<close>

lemma idt_init_gates:
  "(name, num, attr, f) \<in> set IRQ_LIST \<Longrightarrow>
     gate_offset (idt_entries (idt_init stub s) num) = stub num \<and> type_attr (idt_entries (idt_init stub s) num) = attr"
  using gates_entry [OF IRQ_LIST_distinct] by (simp add: idt_init_def Let_def install_gates_def gates_def [symmetric])

lemma idt_init_no_gate:
  assumes "type_attr (idt_entries (idt_init stub s) num) \<noteq> 0"
  shows "initial_handlers (ucast num) \<noteq> None"
proof -
  have "num \<in> (\<lambda>(name, num, attr, f). num) ` set IRQ_LIST"
  proof (rule ccontr)
    assume no: "num \<notin> (\<lambda>(name, num, attr, f). num) ` set IRQ_LIST"
    show False using assms
      by (simp add: idt_init_def Let_def install_gates_def gates_def [symmetric] gates_other [OF no] zero_entry_def)
  qed
  then obtain x where "x \<in> set IRQ_LIST" "(\<lambda>(name, n, attr, f). ucast n = (ucast num :: u32)) x" by auto
  then show ?thesis by (auto simp: initial_handlers_def find_None_iff)
qed

section \<open>Acknowledging interrupts\<close>

text \<open>The end-of-interrupt commands among port accesses, by controller.\<close>

fun acks :: "io_event list \<Rightarrow> u16 list" where
  "acks [] = []"
| "acks (Out8 p v # l) = (if v = PIC_EOI \<and> (p = PIC1_CMD \<or> p = PIC2_CMD) then [p] else []) @ acks l"
| "acks (In8 p v # l) = acks l"

definition count_irq :: "u32 \<Rightarrow> 'a irq_state_scheme \<Rightarrow> 'a irq_state_scheme" where
  "count_irq n s = s\<lparr>irq_counts := (irq_counts s)(n := irq_counts s n + 1)\<rparr>"

text \<open>The two bytes of the in-service register that a read at history \<open>l\<close> returns, and whether they deny the interrupt.\<close>

definition isr_hi :: "device_io \<Rightarrow> io_event list \<Rightarrow> u8" where
  "isr_hi dev l = dev (l @ [Out8 0x20 0x0B, Out8 0xA0 0x0B]) 0xA0"

definition isr_lo :: "device_io \<Rightarrow> io_event list \<Rightarrow> u8" where
  "isr_lo dev l = dev (l @ [Out8 0x20 0x0B, Out8 0xA0 0x0B, In8 0xA0 (isr_hi dev l)]) 0x20"

definition spurious :: "device_io \<Rightarrow> u32 \<Rightarrow> io_event list \<Rightarrow> bool" where
  "spurious dev n l \<longleftrightarrow> n = 0x27 \<and> isr_lo dev l AND 0x80 = 0 \<or> n = 0x2F \<and> isr_hi dev l AND 0x80 = 0"

lemma isr_bits:
  "((push_bit 8 (ucast hi) OR ucast lo :: u16) AND 0x80 = 0) = ((lo :: u8) AND 0x80 = 0)"
  "((push_bit 8 (ucast hi) OR ucast lo :: u16) AND 0x8000 = 0) = ((hi :: u8) AND 0x80 = 0)"
proof -
  have m16: "w AND 0x80 = 0 \<longleftrightarrow> \<not> bit w 7" "w AND 0x8000 = 0 \<longleftrightarrow> \<not> bit w 15" for w :: u16
    using and_exp_eq_0_iff_not_bit [of w 7] and_exp_eq_0_iff_not_bit [of w 15] by simp_all
  have m8: "w AND 0x80 = 0 \<longleftrightarrow> \<not> bit w 7" for w :: u8
    using and_exp_eq_0_iff_not_bit [of w 7] by simp
  show "((push_bit 8 (ucast hi) OR ucast lo :: u16) AND 0x80 = 0) = ((lo :: u8) AND 0x80 = 0)"
    unfolding m16 m8 by (simp add: bit_simps)
  show "((push_bit 8 (ucast hi) OR ucast lo :: u16) AND 0x8000 = 0) = ((hi :: u8) AND 0x80 = 0)"
    unfolding m16 m8 using bit_imp_le_length [of lo 15] by (auto simp: bit_simps)
qed

lemma pic_get_isr_eq:
  "pic_get_isr dev s = (s\<lparr>io_log := io_log s @ [Out8 0x20 0x0B, Out8 0xA0 0x0B, In8 0xA0 (isr_hi dev (io_log s)), In8 0x20 (isr_lo dev (io_log s))]\<rparr>,
     push_bit 8 (ucast (isr_hi dev (io_log s))) OR ucast (isr_lo dev (io_log s)))"
  by (simp add: pic_get_isr_def pic_get_irq_reg_def Let_def io_out8_def io_in8_def isr_hi_def isr_lo_def)

lemma irq_real:
  assumes "0x20 \<le> n" "n \<le> 0x2F" "n \<noteq> 0x27" "n \<noteq> 0x2F" "irq_handlers s n = Some h"
  shows "do_irq dev run n s = run (ih_handler h) n (count_irq n s\<lparr>io_log := io_log s @
     (if 0x28 \<le> n then [Out8 0xA0 0x20] else []) @ [Out8 0x20 0x20]\<rparr>)"
proof -
  have "unat (ucast n :: u8) = unat n" using assms(2) by (simp add: unsigned_ucast_eq take_bit_eq_mod word_le_nat_alt)
  then have "unat IRQ0_OFFSET + 8 \<le> unat (ucast n :: u8) \<longleftrightarrow> 0x28 \<le> n" by (simp add: word_le_nat_alt)
  then show ?thesis using assms
    by (simp add: do_irq_def Let_def pic_eoi_def io_out8_def count_irq_def)
qed

lemma irq_seven:
  assumes "irq_handlers s 0x27 = Some h"
  shows "do_irq dev run 0x27 s = (let l = io_log s; t = count_irq 0x27 s\<lparr>io_log := l @
       [Out8 0x20 0x0B, Out8 0xA0 0x0B, In8 0xA0 (isr_hi dev l), In8 0x20 (isr_lo dev l)]\<rparr> in
     if isr_lo dev l AND 0x80 = 0 then Some (t, 0) else run (ih_handler h) 0x27 (t\<lparr>io_log := io_log t @ [Out8 0x20 0x20]\<rparr>))"
  using assms by (simp add: do_irq_def Let_def pic_get_isr_eq isr_bits pic_eoi_def io_out8_def count_irq_def)

lemma irq_fifteen:
  assumes "irq_handlers s 0x2F = Some h"
  shows "do_irq dev run 0x2F s = (let l = io_log s; t = count_irq 0x2F s\<lparr>io_log := l @
       [Out8 0x20 0x0B, Out8 0xA0 0x0B, In8 0xA0 (isr_hi dev l), In8 0x20 (isr_lo dev l)]\<rparr> in
     if isr_hi dev l AND 0x80 = 0 then Some (t\<lparr>io_log := io_log t @ [Out8 0x20 0x20]\<rparr>, 0)
     else run (ih_handler h) 0x2F (t\<lparr>io_log := io_log t @ [Out8 0xA0 0x20, Out8 0x20 0x20]\<rparr>))"
  using assms by (simp add: do_irq_def Let_def pic_get_isr_eq isr_bits pic_eoi_def io_out8_def count_irq_def)

text \<open>
  C10. The dispatcher acknowledges exactly what the interrupt controllers have in service. For a
  hardware interrupt with a handler: if it is real, the handler runs once, after an end-of-interrupt
  to the second controller (interrupts 8 to 15 only) and then to the first. A spurious interrupt 7
  or 15, which the in-service register denies, runs no handler; 7 is not acknowledged at all and 15
  only to the first controller, whose cascade line it came through. The state the handler starts in
  differs from the interrupted one only in the port accesses and the counter of the interrupt.
\<close>

theorem irq_acknowledged:
  assumes "0x20 \<le> n" "n \<le> 0x2F" "irq_handlers s n = Some h"
  shows "\<exists>l. do_irq dev run n s =
       (if spurious dev n (io_log s) then Some (count_irq n s\<lparr>io_log := io_log s @ l\<rparr>, 0)
        else run (ih_handler h) n (count_irq n s\<lparr>io_log := io_log s @ l\<rparr>)) \<and>
     acks l = (if spurious dev n (io_log s) then (if n = 0x2F then [PIC1_CMD] else [])
               else (if 0x28 \<le> n then [PIC2_CMD] else []) @ [PIC1_CMD])"
proof -
  let ?isr = "[Out8 0x20 0x0B, Out8 0xA0 0x0B, In8 0xA0 (isr_hi dev (io_log s)), In8 0x20 (isr_lo dev (io_log s))]"
  consider "n = 0x27" | "n = 0x2F" | "n \<noteq> 0x27" "n \<noteq> 0x2F" by blast
  then show ?thesis
  proof cases
    case 1
    then show ?thesis using assms(3) irq_seven [of s h dev run]
      by (intro exI [of _ "?isr @ (if spurious dev n (io_log s) then [] else [Out8 0x20 0x20])"])
        (simp add: spurious_def Let_def)
  next
    case 2
    then show ?thesis using assms(3) irq_fifteen [of s h dev run]
      by (intro exI [of _ "?isr @ (if spurious dev n (io_log s) then [] else [Out8 0xA0 0x20]) @ [Out8 0x20 0x20]"])
        (simp add: spurious_def Let_def)
  next
    case 3
    then show ?thesis using irq_real [OF assms(1,2) 3 assms(3), of dev run]
      by (intro exI [of _ "(if 0x28 \<le> n then [Out8 0xA0 0x20] else []) @ [Out8 0x20 0x20]"])
        (simp add: spurious_def)
  qed
qed

theorem irq_acknowledged_witness:
  "\<forall>s :: irq_state. \<exists>l.
     do_irq (\<lambda>_ _. 0) (\<lambda>f n s. Some (s, 7)) 0x2F (s\<lparr>irq_handlers := initial_handlers\<rparr>) =
       Some (count_irq 0x2F (s\<lparr>irq_handlers := initial_handlers\<rparr>)\<lparr>io_log := io_log s @ l\<rparr>, 0) \<and> acks l = [PIC1_CMD]"
proof
  fix s :: irq_state
  let ?s = "s\<lparr>irq_handlers := initial_handlers\<rparr>"
  have h: "irq_handlers ?s 0x2F = Some \<lparr>ih_name = ''spurious15'', ih_attr = IRQ_KERNEL, ih_handler = Do_default\<rparr>"
    by (simp add: initial_handlers_def IRQ_LIST_def)
  have sp: "spurious (\<lambda>_ _. 0) 0x2F (io_log ?s)" by (simp add: spurious_def isr_hi_def)
  have r: "(0x20 :: u32) \<le> 0x2F" "(0x2F :: u32) \<le> 0x2F" by simp_all
  from irq_acknowledged [OF r h, of "\<lambda>_ _. 0" "\<lambda>f n s. Some (s, 7)"] sp
  show "\<exists>l. do_irq (\<lambda>_ _. 0) (\<lambda>f n s. Some (s, 7)) 0x2F ?s =
       Some (count_irq 0x2F ?s\<lparr>io_log := io_log s @ l\<rparr>, 0) \<and> acks l = [PIC1_CMD]" by simp
qed

text \<open>An exception, or a system call, touches no port.\<close>

lemma exception_dispatch:
  assumes "n < 0x20 \<or> 0x2F < n" "irq_handlers s n = Some h"
  shows "do_irq dev run n s = run (ih_handler h) n (count_irq n s)"
  using assms by (auto simp: do_irq_def Let_def count_irq_def)

section \<open>Handlers are attached once\<close>

lemma attach_irq_cases:
  assumes "type_attr (idt_entries s (ucast irq)) \<noteq> 0" "irq_handlers s irq = Some h" "irq < NUM_IRQS"
  shows "attach_irq alloc irq f name s =
    (if ih_handler h = Do_default
     then Some (s\<lparr>irq_handlers := (irq_handlers s)(irq \<mapsto> \<lparr>ih_name = name, ih_attr = IRQ_KERNEL, ih_handler = f\<rparr>)\<rparr>, 0)
     else Some (s, -EEXIST))"
proof -
  have "\<not> NUM_IRQS \<le> irq" using assms(3) by simp
  then show ?thesis using assms(1,2) by (simp add: attach_irq_def)
qed

text \<open>Every selectable rate divides the clock of the serial port, so changing the rate never trips the assertion.\<close>

lemma rates_divide: "r \<in> set rates \<Longrightarrow> \<exists>s'. set_baudrate E r s = Some s'"
  by (auto simp: rates_def set_baudrate_def Let_def)

end
