(* ===== verification/Kbd.thy ===== *)
theory Kbd
  imports Idt
begin

text \<open>
  \<open>kernel/drivers/kbd.c\<close>: the keyboard driver, over the interrupt table, the ring buffer and the
  terminal. The interrupt handler translates scancodes and fills the ring buffer; \<open>kbd_read\<close>
  empties it. The theorem shows that the handler never waits, whatever the keyboard sends, and
  that a reader gets the characters typed, in order.
\<close>

section \<open>Model\<close>

record kbd_state = irq_state +
  modifiers :: "u8 \<Rightarrow> u8"
  halted :: bool

text \<open>The address of the ring buffer, of its storage, and of the byte variables handed to it.\<close>

record 's kbd_env =
  kb_con :: "'s con_env"
  kb_rb :: u32
  kb_buf :: u32
  kb_byte :: u32
  kb_reboot :: "'s \<Rightarrow> 's option"

type_synonym 'a kenv = "'a kbd_state_scheme kbd_env"

text \<open>The table of printable keys: unshifted and shifted byte.\<close>

definition code_table :: "(u8 \<times> u8 \<times> u8) list" where
  "code_table = [
     (0x1E, 0x61, 0x41), (0x30, 0x62, 0x42), (0x2E, 0x63, 0x43), (0x20, 0x64, 0x44), (0x12, 0x65, 0x45),
     (0x21, 0x66, 0x46), (0x22, 0x67, 0x47), (0x23, 0x68, 0x48), (0x17, 0x69, 0x49), (0x24, 0x6A, 0x4A),
     (0x25, 0x6B, 0x4B), (0x26, 0x6C, 0x4C), (0x32, 0x6D, 0x4D), (0x31, 0x6E, 0x4E), (0x18, 0x6F, 0x4F),
     (0x19, 0x70, 0x50), (0x10, 0x71, 0x51), (0x13, 0x72, 0x52), (0x1F, 0x73, 0x53), (0x14, 0x74, 0x54),
     (0x16, 0x75, 0x55), (0x2F, 0x76, 0x56), (0x11, 0x77, 0x57), (0x2D, 0x78, 0x58), (0x15, 0x79, 0x59),
     (0x2C, 0x7A, 0x5A), (0x39, 0x20, 0x20), (0x02, 0x31, 0x21), (0x03, 0x32, 0x22), (0x04, 0x33, 0x23),
     (0x05, 0x34, 0x24), (0x06, 0x35, 0x25), (0x07, 0x36, 0x26), (0x08, 0x37, 0x2F), (0x09, 0x38, 0x28),
     (0x0A, 0x39, 0x29), (0x0B, 0x30, 0x3D), (0x0E, 0x08, 0x08), (0x0F, 0x09, 0x09), (0x1C, 0x0A, 0x0A),
     (0x01, 0x1B, 0x1B), (0x2B, 0x27, 0x27), (0x33, 0x2C, 0x3B), (0x34, 0x2E, 0x3A), (0x35, 0x2D, 0x5F),
     (0x28, 0x27, 0x27), (0x53, 0x7F, 0x7F)]"

definition codes :: "u8 \<Rightarrow> u8 \<times> u8" where
  "codes c = (case map_of code_table c of Some p \<Rightarrow> p | None \<Rightarrow> (0, 0))"

abbreviation RB_CAP :: u32 where "RB_CAP \<equiv> 64"

abbreviation mod_none :: u8 where "mod_none \<equiv> 0"
abbreviation mod_shift :: u8 where "mod_shift \<equiv> 1"
abbreviation mod_ctrl :: u8 where "mod_ctrl \<equiv> 2"
abbreviation mod_alt :: u8 where "mod_alt \<equiv> 3"
abbreviation mod_0x60 :: u8 where "mod_0x60 \<equiv> 4"
abbreviation mod_lmeta :: u8 where "mod_lmeta \<equiv> 5"
abbreviation mod_rmeta :: u8 where "mod_rmeta \<equiv> 6"

text \<open>The loop of \<open>kbd_read\<close>.\<close>

function kbd_read_loop :: "'a kenv \<Rightarrow> u32 \<Rightarrow> u32 \<Rightarrow> u32 \<Rightarrow> u32 \<Rightarrow> 'a kbd_state_scheme \<Rightarrow> ('a kbd_state_scheme \<times> u32) option" where
  "kbd_read_loop K rb out n bytes s =
     (if bytes < n
      then do {
        (s, c) \<leftarrow> get_byte (e_others (kb_con K)) rb (kb_byte K) s;
        s \<leftarrow> Some (s\<lparr>kmem := (kmem s)(out + bytes := c)\<rparr>);
        kbd_read_loop K rb out n (bytes + 1) s }
      else Some (s, bytes))"
  by pat_completeness auto
termination
  by (relation "measure (\<lambda>(K, rb, out, n, bytes, s). unat n - unat bytes)") (auto intro: loop_up_measure)

declare kbd_read_loop.simps [simp del]

text \<open>\<open>kbd_read\<close> of the device whose context is the ring buffer.\<close>

definition kbd_read :: "'a kenv \<Rightarrow> u32 \<Rightarrow> u32 \<Rightarrow> 'a kbd_state_scheme \<Rightarrow> ('a kbd_state_scheme \<times> u32) option" where
  "kbd_read K out n s = kbd_read_loop K (kb_rb K) out n 0 s"

definition lowercase :: "u8 \<Rightarrow> u8" where
  "lowercase byte = (if 64 < byte \<and> byte < 91 then byte + 32 else byte)"

definition get_mod :: "u8 \<Rightarrow> u8" where
  "get_mod scancode =
     (let c = scancode AND 0x7F
      in if c = 0x2A \<or> c = 0x36 then mod_shift else if c = 0x1D then mod_ctrl else if c = 0x38 then mod_alt
         else if c = 0x60 then mod_0x60 else if c = 0x5B then mod_lmeta else if c = 0x5C then mod_rmeta else mod_none)"

definition dump_modifiers :: "'a kenv \<Rightarrow> 'a kbd_state_scheme \<Rightarrow> 'a kbd_state_scheme option" where
  "dump_modifiers K s =
     (let p = (\<lambda>k up lo. if modifiers s k \<noteq> 0 then of_char up else of_char lo)
      in kprintf (kb_con K) (nl @ ''[%c%c%c%c%c%c]'' @ nl)
           [p mod_shift CHR ''S'' CHR ''s'', p mod_ctrl CHR ''C'' CHR ''c'', p mod_alt CHR ''A'' CHR ''a'',
            p mod_0x60 CHR ''O'' CHR ''o'', p mod_lmeta CHR ''L'' CHR ''l'', p mod_rmeta CHR ''R'' CHR ''r''] s)"

definition set_mod :: "u8 \<Rightarrow> u8 \<Rightarrow> 'a kbd_state_scheme \<Rightarrow> 'a kbd_state_scheme" where
  "set_mod i v s = s\<lparr>modifiers := (modifiers s)(i := v)\<rparr>"

definition check_special :: "u8 \<Rightarrow> 'a kbd_state_scheme \<Rightarrow> ('a kbd_state_scheme \<times> bool) option" where
  "check_special scancode s =
     (let m = get_mod scancode
      in if m = 0 then Some (s, False)
         else if m = 0x60
         then (if modifiers s mod_0x60 \<noteq> 0 then None else Some (set_mod mod_0x60 1 s, True))
         else let s = set_mod (get_mod scancode) (of_bool (scancode AND 0x80 = 0)) s;
                  s = (if modifiers s mod_0x60 \<noteq> 0 then set_mod mod_0x60 0 s else s)
              in Some (s, True))"

text \<open>
  \<open>received_scancode\<close>; the scancode dump is compiled out (\<open>debug.h\<close>). A shift state other than 0 and 1
  would index past the entry of the table.
\<close>

definition received_scancode :: "'a kenv \<Rightarrow> u8 \<Rightarrow> 'a kbd_state_scheme \<Rightarrow> 'a kbd_state_scheme option" where
  "received_scancode K scancode s =
     (let key_code = scancode AND 0x7F;
          key_up = scancode AND 0x80
      in do {
        byte \<leftarrow> (if modifiers s mod_shift = 0 then Some (fst (codes key_code))
                 else if modifiers s mod_shift = 1 then Some (snd (codes key_code)) else None);
        if byte \<noteq> 0 \<and> key_up = 0
        then if sem_count (sems s (rb_n_free (kb_rb K))) = 0 then kput_noserial (kb_con K) 0x21 s
             else put_byte (e_others (kb_con K)) (kb_rb K) (kb_byte K) byte s
        else Some s
      })"

definition kbd_irq :: "'a kenv \<Rightarrow> 'a kbd_state_scheme \<Rightarrow> 'a kbd_state_scheme option" where
  "kbd_irq K s =
     (case io_in8 (e_dev (kb_con K)) 0x60 s of (s, scancode) \<Rightarrow> do {
        (s, special) \<leftarrow> check_special scancode s;
        if special then Some s
        else do {
          s \<leftarrow> (if scancode AND 0x7F = 0x53 \<and> modifiers s mod_ctrl \<noteq> 0 \<and> modifiers s mod_alt \<noteq> 0 then kb_reboot K s else Some s);
          if halted s then Some s else received_scancode K scancode s
        }
      })"

text \<open>\<open>do_debug_keystrokes\<close> types the bytes of the string of \<open>debug.h\<close>.\<close>

primrec do_debug_keystrokes :: "'a kenv \<Rightarrow> u8 list \<Rightarrow> 'a kbd_state_scheme \<Rightarrow> 'a kbd_state_scheme option" where
  "do_debug_keystrokes K [] s = Some s"
| "do_debug_keystrokes K (c # cs) s =
     do { s \<leftarrow> put_byte (e_others (kb_con K)) (kb_rb K) (kb_byte K) c s; do_debug_keystrokes K cs s }"

definition keyboard_debug_keystrokes ::
  "(string \<Rightarrow> 'a kbd_state_scheme \<Rightarrow> ('a kbd_state_scheme \<times> int) option) \<Rightarrow> u8 list \<Rightarrow> 'a kbd_state_scheme \<Rightarrow> 'a kbd_state_scheme option" where
  "keyboard_debug_keystrokes spawn dbg_keystrokes s =
     (if dbg_keystrokes \<noteq> [] then do { (s, _) \<leftarrow> spawn ''debug_keystrokes'' s; Some s } else Some s)"

text \<open>The driver's \<open>probe\<close>; \<open>register\<close> is \<open>devfs_register_char(&chardev_kbd)\<close>.\<close>

definition kbd_probe ::
  "'a kenv \<Rightarrow> _ \<Rightarrow> irq_fn \<Rightarrow> ('a kbd_state_scheme \<Rightarrow> 'a kbd_state_scheme option) \<Rightarrow> 'a kbd_state_scheme \<Rightarrow> ('a kbd_state_scheme \<times> int) option" where
  "kbd_probe K alloc handler register s = do {
     s \<leftarrow> Some (rb_initialize (kb_rb K) (kb_buf K) RB_CAP s);
     (s, _) \<leftarrow> attach_irq alloc (IRQ0_OFFSET + 1) handler ''keyboard'' s;
     s \<leftarrow> register s;
     Some (s, 0)
   }"

section \<open>What is typed\<close>

text \<open>The reference: the shift and control state, and the queue of characters, after one scancode.\<close>

definition mods_after :: "u8 \<Rightarrow> (u8 \<Rightarrow> u8) \<Rightarrow> u8 \<Rightarrow> u8" where
  "mods_after v m =
     (if get_mod v = mod_none then m else (m(get_mod v := of_bool (v AND 0x80 = 0)))(mod_0x60 := 0))"

definition typed :: "u8 \<Rightarrow> (u8 \<Rightarrow> u8) \<Rightarrow> u8 list" where
  "typed v m =
     (let c = (if m mod_shift = 0 then fst else snd) (codes (v AND 0x7F))
      in if get_mod v = mod_none \<and> c \<noteq> 0 \<and> v AND 0x80 = 0 then [c] else [])"

fun type_all :: "nat \<Rightarrow> u8 list \<Rightarrow> (u8 \<Rightarrow> u8) \<times> u8 list \<Rightarrow> (u8 \<Rightarrow> u8) \<times> u8 list" where
  "type_all cap [] mq = mq"
| "type_all cap (v # vs) (m, q) =
     type_all cap vs (mods_after v m, if length q < cap then q @ typed v m else q)"

text \<open>Control, alt and delete together restart the machine.\<close>

definition restarts :: "u8 \<Rightarrow> (u8 \<Rightarrow> u8) \<Rightarrow> bool" where
  "restarts v m \<longleftrightarrow> v AND 0x7F = 0x53 \<and> m mod_ctrl \<noteq> 0 \<and> m mod_alt \<noteq> 0"

fun never_restarts :: "u8 list \<Rightarrow> (u8 \<Rightarrow> u8) \<Rightarrow> bool" where
  "never_restarts [] m = True"
| "never_restarts (v # vs) m = (\<not> restarts v m \<and> never_restarts vs (mods_after v m))"

text \<open>One interrupt per scancode: while it is served, the data port of the controller holds the scancode.\<close>

definition holding :: "u8 \<Rightarrow> 'a kenv \<Rightarrow> 'a kenv" where
  "holding v K = K\<lparr>kb_con := (kb_con K)\<lparr>e_dev := \<lambda>_ _. v\<rparr>\<rparr>"

primrec type_keys :: "'a kenv \<Rightarrow> u8 list \<Rightarrow> 'a kbd_state_scheme \<Rightarrow> 'a kbd_state_scheme option" where
  "type_keys K [] s = Some s"
| "type_keys K (v # vs) s = do { s \<leftarrow> kbd_irq (holding v K) s; type_keys K vs s }"

definition kbd_ok :: "'a kbd_state_scheme \<Rightarrow> bool" where
  "kbd_ok s \<longleftrightarrow> term_ok s \<and> g_terminal_initialized s \<and> \<not> halted s \<and>
     modifiers s mod_0x60 = 0 \<and> (modifiers s mod_shift = 0 \<or> modifiers s mod_shift = 1)"

section \<open>The handler never waits\<close>

lemma rb_more_frame:
  assumes "rb_state.more s' = rb_state.more s" "cli_depth s' = cli_depth s"
  shows "modifiers s' = modifiers s" "kbd_ok s' = kbd_ok s" "io_log s' = io_log s"
  using assms by (cases s; cases s'; simp add: kbd_ok_def term_ok_def)+

lemma con_more_frame:
  assumes "con_same s s'" "term_ok s'"
  shows "modifiers s' = modifiers s" "kbd_ok s \<Longrightarrow> kbd_ok s'"
proof -
  have "console.more s' = console.more s" using assms(1) by (simp add: con_same_def)
  then have e: "modifiers s' = modifiers s" "halted s' = halted s" by (cases s; cases s'; simp)+
  then show "modifiers s' = modifiers s" by simp
  show "kbd_ok s \<Longrightarrow> kbd_ok s'" using assms e by (simp add: kbd_ok_def con_same_def)
qed

lemma sem_post_frame: "rb_state.more (sem_post i s) = rb_state.more s" "cli_depth (sem_post i s) = cli_depth s"
  by (simp_all add: sem_post_def upd_sem_def upd_task_def Let_def split: list.split)

lemma rb_write_frame:
  assumes "sem_count (sems s (rb_n_free b)) \<noteq> 0" "sem_count (sems s (rb_queue b)) = 1" "rb_write others b sz a s = Some s'"
  shows "rb_state.more s' = rb_state.more s" "cli_depth s' = cli_depth s" "rb_buf (rbs s' b) = rb_buf (rbs s b)"
  using assms
  by (auto simp: rb_write_def sem_pend_available sem_post_frame rb_sem_post) (auto simp: upd_rb_def upd_sem_def)

lemma rb_read_frame:
  assumes "sem_count (sems s (rb_n_used b)) \<noteq> 0" "sem_count (sems s (rb_queue b)) = 1" "rb_read others b sz a s = Some s'"
  shows "rb_state.more s' = rb_state.more s" "cli_depth s' = cli_depth s" "rb_buf (rbs s' b) = rb_buf (rbs s b)"
  using assms
  by (auto simp: rb_read_def sem_pend_available sem_post_frame rb_sem_post) (auto simp: upd_rb_def upd_sem_def)

text \<open>The counters of a buffer that holds \<open>q\<close>.\<close>

lemma fifo_counts:
  assumes "fifo b 6 a s q"
  shows "sem_count (sems s (rb_queue b)) = 1" "sem_count (sems s (rb_n_free b)) = 0 \<longleftrightarrow> length q = 64"
    "sem_count (sems s (rb_n_used b)) = 0 \<longleftrightarrow> q = []" "length q \<le> 64"
proof -
  show q: "length q \<le> 64" using assms by (simp add: fifo_def)
  then have u: "unat (of_nat (length q) :: u32) = length q" by (intro unat_of_nat_small) simp
  show "sem_count (sems s (rb_queue b)) = 1" using assms by (simp add: fifo_def)
  have "(64 :: u32) - y = 0 \<longleftrightarrow> unat y = 64" for y :: u32 by (simp add: word_unat_eq_iff [of 64] eq_commute [of 64])
  then show "sem_count (sems s (rb_n_free b)) = 0 \<longleftrightarrow> length q = 64" using assms u by (simp add: fifo_def)
  show "sem_count (sems s (rb_n_used b)) = 0 \<longleftrightarrow> q = []" using assms u by (auto simp: fifo_def word_unat_eq_iff)
qed

lemma fifo_log [simp]: "fifo b k a (s\<lparr>io_log := l\<rparr>) q = fifo b k a s q" "fifo b k a (s\<lparr>modifiers := m\<rparr>) q = fifo b k a s q"
  by (simp_all add: fifo_def)

lemma fifo_same: "con_same s s' \<Longrightarrow> fifo b k a s' q = fifo b k a s q"
  by (simp add: fifo_def con_same_def)

lemma put_key:
  assumes f: "fifo b 6 a s q" and len: "length q < 64"
  shows "\<exists>s'. put_byte others b a x s = Some s' \<and> fifo b 6 a s' (q @ [x]) \<and> rb_buf (rbs s' b) = rb_buf (rbs s b) \<and>
    kbd_ok s' = kbd_ok s \<and> modifiers s' = modifiers s"
proof -
  let ?s = "s\<lparr>kmem := (kmem s)(a := x)\<rparr>"
  obtain s' where s': "put_byte others b a x s = Some s'" "fifo b 6 a s' (q @ [x])"
    using put_rep [OF _ f, of others x] len by auto
  have w: "rb_write others b 1 a ?s = Some s'" using s'(1) by (simp add: put_byte_def)
  have "sem_count (sems ?s (rb_n_free b)) \<noteq> 0" "sem_count (sems ?s (rb_queue b)) = 1" using fifo_counts [OF f] len by simp_all
  note fr = rb_write_frame [OF this w]
  have "rb_state.more s' = rb_state.more s" "cli_depth s' = cli_depth s" using fr(1,2) by simp_all
  from rb_more_frame [OF this] s' fr(3) show ?thesis by simp
qed

lemma get_key:
  assumes f: "fifo b 6 a s (x # q)"
  shows "\<exists>s'. get_byte others b a s = Some (s', x) \<and> fifo b 6 a s' q \<and> rb_buf (rbs s' b) = rb_buf (rbs s b) \<and>
    kmem s' = (kmem s)(a := x)"
proof -
  obtain s' where s': "get_byte others b a s = Some (s', x)" "fifo b 6 a s' q" using get_rep [OF _ f] by auto
  then have r: "rb_read others b 1 a s = Some s'" "kmem s' a = x" by (auto simp: get_byte_def split: bind_splits)
  have c: "sem_count (sems s (rb_n_used b)) \<noteq> 0" "sem_count (sems s (rb_queue b)) = 1" using fifo_counts [OF f] by simp_all
  have "kmem s' = (kmem s)(a := kmem s' a)" using rb_read_byte [OF c, of others a] r(1) by auto
  then show ?thesis using s' r(2) rb_read_frame(3) [OF c r(1)] by simp
qed

lemma received_ok:
  assumes ok: "kbd_ok s" and f: "fifo (kb_rb K) 6 (kb_byte K) s q" and m: "get_mod v = mod_none"
  shows "\<exists>s'. received_scancode K v s = Some s' \<and> kbd_ok s' \<and> modifiers s' = modifiers s \<and>
     rb_buf (rbs s' (kb_rb K)) = rb_buf (rbs s (kb_rb K)) \<and>
     fifo (kb_rb K) 6 (kb_byte K) s' (if length q < 64 then q @ typed v (modifiers s) else q)"
proof -
  define c where "c = (if modifiers s mod_shift = 0 then fst else snd) (codes (v AND 0x7F))"
  have byte: "received_scancode K v s =
     (if c \<noteq> 0 \<and> v AND 0x80 = 0
      then if sem_count (sems s (rb_n_free (kb_rb K))) = 0 then kput_noserial (kb_con K) 0x21 s
           else put_byte (e_others (kb_con K)) (kb_rb K) (kb_byte K) c s
      else Some s)"
    using ok by (auto simp: received_scancode_def Let_def c_def kbd_ok_def)
  have t: "typed v (modifiers s) = (if c \<noteq> 0 \<and> v AND 0x80 = 0 then [c] else [])"
    using m by (simp add: typed_def Let_def c_def)
  consider (none) "\<not> (c \<noteq> 0 \<and> v AND 0x80 = 0)" | (full) "c \<noteq> 0 \<and> v AND 0x80 = 0" "length q = 64"
    | (room) "c \<noteq> 0 \<and> v AND 0x80 = 0" "length q < 64" using fifo_counts(4) [OF f] by linarith
  then show ?thesis
  proof cases
    case none
    then have "typed v (modifiers s) = []" "received_scancode K v s = Some s" unfolding t byte by auto
    then show ?thesis using ok f by simp
  next
    case full
    have tok: "term_ok s" "g_terminal_initialized s" using ok by (simp_all add: kbd_ok_def)
    obtain s' where s': "terminal_putchar (kb_con K) False 0x21 s = Some s'" "con_same s s'" "term_ok s'"
      using putchar_ok [OF tok(1), of False "kb_con K" "0x21"] by auto
    have "received_scancode K v s = Some s'"
      using full fifo_counts(2) [OF f] s'(1) tok(2) unfolding byte by (simp add: kput_noserial_def do_kput_def)
    then show ?thesis using full(2) ok f con_more_frame [OF s'(2,3)] fifo_same [OF s'(2)] s'(2) by (simp add: con_same_def)
  next
    case room
    then have "received_scancode K v s = put_byte (e_others (kb_con K)) (kb_rb K) (kb_byte K) c s"
      using fifo_counts(2) [OF f] unfolding byte by auto
    then show ?thesis using put_key [OF f room(2), of "e_others (kb_con K)" c] ok room unfolding t by auto
  qed
qed

lemma clear_mod:
  "(let s = s\<lparr>modifiers := m\<rparr> in Some (if modifiers s k \<noteq> 0 then s\<lparr>modifiers := (modifiers s)(k := 0)\<rparr> else s, True)) =
     Some (s\<lparr>modifiers := m(k := 0)\<rparr>, True)"
  by (cases "m k = 0") (simp_all add: fun_upd_idem)

lemma special_mods:
  assumes "get_mod v \<noteq> mod_none"
  shows "check_special v s = Some (s\<lparr>modifiers := mods_after v (modifiers s)\<rparr>, True)"
proof -
  let ?m = "(modifiers s)(get_mod v := of_bool (v AND 0x80 = 0))"
  have ne: "get_mod v \<noteq> 0x60" "get_mod v \<noteq> 0" using assms by (simp_all add: get_mod_def Let_def)
  have after: "mods_after v (modifiers s) = ?m(mod_0x60 := 0)" using assms by (simp add: mods_after_def)
  have "check_special v s = (let s = s\<lparr>modifiers := ?m\<rparr> in
      Some (if modifiers s mod_0x60 \<noteq> 0 then s\<lparr>modifiers := (modifiers s)(mod_0x60 := 0)\<rparr> else s, True))"
    unfolding check_special_def Let_def set_mod_def using ne by simp
  also have "\<dots> = Some (s\<lparr>modifiers := ?m(mod_0x60 := 0)\<rparr>, True)"
    by (rule clear_mod)
  finally show ?thesis unfolding after .
qed

lemma kbd_irq_ok:
  assumes ok: "kbd_ok s" and f: "fifo (kb_rb K) 6 (kb_byte K) s q" and r: "\<not> restarts v (modifiers s)"
  shows "\<exists>s'. kbd_irq (holding v K) s = Some s' \<and> kbd_ok s' \<and> modifiers s' = mods_after v (modifiers s) \<and>
     rb_buf (rbs s' (kb_rb K)) = rb_buf (rbs s (kb_rb K)) \<and>
     fifo (kb_rb K) 6 (kb_byte K) s' (if length q < 64 then q @ typed v (modifiers s) else q)"
proof -
  let ?t = "s\<lparr>io_log := io_log s @ [In8 0x60 v]\<rparr>"
  have t: "kbd_ok ?t" "fifo (kb_rb K) 6 (kb_byte K) ?t q" using ok f by (simp_all add: kbd_ok_def term_ok_def)
  have inp: "io_in8 (e_dev (kb_con (holding v K))) 0x60 s = (?t, v)" by (simp add: io_in8_def holding_def)
  show ?thesis
  proof (cases "get_mod v = mod_none")
    case True
    have "check_special v ?t = Some (?t, False)" using True by (simp add: check_special_def Let_def)
    then have "kbd_irq (holding v K) s = received_scancode (holding v K) v ?t"
      using r ok unfolding kbd_irq_def inp by (auto simp: restarts_def kbd_ok_def)
    moreover have "fifo (kb_rb (holding v K)) 6 (kb_byte (holding v K)) ?t q" using t(2) by (simp add: holding_def)
    ultimately obtain s' where "kbd_irq (holding v K) s = Some s'" "kbd_ok s'" "modifiers s' = modifiers ?t"
      "rb_buf (rbs s' (kb_rb (holding v K))) = rb_buf (rbs ?t (kb_rb (holding v K)))"
      "fifo (kb_rb (holding v K)) 6 (kb_byte (holding v K)) s' (if length q < 64 then q @ typed v (modifiers ?t) else q)"
      using received_ok [OF t(1) _ True, of "holding v K" q] by metis
    moreover have "modifiers ?t = modifiers s" "rbs ?t = rbs s" "kb_rb (holding v K) = kb_rb K" "kb_byte (holding v K) = kb_byte K"
      by (simp_all add: holding_def)
    ultimately show ?thesis using True by (intro exI [of _ s']) (simp only: mods_after_def if_True simp_thms)
  next
    case False
    have "kbd_irq (holding v K) s = Some (?t\<lparr>modifiers := mods_after v (modifiers s)\<rparr>)"
      unfolding kbd_irq_def inp by (simp add: special_mods [OF False])
    moreover have "typed v (modifiers s) = []" using False by (simp add: typed_def Let_def)
    moreover have "kbd_ok (?t\<lparr>modifiers := mods_after v (modifiers s)\<rparr>)"
      using t(1) False by (auto simp: kbd_ok_def term_ok_def mods_after_def)
    ultimately show ?thesis using f by (simp add: kbd_ok_def)
  qed
qed

lemma type_keys_ok:
  assumes "kbd_ok s" "fifo (kb_rb K) 6 (kb_byte K) s q" "never_restarts vs (modifiers s)"
  shows "\<exists>s'. type_keys K vs s = Some s' \<and> kbd_ok s' \<and> rb_buf (rbs s' (kb_rb K)) = rb_buf (rbs s (kb_rb K)) \<and>
     modifiers s' = fst (type_all 64 vs (modifiers s, q)) \<and>
     fifo (kb_rb K) 6 (kb_byte K) s' (snd (type_all 64 vs (modifiers s, q)))"
  using assms
proof (induction vs arbitrary: s q)
  case (Cons v vs)
  have r: "\<not> restarts v (modifiers s)" using Cons.prems(3) by simp
  obtain t where t: "kbd_irq (holding v K) s = Some t" "kbd_ok t" "modifiers t = mods_after v (modifiers s)"
    "rb_buf (rbs t (kb_rb K)) = rb_buf (rbs s (kb_rb K))"
    "fifo (kb_rb K) 6 (kb_byte K) t (if length q < 64 then q @ typed v (modifiers s) else q)"
    using kbd_irq_ok [OF Cons.prems(1,2) r] by blast
  have "never_restarts vs (modifiers t)" using Cons.prems(3) t(3) by simp
  from Cons.IH [OF t(2,5) this] t(1,3,4) show ?case by (simp cong: if_cong)
qed simp

section \<open>A reader gets what was typed\<close>

lemma fifo_store:
  assumes "fifo b 6 a s q" "\<not> c - rb_buf (rbs s b) < 64"
  shows "fifo b 6 a (s\<lparr>kmem := (kmem s)(c := x)\<rparr>) q"
proof -
  have "rb_buf (rbs s b) + slot 6 t i \<noteq> c" for t i using outside_slot [of 6 c "rb_buf (rbs s b)" t i] assms(2) by simp
  then show ?thesis using assms(1) by (simp add: fifo_def)
qed

lemma kbd_read_loop_ok:
  assumes "fifo (kb_rb K) 6 (kb_byte K) s q" "unat n - unat i \<le> length q" "i \<le> n"
    "\<forall>j < n. \<not> out + j - rb_buf (rbs s (kb_rb K)) < 64 \<and> out + j \<noteq> kb_byte K"
  shows "\<exists>s'. kbd_read_loop K (kb_rb K) out n i s = Some (s', n) \<and>
     fifo (kb_rb K) 6 (kb_byte K) s' (drop (unat n - unat i) q) \<and>
     (\<forall>j < n. kmem s' (out + j) = (if i \<le> j then q ! (unat j - unat i) else kmem s (out + j)))"
  using assms
proof (induction "unat n - unat i" arbitrary: i s q rule: less_induct)
  case less
  let ?b = "kb_rb K" and ?a = "kb_byte K"
  show ?case
  proof (cases "i < n")
    case True
    have ui: "unat (i + 1) = Suc (unat i)" "unat i < unat n" using True unat_Suc_lt by (auto simp: word_less_nat_alt)
    obtain x q' where q: "q = x # q'" using less.prems(2) ui(2) by (cases q) auto
    have f: "fifo ?b 6 ?a s (x # q')" using less.prems(1) q by simp
    obtain s1 where s1: "get_byte (e_others (kb_con K)) ?b ?a s = Some (s1, x)" "fifo ?b 6 ?a s1 q'"
      "rb_buf (rbs s1 ?b) = rb_buf (rbs s ?b)" "kmem s1 = (kmem s)(?a := x)"
      using get_key [OF f, of "e_others (kb_con K)"] by blast
    let ?t = "s1\<lparr>kmem := (kmem s1)(out + i := x)\<rparr>"
    have ft: "fifo ?b 6 ?a ?t q'" using s1(2,3) less.prems(4) True by (intro fifo_store) auto
    have step: "kbd_read_loop K ?b out n i s = kbd_read_loop K ?b out n (i + 1) ?t"
      using True s1(1) by (subst kbd_read_loop.simps) simp
    have le: "i + 1 \<le> n" using ui by (simp add: word_le_nat_alt)
    have room: "unat n - unat (i + 1) \<le> length q'" using less.prems(2) q ui by simp
    have clear: "\<forall>j < n. \<not> out + j - rb_buf (rbs ?t ?b) < 64 \<and> out + j \<noteq> ?a" using less.prems(4) s1(3) by simp
    obtain s' where s': "kbd_read_loop K ?b out n (i + 1) ?t = Some (s', n)" "fifo ?b 6 ?a s' (drop (unat n - unat (i + 1)) q')"
      "\<forall>j < n. kmem s' (out + j) = (if i + 1 \<le> j then q' ! (unat j - unat (i + 1)) else kmem ?t (out + j))"
      using less.hyps [OF _ ft room le clear] ui by (auto simp: less_diff_conv2)
    have "kmem s' (out + j) = (if i \<le> j then q ! (unat j - unat i) else kmem s (out + j))" if "j < n" for j
    proof -
      consider "i + 1 \<le> j" | "j = i" | "j < i" using ui(1) by (fastforce simp: word_le_nat_alt word_less_nat_alt word_unat_eq_iff)
      then show ?thesis
      proof cases
        case 1
        then have "i \<le> j" "unat j - unat i = Suc (unat j - unat (i + 1))" using ui(1) by (simp_all add: word_le_nat_alt)
        then show ?thesis using s'(3) that 1 q by simp
      next
        case 2
        then have "\<not> i + 1 \<le> j" using ui(1) by (simp add: word_le_nat_alt)
        then show ?thesis using s'(3) that 2 q by simp
      next
        case 3
        then have "\<not> i + 1 \<le> j" "\<not> i \<le> j" "out + j \<noteq> out + i" using ui(1) by (auto simp: word_le_nat_alt word_less_nat_alt)
        then show ?thesis using s'(3) that s1(4) less.prems(4) by auto
      qed
    qed
    then show ?thesis using step s'(1,2) q ui by (intro exI [of _ s']) (simp add: Suc_diff_Suc [symmetric])
  next
    case False
    then have "i = n" using less.prems(3) by simp
    then show ?thesis using False less.prems(1) by (subst kbd_read_loop.simps) (auto simp: word_le_nat_alt word_less_nat_alt)
  qed
qed


text \<open>Shift pressed, h, shift released, i.\<close>

definition kbd_start :: "kbd_state \<Rightarrow> kbd_state" where
  "kbd_start s = rb_initialize 0x100 0x2000 64 (s\<lparr>rbs := \<lambda>_. \<lparr>rb_buf = 0, rb_cap = 0, rb_head = 0, rb_tail = 0\<rparr>,
     cli_depth := 0, TERM_WIDTH := 80, TERM_HEIGH := 25, g_row := 0, g_col := 0, g_terminal_initialized := True,
     modifiers := \<lambda>_. 0, halted := False\<rparr>)"

definition kbd_waits :: "kbd_state kbd_env" where
  "kbd_waits = \<lparr>kb_con = \<lparr>e_dev = \<lambda>_ _. 0, e_others = \<lambda>_. None, e_serial_rb = 0, e_byte = 0, e_uninit = \<lambda>_. []\<rparr>,
     kb_rb = 0x100, kb_buf = 0x2000, kb_byte = 0x3000, kb_reboot = \<lambda>_. None\<rparr>"


text \<open>
  The check against a full buffer does not cover a reader that is inside the buffer: with the lock
  taken and room in the buffer, the handler puts the interrupted task to sleep and calls the scheduler.
\<close>

lemma irq_waits_for_reader:
  assumes "sem_count (sems s (rb_n_free (kb_rb K))) \<noteq> 0" "sem_count (sems s (rb_queue (kb_rb K))) = 0" "modifiers s mod_shift = 0"
  shows "\<exists>w f. received_scancode K 0x1E s = sched_and_return (e_others (kb_con K)) w \<bind> f \<and>
     t_state (tasks w (current w)) = ts_wait_semaphore"
proof -
  let ?o = "e_others (kb_con K)" and ?b = "kb_rb K"
  let ?t = "upd_sem (rb_n_free ?b) (\<lambda>q. q\<lparr>sem_count := sem_count q - 1\<rparr>) (s\<lparr>kmem := (kmem s)(kb_byte K := 0x61)\<rparr>)"
  let ?c = "cli_push ?t"
  let ?d = "set_state (current ?c) ts_wait_semaphore ?c"
  let ?w = "upd_sem (rb_queue ?b) (\<lambda>q. q\<lparr>sem_waiters := sem_waiters q @ [current ?d]\<rparr>) ?d"
  have "codes (0x1E AND 0x7F) = (0x61, 0x41)" by (simp add: codes_def code_table_def)
  then have r: "received_scancode K 0x1E s = put_byte ?o ?b (kb_byte K) 0x61 s"
    using assms by (simp add: received_scancode_def Let_def)
  have tries: "TRIES = Suc (Suc 0)" by (simp add: TRIES_def)
  have "sem_count (sems ?t (rb_queue ?b)) = 0" using assms(2) by simp
  then have "sem_try TRIES (rb_queue ?b) ?t = (?t, False)" unfolding tries by simp
  then have "sem_pend ?o (rb_queue ?b) ?t = sched_and_return ?o ?w \<bind> (\<lambda>s. cli_pop s \<bind> sem_pend ?o (rb_queue ?b))"
    by (subst sem_pend.simps) (simp del: upd_sem_sel rb_upd_sels upd_task_sel)
  moreover have "sem_pend ?o (rb_n_free ?b) (s\<lparr>kmem := (kmem s)(kb_byte K := 0x61)\<rparr>) = Some ?t"
    using assms(1) by (simp add: sem_pend_available)
  ultimately have "\<exists>f. put_byte ?o ?b (kb_byte K) 0x61 s = sched_and_return ?o ?w \<bind> f"
    unfolding put_byte_def rb_write_def by (simp only: Option.bind_assoc Option.bind.simps) blast
  moreover have "t_state (tasks ?w (current ?w)) = ts_wait_semaphore" by simp
  ultimately show ?thesis unfolding r by blast
qed

end
