(* ===== verification/Ext2.thy ===== *)
theory Ext2
  imports Vfs
begin

text \<open>
  \<open>kernel/fs/ext2/ext2.c\<close>: the read-only ext2 driver. Blocks are read into kernel memory through
  \<open>vfs_read_at\<close> on the device file, and the on-disk structures (superblock, group descriptors,
  inodes, directory entries) are read from memory at their offsets. \<open>struct ext2_fs\<close> is a typed
  store indexed by address, and so is the \<open>struct vfs_node\<close> part of a node; its \<open>struct inode\<close> lies in
  memory behind it. The log and the single characters of the dumps are an argument.
\<close>

section \<open>Data\<close>

record ext2_fs =
  e_dev :: u32
  e_dev_block_size :: u32
  e_sb :: u32
  e_bdesc :: u32
  e_root :: u32
  e_block_size :: u32

record ext2_state = fsys +
  ext2s :: "u32 \<Rightarrow> ext2_fs"
  ext2_errno :: int

record 's e2_env =
  x_log :: "string \<Rightarrow> u32 list \<Rightarrow> 's \<Rightarrow> 's option"
  x_kput :: "u8 \<Rightarrow> 's \<Rightarrow> 's option"
  x_strerror :: "int \<Rightarrow> u32"
  x_str :: "string \<Rightarrow> u32"

type_synonym 'a xenv = "'a ext2_state_scheme fs_env"
type_synonym 'a xlog = "'a ext2_state_scheme e2_env"

abbreviation SIZEOF_VFS_NODE :: u32 where "SIZEOF_VFS_NODE \<equiv> 16"
abbreviation SIZEOF_INODE :: u32 where "SIZEOF_INODE \<equiv> 128"
abbreviation SIZEOF_EXT2_NODE :: u32 where "SIZEOF_EXT2_NODE \<equiv> SIZEOF_VFS_NODE + SIZEOF_INODE"
abbreviation SIZEOF_SUPERBLOCK :: u32 where "SIZEOF_SUPERBLOCK \<equiv> 1024"
abbreviation SIZEOF_BGDESC :: u32 where "SIZEOF_BGDESC \<equiv> 32"
abbreviation SIZEOF_EXT2_FS :: u32 where "SIZEOF_EXT2_FS \<equiv> 17964"
abbreviation EXT2_REQ_DIR_TYPE_FIELD :: u32 where "EXT2_REQ_DIR_TYPE_FIELD \<equiv> 0x0002"

text \<open>Fields of \<open>struct ext2_superblock\<close>, \<open>struct inode\<close> and \<open>struct dir_entry\<close> at an address.\<close>

abbreviation sb_blocks_total :: "mem \<Rightarrow> u32 \<Rightarrow> u32" where "sb_blocks_total m a \<equiv> load32 m (a + 4)"
abbreviation sb_inodes_total :: "mem \<Rightarrow> u32 \<Rightarrow> u32" where "sb_inodes_total m a \<equiv> load32 m a"
abbreviation sb_block_size :: "mem \<Rightarrow> u32 \<Rightarrow> u32" where "sb_block_size m a \<equiv> load32 m (a + 24)"
abbreviation sb_blocks_per_bgroup :: "mem \<Rightarrow> u32 \<Rightarrow> u32" where "sb_blocks_per_bgroup m a \<equiv> load32 m (a + 32)"
abbreviation sb_inodes_per_bgroup :: "mem \<Rightarrow> u32 \<Rightarrow> u32" where "sb_inodes_per_bgroup m a \<equiv> load32 m (a + 40)"
abbreviation sb_signature :: "mem \<Rightarrow> u32 \<Rightarrow> u16" where "sb_signature m a \<equiv> load16 m (a + 56)"
abbreviation sb_inode_size :: "mem \<Rightarrow> u32 \<Rightarrow> u32" where "sb_inode_size m a \<equiv> ucast (load16 m (a + 88))"
abbreviation sb_required_features :: "mem \<Rightarrow> u32 \<Rightarrow> u32" where "sb_required_features m a \<equiv> load32 m (a + 96)"

abbreviation i_mode :: "mem \<Rightarrow> u32 \<Rightarrow> u16" where "i_mode m i \<equiv> load16 m i"
abbreviation i_uid :: "mem \<Rightarrow> u32 \<Rightarrow> u16" where "i_uid m i \<equiv> load16 m (i + 2)"
abbreviation i_bytes_lsb :: "mem \<Rightarrow> u32 \<Rightarrow> u32" where "i_bytes_lsb m i \<equiv> load32 m (i + 4)"
abbreviation i_last_access :: "mem \<Rightarrow> u32 \<Rightarrow> u32" where "i_last_access m i \<equiv> load32 m (i + 8)"
abbreviation i_create :: "mem \<Rightarrow> u32 \<Rightarrow> u32" where "i_create m i \<equiv> load32 m (i + 12)"
abbreviation i_last_modify :: "mem \<Rightarrow> u32 \<Rightarrow> u32" where "i_last_modify m i \<equiv> load32 m (i + 16)"
abbreviation i_gid :: "mem \<Rightarrow> u32 \<Rightarrow> u16" where "i_gid m i \<equiv> load16 m (i + 24)"
abbreviation i_dir_entries :: "mem \<Rightarrow> u32 \<Rightarrow> u16" where "i_dir_entries m i \<equiv> load16 m (i + 26)"
definition i_dir_blocks :: "mem \<Rightarrow> u32 \<Rightarrow> u32 \<Rightarrow> u32" where "i_dir_blocks m i k = load32 m (i + 40 + 4 * k)"
definition i_singly_linked :: "mem \<Rightarrow> u32 \<Rightarrow> u32" where "i_singly_linked m i = load32 m (i + 88)"
definition i_doubly_linked :: "mem \<Rightarrow> u32 \<Rightarrow> u32" where "i_doubly_linked m i = load32 m (i + 92)"
definition i_triply_linked :: "mem \<Rightarrow> u32 \<Rightarrow> u32" where "i_triply_linked m i = load32 m (i + 96)"

abbreviation d_inode :: "mem \<Rightarrow> u32 \<Rightarrow> u32" where "d_inode m d \<equiv> load32 m d"
abbreviation d_size :: "mem \<Rightarrow> u32 \<Rightarrow> u32" where "d_size m d \<equiv> ucast (load16 m (d + 4))"
abbreviation d_name_length_lsb :: "mem \<Rightarrow> u32 \<Rightarrow> u8" where "d_name_length_lsb m d \<equiv> m (d + 6)"
abbreviation d_type :: "mem \<Rightarrow> u32 \<Rightarrow> u8" where "d_type m d \<equiv> m (d + 7)"
abbreviation d_name :: "u32 \<Rightarrow> u32" where "d_name d \<equiv> d + 8"

text \<open>\<open>1024 << n\<close> on a signed 32-bit integer is undefined from \<open>n = 21\<close> on, so block sizes are positive.\<close>

abbreviation shifted_block_size :: "u32 \<Rightarrow> u32 option" where
  "shifted_block_size n \<equiv> (if n < 21 then Some (push_bit (unat n) 1024) else None)"

definition set_errno :: "int \<Rightarrow> 'a ext2_state_scheme \<Rightarrow> 'a ext2_state_scheme" where
  "set_errno e s = s\<lparr>ext2_errno := e\<rparr>"

definition nl :: string where "nl = [CHR 0x0A]"

section \<open>Blocks\<close>

text \<open>The loop of \<open>read_block\<close> over the sectors of a block; \<open>n\<close> is \<open>block_size / dev_block_size\<close>.\<close>

function read_block_loop ::
  "'a xenv \<Rightarrow> 'a xlog \<Rightarrow> u32 \<Rightarrow> u32 \<Rightarrow> u32 \<Rightarrow> u32 \<Rightarrow> u32 \<Rightarrow> 'a ext2_state_scheme \<Rightarrow> ('a ext2_state_scheme \<times> int) option" where
  "read_block_loop E X fs off data n i s =
     (if i < n
      then let dbs = e_dev_block_size (ext2s s fs) in do {
        (s, ret) \<leftarrow> vfs_read_at E (e_dev (ext2s s fs)) (data + i * dbs) dbs (off + i * dbs) s;
        if ret \<noteq> 0 then do {
          s \<leftarrow> x_log X (''ext2: read_block: vfs_read_at: %s'' @ nl) [x_strerror X ret] s;
          Some (set_errno (- ENODATA) s, 1) }
        else read_block_loop E X fs off data n (i + 1) s }
      else Some (s, 0))"
  by pat_completeness auto
termination
  by (relation "measure (\<lambda>(E, X, fs, off, data, n, i, s). unat n - unat i)") (auto intro: loop_up_measure)

declare read_block_loop.simps [simp del]

definition read_block ::
  "'a xenv \<Rightarrow> 'a xlog \<Rightarrow> u32 \<Rightarrow> u32 \<Rightarrow> u32 \<Rightarrow> 'a ext2_state_scheme \<Rightarrow> ('a ext2_state_scheme \<times> int) option" where
  "read_block E X fs b data s =
     (if data = 0 then Some (s, 1)
      else if e_dev_block_size (ext2s s fs) = 0 then None
      else read_block_loop E X fs (b * e_block_size (ext2s s fs)) data
             (e_block_size (ext2s s fs) div e_dev_block_size (ext2s s fs)) 0 s)"

text \<open>\<open>read_indirect\<close> with \<open>cur\<close> the address of a block of block addresses; the depth is 0, 1 or 2.\<close>

fun read_indirect ::
  "'a xenv \<Rightarrow> 'a xlog \<Rightarrow> u32 \<Rightarrow> u32 \<Rightarrow> u32 \<Rightarrow> u32 \<Rightarrow> u32 \<Rightarrow> nat \<Rightarrow> 'a ext2_state_scheme \<Rightarrow> ('a ext2_state_scheme \<times> int) option" where
  "read_indirect E X fs i idx data cur depth s =
     (if fs = 0 \<or> i = 0 \<or> data = 0 then Some (s, 1)
      else let apb = e_block_size (ext2s s fs) div 4;
               cur_idx = (if depth = 0 then idx mod apb else if depth = 1 then (idx div apb) mod apb
                          else if depth = 2 then (idx div (apb * apb)) mod (apb * apb) else 0)
           in case depth of
                0 \<Rightarrow>
                  if load32 (kmem s) (cur + 4 * cur_idx) = 0 then do {
                    s \<leftarrow> x_log X (''read_indirect blkptr == 0 at index %i, depth %i'' @ nl) [cur_idx, of_nat depth] s;
                    Some (set_errno (- ENODATA) s, 1) }
                  else do {
                    (s, ret) \<leftarrow> read_block E X fs (load32 (kmem s) (cur + 4 * cur_idx)) data s;
                    if ret \<noteq> 0 then do {
                      s \<leftarrow> x_log X (''read_indirect failed'' @ nl) [] s;
                      Some (set_errno (- ENODATA) s, 1) }
                    else Some (s, 0) }
              | Suc depth' \<Rightarrow> do {
                  (s, next_block) \<leftarrow> k_kmalloc E (e_block_size (ext2s s fs)) s;
                  (s, ret) \<leftarrow> read_block E X fs (load32 (kmem s) (cur + 4 * cur_idx)) next_block s;
                  if ret \<noteq> 0 then do {
                    s \<leftarrow> x_log X (''read_indirect traverse read_block failed'' @ nl) [] s;
                    s \<leftarrow> k_kfree E next_block (set_errno (- ENODATA) s);
                    Some (s, 1) }
                  else do {
                    (s, ret) \<leftarrow> read_indirect E X fs i idx data next_block depth' s;
                    s \<leftarrow> k_kfree E next_block s;
                    Some (s, ret) } })"

declare read_indirect.simps [simp del]

text \<open>One of the three indirect cases of \<open>read_i_block\<close>, up to its \<open>out\<close> label.\<close>

definition read_linked ::
  "'a xenv \<Rightarrow> 'a xlog \<Rightarrow> u32 \<Rightarrow> u32 \<Rightarrow> u32 \<Rightarrow> u32 \<Rightarrow> u32 \<Rightarrow> u32 \<Rightarrow> nat \<Rightarrow> 'a ext2_state_scheme \<Rightarrow> ('a ext2_state_scheme \<times> int) option" where
  "read_linked E X fs i idx data block root depth s = do {
     (s, ret) \<leftarrow> read_block E X fs root block s;
     (s, ret) \<leftarrow> (if ret \<noteq> 0 then Some (s, ret) else read_indirect E X fs i idx data block depth s);
     s \<leftarrow> k_kfree E block s;
     Some (s, ret)
   }"

definition read_i_block ::
  "'a xenv \<Rightarrow> 'a xlog \<Rightarrow> u32 \<Rightarrow> u32 \<Rightarrow> u32 \<Rightarrow> u32 \<Rightarrow> 'a ext2_state_scheme \<Rightarrow> ('a ext2_state_scheme \<times> int) option" where
  "read_i_block E X fs i idx data s =
     (if fs = 0 \<or> i = 0 \<or> data = 0 then Some (s, 1)
      else if idx < 12 \<and> i_dir_blocks (kmem s) i idx \<noteq> 0 then read_block E X fs (i_dir_blocks (kmem s) i idx) data s
      else let apb = e_block_size (ext2s s fs) div 4;
               idx = idx - 12
           in do {
             (s, block) \<leftarrow> k_kmalloc E (e_block_size (ext2s s fs)) s;
             if idx < apb \<and> i_singly_linked (kmem s) i \<noteq> 0
             then read_linked E X fs i idx data block (i_singly_linked (kmem s) i) 0 s
             else let idx = idx - apb in
             if idx < apb * apb \<and> i_doubly_linked (kmem s) i \<noteq> 0
             then read_linked E X fs i idx data block (i_doubly_linked (kmem s) i) 1 s
             else let idx = idx - apb * apb in
             if idx < apb * apb * apb \<and> i_triply_linked (kmem s) i \<noteq> 0
             then read_linked E X fs i idx data block (i_triply_linked (kmem s) i) 2 s
             else do {
               s \<leftarrow> x_log X (''Index %i greater addr_per_block ^ 3, which should not happen.'' @ nl) [idx] s;
               s \<leftarrow> k_kfree E block s;
               Some (s, 1) }
           })"

section \<open>Inodes\<close>

definition get_inode ::
  "'a xenv \<Rightarrow> 'a xlog \<Rightarrow> u32 \<Rightarrow> u32 \<Rightarrow> u32 \<Rightarrow> 'a ext2_state_scheme \<Rightarrow> ('a ext2_state_scheme \<times> int) option" where
  "get_inode E X fs i out s =
     (if out = 0 then Some (s, 1)
      else let sb = e_sb (ext2s s fs);
               ipg = sb_inodes_per_bgroup (kmem s) sb;
               isz = sb_inode_size (kmem s) sb;
               bs = e_block_size (ext2s s fs)
           in if ipg = 0 \<or> bs = 0 \<or> isz = 0 \<or> bs div isz = 0 then None
              else let group = (i - 1) div ipg;
                       inode_table_start = load32 (kmem s) (e_bdesc (ext2s s fs) + SIZEOF_BGDESC * group + 8);
                       i_idx = (i - 1) mod ipg;
                       inode_blk = (i_idx * isz) div bs
                   in do {
                     (s, block) \<leftarrow> k_kmalloc E bs s;
                     (s, ret) \<leftarrow> read_block E X fs (inode_table_start + inode_blk) block s;
                     if ret \<noteq> 0 then do {
                       s \<leftarrow> x_log X ''get_inode: read_block failed'' [] s;
                       s \<leftarrow> k_kfree E block s;
                       Some (s, 1) }
                     else do {
                       inode_offset \<leftarrow> Some (i_idx mod (bs div isz));
                       s \<leftarrow> Some (s\<lparr>kmem := memcpy (kmem s) out (block + inode_offset * isz) SIZEOF_INODE\<rparr>);
                       s \<leftarrow> k_kfree E block s;
                       Some (s, 0) }
                   })"

definition mode_2_type :: "u16 \<Rightarrow> node_type" where
  "mode_2_type mode =
     (let t = mode AND 0xF000
      in if t = 0x1000 then nt_fifo else if t = 0x2000 then nt_dev_char else if t = 0x4000 then nt_dir
         else if t = 0x6000 then nt_dev_block else if t = 0x8000 then nt_file else if t = 0xA000 then nt_symlink
         else if t = 0xC000 then nt_socket else nt_unknown)"

text \<open>The inode of a node lies behind its \<open>struct vfs_node\<close>; the allocation is not checked, so a NULL node is written through.\<close>

abbreviation node_inode :: "u32 \<Rightarrow> u32" where "node_inode n \<equiv> n + SIZEOF_VFS_NODE"

definition get_node ::
  "'a xenv \<Rightarrow> 'a xlog \<Rightarrow> u32 \<Rightarrow> u32 \<Rightarrow> 'a ext2_state_scheme \<Rightarrow> ('a ext2_state_scheme \<times> u32) option" where
  "get_node E X fs i s = do {
     (s, e2) \<leftarrow> k_kmalloc E SIZEOF_EXT2_NODE s;
     (s, ret) \<leftarrow> get_inode E X fs i (node_inode e2) s;
     if ret \<noteq> 0 then do {
       s \<leftarrow> k_kfree E e2 s;
       s \<leftarrow> x_log X (''ext2: get_node: get_inode: %i'' @ nl) [of_int ret] s;
       Some (s, 0) }
     else Some (upd_node e2 (\<lambda>n. n\<lparr>n_fs := fs, n_id := i, n_mode := i_mode (kmem s) (node_inode e2),
                  n_type := mode_2_type (i_mode (kmem s) (node_inode e2))\<rparr>) s, e2)
   }"

abbreviation IS_DIR :: "u16 \<Rightarrow> bool" where "IS_DIR m \<equiv> m AND 0xF000 = 0x4000"

section \<open>Mounting\<close>

definition ext2_mount :: "'a xenv \<Rightarrow> 'a xlog \<Rightarrow> u32 \<Rightarrow> 'a ext2_state_scheme \<Rightarrow> ('a ext2_state_scheme \<times> int) option" where
  "ext2_mount E X fs s =
     (let upd = (\<lambda>f s. s\<lparr>ext2s := (ext2s s)(fs := f (ext2s s fs))\<rparr>)
      in if e_sb (ext2s s fs) = 0 then Some (s, - EINVAL)
         else do {
           (s, ret, sb) \<leftarrow> vfs_stat E (e_dev (ext2s s fs)) s;
           if ret < 0 then Some (s, ret)
           else if st_block_size sb = 0 then None
           else do {
             s \<leftarrow> Some (upd (\<lambda>r. r\<lparr>e_dev_block_size := st_block_size sb\<rparr>) s);
             bs \<leftarrow> shifted_block_size (sb_block_size (kmem s) (e_sb (ext2s s fs)));
             s \<leftarrow> Some (upd (\<lambda>r. r\<lparr>e_block_size := bs\<rparr>) s);
             (s, bdesc) \<leftarrow> k_kmalloc E (e_block_size (ext2s s fs) div SIZEOF_BGDESC * SIZEOF_BGDESC) s;
             (s, ret) \<leftarrow> read_block E X fs 2 bdesc s;
             if ret \<noteq> 0 then do { s \<leftarrow> k_kfree E (e_sb (ext2s s fs)) s; Some (s, - EIO) }
             else do {
               s \<leftarrow> Some (upd (\<lambda>r. r\<lparr>e_bdesc := bdesc\<rparr>) s);
               (s, root) \<leftarrow> get_node E X fs 2 s;
               s \<leftarrow> Some (upd (\<lambda>r. r\<lparr>e_root := root\<rparr>) s);
               if root = 0 then do {
                 s \<leftarrow> x_log X (''ext2_mount: get_node failed'' @ nl) [] s;
                 s \<leftarrow> k_kfree E (e_bdesc (ext2s s fs)) s;
                 s \<leftarrow> k_kfree E (e_sb (ext2s s fs)) s;
                 Some (s, - EIO) }
               else if \<not> IS_DIR (i_mode (kmem s) (node_inode root)) then do {
                 s \<leftarrow> x_log X (''ext2_mount: root inode is not a directory...?'' @ nl) [] s;
                 s \<leftarrow> k_kfree E (e_bdesc (ext2s s fs)) s;
                 s \<leftarrow> k_kfree E (e_sb (ext2s s fs)) s;
                 Some (s, - EIO) }
               else Some (s, 0) } } })"

definition ext2_fs_umount :: "'a xenv \<Rightarrow> u32 \<Rightarrow> 'a ext2_state_scheme \<Rightarrow> ('a ext2_state_scheme \<times> int) option" where
  "ext2_fs_umount E fs s =
     (if fs = 0 then Some (set_errno (- EINVAL) s, 1)
      else do {
        (s, ret) \<leftarrow> vfs_close E (e_dev (ext2s s fs)) s;
        if ret < 0 then Some (s, ret)
        else Some (s\<lparr>ext2s := (ext2s s)(fs := (ext2s s fs)\<lparr>e_dev := 0\<rparr>)\<rparr>, 0) })"

section \<open>Directories\<close>

text \<open>
  The loop over the entries of the block at \<open>blk\<close>, from offset \<open>off\<close>. A callback gets the
  address of an entry and a context, which it may change.
\<close>

partial_function (option) dirents_loop ::
  "(u32 \<Rightarrow> 'c \<Rightarrow> 'a ext2_state_scheme \<Rightarrow> ('c \<times> 'a ext2_state_scheme) option) \<Rightarrow> u32 \<Rightarrow> u32 \<Rightarrow> u32 \<Rightarrow> 'c \<Rightarrow> 'a ext2_state_scheme \<Rightarrow> ('c \<times> 'a ext2_state_scheme) option" where
  "dirents_loop cb bs blk off c s =
     (if off < bs
      then let dirent = blk + off;
               off' = off + (if d_size (kmem s) dirent \<noteq> 0 then d_size (kmem s) dirent else bs)
           in if d_inode (kmem s) dirent = 0 then dirents_loop cb bs blk off' c s
              else do { (c, s) \<leftarrow> cb dirent c s; dirents_loop cb bs blk off' c s }
      else Some (c, s))"

text \<open>
  \<open>iterate_dirents\<close> gets the inode by value; \<open>blocks\<close> are its twelve direct blocks. The source does not
  stop at the twelfth: reading past the array is \<open>None\<close>.
\<close>

partial_function (option) dir_blocks_loop ::
  "'a xenv \<Rightarrow> 'a xlog \<Rightarrow> (u32 \<Rightarrow> 'c \<Rightarrow> 'a ext2_state_scheme \<Rightarrow> ('c \<times> 'a ext2_state_scheme) option) \<Rightarrow> u32 \<Rightarrow> u32 \<Rightarrow> u32 list \<Rightarrow> nat \<Rightarrow> 'c \<Rightarrow> 'a ext2_state_scheme \<Rightarrow> (nat \<times> 'c \<times> 'a ext2_state_scheme) option" where
  "dir_blocks_loop E X cb fs cur_blk blocks i c s =
     (if length blocks \<le> i then None
      else if blocks ! i = 0 then Some (i, c, s)
      else do {
        (s, ret) \<leftarrow> read_block E X fs (blocks ! i) cur_blk s;
        if ret \<noteq> 0 then Some (i, c, s)
        else do {
          (c, s) \<leftarrow> dirents_loop cb (e_block_size (ext2s s fs)) cur_blk 0 c s;
          dir_blocks_loop E X cb fs cur_blk blocks (i + 1) c s } })"

abbreviation direct_blocks :: "mem \<Rightarrow> u32 \<Rightarrow> u32 list" where
  "direct_blocks m i \<equiv> map (\<lambda>k. i_dir_blocks m i (of_nat k)) [0..<12]"

definition iterate_dirents ::
  "'a xenv \<Rightarrow> 'a xlog \<Rightarrow> (u32 \<Rightarrow> 'c \<Rightarrow> 'a ext2_state_scheme \<Rightarrow> ('c \<times> 'a ext2_state_scheme) option) \<Rightarrow> u32 \<Rightarrow> u32 \<Rightarrow> 'c \<Rightarrow> 'a ext2_state_scheme \<Rightarrow> ('c \<times> 'a ext2_state_scheme) option" where
  "iterate_dirents E X cb fs inode c s =
     (let blocks = direct_blocks (kmem s) inode
      in do {
        (s, cur_blk) \<leftarrow> k_kmalloc E (e_block_size (ext2s s fs)) s;
        (i, c, s) \<leftarrow> dir_blocks_loop E X cb fs cur_blk blocks 0 c s;
        s \<leftarrow> (if i = 11 then x_log X (''maybe need to iterate indirect blocks'' @ nl) [] s else Some s);
        s \<leftarrow> k_kfree E cur_blk s;
        Some (c, s) })"

text \<open>\<open>strncmp\<close> of a name of the caller with bytes in memory: equal up to \<open>n\<close> bytes or a common NUL.\<close>

fun name_eq :: "string \<Rightarrow> mem \<Rightarrow> u32 \<Rightarrow> nat \<Rightarrow> bool" where
  "name_eq name m a 0 = True"
| "name_eq [] m a (Suc n) = (m a = 0)"
| "name_eq (c # name) m a (Suc n) = (of_char c = m a \<and> (m a = 0 \<or> name_eq name m (a + 1) n))"

text \<open>The inner loop of \<open>find_dirent\<close>; an unused entry does not advance it.\<close>

partial_function (option) find_dirent_loop ::
  "string \<Rightarrow> u32 \<Rightarrow> u32 \<Rightarrow> u32 \<Rightarrow> u32 \<Rightarrow> 'a ext2_state_scheme \<Rightarrow> u32 option" where
  "find_dirent_loop name namelen bs blk off s =
     (if off < bs
      then let dirent = blk + off
           in if d_inode (kmem s) dirent = 0 then find_dirent_loop name namelen bs blk off s
              else if name_eq name (kmem s) (d_name dirent) (unat namelen) then Some dirent
              else find_dirent_loop name namelen bs blk
                     (off + (if d_size (kmem s) dirent \<noteq> 0 then d_size (kmem s) dirent else bs)) s
      else Some 0)"

partial_function (option) find_dirent_blocks ::
  "'a xenv \<Rightarrow> 'a xlog \<Rightarrow> u32 \<Rightarrow> u32 list \<Rightarrow> string \<Rightarrow> u32 \<Rightarrow> u32 \<Rightarrow> nat \<Rightarrow> 'a ext2_state_scheme \<Rightarrow> ('a ext2_state_scheme \<times> u32) option" where
  "find_dirent_blocks E X fs blocks name namelen cur_blk i s =
     (if length blocks \<le> i then None
      else if blocks ! i = 0 then Some (s, 0)
      else do {
        (s, ret) \<leftarrow> read_block E X fs (blocks ! i) cur_blk s;
        if ret \<noteq> 0 then Some (s, 0)
        else do {
          dirent \<leftarrow> find_dirent_loop name namelen (e_block_size (ext2s s fs)) cur_blk 0 s;
          if dirent \<noteq> 0 then Some (s, dirent)
          else find_dirent_blocks E X fs blocks name namelen cur_blk (i + 1) s } })"

definition find_dirent ::
  "'a xenv \<Rightarrow> 'a xlog \<Rightarrow> u32 \<Rightarrow> u32 list \<Rightarrow> string \<Rightarrow> u32 \<Rightarrow> 'a ext2_state_scheme \<Rightarrow> ('a ext2_state_scheme \<times> u32) option" where
  "find_dirent E X fs cur name namelen s =
     (if fs = 0 then Some (set_errno (- EINVAL) s, 0)
      else do {
        (s, cur_blk) \<leftarrow> k_kmalloc E (e_block_size (ext2s s fs)) s;
        (s, dirent) \<leftarrow> find_dirent_blocks E X fs cur name namelen cur_blk 0 s;
        if dirent \<noteq> 0 then do {
          (s, found) \<leftarrow> k_kmalloc E (d_size (kmem s) dirent) s;
          s \<leftarrow> Some (s\<lparr>kmem := memcpy (kmem s) found dirent (d_size (kmem s) dirent)\<rparr>);
          s \<leftarrow> k_kfree E cur_blk s;
          Some (s, found) }
        else do { s \<leftarrow> k_kfree E cur_blk s; Some (s, 0) } })"

text \<open>
  \<open>get_dirent\<close> returns at the first part of the path. \<open>cur\<close> is the local copy of an inode on the stack.
\<close>

primrec put_all :: "'a xlog \<Rightarrow> string \<Rightarrow> 'a ext2_state_scheme \<Rightarrow> 'a ext2_state_scheme option" where
  "put_all X [] s = Some s"
| "put_all X (c # cs) s = do { s \<leftarrow> x_kput X (of_char c) s; put_all X cs s }"

definition get_dirent ::
  "'a xenv \<Rightarrow> 'a xlog \<Rightarrow> u32 \<Rightarrow> u32 \<Rightarrow> string \<Rightarrow> 'a ext2_state_scheme \<Rightarrow> ('a ext2_state_scheme \<times> u32) option" where
  "get_dirent E X fs cur pathname s =
     (if fs = 0 then Some (set_errno (- EINVAL) s, 0)
      else case path_parts (CHR ''/'') pathname of
        [] \<Rightarrow> Some (set_errno 0 s, 0)
      | part # _ \<Rightarrow> do {
          s \<leftarrow> put_all X part s;
          s \<leftarrow> x_log X ([CHR 0x27] @ nl) [] s;
          (s, dir) \<leftarrow> find_dirent E X fs (direct_blocks (kmem s) (node_inode (e_root (ext2s s fs)))) part (of_nat (length part)) s;
          if dir = 0 then do {
            s \<leftarrow> x_log X (''Failed to find dirent for %s'' @ nl) [x_str X pathname] s;
            Some (set_errno (- ENOENT) s, 0) }
          else do {
            (s, ret) \<leftarrow> get_inode E X fs (d_inode (kmem s) dir) cur s;
            if ret \<noteq> 0 then Some (set_errno (- ENOENT) s, 0) else Some (s, dir) } })"

text \<open>\<open>e\<close> is the caller's pointer, which must not be NULL although it is only written.\<close>

definition dir_entry_create ::
  "'a xenv \<Rightarrow> u32 \<Rightarrow> string option \<Rightarrow> u32 \<Rightarrow> 'a ext2_state_scheme \<Rightarrow> ('a ext2_state_scheme \<times> int \<times> u32) option" where
  "dir_entry_create E i name e s =
     (case name of None \<Rightarrow> Some (s, 1, e)
      | Some nm \<Rightarrow>
        if e = 0 then Some (s, 1, e)
        else let len = of_nat (length nm) :: u32
             in do {
               (s, new) \<leftarrow> k_kmalloc E (8 + len) s;
               s \<leftarrow> Some (s\<lparr>kmem := store32 new i (kmem s)\<rparr>);
               s \<leftarrow> Some (s\<lparr>kmem := (kmem s)(new + 4 := ucast (len + 8), new + 5 := ucast (drop_bit 8 (len + 8)))\<rparr>);
               s \<leftarrow> Some (s\<lparr>kmem := (\<lambda>a. if a - d_name new < len then of_char (nm ! unat (a - d_name new)) else kmem s a)\<rparr>);
               Some (s, 0, new) })"

section \<open>Listings\<close>

abbreviation print_unixtime :: "'a xlog \<Rightarrow> string \<Rightarrow> u32 \<Rightarrow> 'a ext2_state_scheme \<Rightarrow> 'a ext2_state_scheme option" where
  "print_unixtime X prefix t s \<equiv> x_log X ''%s %u'' [x_str X prefix, t] s"

text \<open>The ten letters of a mode; an unknown type leaves the first one uninitialised, here \<open>u\<close>.\<close>

definition perm_letters :: "char \<Rightarrow> u16 \<Rightarrow> string" where
  "perm_letters u p =
     (let t = p AND 0xF000;
          first = (if t = 0x1000 then CHR ''p'' else if t = 0x2000 then CHR ''c'' else if t = 0x4000 then CHR ''d''
            else if t = 0x6000 then CHR ''b'' else if t = 0x8000 then CHR ''-'' else if t = 0xA000 then CHR ''l''
            else if t = 0xC000 then CHR ''s'' else u);
          p = push_bit 4 p;
          setuid = p AND 0x8000 \<noteq> 0; p = push_bit 1 p;
          setgid = p AND 0x8000 \<noteq> 0; p = push_bit 1 p;
          sticky = p AND 0x8000 \<noteq> 0; p = push_bit 1 p;
          letter = (\<lambda>i. if i = 2 \<and> setuid then CHR ''s'' else if i = 5 \<and> setgid then CHR ''s''
                else if i = 8 \<and> sticky then CHR ''t'' else ''rwx'' ! (i mod 3))
      in first # map (\<lambda>i. if push_bit i p AND 0x8000 \<noteq> 0 then letter i else CHR ''-'') [0..<9])"

abbreviation dump_permissions :: "'a xlog \<Rightarrow> char \<Rightarrow> u16 \<Rightarrow> 'a ext2_state_scheme \<Rightarrow> 'a ext2_state_scheme option" where
  "dump_permissions X u p s \<equiv> put_all X (perm_letters u p) s"

text \<open>The name of an entry, printed byte by byte from memory.\<close>

primrec put_bytes :: "'a xlog \<Rightarrow> u32 \<Rightarrow> nat \<Rightarrow> 'a ext2_state_scheme \<Rightarrow> 'a ext2_state_scheme option" where
  "put_bytes X a 0 s = Some s"
| "put_bytes X a (Suc n) s = do { s \<leftarrow> x_kput X (kmem s a) s; put_bytes X (a + 1) n s }"

definition dirent_name_len :: "mem \<Rightarrow> u32 \<Rightarrow> u32 \<Rightarrow> u32" where
  "dirent_name_len m sb e =
     (if sb_required_features m sb AND EXT2_REQ_DIR_TYPE_FIELD \<noteq> 0 then ucast (d_name_length_lsb m e)
      else push_bit 8 (ucast (d_type m e)) OR ucast (d_name_length_lsb m e))"

definition dump_dirent :: "'a xlog \<Rightarrow> char \<Rightarrow> u32 \<Rightarrow> u32 \<Rightarrow> u32 \<Rightarrow> 'a ext2_state_scheme \<Rightarrow> 'a ext2_state_scheme option" where
  "dump_dirent X u fs e i s = do {
     s \<leftarrow> dump_permissions X u (i_mode (kmem s) i) s;
     s \<leftarrow> x_log X '' %i '' [ucast (i_dir_entries (kmem s) i)] s;
     s \<leftarrow> x_log X '' %s '' [if i_uid (kmem s) i \<noteq> 0 then x_str X ''anon'' else x_str X ''root''] s;
     s \<leftarrow> x_log X '' %s '' [if i_gid (kmem s) i \<noteq> 0 then x_str X ''anon'' else x_str X ''root''] s;
     s \<leftarrow> x_log X '' %i '' [i_bytes_lsb (kmem s) i] s;
     s \<leftarrow> print_unixtime X [] (i_last_modify (kmem s) i) s;
     name_len \<leftarrow> Some (dirent_name_len (kmem s) (e_sb (ext2s s fs)) e);
     s \<leftarrow> x_kput X 0x20 s;
     s \<leftarrow> put_bytes X (d_name e) (unat name_len) s;
     x_kput X 0x0A s
   }"

section \<open>Operations\<close>

definition ext2_stat :: "u32 \<Rightarrow> 'a ext2_state_scheme \<Rightarrow> ('a ext2_state_scheme \<times> int \<times> vfs_stat_rec) option" where
  "ext2_stat file s =
     (let n = f_node (vfiles s file); fs = n_fs (vnodes s n); i = node_inode n; m = kmem s
      in Some (s, 0, \<lparr>st_size = i_bytes_lsb m i, st_block_size = e_block_size (ext2s s fs), st_offset = f_offset (vfiles s file),
           st_id = n_id (vnodes s n), st_mode = i_mode m i, st_links = ucast (i_dir_entries m i), st_uid = ucast (i_uid m i),
           st_gid = ucast (i_gid m i), st_atime = i_last_access m i, st_mtime = i_last_modify m i, st_ctime = i_create m i\<rparr>))"

definition ext2_open :: "'a xenv \<Rightarrow> u32 \<Rightarrow> 'a ext2_state_scheme \<Rightarrow> ('a ext2_state_scheme \<times> int \<times> u32) option" where
  "ext2_open E node s = do {
     (s, f) \<leftarrow> k_kmalloc E 16 s;
     if f = 0 then Some (s, - ENOMEM, 0)
     else Some (upd_file f (\<lambda>r. r\<lparr>f_node := node, f_offset := 0, f_next := 0, f_ops := Ext2_file_ops\<rparr>) s, 0, f)
   }"

definition ext2_close :: "'a xenv \<Rightarrow> u32 \<Rightarrow> 'a ext2_state_scheme \<Rightarrow> ('a ext2_state_scheme \<times> int) option" where
  "ext2_close E file s = do { s \<leftarrow> k_kfree E file s; Some (s, 0) }"

text \<open>
  The loop that \<open>ext2_read\<close> and \<open>ext2_read_at\<close> share, with \<open>pos\<close> the offset it takes modulo the block size:
  block numbers are counted from the bytes read so far. \<open>None\<close> in the first component of the
  result marks the early return on an error.
\<close>

partial_function (option) read_loop ::
  "'a xenv \<Rightarrow> 'a xlog \<Rightarrow> u32 \<Rightarrow> u32 \<Rightarrow> u32 \<Rightarrow> u32 \<Rightarrow> u32 \<Rightarrow> u32 \<Rightarrow> u32 \<Rightarrow> 'a ext2_state_scheme \<Rightarrow> ('a ext2_state_scheme \<times> int \<times> u32) option" where
  "read_loop E X fs i buf block pos to_read bytes_read s =
     (let bs = e_block_size (ext2s s fs)
      in if bs = 0 then None
         else do {
           (s, ret) \<leftarrow> read_i_block E X fs i (bytes_read div bs) block s;
           if ret \<noteq> 0 then Some (s, ret, bytes_read)
           else let blk_bytes = (if sint (to_read - bytes_read) < sint bs then to_read - bytes_read else bs);
                    s = s\<lparr>kmem := memcpy (kmem s) (buf + bytes_read) (block + pos mod bs) blk_bytes\<rparr>;
                    bytes_read = bytes_read + blk_bytes
                in if sint bytes_read < sint to_read then read_loop E X fs i buf block pos to_read bytes_read s
                   else Some (s, 0, bytes_read) })"

definition ext2_read :: "'a xenv \<Rightarrow> 'a xlog \<Rightarrow> u32 \<Rightarrow> u32 \<Rightarrow> u32 \<Rightarrow> 'a ext2_state_scheme \<Rightarrow> ('a ext2_state_scheme \<times> int) option" where
  "ext2_read E X file buf bytes s =
     (let n = f_node (vfiles s file); fs = n_fs (vnodes s n);
          remain = i_bytes_lsb (kmem s) (node_inode n) - f_offset (vfiles s file);
          to_read = (if bytes \<le> remain then bytes else remain)
      in do {
        (s, block) \<leftarrow> k_kmalloc E (e_block_size (ext2s s fs)) s;
        (s, ret, bytes_read) \<leftarrow> read_loop E X fs (node_inode n) buf block (f_offset (vfiles s file)) to_read 0 s;
        if ret \<noteq> 0 then Some (s, ret)
        else do {
          s \<leftarrow> Some (upd_file file (\<lambda>f. f\<lparr>f_offset := f_offset f + bytes_read\<rparr>) s);
          s \<leftarrow> k_kfree E block s;
          Some (s, sint bytes_read) } })"

definition ext2_read_at ::
  "'a xenv \<Rightarrow> 'a xlog \<Rightarrow> u32 \<Rightarrow> u32 \<Rightarrow> u32 \<Rightarrow> u32 \<Rightarrow> 'a ext2_state_scheme \<Rightarrow> ('a ext2_state_scheme \<times> int) option" where
  "ext2_read_at E X file buf bytes pos s =
     (let n = f_node (vfiles s file); fs = n_fs (vnodes s n);
          remain = i_bytes_lsb (kmem s) (node_inode n) - pos;
          to_read = (if bytes \<le> remain then bytes else remain)
      in do {
        (s, block) \<leftarrow> k_kmalloc E (e_block_size (ext2s s fs)) s;
        (s, ret, bytes_read) \<leftarrow> read_loop E X fs (node_inode n) buf block pos to_read 0 s;
        if ret \<noteq> 0 then Some (s, ret)
        else do { s \<leftarrow> k_kfree E block s; Some (s, sint bytes_read) } })"

definition ext2_file_ops :: "'a xenv \<Rightarrow> 'a xlog \<Rightarrow> 'a ext2_state_scheme vfs_file_ops" where
  "ext2_file_ops E X = \<lparr>p_read = Some (ext2_read E X), p_read_at = Some (ext2_read_at E X), p_write = None, p_write_at = None,
     p_seek = None, p_stat = Some ext2_stat\<rparr>"

text \<open>
  The operations the driver does not implement, \<open>ext2_chdir\<close> to \<open>ext2_utime\<close>: each sets the error and returns 1.
\<close>

definition ext2_todo :: "'a ext2_state_scheme \<Rightarrow> 'a ext2_state_scheme \<times> int" where
  "ext2_todo s = (set_errno (- EINVAL) s, 1)"

definition ext2_unmount :: "u32 \<Rightarrow> 'a ext2_state_scheme \<Rightarrow> ('a ext2_state_scheme \<times> int) option" where
  "ext2_unmount fs s = Some (s, - ENOSYS)"

definition lookup_cb ::
  "'a xenv \<Rightarrow> 'a xlog \<Rightarrow> u32 \<Rightarrow> string \<Rightarrow> u32 \<Rightarrow> u32 \<Rightarrow> 'a ext2_state_scheme \<Rightarrow> (u32 \<times> 'a ext2_state_scheme) option" where
  "lookup_cb E X fs name e out s =
     (let name_len = dirent_name_len (kmem s) (e_sb (ext2s s fs)) e
      in if \<not> name_eq name (kmem s) (d_name e) (unat name_len) then Some (out, s)
         else do { (s, n) \<leftarrow> get_node E X fs (d_inode (kmem s) e) s; Some (n, s) })"

definition ext2_lookup ::
  "'a xenv \<Rightarrow> 'a xlog \<Rightarrow> u32 \<Rightarrow> string \<Rightarrow> 'a ext2_state_scheme \<Rightarrow> ('a ext2_state_scheme \<times> int \<times> u32) option" where
  "ext2_lookup E X d name s =
     (let fs = n_fs (vnodes s d)
      in if name = ''.'' then Some (s, 0, d)
         else if d = e_root (ext2s s fs) \<and> name = ''..'' then Some (s, 0, fs_parent_node (filesystems s fs))
         else do {
           (temp, s) \<leftarrow> iterate_dirents E X (lookup_cb E X fs name) fs (node_inode d) 0 s;
           if temp = 0 then Some (s, - ENOENT, 0) else Some (s, 0, temp) })"

text \<open>The context of \<open>readdir_cb\<close>: the entries seen so far and the name found.\<close>

definition readdir_cb ::
  "'a xenv \<Rightarrow> u32 \<Rightarrow> u32 \<Rightarrow> u32 \<Rightarrow> u32 \<times> u32 \<Rightarrow> 'a ext2_state_scheme \<Rightarrow> ((u32 \<times> u32) \<times> 'a ext2_state_scheme) option" where
  "readdir_cb E fs idx e c s =
     (case c of (iter, out) \<Rightarrow>
        if iter \<noteq> idx then Some ((iter + 1, out), s)
        else let name_len = dirent_name_len (kmem s) (e_sb (ext2s s fs)) e
             in do {
               (s, p) \<leftarrow> k_kmalloc E (name_len + 1) s;
               s \<leftarrow> Some (s\<lparr>kmem := (memcpy (kmem s) p (d_name e) name_len)(p + name_len := 0)\<rparr>);
               s \<leftarrow> Some (s\<lparr>strs := (strs s)(p := map (\<lambda>b. char_of (unat b)) (takeWhile (\<lambda>b. b \<noteq> 0) (bytes_at (kmem s) p (unat name_len))))\<rparr>);
               Some ((iter + 1, p), s) })"

text \<open>\<open>old\<close> is what the caller's pointer held: it is only overwritten when it was not NULL.\<close>

definition ext2_readdir ::
  "'a xenv \<Rightarrow> 'a xlog \<Rightarrow> u32 \<Rightarrow> u32 \<Rightarrow> u32 \<Rightarrow> 'a ext2_state_scheme \<Rightarrow> ('a ext2_state_scheme \<times> int \<times> u32) option" where
  "ext2_readdir E X old dir idx s =
     (let fs = n_fs (vnodes s dir)
      in do {
        ((iter, temp), s) \<leftarrow> iterate_dirents E X (readdir_cb E fs idx) fs (node_inode dir) (0, 0) s;
        if temp = 0 then Some (s, - ENOENT, old)
        else Some (s, 0, if old \<noteq> 0 then temp else old) })"

definition ext2_get_root :: "u32 \<Rightarrow> 'a ext2_state_scheme \<Rightarrow> u32" where
  "ext2_get_root fs s = e_root (ext2s s fs)"

definition ext2_ops :: "'a xenv \<Rightarrow> 'a xlog \<Rightarrow> u32 \<Rightarrow> 'a ext2_state_scheme vfs_ops" where
  "ext2_ops E X old = \<lparr>o_mount = ext2_mount E X, o_unmount = ext2_unmount, o_lookup = Some (ext2_lookup E X),
     o_readdir = Some (ext2_readdir E X old), o_open = Some (ext2_open E), o_close = Some (ext2_close E),
     o_create = None, o_mkdir = None, o_get_root = ext2_get_root\<rparr>"

section \<open>Finding and creating the file system\<close>

text \<open>The loop of \<open>find_superblock\<close>, reading into the local superblock at \<open>super\<close>; the boolean says that a read failed.\<close>

function superblock_loop ::
  "'a xenv \<Rightarrow> 'a xlog \<Rightarrow> u32 \<Rightarrow> u32 \<Rightarrow> u32 \<Rightarrow> u32 \<Rightarrow> u32 \<Rightarrow> 'a ext2_state_scheme \<Rightarrow> ('a ext2_state_scheme \<times> bool) option" where
  "superblock_loop E X dev super bs n i s =
     (if i < n
      then do {
        (s, ret) \<leftarrow> vfs_read_at E dev (super + i * bs) bs ((i + 2) * bs) s;
        if ret \<noteq> 0 then do {
          s \<leftarrow> x_log X (''ext2: find_superblock: vfs_read_at() failed to read superblock, ret = %i (%s)'' @ nl)
                 [of_int ret, x_strerror X ret] s;
          Some (s, True) }
        else superblock_loop E X dev super bs n (i + 1) s }
      else Some (s, False))"
  by pat_completeness auto
termination
  by (relation "measure (\<lambda>(E, X, dev, super, bs, n, i, s). unat n - unat i)") (auto intro: loop_up_measure)

declare superblock_loop.simps [simp del]

text \<open>The division by a group size of zero, like the one by a block size of zero, traps.\<close>

definition find_superblock ::
  "'a xenv \<Rightarrow> 'a xlog \<Rightarrow> u32 \<Rightarrow> u32 \<Rightarrow> 'a ext2_state_scheme \<Rightarrow> ('a ext2_state_scheme \<times> u32) option" where
  "find_superblock E X super dev s =
     (if dev = 0 then Some (s, 0)
      else do {
        s \<leftarrow> Some (s\<lparr>kmem := memset (kmem s) super 0 SIZEOF_SUPERBLOCK\<rparr>);
        (s, ret, sb) \<leftarrow> vfs_stat E dev s;
        if ret < 0 then do { s \<leftarrow> x_log X (''ext2: find_superblock: %s'' @ nl) [x_strerror X ret] s; Some (s, 0) }
        else if st_block_size sb = 0 then None
        else do {
          (s, failed) \<leftarrow> superblock_loop E X dev super (st_block_size sb) (SIZEOF_SUPERBLOCK div st_block_size sb) 0 s;
          if failed then Some (s, 0)
          else if sb_signature (kmem s) super \<noteq> 0xEF53 then Some (s, 0)
          else do {
            fs_block_size \<leftarrow> shifted_block_size (sb_block_size (kmem s) super);
            let fs_bytes = sb_blocks_total (kmem s) super * fs_block_size
               in if fs_bytes \<noteq> st_size sb then do {
                    s \<leftarrow> x_log X (''ext2: find_superblock: ext2 size %u != device size %u'' @ nl) [fs_bytes, st_size sb] s;
                    Some (s, 0) }
                  else let ipg = sb_inodes_per_bgroup (kmem s) super; bpg = sb_blocks_per_bgroup (kmem s) super
                  in if ipg = 0 \<or> bpg = 0 then None
                  else if (sb_inodes_total (kmem s) super + ipg - 1) div ipg \<noteq> (sb_blocks_total (kmem s) super + bpg - 1) div bpg
                  then do {
                    s \<leftarrow> x_log X (''ext2: find_superblock: inodes/inodes_per_bgroup != blocks / blocks_per_bgroup, something'' @ [CHR 0x27] @ ''s busted'' @ nl) [] s;
                    Some (s, 0) }
                  else do {
                    (s, out) \<leftarrow> k_kmalloc E SIZEOF_SUPERBLOCK s;
                    Some (s\<lparr>kmem := memcpy (kmem s) out super SIZEOF_SUPERBLOCK\<rparr>, out) } } } })"

definition ext2_new :: "'a xenv \<Rightarrow> 'a xlog \<Rightarrow> u32 \<Rightarrow> u32 \<Rightarrow> 'a ext2_state_scheme \<Rightarrow> ('a ext2_state_scheme \<times> u32) option" where
  "ext2_new E X frame dev s =
     (if dev = 0 then Some (s, 0)
      else do {
        (s, super) \<leftarrow> find_superblock E X frame dev s;
        if super = 0 then Some (s, 0)
        else do {
          (s, fs) \<leftarrow> k_kzalloc E SIZEOF_EXT2_FS s;
          s \<leftarrow> Some (s\<lparr>ext2s := (ext2s s)(fs := \<lparr>e_dev = dev, e_dev_block_size = 0, e_sb = super, e_bdesc = 0, e_root = 0, e_block_size = 0\<rparr>)\<rparr>);
          s \<leftarrow> Some (upd_fs fs (\<lambda>_. \<lparr>fs_name = ''ext2'', fs_parent = 0, fs_parent_node = 0, fs_ops = Ext2_ops\<rparr>) s);
          Some (s, fs) } })"

definition ext2_destroy :: "'a xenv \<Rightarrow> u32 \<Rightarrow> 'a ext2_state_scheme \<Rightarrow> 'a ext2_state_scheme option" where
  "ext2_destroy E fs s =
     (if fs = 0 then Some s
      else do {
        s \<leftarrow> (if e_bdesc (ext2s s fs) \<noteq> 0 then k_kfree E (e_bdesc (ext2s s fs)) s else Some s);
        s \<leftarrow> (if e_sb (ext2s s fs) \<noteq> 0 then k_kfree E (e_sb (ext2s s fs)) s else Some s);
        s \<leftarrow> (if e_dev (ext2s s fs) \<noteq> 0 then do { (s, _) \<leftarrow> vfs_close E (e_dev (ext2s s fs)) s; Some s } else Some s);
        k_kfree E fs s })"

end
