(* ===== verification/Ext2tree.thy ===== *)
theory Ext2tree
  imports Ext2
begin

text \<open>
  The block tree of an ext2 file: \<open>read_i_block\<close> and \<open>read_indirect\<close> of \<open>kernel/fs/ext2/ext2.c\<close> are shown to
  implement the numbering of the blocks of a file, and two flaws of the look-up by name are shown.
\<close>

section \<open>Look-up\<close>

text \<open>The search of a block does not get past an unused entry.\<close>

lemma find_dirent_loop_spins:
  assumes "off < bs" "d_inode (kmem s) (blk + off) = 0"
  shows "find_dirent_loop name namelen bs blk off s = None"
proof (cases "find_dirent_loop name namelen bs blk off s")
  case (Some y)
  have "\<not> (off < bs \<and> d_inode (kmem s) (blk + off) = 0)"
    using Some by (induction rule: find_dirent_loop.raw_induct [rotated, consumes 1])
      (auto simp: Let_def split: if_splits)
  then show ?thesis using assms by blast
qed

text \<open>A name matches every entry that holds a prefix of it, since only the length of the entry is compared.\<close>

lemma longer_name_matches:
  "(\<And>k. k < length p \<Longrightarrow> m (a + of_nat k) = of_char (p ! k)) \<Longrightarrow> name_eq (p @ q) m a (length p)"
proof (induction p arbitrary: a)
  case (Cons c p)
  have "m a = of_char c" using Cons.prems [of 0] by simp
  moreover have "name_eq (p @ q) m (a + 1) (length p)"
    using Cons.prems [of "Suc k" for k] by (intro Cons.IH) (simp add: add.assoc)
  ultimately show ?case by simp
qed simp

section \<open>The block tree\<close>

text \<open>
  The reference: block addresses on the disk, the walk down an indirect tree of the given depth, and
  the block of a file with a given number. There are \<open>A\<close> addresses in a block.
\<close>

definition disk_addr :: "mem \<Rightarrow> u32 \<Rightarrow> u32 \<Rightarrow> nat \<Rightarrow> u32" where
  "disk_addr disk bs b k = load32 disk (b * bs + 4 * of_nat k)"

primrec tree_walk :: "mem \<Rightarrow> u32 \<Rightarrow> nat \<Rightarrow> u32 \<Rightarrow> nat \<Rightarrow> u32" where
  "tree_walk disk bs 0 b k = disk_addr disk bs b (k mod (unat bs div 4))"
| "tree_walk disk bs (Suc d) b k =
     (let A = unat bs div 4 in tree_walk disk bs d (disk_addr disk bs b ((k div A ^ Suc d) mod A)) k)"

definition file_block :: "mem \<Rightarrow> u32 \<Rightarrow> mem \<Rightarrow> u32 \<Rightarrow> nat \<Rightarrow> u32" where
  "file_block disk bs m i n =
     (let A = unat bs div 4
      in if n < 12 then i_dir_blocks m i (of_nat n)
         else if n < 12 + A then tree_walk disk bs 0 (i_singly_linked m i) (n - 12)
         else if n < 12 + A + A ^ 2 then tree_walk disk bs 1 (i_doubly_linked m i) (n - 12 - A)
         else tree_walk disk bs 2 (i_triply_linked m i) (n - 12 - A - A ^ 2))"

text \<open>The tree the block belongs to exists.\<close>

definition tree_exists :: "u32 \<Rightarrow> mem \<Rightarrow> u32 \<Rightarrow> nat \<Rightarrow> bool" where
  "tree_exists bs m i n \<longleftrightarrow>
     (let A = unat bs div 4
      in n < 12 \<or> (if n < 12 + A then i_singly_linked m i else if n < 12 + A + A ^ 2 then i_doubly_linked m i
                   else i_triply_linked m i) \<noteq> 0)"

definition region :: "u32 \<Rightarrow> u32 \<Rightarrow> u32 set" where
  "region p n = {a. a - p < n}"

lemma region_mem: "j < n \<Longrightarrow> p + j \<in> region p n"
  by (simp add: region_def)

text \<open>
  What the driver relies on. \<open>ok k L s\<close>: the memory \<open>L\<close> is in use and \<open>k\<close> more blocks can be
  allocated. A read of a sector at a multiple of its size fills the buffer from the disk and returns zero; an allocation returns unused
  memory and leaves the used memory alone; so does a release.
\<close>

definition ext2_serves ::
  "'a xenv \<Rightarrow> u32 \<Rightarrow> mem \<Rightarrow> u32 \<Rightarrow> u32 \<Rightarrow> (nat \<Rightarrow> u32 set \<Rightarrow> 'a ext2_state_scheme \<Rightarrow> bool) \<Rightarrow> bool" where
  "ext2_serves E fs disk bs dbs ok \<longleftrightarrow>
     (\<forall>k L s buf pos. ok k L s \<longrightarrow> region buf dbs \<subseteq> L \<longrightarrow> unat dbs dvd unat pos \<longrightarrow>
        (\<exists>s'. vfs_read_at E (e_dev (ext2s s fs)) buf dbs pos s = Some (s', 0) \<and> ok k L s' \<and> ext2s s' = ext2s s \<and>
           kmem s' = (\<lambda>a. if a - buf < dbs then disk (pos + (a - buf)) else kmem s a))) \<and>
     (\<forall>k L s. ok (Suc k) L s \<longrightarrow>
        (\<exists>s' p. k_kmalloc E bs s = Some (s', p) \<and> p \<noteq> 0 \<and> region p bs \<inter> L = {} \<and> ok k (L \<union> region p bs) s' \<and>
           ext2s s' = ext2s s \<and> (\<forall>a \<in> L. kmem s' a = kmem s a))) \<and>
     (\<forall>k L s p. ok k L s \<longrightarrow> region p bs \<subseteq> L \<longrightarrow>
        (\<exists>s'. k_kfree E p s = Some s' \<and> ok k (L - region p bs) s' \<and> ext2s s' = ext2s s \<and>
           (\<forall>a \<in> L - region p bs. kmem s' a = kmem s a))) \<and>
     (\<forall>k L s. ok (Suc k) L s \<longrightarrow> ok k L s)"

lemma serves_read:
  assumes "ext2_serves E fs disk bs dbs ok" "ok k L s" "region buf dbs \<subseteq> L" "unat dbs dvd unat pos"
  shows "\<exists>s'. vfs_read_at E (e_dev (ext2s s fs)) buf dbs pos s = Some (s', 0) \<and> ok k L s' \<and> ext2s s' = ext2s s \<and>
           kmem s' = (\<lambda>a. if a - buf < dbs then disk (pos + (a - buf)) else kmem s a)"
  using assms(1) [unfolded ext2_serves_def, THEN conjunct1, rule_format, OF assms(2-4)] .

lemma serves_alloc:
  assumes "ext2_serves E fs disk bs dbs ok" "ok (Suc k) L s"
  shows "\<exists>s' p. k_kmalloc E bs s = Some (s', p) \<and> p \<noteq> 0 \<and> region p bs \<inter> L = {} \<and> ok k (L \<union> region p bs) s' \<and>
           ext2s s' = ext2s s \<and> (\<forall>a \<in> L. kmem s' a = kmem s a)"
  using assms(1) [unfolded ext2_serves_def, THEN conjunct2, THEN conjunct1, rule_format, OF assms(2)] .

lemma serves_free:
  assumes "ext2_serves E fs disk bs dbs ok" "ok k L s" "region p bs \<subseteq> L"
  shows "\<exists>s'. k_kfree E p s = Some s' \<and> ok k (L - region p bs) s' \<and> ext2s s' = ext2s s \<and>
           (\<forall>a \<in> L - region p bs. kmem s' a = kmem s a)"
  using assms(1) [unfolded ext2_serves_def, THEN conjunct2, THEN conjunct2, THEN conjunct1, rule_format, OF assms(2,3)] .

lemma serves_mono: "ext2_serves E fs disk bs dbs ok \<Longrightarrow> ok (Suc k) L s \<Longrightarrow> ok k L s"
  unfolding ext2_serves_def by blast

lemma serves_drop: "ext2_serves E fs disk bs dbs ok \<Longrightarrow> ok k L s \<Longrightarrow> ok 0 L s"
  by (induction k) (auto dest: serves_mono)

text \<open>The geometry the lemmas share: the size of a sector is a power of two, sectors divide a block, and a block holds at most 1024 addresses.\<close>

definition geometry :: "'a ext2_state_scheme \<Rightarrow> u32 \<Rightarrow> u32 \<Rightarrow> u32 \<Rightarrow> bool" where
  "geometry s fs bs dbs \<longleftrightarrow> e_block_size (ext2s s fs) = bs \<and> e_dev_block_size (ext2s s fs) = dbs \<and> dbs \<noteq> 0 \<and>
     unat dbs dvd 2 ^ 32 \<and> unat dbs dvd unat bs \<and> 4 dvd unat bs \<and> 0 < bs \<and> bs \<le> 4096"

lemma geometry_cong: "ext2s s' = ext2s s \<Longrightarrow> geometry s' fs bs dbs = geometry s fs bs dbs"
  by (simp add: geometry_def)

lemma mult_fits: "unat i * unat d \<le> unat (b :: u32) \<Longrightarrow> unat (i * d :: u32) = unat i * unat d"
  by (rule unat_mult_small) (use unat_lt32 [of b] in simp)

lemma dvd_unat_add: "\<lbrakk>d dvd 2 ^ 32; d dvd unat x; d dvd unat y\<rbrakk> \<Longrightarrow> d dvd unat (x + y :: u32)"
  by (simp add: unat_word_ariths dvd_mod)

lemma dvd_unat_mult: "\<lbrakk>d dvd 2 ^ 32; d dvd unat y\<rbrakk> \<Longrightarrow> d dvd unat (x * y :: u32)"
  by (simp add: unat_word_ariths dvd_mod)

lemma sector_in_block:
  fixes i d b data a :: u32
  assumes "Suc (unat i) * unat d \<le> unat b"
  shows "a - (data + i * d) < d \<longleftrightarrow> unat i * unat d \<le> unat (a - data) \<and> unat (a - data) < Suc (unat i) * unat d"
proof -
  have o: "unat (i * d) = unat i * unat d" using assms by (intro mult_fits [of _ _ b]) simp
  have "unat (i * d) + unat d \<le> 2 ^ 32" using assms unat_lt32 [of b] unfolding o by simp
  from sub_less_iff [OF this, of "a - data"] show ?thesis unfolding o by (simp add: algebra_simps)
qed

lemma read_block_loop_ok:
  assumes sv: "ext2_serves E fs disk bs dbs ok" and g: "geometry s fs bs dbs" and ok: "ok k L s" and r: "region data bs \<subseteq> L"
    and n: "n = bs div dbs" and off: "unat dbs dvd unat off" and i: "i \<le> n"
  shows "\<exists>s'. read_block_loop E X fs off data n i s = Some (s', 0) \<and> ok k L s' \<and> ext2s s' = ext2s s \<and>
     kmem s' = (\<lambda>a. if unat i * unat dbs \<le> unat (a - data) \<and> a - data < bs then disk (off + (a - data)) else kmem s a)"
  using g ok i
proof (induction "unat n - unat i" arbitrary: i s rule: less_induct)
  case less
  have un: "unat n * unat dbs = unat bs" using less.prems(1) n by (simp add: geometry_def unat_div_distrib)
  show ?case
  proof (cases "i < n")
    case True
    have ui: "unat (i + 1) = Suc (unat i)" "unat i < unat n" using True unat_Suc_lt by (auto simp: word_less_nat_alt)
    have le: "Suc (unat i) * unat dbs \<le> unat bs" unfolding un [symmetric] by (rule mult_le_mono1) (use ui(2) in simp)
    note sector = sector_in_block [OF le, of _ data]
    have sub: "region (data + i * dbs) dbs \<subseteq> L"
    proof
      fix x assume "x \<in> region (data + i * dbs) dbs"
      then have "unat (x - data) < unat bs" using sector [of x] le by (simp add: region_def)
      then show "x \<in> L" using r by (auto simp: region_def word_less_nat_alt)
    qed
    have pos: "unat dbs dvd unat (off + i * dbs)"
      using less.prems(1) off by (intro dvd_unat_add dvd_unat_mult) (simp_all add: geometry_def)
    obtain t where t: "vfs_read_at E (e_dev (ext2s s fs)) (data + i * dbs) dbs (off + i * dbs) s = Some (t, 0)" "ok k L t" "ext2s t = ext2s s"
      "kmem t = (\<lambda>a. if a - (data + i * dbs) < dbs then disk (off + i * dbs + (a - (data + i * dbs))) else kmem s a)"
      using serves_read [OF sv less.prems(2) sub pos] by blast
    have step: "read_block_loop E X fs off data n i s = read_block_loop E X fs off data n (i + 1) t"
      using True t(1) less.prems(1) by (subst read_block_loop.simps) (simp add: geometry_def Let_def)
    have gt: "geometry t fs bs dbs" using less.prems(1) geometry_cong [OF t(3)] by blast
    have il: "i + 1 \<le> n" using ui by (simp add: word_le_nat_alt)
    have dec: "unat n - unat (i + 1) < unat n - unat i" using ui by simp
    obtain s' where s': "read_block_loop E X fs off data n (i + 1) t = Some (s', 0)" "ok k L s'" "ext2s s' = ext2s t"
      "kmem s' = (\<lambda>a. if unat (i + 1) * unat dbs \<le> unat (a - data) \<and> a - data < bs then disk (off + (a - data)) else kmem t a)"
      using less.hyps [OF dec gt t(2) il] by blast
    have "kmem s' = (\<lambda>a. if unat i * unat dbs \<le> unat (a - data) \<and> a - data < bs then disk (off + (a - data)) else kmem s a)"
    proof
      fix a
      have "off + i * dbs + (a - (data + i * dbs)) = off + (a - data)" by simp
      moreover have "a - data < bs" if "unat (a - data) < Suc (unat i) * unat dbs" using that le by (simp add: word_less_nat_alt)
      ultimately show "kmem s' a = (if unat i * unat dbs \<le> unat (a - data) \<and> a - data < bs then disk (off + (a - data)) else kmem s a)"
        unfolding s'(4) t(4) sector ui(1) by (cases "Suc (unat i) * unat dbs \<le> unat (a - data)") (auto simp: not_le)
    qed
    then show ?thesis using step s'(1-3) t(3) by simp
  next
    case False
    then have "i = n" using less.prems(3) by simp
    then have none: "\<not> (unat i * unat dbs \<le> unat x \<and> x < bs)" for x using un by (simp add: word_less_nat_alt)
    have "kmem s = (\<lambda>a. if unat i * unat dbs \<le> unat (a - data) \<and> a - data < bs then disk (off + (a - data)) else kmem s a)"
      by (intro ext if_not_P [symmetric] none)
    moreover have "read_block_loop E X fs off data n i s = Some (s, 0)" using False by (subst read_block_loop.simps) simp
    ultimately show ?thesis using less.prems(2) by blast
  qed
qed

text \<open>A block is read whole, and nothing else is written.\<close>

lemma read_block_ok:
  assumes sv: "ext2_serves E fs disk bs dbs ok" and g: "geometry s fs bs dbs" and ok: "ok k L s" and r: "region data bs \<subseteq> L" and "data \<noteq> 0"
  shows "\<exists>s'. read_block E X fs b data s = Some (s', 0) \<and> ok k L s' \<and> ext2s s' = ext2s s \<and>
     kmem s' = (\<lambda>a. if a - data < bs then disk (b * bs + (a - data)) else kmem s a)"
proof -
  have "unat dbs dvd unat (b * bs)" using g by (intro dvd_unat_mult) (simp_all add: geometry_def)
  from read_block_loop_ok [OF sv g ok r refl this, of 0 X] show ?thesis
    using assms(5) g by (simp add: read_block_def geometry_def)
qed

text \<open>The address a block in memory holds at an index is the one the disk holds.\<close>

lemma load32_block:
  assumes h: "\<And>j. j < bs \<Longrightarrow> m (cur + j) = disk (b * bs + j)" and x: "unat x < unat bs div 4"
  shows "load32 m (cur + 4 * x) = disk_addr disk bs b (unat x)"
proof -
  have b: "4 * unat x + 3 < unat bs" using x by linarith
  have u4: "unat (4 * x) = 4 * unat x" using unat_mult_small [of 4 x] b unat_lt32 [of bs] by simp
  have w: "unat (4 * x + c) = 4 * unat x + unat c" if "unat c < 4" for c
    using unat_add_small [of "4 * x" c] that b unat_lt32 [of bs] u4 by simp
  have "m (cur + 4 * x + c) = disk (b * bs + 4 * x + c)" if "unat c < 4" for c
    using h [of "4 * x + c"] w [OF that] that b by (simp add: word_less_nat_alt add.assoc)
  from this [of 0] this [of 1] this [of 2] this [of 3] show ?thesis by (simp add: load32_def disk_addr_def)
qed

text \<open>The index a level of the tree uses.\<close>

abbreviation level_index :: "u32 \<Rightarrow> u32 \<Rightarrow> nat \<Rightarrow> u32" where
  "level_index apb idx depth \<equiv>
     if depth = 0 then idx mod apb else if depth = 1 then (idx div apb) mod apb
     else if depth = 2 then (idx div (apb * apb)) mod (apb * apb) else 0"

lemma level_index_eq:
  assumes a: "a = unat apb" "0 < a" "a \<le> 1024" and "depth \<le> 2" and n: "unat idx < a ^ 3"
  shows "unat (level_index apb idx depth) = unat idx div a ^ depth mod a"
proof -
  have "a * a \<le> 1024 * 1024" using a(3) by (intro mult_le_mono)
  then have sq: "unat (apb * apb) = a * a" using a(1) unat_mult_small [of apb apb] by simp
  have "unat idx div (a * a) < a" using n a(2) by (simp add: less_mult_imp_div_less power3_eq_cube)
  moreover from this have "unat idx div (a * a) < a * a" using a(2) by (simp add: less_le_trans)
  ultimately have "unat idx div (a * a) mod (a * a) = unat idx div (a * a) mod a" by simp
  moreover have "depth = 0 \<or> depth = 1 \<or> depth = 2" using assms(4) by linarith
  ultimately show ?thesis
    using a(1) sq by (elim disjE) (simp_all add: unat_div_distrib unat_mod_distrib power2_eq_square)
qed

lemma level_pointer:
  assumes g: "geometry s fs bs dbs" and h: "\<And>j. j < bs \<Longrightarrow> kmem s (cur + j) = disk (b * bs + j)"
    and d: "depth \<le> 2" and n: "unat idx < (unat bs div 4) ^ 3"
  shows "load32 (kmem s) (cur + 4 * level_index (bs div 4) idx depth)
       = disk_addr disk bs b (unat idx div (unat bs div 4) ^ depth mod (unat bs div 4))"
proof -
  have g': "4 dvd unat bs" "0 < unat bs" "unat bs \<le> 4096"
    using g by (auto simp: geometry_def word_le_nat_alt word_less_nat_alt)
  then have A: "0 < unat bs div 4" "unat bs div 4 \<le> 1024" by (auto simp: dvd_def)
  have u: "unat bs div 4 = unat (bs div 4)" by (simp add: unat_div_distrib)
  note ix = level_index_eq [OF u A d n]
  have lt: "unat (level_index (bs div 4) idx depth) < unat bs div 4" unfolding ix using A(1) by simp
  show ?thesis using load32_block [of bs "kmem s" cur disk b, OF h lt] unfolding ix .
qed

text \<open>A walk down the tree ends in the block the reference names; the intermediate blocks are released.\<close>

lemma read_indirect_ok:
  assumes sv: "ext2_serves E fs disk bs dbs ok" and p: "fs \<noteq> 0" "i \<noteq> 0" "data \<noteq> 0" and n: "unat idx < (unat bs div 4) ^ 3"
  shows "\<lbrakk>d \<le> 2; geometry s fs bs dbs; ok (d + k) L s; region data bs \<subseteq> L; region cur bs \<subseteq> L;
      \<And>j. j < bs \<Longrightarrow> kmem s (cur + j) = disk (b * bs + j); tree_walk disk bs d b (unat idx) \<noteq> 0\<rbrakk> \<Longrightarrow>
    \<exists>s'. read_indirect E X fs i idx data cur d s = Some (s', 0) \<and> ok k L s' \<and> ext2s s' = ext2s s \<and>
      (\<forall>a \<in> region data bs. kmem s' a = disk (tree_walk disk bs d b (unat idx) * bs + (a - data))) \<and>
      (\<forall>a \<in> L - region data bs. kmem s' a = kmem s a)"
proof (induction d arbitrary: cur b s L)
  case 0
  have bs: "e_block_size (ext2s s fs) = bs" using 0(2) by (simp add: geometry_def)
  have ptr: "load32 (kmem s) (cur + 4 * (idx mod (bs div 4))) = tree_walk disk bs 0 b (unat idx)"
    using level_pointer [OF 0(2,6) 0(1) n] by simp
  obtain t where t: "read_block E X fs (tree_walk disk bs 0 b (unat idx)) data s = Some (t, 0)" "ok k L t" "ext2s t = ext2s s"
    "kmem t = (\<lambda>a. if a - data < bs then disk (tree_walk disk bs 0 b (unat idx) * bs + (a - data)) else kmem s a)"
    using read_block_ok [OF sv 0(2) _ 0(4) p(3), of k X] 0(3) unfolding add_0 by blast
  have "read_indirect E X fs i idx data cur 0 s = Some (t, 0)"
    unfolding read_indirect.simps [of _ _ _ _ _ _ _ 0] using p 0(7) t(1) by (simp add: bs ptr del: tree_walk.simps)
  then show ?case using t(2-4) by (auto simp: region_def)
next
  case (Suc d)
  let ?w = "disk_addr disk bs b (unat idx div (unat bs div 4) ^ Suc d mod (unat bs div 4))"
  have bs: "e_block_size (ext2s s fs) = bs" using Suc.prems(2) by (simp add: geometry_def)
  obtain t nb where t: "k_kmalloc E bs s = Some (t, nb)" "nb \<noteq> 0" "region nb bs \<inter> L = {}" "ok (d + k) (L \<union> region nb bs) t"
    "ext2s t = ext2s s" "\<And>a. a \<in> L \<Longrightarrow> kmem t a = kmem s a"
    using serves_alloc [OF sv, of "d + k" L s] Suc.prems(3) unfolding add_Suc by blast
  have gt: "geometry t fs bs dbs" using Suc.prems(2) geometry_cong [OF t(5)] by blast
  have "kmem t (cur + j) = disk (b * bs + j)" if "j < bs" for j
    using t(6) [OF subsetD [OF Suc.prems(5) region_mem [OF that]]] Suc.prems(6) [OF that] by simp
  note ptr = level_pointer [where disk = disk and b = b, OF gt this Suc.prems(1) n]
  have "region nb bs \<subseteq> L \<union> region nb bs" by blast
  then obtain u where u: "read_block E X fs ?w nb t = Some (u, 0)" "ok (d + k) (L \<union> region nb bs) u" "ext2s u = ext2s t"
    "kmem u = (\<lambda>a. if a - nb < bs then disk (?w * bs + (a - nb)) else kmem t a)"
    using read_block_ok [OF sv gt t(4) _ t(2), of X ?w] by blast
  have gu: "geometry u fs bs dbs" using gt geometry_cong [OF u(3)] by blast
  have walk: "tree_walk disk bs (Suc d) b (unat idx) = tree_walk disk bs d ?w (unat idx)" by (simp add: Let_def)
  have sub: "region data bs \<subseteq> L \<union> region nb bs" "region nb bs \<subseteq> L \<union> region nb bs" using Suc.prems(4) by auto
  have hold: "kmem u (nb + j) = disk (?w * bs + j)" if "j < bs" for j using that u(4) by simp
  have d: "d \<le> 2" and leaf: "tree_walk disk bs d ?w (unat idx) \<noteq> 0" using Suc.prems(1,7) unfolding walk by simp_all
  obtain v where v: "read_indirect E X fs i idx data nb d u = Some (v, 0)" "ok k (L \<union> region nb bs) v" "ext2s v = ext2s u"
    "\<And>a. a \<in> region data bs \<Longrightarrow> kmem v a = disk (tree_walk disk bs d ?w (unat idx) * bs + (a - data))"
    "\<And>a. a \<in> (L \<union> region nb bs) - region data bs \<Longrightarrow> kmem v a = kmem u a"
    using Suc.IH [OF d gu u(2) sub hold leaf] by blast
  obtain x where x: "k_kfree E nb v = Some x" "ok k L x" "ext2s x = ext2s v" "\<And>a. a \<in> L \<Longrightarrow> kmem x a = kmem v a"
    using serves_free [OF sv v(2), of nb] t(3) by (auto simp: Un_Diff Diff_triv Int_commute)
  have "read_indirect E X fs i idx data cur (Suc d) s = Some (x, 0)"
    unfolding read_indirect.simps [of _ _ _ _ _ _ _ "Suc d"]
    using p t(1,5) bs ptr u(1) v(1) x(1) by (simp add: Let_def)
  moreover have "kmem x a = kmem s a" if "a \<in> L - region data bs" for a
    using that x(4) v(5) u(4) t(3,6) by (auto simp: region_def)
  moreover have "kmem x a = disk (tree_walk disk bs d ?w (unat idx) * bs + (a - data))" if "a \<in> region data bs" for a
    using that x(4) v(4) Suc.prems(4) by auto
  ultimately show ?case using x(2,3) v(3) u(3) t(5) unfolding walk by auto
qed

text \<open>One of the three indirect cases: the block of the tree's root is read and released.\<close>

lemma read_linked_ok:
  assumes sv: "ext2_serves E fs disk bs dbs ok" and p: "fs \<noteq> 0" "i \<noteq> 0" "data \<noteq> 0" and n: "unat idx < (unat bs div 4) ^ 3"
    and d: "d \<le> 2" and g: "geometry s fs bs dbs" and ok: "ok (d + k) (L \<union> region blk bs) s" and r: "region data bs \<subseteq> L"
    and blk: "blk \<noteq> 0" "region blk bs \<inter> L = {}" and leaf: "tree_walk disk bs d root (unat idx) \<noteq> 0"
  shows "\<exists>s'. read_linked E X fs i idx data blk root d s = Some (s', 0) \<and> ok k L s' \<and> ext2s s' = ext2s s \<and>
      (\<forall>a \<in> region data bs. kmem s' a = disk (tree_walk disk bs d root (unat idx) * bs + (a - data))) \<and>
      (\<forall>a \<in> L - region data bs. kmem s' a = kmem s a)"
proof -
  have sub: "region blk bs \<subseteq> L \<union> region blk bs" "region data bs \<subseteq> L \<union> region blk bs" using r by auto
  obtain u where u: "read_block E X fs root blk s = Some (u, 0)" "ok (d + k) (L \<union> region blk bs) u" "ext2s u = ext2s s"
    "kmem u = (\<lambda>a. if a - blk < bs then disk (root * bs + (a - blk)) else kmem s a)"
    using read_block_ok [OF sv g ok sub(1) blk(1), of X root] by blast
  have gu: "geometry u fs bs dbs" using g geometry_cong [OF u(3)] by blast
  obtain v where v: "read_indirect E X fs i idx data blk d u = Some (v, 0)" "ok k (L \<union> region blk bs) v" "ext2s v = ext2s u"
    "\<And>a. a \<in> region data bs \<Longrightarrow> kmem v a = disk (tree_walk disk bs d root (unat idx) * bs + (a - data))"
    "\<And>a. a \<in> (L \<union> region blk bs) - region data bs \<Longrightarrow> kmem v a = kmem u a"
    using read_indirect_ok [OF sv p n d gu u(2) sub(2,1) _ leaf, of X] u(4) by auto
  obtain x where x: "k_kfree E blk v = Some x" "ok k L x" "ext2s x = ext2s v" "\<And>a. a \<in> L \<Longrightarrow> kmem x a = kmem v a"
    using serves_free [OF sv v(2), of blk] blk(2) by (auto simp: Un_Diff Diff_triv Int_commute)
  have "read_linked E X fs i idx data blk root d s = Some (x, 0)" using u(1) v(1) x(1) by (simp add: read_linked_def)
  moreover have "kmem x a = kmem s a" if "a \<in> L - region data bs" for a
    using that x(4) v(5) u(4) blk(2) by (auto simp: region_def)
  moreover have "kmem x a = disk (tree_walk disk bs d root (unat idx) * bs + (a - data))" if "a \<in> region data bs" for a
    using that x(4) v(4) r by auto
  ultimately show ?thesis using x(2,3) v(3) u(3) by auto
qed

text \<open>The inode is part of the memory in use, so its addresses outlive an allocation.\<close>

lemma load32_live:
  assumes "region i 128 \<subseteq> L" "\<And>a. a \<in> L \<Longrightarrow> m' a = m a" "unat off + 3 < 128"
  shows "load32 m' (i + off) = load32 m (i + off)"
proof -
  have "i + off + c \<in> L" if "unat c < 4" for c :: u32
  proof -
    have "unat (off + c) = unat off + unat c" using that assms(3) by (intro unat_add_small) simp
    then have "off + c < 128" using that assms(3) by (simp add: word_less_nat_alt)
    then show ?thesis using assms(1) by (auto simp: region_def add.assoc)
  qed
  from this [of 0] this [of 1] this [of 2] this [of 3] show ?thesis using assms(2) by (simp add: load32_def)
qed

lemma inode_live:
  assumes "region i 128 \<subseteq> L" "\<And>a. a \<in> L \<Longrightarrow> m' a = m a"
  shows "i_singly_linked m' i = i_singly_linked m i" "i_doubly_linked m' i = i_doubly_linked m i"
    "i_triply_linked m' i = i_triply_linked m i"
  using load32_live [OF assms] by (simp_all add: i_singly_linked_def i_doubly_linked_def i_triply_linked_def)

text \<open>The ranges of the block numbers, as the driver tests them on machine words.\<close>

lemma unat_square: "unat (w :: u32) \<le> 1024 \<Longrightarrow> unat (w * w) = unat w ^ 2"
  using mult_le_mono [of "unat w" 1024 "unat w" 1024] by (subst unat_mult_small) (simp_all add: power2_eq_square)

lemma unat_cube: "unat (w :: u32) \<le> 1024 \<Longrightarrow> unat (w * w * w) = unat w ^ 3"
  using mult_le_mono [of "unat w ^ 2" "1024 ^ 2" "unat w" 1024] power_mono [of "unat w" 1024 2]
  by (subst unat_mult_small) (simp_all add: unat_square power3_eq_cube power2_eq_square)

lemma single_range:
  assumes "12 \<le> unat (idx :: u32)"
  shows "unat (idx - 12) = unat idx - 12" "idx - 12 < apb \<longleftrightarrow> unat idx < 12 + unat apb"
proof -
  show u: "unat (idx - 12) = unat idx - 12" using assms by (subst unat_sub) (simp_all add: word_le_nat_alt)
  show "idx - 12 < apb \<longleftrightarrow> unat idx < 12 + unat apb" unfolding word_less_nat_alt u using assms by linarith
qed

lemma double_range:
  assumes "12 + unat apb \<le> unat (idx :: u32)" "unat apb \<le> 1024"
  shows "unat (idx - 12 - apb) = unat idx - 12 - unat apb"
    "idx - 12 - apb < apb * apb \<longleftrightarrow> unat idx < 12 + unat apb + unat apb ^ 2"
proof -
  have s: "unat (idx - 12) = unat idx - 12" using single_range(1) assms(1) by simp
  show u: "unat (idx - 12 - apb) = unat idx - 12 - unat apb"
    using assms(1) s by (subst unat_sub) (simp_all add: word_le_nat_alt)
  show "idx - 12 - apb < apb * apb \<longleftrightarrow> unat idx < 12 + unat apb + unat apb ^ 2"
    unfolding word_less_nat_alt u unat_square [OF assms(2)] using assms(1) by linarith
qed

lemma triple_range:
  assumes "12 + unat apb + unat apb ^ 2 \<le> unat (idx :: u32)" "unat apb \<le> 1024"
  shows "unat (idx - 12 - apb - apb * apb) = unat idx - 12 - unat apb - unat apb ^ 2"
    "idx - 12 - apb - apb * apb < apb * apb * apb \<longleftrightarrow> unat idx < 12 + unat apb + unat apb ^ 2 + unat apb ^ 3"
proof -
  have s: "unat (idx - 12 - apb) = unat idx - 12 - unat apb" using double_range(1) assms by simp
  show u: "unat (idx - 12 - apb - apb * apb) = unat idx - 12 - unat apb - unat apb ^ 2"
    using assms s unat_square [OF assms(2)] by (subst unat_sub) (simp_all add: word_le_nat_alt)
  show "idx - 12 - apb - apb * apb < apb * apb * apb \<longleftrightarrow> unat idx < 12 + unat apb + unat apb ^ 2 + unat apb ^ 3"
    unfolding word_less_nat_alt u unat_cube [OF assms(2)] using assms(1) by linarith
qed

text \<open>The cases of \<open>read_i_block\<close> behind the direct blocks, with the block it allocates first.\<close>

lemma read_i_block_linked:
  assumes p: "fs \<noteq> 0" "i \<noteq> 0" "data \<noteq> 0" and bs: "e_block_size (ext2s s fs) = bs" and n: "12 \<le> unat idx"
    "unat idx < 12 + A + A ^ 2 + A ^ 3" and A: "A = unat (bs div 4)" "A \<le> 1024"
    and t: "k_kmalloc E bs s = Some (t, blk)" and te: "tree_exists bs (kmem t) i (unat idx)"
  shows "read_i_block E X fs i idx data s =
     (if unat idx < 12 + A then read_linked E X fs i (idx - 12) data blk (i_singly_linked (kmem t) i) 0 t
      else if unat idx < 12 + A + A ^ 2 then read_linked E X fs i (idx - 12 - bs div 4) data blk (i_doubly_linked (kmem t) i) 1 t
      else read_linked E X fs i (idx - 12 - bs div 4 - bs div 4 * (bs div 4)) data blk (i_triply_linked (kmem t) i) 2 t)"
proof -
  have "\<not> idx < 12" using n(1) by (simp add: word_less_nat_alt)
  moreover note single_range(2) [OF n(1), of "bs div 4", folded A(1)]
  moreover have "idx - 12 - bs div 4 < bs div 4 * (bs div 4) \<longleftrightarrow> unat idx < 12 + A + A ^ 2" if "\<not> unat idx < 12 + A"
    using double_range(2) [of "bs div 4" idx] that A by simp
  moreover have "idx - 12 - bs div 4 - bs div 4 * (bs div 4) < bs div 4 * (bs div 4) * (bs div 4)" if "\<not> unat idx < 12 + A + A ^ 2"
    using triple_range(2) [of "bs div 4" idx] that n(2) A by simp
  moreover have "unat bs div 4 = A" unfolding A(1) by (simp add: unat_div_distrib)
  ultimately show ?thesis using p bs t te n(1) unfolding read_i_block_def tree_exists_def
    by (cases "unat idx < 12 + A"; cases "unat idx < 12 + A + A ^ 2"; simp add: Let_def)
qed

text \<open>The three of them give the same result, with the block released.\<close>

lemma read_linked_done:
  assumes sv: "ext2_serves E fs disk bs dbs ok" and g: "geometry s fs bs dbs" and p: "fs \<noteq> 0" "i \<noteq> 0" "data \<noteq> 0"
    and r: "region data bs \<subseteq> L" and t: "blk \<noteq> 0" "region blk bs \<inter> L = {}" "ok 2 (L \<union> region blk bs) t" "ext2s t = ext2s s"
    "\<And>a. a \<in> L \<Longrightarrow> kmem t a = kmem s a"
    and n: "unat idx < (unat bs div 4) ^ 3" and d: "d \<le> 2" and leaf: "tree_walk disk bs d root (unat idx) \<noteq> 0"
  shows "\<exists>s'. read_linked E X fs i idx data blk root d t = Some (s', 0) \<and> ok 0 L s' \<and> ext2s s' = ext2s s \<and>
      (\<forall>a \<in> region data bs. kmem s' a = disk (tree_walk disk bs d root (unat idx) * bs + (a - data))) \<and>
      (\<forall>a \<in> L - region data bs. kmem s' a = kmem s a)"
proof -
  have gt: "geometry t fs bs dbs" using g geometry_cong [OF t(4)] by blast
  have k: "ok (d + (2 - d)) (L \<union> region blk bs) t" using t(3) d by simp
  obtain x where x: "read_linked E X fs i idx data blk root d t = Some (x, 0)" "ok (2 - d) L x" "ext2s x = ext2s t"
    "\<And>a. a \<in> region data bs \<Longrightarrow> kmem x a = disk (tree_walk disk bs d root (unat idx) * bs + (a - data))"
    "\<And>a. a \<in> L - region data bs \<Longrightarrow> kmem x a = kmem t a"
    using read_linked_ok [OF sv p n d gt k r t(1,2) leaf, of X] by blast
  then show ?thesis using serves_drop [OF sv x(2)] t(4,5) by auto
qed

text \<open>
  C3. Given a block device that serves reads of its sectors and an allocator that hands out unused memory, reading block
  \<open>idx\<close> of a file fills the caller's buffer with exactly the disk block the inode's block tree (12 direct
  addresses, then a singly, a doubly and a triply indirect tree) assigns to that number, for every number the tree can
  address. Every other byte in use keeps its value and the blocks allocated on the way are released.
\<close>

theorem read_i_block_reads:
  assumes "ext2_serves E fs disk bs dbs ok" "geometry s fs bs dbs" "ok 3 L s" "fs \<noteq> 0" "i \<noteq> 0" "data \<noteq> 0"
    and "region data bs \<subseteq> L" "region i 128 \<subseteq> L"
    and "unat idx < 12 + unat bs div 4 + (unat bs div 4) ^ 2 + (unat bs div 4) ^ 3"
    and "tree_exists bs (kmem s) i (unat idx)" "file_block disk bs (kmem s) i (unat idx) \<noteq> 0"
  shows "\<exists>s'. read_i_block E X fs i idx data s = Some (s', 0) \<and> ok 0 L s' \<and> ext2s s' = ext2s s \<and>
      (\<forall>a \<in> region data bs. kmem s' a = disk (file_block disk bs (kmem s) i (unat idx) * bs + (a - data))) \<and>
      (\<forall>a \<in> L - region data bs. kmem s' a = kmem s a)"
proof (cases "unat idx < 12")
  case True
  then have dir: "idx < 12" "i_dir_blocks (kmem s) i idx = file_block disk bs (kmem s) i (unat idx)"
    by (simp_all add: word_less_nat_alt file_block_def)
  then have "read_i_block E X fs i idx data s = read_block E X fs (file_block disk bs (kmem s) i (unat idx)) data s"
    using assms(4-6,11) by (simp add: read_i_block_def)
  then show ?thesis using read_block_ok [OF assms(1-3,7,6), of X "file_block disk bs (kmem s) i (unat idx)"]
      serves_drop [OF assms(1), of 3 L] by (auto simp: region_def)
next
  case False
  define A where "A = unat (bs div 4)"
  have A: "unat bs div 4 = A" "A \<le> 1024" using assms(2) by (auto simp: A_def unat_div_distrib geometry_def word_le_nat_alt)
  have bs: "e_block_size (ext2s s fs) = bs" using assms(2) by (simp add: geometry_def)
  obtain t blk where t: "k_kmalloc E bs s = Some (t, blk)" "blk \<noteq> 0" "region blk bs \<inter> L = {}" "ok 2 (L \<union> region blk bs) t"
    "ext2s t = ext2s s" "\<And>a. a \<in> L \<Longrightarrow> kmem t a = kmem s a"
    using serves_alloc [OF assms(1), of 2 L s] assms(3) by (auto simp: numeral_3_eq_3 numeral_2_eq_2)
  have live: "i_singly_linked (kmem t) i = i_singly_linked (kmem s) i" "i_doubly_linked (kmem t) i = i_doubly_linked (kmem s) i"
    "i_triply_linked (kmem t) i = i_triply_linked (kmem s) i" by (rule inode_live [OF assms(8) t(6)]; assumption)+
  have te: "tree_exists bs (kmem t) i (unat idx)" using assms(10) unfolding tree_exists_def live .
  note fb = file_block_def [of disk bs "kmem s" i "unat idx", unfolded A(1) Let_def]
  note split = read_i_block_linked [OF assms(4-6) bs _ _ A_def A(2) t(1) te, of X]
  note fin = read_linked_done [where X = X, OF assms(1,2,4-7) t(2-6), unfolded A(1)]
  have lo: "12 \<le> unat idx" and hi: "unat idx < 12 + A + A ^ 2 + A ^ 3" using False assms(9) A(1) by simp_all
  have le: "A \<le> A ^ 3" "A ^ 2 \<le> A ^ 3" by (cases "A = 0"; simp add: self_le_power power_increasing)+
  consider "unat idx < 12 + A" | "12 + A \<le> unat idx" "unat idx < 12 + A + A ^ 2" | "12 + A + A ^ 2 \<le> unat idx" by linarith
  then show ?thesis
  proof cases
    case 1
    note u = single_range(1) [OF lo]
    have "unat (idx - 12) < A ^ 3" using u 1 lo le(1) by linarith
    from fin [OF _ this, of 0 "i_singly_linked (kmem s) i"] show ?thesis
      using assms(11) 1 False unfolding split [OF lo hi] fb u live by simp
  next
    case 2
    note u = double_range(1) [of "bs div 4" idx, folded A_def, OF 2(1) A(2)]
    have "unat (idx - 12 - bs div 4) < A ^ 3" using u 2 le(2) by linarith
    from fin [OF _ this, of 1 "i_doubly_linked (kmem s) i"] show ?thesis
      using assms(11) 2 False unfolding split [OF lo hi] fb u live by simp
  next
    case 3
    note u = triple_range(1) [of "bs div 4" idx, folded A_def, OF 3 A(2)]
    have "unat (idx - 12 - bs div 4 - bs div 4 * (bs div 4)) < A ^ 3" using u 3 hi by linarith
    from fin [OF _ this, of 2 "i_triply_linked (kmem s) i"] show ?thesis
      using assms(11) 3 False unfolding split [OF lo hi] fb u live by simp
  qed
qed

text \<open>
  A disk of which block 5 points to block 6 and that to block 7, an inode whose doubly indirect tree is at block 5, and an
  allocator that hands out pages in turn.
\<close>

definition small_disk :: mem where
  "small_disk a = (if a = 5120 then 6 else if a = 6144 then 7 else if 7168 \<le> a then 0xAB else 0)"

definition disk_ops :: "ext2_state vfs_file_ops" where
  "disk_ops = \<lparr>p_read = None,
     p_read_at = Some (\<lambda>_ buf bytes pos s.
       Some (s\<lparr>kmem := \<lambda>a. if a - buf < bytes then small_disk (pos + (a - buf)) else kmem s a\<rparr>, 0)),
     p_write = None, p_write_at = None, p_seek = None, p_stat = None\<rparr>"

definition page_in_turn :: "u32 \<Rightarrow> ext2_state \<Rightarrow> (ext2_state \<times> u32) option" where
  "page_in_turn n s = Some (s\<lparr>ext2_errno := ext2_errno s + 1\<rparr>, 0x10000 + 0x1000 * of_int (ext2_errno s))"

definition small_env :: "ext2_state fs_env" where
  "small_env = \<lparr>k_kmalloc = page_in_turn, k_kzalloc = page_in_turn, k_kfree = \<lambda>_. Some,
     k_ops = \<lambda>_. \<lparr>o_mount = \<lambda>_ s. Some (s, 0), o_unmount = \<lambda>_ s. Some (s, 0), o_lookup = None, o_readdir = None,
       o_open = None, o_close = None, o_create = None, o_mkdir = None, o_get_root = \<lambda>_ _. 0\<rparr>,
     k_file_ops = \<lambda>_. disk_ops\<rparr>"

definition small_log :: "ext2_state e2_env" where
  "small_log = \<lparr>x_log = \<lambda>_ _. Some, x_kput = \<lambda>_. Some, x_strerror = \<lambda>_. 0, x_str = \<lambda>_. 0\<rparr>"

definition small_ok :: "nat \<Rightarrow> u32 set \<Rightarrow> ext2_state \<Rightarrow> bool" where
  "small_ok k L s \<longleftrightarrow> 0 \<le> ext2_errno s \<and> ext2_errno s + int k \<le> 3 \<and> L \<subseteq> {a. unat a < 0x10000 + 0x1000 * nat (ext2_errno s)}"

definition small_state :: "ext2_state \<Rightarrow> ext2_state" where
  "small_state s = s\<lparr>kmem := \<lambda>a. if a = 0x15C then 5 else 0, ext2_errno := 0,
     ext2s := \<lambda>_. \<lparr>e_dev = 0x600, e_dev_block_size = 512, e_sb = 0, e_bdesc = 0, e_root = 0, e_block_size = 1024\<rparr>\<rparr>"

lemma page_region:
  assumes "0 \<le> e" "e \<le> 2" "a \<in> region (0x10000 + 0x1000 * of_int e) 1024"
  shows "0x10000 + 0x1000 * nat e \<le> unat a \<and> unat a < 0x10000 + 0x1000 * nat (e + 1)"
proof -
  have "e = 0 \<or> e = 1 \<or> e = 2" using assms(1,2) by linarith
  then show ?thesis using assms(3) sub_less_iff [of "0x10000 + 0x1000 * of_int e" "1024 :: u32" a]
    by (elim disjE) (auto simp: region_def)
qed

lemma small_serves: "ext2_serves small_env fs small_disk 1024 512 small_ok"
proof -
  have alloc: "region (0x10000 + 0x1000 * of_int (ext2_errno s)) 1024 \<inter> L = {} \<and>
      small_ok k (L \<union> region (0x10000 + 0x1000 * of_int (ext2_errno s)) 1024) (s\<lparr>ext2_errno := ext2_errno s + 1\<rparr>)"
    if "small_ok (Suc k) L s" for k L s
  proof -
    have e: "0 \<le> ext2_errno s" "ext2_errno s \<le> 2" "ext2_errno s + 1 + int k \<le> 3" using that by (auto simp: small_ok_def)
    note r = page_region [OF e(1,2)]
    have L: "unat a < 0x10000 + 0x1000 * nat (ext2_errno s)" if "a \<in> L" for a using that \<open>small_ok (Suc k) L s\<close> by (auto simp: small_ok_def)
    have "a \<notin> L" if "a \<in> region (0x10000 + 0x1000 * of_int (ext2_errno s)) 1024" for a using r [OF that] L [of a] by linarith
    moreover have "unat a < 0x10000 + 0x1000 * nat (ext2_errno s + 1)" if "a \<in> L" for a using L [OF that] e(1) by linarith
    ultimately show ?thesis using r e by (auto simp: small_ok_def)
  qed
  have nz: "0x10000 + 0x1000 * of_int e \<noteq> (0 :: u32)" if "0 \<le> e" "e \<le> 2" for e
  proof -
    have "e = 0 \<or> e = 1 \<or> e = 2" using that by linarith
    then show ?thesis by auto
  qed
  show ?thesis unfolding ext2_serves_def
  proof (intro conjI allI impI)
    fix k L s assume a: "small_ok (Suc k) L s"
    then have "0x10000 + 0x1000 * of_int (ext2_errno s) \<noteq> (0 :: u32)" by (intro nz) (auto simp: small_ok_def)
    then show "\<exists>s' p. k_kmalloc small_env 1024 s = Some (s', p) \<and> p \<noteq> 0 \<and> region p 1024 \<inter> L = {} \<and>
        small_ok k (L \<union> region p 1024) s' \<and> ext2s s' = ext2s s \<and> (\<forall>a \<in> L. kmem s' a = kmem s a)"
      using alloc [OF a] by (simp add: small_env_def page_in_turn_def)
  qed (auto simp: small_env_def small_ok_def vfs_read_at_def file_ops_of_def disk_ops_def)
qed

theorem read_i_block_reads_witness:
  "\<forall>s. \<exists>s'. read_i_block small_env small_log 0x500 0x100 268 0x1000 (small_state s) = Some (s', 0) \<and> kmem s' 0x1010 = 0xAB"
proof
  fix s
  have disk: "disk_addr small_disk 1024 5 0 = 6" "disk_addr small_disk 1024 6 0 = 7"
    by (simp_all add: disk_addr_def load32_def small_disk_def)
  have root: "i_doubly_linked (kmem (small_state s)) 0x100 = 5" by (simp add: i_doubly_linked_def load32_def small_state_def)
  have fb: "file_block small_disk 1024 (kmem (small_state s)) 0x100 (unat (268 :: u32)) = 7"
    by (simp add: file_block_def root Let_def disk)
  have te: "tree_exists 1024 (kmem (small_state s)) 0x100 (unat (268 :: u32))" by (simp add: tree_exists_def root)
  have g: "geometry (small_state s) 0x500 1024 512" by (simp add: geometry_def small_state_def)
  have ok: "small_ok 3 {a. a < 0x10000} (small_state s)" by (auto simp: small_ok_def small_state_def word_less_nat_alt)
  have "unat x < 0x10000" if "x \<in> region 0x1000 1024 \<union> region 0x100 128" for x
    using that sub_less_iff [of "0x1000" "1024 :: u32" x] sub_less_iff [of "0x100" "128 :: u32" x] by (auto simp: region_def)
  then have sub: "region 0x1000 1024 \<subseteq> {a. a < 0x10000}" "region 0x100 128 \<subseteq> {a. a < 0x10000}"
    by (auto simp: word_less_nat_alt)
  have "\<exists>s'. read_i_block small_env small_log 0x500 0x100 268 0x1000 (small_state s) = Some (s', 0) \<and>
      (\<forall>a \<in> region 0x1000 1024. kmem s' a = small_disk (7 * 1024 + (a - 0x1000)))"
    using read_i_block_reads [OF small_serves g ok _ _ _ sub _ te, where X = small_log] unfolding fb by auto
  then show "\<exists>s'. read_i_block small_env small_log 0x500 0x100 268 0x1000 (small_state s) = Some (s', 0) \<and> kmem s' 0x1010 = 0xAB"
    by (auto simp: region_def small_disk_def)
qed

end
