(* ===== verification/Floppy.thy ===== *)
theory Floppy
  imports Idt Timer
begin

text \<open>
  \<open>kernel/drivers/floppy.c\<close>: the driver of the floppy controller. Drives are known by their index in
  \<open>drives\<close>. The controller is the device behind the ports (theory Portio); its interrupt only counts up
  \<open>floppy_interrupts\<close>, which happens while the driver sleeps. What the driver calls from other parts of
  the kernel (\<open>sleep\<close>, the log, the purgeable memory's environment, creating the motor task, registering
  the block device) is the record \<open>fd_env\<close>. The debug menu at the end of the file and the unused
  functions \<open>read_msr\<close>, \<open>read_dor\<close>, \<open>dump_msr_bits\<close>, \<open>cmd_sense_status\<close> and \<open>dump_st3\<close> are left out.
\<close>

section \<open>Data\<close>

record floppy_format =
  cyls :: u8
  heads :: u8
  sectors_per_track :: u8
  sector_size :: u8
  gap_len :: u8
  datarate :: u8
  ff_name :: string

definition floppy_formats :: "floppy_format list" where
  "floppy_formats =
     [\<lparr>cyls = 0, heads = 0, sectors_per_track = 0, sector_size = 0, gap_len = 0, datarate = 0, ff_name = []\<rparr>,
      \<lparr>cyls = 40, heads = 2, sectors_per_track = 9, sector_size = 2, gap_len = 0x2A, datarate = 2, ff_name = ''PC360K 5.25'' @ [CHR 0x22]\<rparr>,
      \<lparr>cyls = 40, heads = 2, sectors_per_track = 9, sector_size = 2, gap_len = 0x23, datarate = 1, ff_name = ''AT360K 5.25'' @ [CHR 0x22]\<rparr>,
      \<lparr>cyls = 80, heads = 2, sectors_per_track = 9, sector_size = 2, gap_len = 0x23, datarate = 1, ff_name = ''AT720K 5.25'' @ [CHR 0x22]\<rparr>,
      \<lparr>cyls = 80, heads = 2, sectors_per_track = 15, sector_size = 2, gap_len = 0x1B, datarate = 0, ff_name = ''1.2M 5.25'' @ [CHR 0x22]\<rparr>,
      \<lparr>cyls = 80, heads = 1, sectors_per_track = 9, sector_size = 2, gap_len = 0x2A, datarate = 2, ff_name = ''ss 360K 3.5'' @ [CHR 0x22]\<rparr>,
      \<lparr>cyls = 80, heads = 2, sectors_per_track = 9, sector_size = 2, gap_len = 0x2A, datarate = 2, ff_name = ''720K 3.5'' @ [CHR 0x22]\<rparr>,
      \<lparr>cyls = 80, heads = 2, sectors_per_track = 18, sector_size = 2, gap_len = 0x1B, datarate = 0, ff_name = ''1.44M 3.5'' @ [CHR 0x22]\<rparr>,
      \<lparr>cyls = 80, heads = 2, sectors_per_track = 36, sector_size = 2, gap_len = 0x1B, datarate = 0x43, ff_name = ''2.88M 3.5'' @ [CHR 0x22]\<rparr>]"

record drive_params =
  spinup_ms :: u16
  motor_timeout_ms :: int
  step_rate_time :: u8
  head_unload_time :: u8
  head_load_time :: u8
  detect_order :: "u8 list"

abbreviation srt_ms :: "u8 \<Rightarrow> u8" where "srt_ms ms \<equiv> 0x10 - ms"
abbreviation hut_ms :: "u8 \<Rightarrow> u8" where "hut_ms ms \<equiv> drop_bit 4 ms"
abbreviation hlt_ms :: "u8 \<Rightarrow> u8" where "hlt_ms ms \<equiv> drop_bit 2 ms"

text \<open>Indexed by \<open>enum cmos_fd_type\<close>; \<open>detect_order\<close> has nine entries, the ones not given being zero.\<close>

definition drive_types :: "drive_params list" where
  "drive_types =
     [\<lparr>spinup_ms = 0, motor_timeout_ms = 0, step_rate_time = 0, head_unload_time = 0, head_load_time = 0,
        detect_order = [0, 0, 0, 0, 0, 0, 0, 0, 0]\<rparr>,
      \<lparr>spinup_ms = 250, motor_timeout_ms = 1000, step_rate_time = srt_ms 8, head_unload_time = hut_ms 16, head_load_time = hlt_ms 16,
        detect_order = [2, 1, 0, 0, 0, 0, 0, 0, 0]\<rparr>,
      \<lparr>spinup_ms = 250, motor_timeout_ms = 1000, step_rate_time = srt_ms 6, head_unload_time = hut_ms 16, head_load_time = hlt_ms 16,
        detect_order = [4, 3, 2, 1, 0, 0, 0, 0, 0]\<rparr>,
      \<lparr>spinup_ms = 100, motor_timeout_ms = 1000, step_rate_time = srt_ms 3, head_unload_time = hut_ms 16, head_load_time = hlt_ms 16,
        detect_order = [6, 5, 0, 0, 0, 0, 0, 0, 0]\<rparr>,
      \<lparr>spinup_ms = 100, motor_timeout_ms = 1000, step_rate_time = srt_ms 4, head_unload_time = hut_ms 16, head_load_time = hlt_ms 16,
        detect_order = [7, 6, 5, 0, 0, 0, 0, 0, 0]\<rparr>,
      \<lparr>spinup_ms = 100, motor_timeout_ms = 1000, step_rate_time = srt_ms 3, head_unload_time = hut_ms 8, head_load_time = hlt_ms 16,
        detect_order = [8, 7, 6, 5, 0, 0, 0, 0, 0]\<rparr>]"

datatype motor_state = fd_mot_off | fd_mot_on | fd_mot_timeout

text \<open>\<open>fmt\<close> is the pointer \<open>f\<close> into \<open>floppy_formats\<close>, \<open>None\<close> for \<open>NULL\<close>; \<open>fd_cache\<close> the address of the cylinder cache.\<close>

record floppy_drive =
  fd_type :: u8
  io_base :: u16
  motor_ms :: int
  motor :: motor_state
  fmt :: "nat option"
  fd_cache :: u32
  detect_idx :: nat
  num :: u8
  cyl :: u8
  st0 :: u8
  timer :: int

record cylinder =
  cy_data :: u32
  cy_num :: int
  cy_flags :: u16

record cyl_cache =
  lru_cyls :: "u32 list"
  cyl_size :: u16

record fdc_state = irq_state +
  s_verbose :: bool
  floppy_interrupts :: int
  drives :: "nat \<Rightarrow> floppy_drive"
  s_last_drive :: "nat option"
  dma_buf_cyl :: int
  dma_buf_drv :: int
  cylinders :: "u32 \<Rightarrow> cylinder"
  cyl_caches :: "u32 \<Rightarrow> cyl_cache"
  s_debug_probe_run :: bool

type_synonym 'a fdc = "'a fdc_state_scheme"

text \<open>
  \<open>fd_spawn d name\<close> is \<open>task_create(floppy_timeout, d, name, 0)\<close>, \<open>fd_register d\<close> is \<open>update_blockdev\<close> and
  \<open>devfs_register_block\<close>, \<open>fd_on_purge\<close> the address of \<open>on_cyl_purge\<close>, and \<open>fd_str\<close> gives the address of a string.
\<close>

record 's fd_env =
  fd_dev :: device_io
  fd_sleep :: "u32 \<Rightarrow> 's \<Rightarrow> 's option"
  fd_log :: "string \<Rightarrow> u32 list \<Rightarrow> 's \<Rightarrow> 's option"
  fd_str :: "string \<Rightarrow> u32"
  fd_purge :: "'s purge_env"
  fd_spawn :: "nat \<Rightarrow> string \<Rightarrow> 's \<Rightarrow> ('s \<times> int) option"
  fd_alloc :: "'s \<Rightarrow> ('s \<times> u32) option"
  fd_register :: "nat \<Rightarrow> 's \<Rightarrow> 's option"
  fd_on_purge :: u32
  fd_irq :: irq_fn

type_synonym 'a fenv = "'a fdc fd_env"

abbreviation IO_OFF_DOR :: u16 where "IO_OFF_DOR \<equiv> 0x02"
abbreviation IO_OFF_MSR :: u16 where "IO_OFF_MSR \<equiv> 0x04"
abbreviation IO_OFF_FIFO :: u16 where "IO_OFF_FIFO \<equiv> 0x05"
abbreviation IO_OFF_DIR :: u16 where "IO_OFF_DIR \<equiv> 0x07"
abbreviation IO_OFF_CCR :: u16 where "IO_OFF_CCR \<equiv> 0x07"
abbreviation CMD_SPECIFY :: u8 where "CMD_SPECIFY \<equiv> 0x03"
abbreviation CMD_WRITE_DATA :: u8 where "CMD_WRITE_DATA \<equiv> 0x05"
abbreviation CMD_READ_DATA :: u8 where "CMD_READ_DATA \<equiv> 0x06"
abbreviation CMD_RECALIBRATE :: u8 where "CMD_RECALIBRATE \<equiv> 0x07"
abbreviation CMD_SENSE_INTERRUPT :: u8 where "CMD_SENSE_INTERRUPT \<equiv> 0x08"
abbreviation CMD_READ_ID :: u8 where "CMD_READ_ID \<equiv> 0x0A"
abbreviation CMD_SEEK :: u8 where "CMD_SEEK \<equiv> 0x0F"
abbreviation FDC_MAX_DRIVES :: nat where "FDC_MAX_DRIVES \<equiv> 2"
abbreviation FDC_DMA_CHANNEL :: u8 where "FDC_DMA_CHANNEL \<equiv> 2"
abbreviation DMA_MODE_SINGLE :: u8 where "DMA_MODE_SINGLE \<equiv> 0x40"
abbreviation HANDLE_CYLINDER_RETRIES :: nat where "HANDLE_CYLINDER_RETRIES \<equiv> 20"
abbreviation RECALIBRATE_RETRIES :: nat where "RECALIBRATE_RETRIES \<equiv> 10"
abbreviation CYLINDER_CACHE_CYLS :: nat where "CYLINDER_CACHE_CYLS \<equiv> 16"
abbreviation DMA_BUF_ADDR :: u32 where "DMA_BUF_ADDR \<equiv> 0x8000"
abbreviation DMA_BUF_SIZE :: u32 where "DMA_BUF_SIZE \<equiv> 5 * 4096"
abbreviation dma_buf :: u32 where "dma_buf \<equiv> DMA_BUF_ADDR + VIRT_OFFSET"
abbreviation CYL_DIRTY :: u16 where "CYL_DIRTY \<equiv> 1"
abbreviation SIZEOF_CYLINDER :: u32 where "SIZEOF_CYLINDER \<equiv> 16"
abbreviation SIZEOF_CYL_CACHE :: u32 where "SIZEOF_CYL_CACHE \<equiv> 12"

abbreviation upd_drive :: "nat \<Rightarrow> (floppy_drive \<Rightarrow> floppy_drive) \<Rightarrow> 'a fdc \<Rightarrow> 'a fdc" where
  "upd_drive d f s \<equiv> s\<lparr>drives := (drives s)(d := f (drives s d))\<rparr>"

abbreviation upd_cyl :: "u32 \<Rightarrow> (cylinder \<Rightarrow> cylinder) \<Rightarrow> 'a fdc \<Rightarrow> 'a fdc" where
  "upd_cyl c f s \<equiv> s\<lparr>cylinders := (cylinders s)(c := f (cylinders s c))\<rparr>"

text \<open>\<open>d->f\<close> dereferenced: a null pointer stops the machine, and so does an index past the table.\<close>

definition format_of :: "nat \<Rightarrow> 'a fdc \<Rightarrow> floppy_format option" where
  "format_of d s =
     (case fmt (drives s d) of None \<Rightarrow> None
      | Some k \<Rightarrow> if k < length floppy_formats then Some (floppy_formats ! k) else None)"

definition params_of :: "nat \<Rightarrow> 'a fdc \<Rightarrow> drive_params option" where
  "params_of d s =
     (let k = unat (fd_type (drives s d)) in if k < length drive_types then Some (drive_types ! k) else None)"

text \<open>Geometry; a division by zero traps.\<close>

definition lba_to_head :: "floppy_format \<Rightarrow> u16 \<Rightarrow> u16 option" where
  "lba_to_head f lba =
     (if sectors_per_track f = 0 \<or> heads f = 0 then None
      else Some ((lba div ucast (sectors_per_track f)) mod ucast (heads f)))"

definition lba_to_cyl :: "floppy_format \<Rightarrow> u16 \<Rightarrow> u16 option" where
  "lba_to_cyl f lba =
     (if sectors_per_track f = 0 \<or> heads f = 0 then None
      else Some (lba div (ucast (heads f) * ucast (sectors_per_track f))))"

definition lba_to_sector :: "floppy_format \<Rightarrow> u16 \<Rightarrow> u16 option" where
  "lba_to_sector f lba = (if sectors_per_track f = 0 then None else Some (lba mod ucast (sectors_per_track f) + 1))"

section \<open>Talking to the controller\<close>

definition dbg :: "'a fenv \<Rightarrow> string \<Rightarrow> u32 list \<Rightarrow> 'a fdc \<Rightarrow> 'a fdc option" where
  "dbg E msg args s = (if s_verbose s then fd_log E msg args s else Some s)"

text \<open>\<open>wait_irq\<close>, with \<open>n\<close> rounds of \<open>irq_check_delay\<close> left: 200 make up \<open>irq_timeout_ms\<close>.\<close>

primrec wait_irq_loop :: "'a fenv \<Rightarrow> nat \<Rightarrow> 'a fdc \<Rightarrow> ('a fdc \<times> int) option" where
  "wait_irq_loop E 0 s = Some (s, -1)"
| "wait_irq_loop E (Suc n) s =
     (if floppy_interrupts s \<le> 0
      then do {
        s \<leftarrow> fd_sleep E 10 s;
        if n = 0 then Some (s, -1) else wait_irq_loop E n s
      }
      else Some (s\<lparr>floppy_interrupts := floppy_interrupts s - 1\<rparr>, 0))"

abbreviation wait_irq :: "'a fenv \<Rightarrow> 'a fdc \<Rightarrow> ('a fdc \<times> int) option" where
  "wait_irq E s \<equiv> wait_irq_loop E 200 s"

text \<open>
  The loop of \<open>wait_for_ready_read\<close> and \<open>wait_for_ready_write\<close>, which differ in the value of the top two
  bits of the status they wait for; 200 rounds of \<open>fifo_retry_delay\<close> make up \<open>fifo_timeout_ms\<close>.
\<close>

primrec wait_for_ready :: "'a fenv \<Rightarrow> nat \<Rightarrow> u8 \<Rightarrow> nat \<Rightarrow> 'a fdc \<Rightarrow> ('a fdc \<times> int) option" where
  "wait_for_ready E d want 0 s = Some (s, -1)"
| "wait_for_ready E d want (Suc n) s =
     (case io_in8 (fd_dev E) (io_base (drives s d) + IO_OFF_MSR) s of (s, status) \<Rightarrow>
        if status AND 0xC0 = want then Some (s, uint status)
        else do { s \<leftarrow> fd_sleep E 10 s; wait_for_ready E d want n s })"

abbreviation wait_for_ready_read :: "'a fenv \<Rightarrow> nat \<Rightarrow> 'a fdc \<Rightarrow> ('a fdc \<times> int) option" where
  "wait_for_ready_read E d s \<equiv> wait_for_ready E d 0xC0 200 s"

abbreviation wait_for_ready_write :: "'a fenv \<Rightarrow> nat \<Rightarrow> 'a fdc \<Rightarrow> ('a fdc \<times> int) option" where
  "wait_for_ready_write E d s \<equiv> wait_for_ready E d 0x80 200 s"

definition send_byte :: "'a fenv \<Rightarrow> nat \<Rightarrow> u8 \<Rightarrow> 'a fdc \<Rightarrow> ('a fdc \<times> int) option" where
  "send_byte E d byte s = do {
     (s, status) \<leftarrow> wait_for_ready_write E d s;
     if status < 0 then do { s \<leftarrow> dbg E (''send was never ready'' @ nl) [] s; Some (s, -1) }
     else Some (io_wait (io_out8 (io_base (drives s d) + IO_OFF_FIFO) byte s), 0)
   }"

definition read_byte :: "'a fenv \<Rightarrow> nat \<Rightarrow> 'a fdc \<Rightarrow> ('a fdc \<times> int) option" where
  "read_byte E d s = do {
     (s, status) \<leftarrow> wait_for_ready_read E d s;
     if status < 0 then do { s \<leftarrow> dbg E (''read was never ready'' @ nl) [] s; Some (s, -1) }
     else (case io_in8 (fd_dev E) (io_base (drives s d) + IO_OFF_FIFO) s of (s, v) \<Rightarrow> Some (io_wait s, uint v))
   }"

abbreviation write_dor :: "nat \<Rightarrow> u8 \<Rightarrow> 'a fdc \<Rightarrow> 'a fdc" where
  "write_dor d byte s \<equiv> io_wait (io_out8 (io_base (drives s d) + IO_OFF_DOR) byte s)"

abbreviation write_ccr :: "nat \<Rightarrow> u8 \<Rightarrow> 'a fdc \<Rightarrow> 'a fdc" where
  "write_ccr d byte s \<equiv> io_out8 (io_base (drives s d) + IO_OFF_CCR) byte s"

section \<open>The motor\<close>

definition motor_set_direct :: "nat \<Rightarrow> bool \<Rightarrow> 'a fdc \<Rightarrow> 'a fdc option" where
  "motor_set_direct d on s =
     (if num (drives s d) = 0 then Some (write_dor d (0x0C OR (if on then 0x10 else 0x00)) s)
      else if num (drives s d) = 1 then Some (write_dor d (0x0D OR (if on then 0x20 else 0x00)) s)
      else None)"

definition motor_kill :: "nat \<Rightarrow> 'a fdc \<Rightarrow> 'a fdc option" where
  "motor_kill d s = do {
     s \<leftarrow> (if num (drives s d) = 0 then Some (write_dor d 0x0C s)
           else if num (drives s d) = 1 then Some (write_dor d 0x0D s) else None);
     Some (upd_drive d (\<lambda>r. r\<lparr>motor := fd_mot_off\<rparr>) s)
   }"

text \<open>The task that stops a motor that is no longer used.\<close>

partial_function (option) floppy_timeout :: "'a fenv \<Rightarrow> nat \<Rightarrow> 'a fdc \<Rightarrow> ('a fdc \<times> int) option" where
  "floppy_timeout E d s = do {
     s \<leftarrow> fd_sleep E 250 s;
     if motor (drives s d) = fd_mot_timeout
     then let s = upd_drive d (\<lambda>r. r\<lparr>motor_ms := motor_ms r - 250\<rparr>) s
          in if motor_ms (drives s d) \<le> 0
             then do {
               s \<leftarrow> dbg E (''timeout(fd%i)'' @ nl) [ucast (num (drives s d))] s;
               s \<leftarrow> motor_kill d s;
               Some (upd_drive d (\<lambda>r. r\<lparr>timer := 0\<rparr>) s, 0)
             }
             else floppy_timeout E d s
     else floppy_timeout E d s
   }"

definition motor_set :: "'a fenv \<Rightarrow> string \<Rightarrow> nat \<Rightarrow> bool \<Rightarrow> 'a fdc \<Rightarrow> 'a fdc option" where
  "motor_set E caller d on s =
     (if on
      then do {
        s \<leftarrow> (if motor (drives s d) = fd_mot_off
              then do {
                s \<leftarrow> motor_set_direct d on s;
                p \<leftarrow> params_of d s;
                fd_sleep E (ucast (spinup_ms p)) s
              }
              else Some s);
        Some (upd_drive d (\<lambda>r. r\<lparr>motor := fd_mot_on\<rparr>) s)
      }
      else do {
        s \<leftarrow> (if motor (drives s d) = fd_mot_timeout
              then fd_log E (''%s tried turning drive %i motor off while it was timing out'' @ nl)
                     [fd_str E caller, ucast (num (drives s d))] s
              else Some s);
        p \<leftarrow> params_of d s;
        s \<leftarrow> Some (upd_drive d (\<lambda>r. r\<lparr>motor_ms := motor_timeout_ms p, motor := fd_mot_timeout\<rparr>) s);
        if timer (drives s d) = 0
        then do {
          name \<leftarrow> (if unat (num (drives s d)) < 4
                  then Some ([''fd0_timeout'', ''fd1_timeout'', ''fd2_timeout'', ''fd3_timeout''] ! unat (num (drives s d))) else None);
          (s, tid) \<leftarrow> fd_spawn E d name s;
          Some (upd_drive d (\<lambda>r. r\<lparr>timer := tid\<rparr>) s)
        }
        else Some s
      })"

section \<open>Commands\<close>

definition cmd_sense_interrupt :: "'a fenv \<Rightarrow> string \<Rightarrow> nat \<Rightarrow> 'a fdc \<Rightarrow> 'a fdc option" where
  "cmd_sense_interrupt E caller d s = do {
     (s, ret) \<leftarrow> send_byte E d CMD_SENSE_INTERRUPT s;
     if ret \<noteq> 0 then dbg E (''%s sense_interrupt: CMD_SENSE_INTERRUPT'' @ nl) [fd_str E caller] s
     else do {
       (s, ret) \<leftarrow> read_byte E d s;
       if ret < 0 then dbg E (''%s: sense_interrupt read st0 returned %i'' @ nl) [fd_str E caller, of_int ret] s
       else do {
         s \<leftarrow> Some (upd_drive d (\<lambda>r. r\<lparr>st0 := of_int ret\<rparr>) s);
         (s, ret) \<leftarrow> read_byte E d s;
         if ret < 0 then dbg E (''%s: sense_interrupt: read pcn returned %i'' @ nl) [fd_str E caller, of_int ret] s
         else Some (upd_drive d (\<lambda>r. r\<lparr>cyl := of_int ret\<rparr>) s)
       }
     }
   }"

definition dump_st0_status :: "'a fenv \<Rightarrow> string \<Rightarrow> u8 \<Rightarrow> 'a fdc \<Rightarrow> 'a fdc option" where
  "dump_st0_status E caller v s =
     (if v AND 0xC0 = 0 then Some s
      else dbg E (''%s: status = %s'' @ nl)
             [fd_str E caller, fd_str E ([[], ''abnormal'', ''invalid command'', ''abnormal_poll''] ! unat (drop_bit 6 v))] s)"

text \<open>The loop of \<open>cmd_recalibrate\<close> with \<open>n\<close> of its retries left.\<close>

primrec recalibrate_loop :: "'a fenv \<Rightarrow> nat \<Rightarrow> nat \<Rightarrow> 'a fdc \<Rightarrow> ('a fdc \<times> int) option" where
  "recalibrate_loop E d 0 s = do {
     s \<leftarrow> fd_log E (''recalibrate exhausted %i retries'' @ nl) [of_nat RECALIBRATE_RETRIES] s;
     s \<leftarrow> motor_set E ''cmd_recalibrate'' d False s;
     Some (s, -EIO)
   }"
| "recalibrate_loop E d (Suc n) s = do {
     (s, ret) \<leftarrow> send_byte E d CMD_RECALIBRATE s;
     if ret \<noteq> 0 then do { s \<leftarrow> dbg E (''CMD_RECALIBRATE'' @ nl) [] s; Some (s, ret) }
     else do {
       (s, ret) \<leftarrow> send_byte E d (num (drives s d)) s;
       if ret \<noteq> 0 then do { s \<leftarrow> dbg E (''CMD_RECALIBRATE drive num %i byte'' @ nl) [ucast (num (drives s d))] s; Some (s, ret) }
       else do {
         (s, ret) \<leftarrow> wait_irq E s;
         if ret \<noteq> 0 then do {
           s \<leftarrow> dbg E (''CMD_RECALIBRATE wait_irq() timed out'' @ nl) [] s;
           s \<leftarrow> motor_set E ''cmd_recalibrate'' d False s;
           Some (s, ret)
         }
         else do {
           s \<leftarrow> cmd_sense_interrupt E ''recalibrate'' d s;
           s \<leftarrow> dump_st0_status E ''recalibrate'' (st0 (drives s d)) s;
           if st0 (drives s d) AND 0xC0 \<noteq> 0 then recalibrate_loop E d n s
           else if cyl (drives s d) = 0 then do { s \<leftarrow> motor_set E ''cmd_recalibrate'' d False s; Some (s, 0) }
           else recalibrate_loop E d n s
         }
       }
     }
   }"

definition cmd_recalibrate :: "'a fenv \<Rightarrow> nat \<Rightarrow> 'a fdc \<Rightarrow> ('a fdc \<times> int) option" where
  "cmd_recalibrate E d s = do {
     s \<leftarrow> motor_set E ''cmd_recalibrate'' d True s;
     recalibrate_loop E d RECALIBRATE_RETRIES s
   }"

text \<open>The loop of \<open>cmd_seek_internal\<close>, with \<open>n\<close> of \<open>retries\<close> left.\<close>

primrec seek_loop :: "'a fenv \<Rightarrow> nat \<Rightarrow> u8 \<Rightarrow> u8 \<Rightarrow> u8 \<Rightarrow> nat \<Rightarrow> 'a fdc \<Rightarrow> ('a fdc \<times> int) option" where
  "seek_loop E d head c retries 0 s = do {
     s \<leftarrow> fd_log E (''cmd_seek exhausted %i retries'' @ nl) [ucast retries] s;
     s \<leftarrow> motor_set E ''cmd_seek_internal'' d False s;
     Some (s, -1)
   }"
| "seek_loop E d head c retries (Suc n) s = do {
     (s, ret) \<leftarrow> send_byte E d CMD_SEEK s;
     if ret \<noteq> 0 then do {
       s \<leftarrow> dbg E (''CMD_SEEK returned %i'' @ nl) [of_int ret] s;
       s \<leftarrow> motor_set E ''cmd_seek_internal'' d False s;
       Some (s, ret) }
     else do {
       (s, ret) \<leftarrow> send_byte E d (push_bit 2 head OR num (drives s d)) s;
       if ret \<noteq> 0 then do {
         s \<leftarrow> dbg E (''head+drivenum returned %i'' @ nl) [of_int ret] s;
         s \<leftarrow> motor_set E ''cmd_seek_internal'' d False s;
         Some (s, ret) }
       else do {
         (s, ret) \<leftarrow> send_byte E d c s;
         if ret \<noteq> 0 then do {
           s \<leftarrow> dbg E (''cyl returned %i'' @ nl) [of_int ret] s;
           s \<leftarrow> motor_set E ''cmd_seek_internal'' d False s;
           Some (s, ret) }
         else do {
           (s, ret) \<leftarrow> wait_irq E s;
           if ret \<noteq> 0 then do {
             s \<leftarrow> dbg E (''cmd_seek wait_irq() returned %i'' @ nl) [of_int ret] s;
             s \<leftarrow> motor_set E ''cmd_seek_internal'' d False s;
             Some (s, ret) }
           else do {
             s \<leftarrow> cmd_sense_interrupt E ''cmd_seek'' d s;
             s \<leftarrow> dump_st0_status E ''seek_internal'' (st0 (drives s d)) s;
             if st0 (drives s d) AND 0xC0 \<noteq> 0 then seek_loop E d head c retries n s
             else if cyl (drives s d) = c then do { s \<leftarrow> motor_set E ''cmd_seek_internal'' d False s; Some (s, 0) }
             else seek_loop E d head c retries n s
           }
         }
       }
     }
   }"

definition cmd_seek_internal :: "'a fenv \<Rightarrow> nat \<Rightarrow> u8 \<Rightarrow> u8 \<Rightarrow> u8 \<Rightarrow> 'a fdc \<Rightarrow> ('a fdc \<times> int) option" where
  "cmd_seek_internal E d head c retries s =
     (if cyl (drives s d) = c then Some (s, 0)
      else do {
        c \<leftarrow> (if fmt (drives s d) = None then Some c
              else do { f \<leftarrow> format_of d s; Some (if uint c > uint (cyls f) - 1 then cyls f - 1 else c) });
        s \<leftarrow> motor_set E ''cmd_seek_internal'' d True s;
        seek_loop E d head c retries (unat retries) s
      })"

text \<open>
  \<open>check_error\<close>: a status bit that must not be set unless an error has been noted (\<open>ok\<close>) stops the machine.
\<close>

definition check_flag :: "'a fenv \<Rightarrow> u8 \<Rightarrow> u8 \<Rightarrow> string \<Rightarrow> bool \<Rightarrow> 'a fdc \<Rightarrow> 'a fdc option" where
  "check_flag E v bits msg ok s =
     (if v AND bits \<noteq> 0 then do { s \<leftarrow> dbg E (msg @ nl) [] s; if ok then Some s else None } else Some s)"

definition check_error ::
  "'a fenv \<Rightarrow> string \<Rightarrow> nat \<Rightarrow> u8 \<Rightarrow> u8 \<Rightarrow> u8 \<Rightarrow> u8 \<Rightarrow> 'a fdc \<Rightarrow> ('a fdc \<times> int) option" where
  "check_error E cmd d r0 r1 r2 ret_bps s = do {
     s \<leftarrow> dump_st0_status E cmd r0 s;
     error \<leftarrow> Some (if r0 AND 0xC0 \<noteq> 0 then 1 else 0 :: int);
     s \<leftarrow> check_flag E r0 0x20 ''SEEK_END'' True s;
     s \<leftarrow> check_flag E r0 0x10 ''EQUIPMENT_CHECK'' True s;
     s \<leftarrow> check_flag E r0 0x08 ''drive not ready'' (error = 1) s;
     s \<leftarrow> check_flag E r0 0x08 ''drive not ready'' False s;
     (s, error) \<leftarrow> (if r0 AND 0x03 \<noteq> num (drives s d)
        then do { s \<leftarrow> dbg E (''st0 drive %i, expected %i'' @ nl) [ucast (r0 AND 0x03), ucast (num (drives s d))] s; Some (s, 1) }
        else Some (s, error));
     s \<leftarrow> check_flag E r1 0x80 ''end of cylinder'' (error = 1) s;
     s \<leftarrow> check_flag E r1 0x20 ''data CRC error'' (error = 1) s;
     s \<leftarrow> check_flag E r1 0x10 ''DMA over/underrun'' (error = 1) s;
     s \<leftarrow> check_flag E r1 0x04 ''NO_DATA'' (error = 1) s;
     s \<leftarrow> check_flag E r1 0x02 ''not writable'' (error = 1) s;
     error \<leftarrow> Some (if r1 AND 0x02 \<noteq> 0 then 2 else error);
     s \<leftarrow> check_flag E r1 0x01 ''missing address mark'' (error = 1) s;
     s \<leftarrow> check_flag E r2 0x40 ''unexpected address mark'' (error = 1) s;
     s \<leftarrow> check_flag E r2 0x20 ''data CRC error'' (error = 1) s;
     s \<leftarrow> check_flag E r2 0x10 ''wrong cylinder'' (error = 1) s;
     s \<leftarrow> check_flag E r2 0x04 ''uPD765 sector not found'' False s;
     s \<leftarrow> check_flag E r2 0x02 ''bad cylinder'' (error = 1) s;
     s \<leftarrow> check_flag E r2 0x01 ''missing data address mark'' (error = 1) s;
     f \<leftarrow> format_of d s;
     s \<leftarrow> (if ret_bps \<noteq> sector_size f
           then do {
             s \<leftarrow> dbg E ''Expected %iB/sector, drive reported %i''
                    [push_bit (unat (sector_size f) mod 32) 128, push_bit (unat ret_bps mod 32) 128] s;
             if error = 1 then Some s else None }
           else Some s);
     Some (s, error)
   }"

text \<open>The seven result bytes of a read, write or read-ID command; a timed out read gives 255.\<close>

fun read_bytes :: "'a fenv \<Rightarrow> nat \<Rightarrow> nat \<Rightarrow> 'a fdc \<Rightarrow> ('a fdc \<times> u8 list) option" where
  "read_bytes E d 0 s = Some (s, [])"
| "read_bytes E d (Suc n) s = do {
     (s, v) \<leftarrow> read_byte E d s;
     (s, vs) \<leftarrow> read_bytes E d n s;
     Some (s, of_int v # vs)
   }"

definition cmd_read_id :: "'a fenv \<Rightarrow> string \<Rightarrow> nat \<Rightarrow> 'a fdc \<Rightarrow> ('a fdc \<times> int) option" where
  "cmd_read_id E cmd d s = do {
     s \<leftarrow> motor_set E ''cmd_read_id'' d True s;
     f \<leftarrow> format_of d s;
     s \<leftarrow> Some (write_ccr d (datarate f) s);
     (s, ret) \<leftarrow> send_byte E d (CMD_READ_ID OR 0x40) s;
     if ret \<noteq> 0 then do {
       s \<leftarrow> dbg E (''%s: CMD_READ_ID send command returned %i'' @ nl) [fd_str E cmd, of_int ret] s;
       s \<leftarrow> motor_set E ''cmd_read_id'' d False s;
       Some (s, ret) }
     else do {
       (s, ret) \<leftarrow> send_byte E d (num (drives s d) AND 0x03) s;
       if ret \<noteq> 0 then do {
         s \<leftarrow> dbg E (''%s: CMD_READ_ID send param 0 returned %i'' @ nl) [fd_str E cmd, of_int ret] s;
         s \<leftarrow> motor_set E ''cmd_read_id'' d False s;
         Some (s, ret) }
       else do {
         (s, ret) \<leftarrow> wait_irq E s;
         if ret \<noteq> 0 then do {
           s \<leftarrow> dbg E (''%s: CMD_READ_ID wait_irq() returned %i'' @ nl) [fd_str E cmd, of_int ret] s;
           s \<leftarrow> motor_set E ''cmd_read_id'' d False s;
           Some (s, ret) }
         else do {
           (s, r) \<leftarrow> read_bytes E d 7 s;
           s \<leftarrow> dbg E (''%s: read_id st0: %1h st1: %1h st2: %1h cyl: %1h head: %1h sec: %1h bps: %1h (%u)'' @ nl)
                  (fd_str E cmd # map ucast r @ [push_bit (unat (r ! 6) mod 32) 128]) s;
           (s, error) \<leftarrow> check_error E cmd d (r ! 0) (r ! 1) (r ! 2) (r ! 6) s;
           if error \<noteq> 0 then do { s \<leftarrow> motor_set E ''cmd_read_id'' d False s; Some (s, 1) }
           else do {
             s \<leftarrow> (if cyl (drives s d) \<noteq> r ! 3
                   then dbg E (''%s: read_id: cyl is actually %u, not %u'' @ nl)
                          [fd_str E cmd, ucast (r ! 3), ucast (cyl (drives s d))] s
                   else Some s);
             s \<leftarrow> Some (upd_drive d (\<lambda>q. q\<lparr>cyl := r ! 3\<rparr>) s);
             s \<leftarrow> motor_set E ''cmd_read_id'' d False s;
             Some (s, 0)
           }
         }
       }
     }
   }"

section \<open>Media\<close>

definition read_dir :: "'a fenv \<Rightarrow> nat \<Rightarrow> 'a fdc \<Rightarrow> ('a fdc \<times> u8) option" where
  "read_dir E d s =
     (let old_state = motor (drives s d)
      in do {
        s \<leftarrow> motor_set_direct d True s;
        (s, dir) \<leftarrow> Some (io_in8 (fd_dev E) (io_base (drives s d) + IO_OFF_DIR) s);
        s \<leftarrow> motor_set_direct d (old_state \<noteq> fd_mot_off) s;
        Some (s, dir) })"

definition clear_disk_changed :: "'a fenv \<Rightarrow> nat \<Rightarrow> 'a fdc \<Rightarrow> ('a fdc \<times> int) option" where
  "clear_disk_changed E d s =
     (if cyl (drives s d) = 0
      then do {
        (s, ret) \<leftarrow> cmd_seek_internal E d 0 (cyl (drives s d) + 1) 10 s;
        s \<leftarrow> (if ret \<noteq> 0 then dbg E (''seek_fallback cyl+1 FAILED for drive fd%i, at cyl %i'' @ nl)
                 [ucast (num (drives s d)), ucast (cyl (drives s d))] s else Some s);
        Some (s, ret) }
      else do {
        (s, ret) \<leftarrow> cmd_seek_internal E d 0 (cyl (drives s d) - 1) 10 s;
        s \<leftarrow> (if ret \<noteq> 0 then dbg E (''seek_fallback cyl-1 FAILED for drive fd%i, at cyl %i'' @ nl)
                 [ucast (num (drives s d)), ucast (cyl (drives s d))] s else Some s);
        Some (s, ret) })"

text \<open>The loop of \<open>cyl_cache_invalidate\<close>; a null cache stops the machine.\<close>

definition cyl_cache_invalidate :: "u32 \<Rightarrow> 'a fdc \<Rightarrow> 'a fdc option" where
  "cyl_cache_invalidate c s =
     (if c = 0 then None
      else Some (fold (\<lambda>q. upd_cyl q (\<lambda>r. r\<lparr>cy_num := -1\<rparr>)) (lru_cyls (cyl_caches s c)) s))"

definition media_ejected :: "'a fenv \<Rightarrow> string \<Rightarrow> nat \<Rightarrow> 'a fdc \<Rightarrow> 'a fdc option" where
  "media_ejected E caller d s =
     (if fmt (drives s d) = None then None
      else do {
        s \<leftarrow> Some (upd_drive d (\<lambda>r. r\<lparr>fmt := None\<rparr>) s);
        s \<leftarrow> cyl_cache_invalidate (fd_cache (drives s d)) s;
        dbg E (''%s: media ejected on fd%i.'' @ nl) [fd_str E caller, ucast (num (drives s d))] s })"

definition next_media_type :: "nat \<Rightarrow> 'a fdc \<Rightarrow> ('a fdc \<times> int) option" where
  "next_media_type d s = do {
     p \<leftarrow> params_of d s;
     s \<leftarrow> Some (if fmt (drives s d) \<noteq> None then upd_drive d (\<lambda>r. r\<lparr>detect_idx := detect_idx r + 1\<rparr>) s else s);
     if length (detect_order p) \<le> detect_idx (drives s d) then None
     else if fmt (drives s d) \<noteq> None \<and> detect_order p ! detect_idx (drives s d) = 0
     then Some (upd_drive d (\<lambda>r. r\<lparr>detect_idx := 0, fmt := None\<rparr>) s, -ENODEV)
     else Some (upd_drive d (\<lambda>r. r\<lparr>fmt := Some (unat (detect_order p ! detect_idx r))\<rparr>) s, 0)
   }"

partial_function (option) detect_loop :: "'a fenv \<Rightarrow> nat \<Rightarrow> 'a fdc \<Rightarrow> 'a fdc option" where
  "detect_loop E d s = do {
     (s, ret) \<leftarrow> next_media_type d s;
     if ret \<noteq> 0 then Some s
     else do {
       (s, ret) \<leftarrow> cmd_read_id E ''detect_media'' d s;
       if ret \<noteq> 0 then detect_loop E d s else Some s
     }
   }"

definition detect_media :: "'a fenv \<Rightarrow> nat \<Rightarrow> 'a fdc \<Rightarrow> ('a fdc \<times> int) option" where
  "detect_media E d s = do {
     (s, ret) \<leftarrow> cmd_recalibrate E d s;
     if ret \<noteq> 0 then Some (s, ret)
     else do {
       s \<leftarrow> Some (upd_drive d (\<lambda>r. r\<lparr>detect_idx := 0, fmt := None\<rparr>) s);
       s \<leftarrow> detect_loop E d s;
       Some (s, if fmt (drives s d) = None then 1 else 0)
     }
   }"

definition media_inserted :: "'a fenv \<Rightarrow> string \<Rightarrow> nat \<Rightarrow> 'a fdc \<Rightarrow> 'a fdc option" where
  "media_inserted E caller d s = do {
     s \<leftarrow> dbg E ''%s: media inserted on fd%i, '' [fd_str E caller, ucast (num (drives s d))] s;
     (s, ret) \<leftarrow> detect_media E d s;
     s \<leftarrow> (if ret \<noteq> 0
           then if fmt (drives s d) \<noteq> None then None else dbg E (''failed to detect format.'' @ nl) [] s
           else Some s);
     if fmt (drives s d) = None then None
     else do {
       f \<leftarrow> format_of d s;
       dbg E (''format of new disk is '' @ [CHR 0x27] @ ''%s'' @ [CHR 0x27] @ nl) [fd_str E (ff_name f)] s }
   }"

partial_function (option) check_media_changed :: "'a fenv \<Rightarrow> string \<Rightarrow> nat \<Rightarrow> 'a fdc \<Rightarrow> 'a fdc option" where
  "check_media_changed E caller d s = do {
     (s, dir) \<leftarrow> read_dir E d s;
     if dir AND 0x80 \<noteq> 0 \<and> fmt (drives s d) \<noteq> None
     then do {
       s \<leftarrow> media_ejected E caller d s;
       check_media_changed E ''check_media_changed'' d s
     }
     else if dir AND 0x80 \<noteq> 0
     then do {
       (s, ret) \<leftarrow> clear_disk_changed E d s;
       if ret \<noteq> 0 then Some s
       else do {
         (s, dir) \<leftarrow> read_dir E d s;
         if dir AND 0x80 = 0 then media_inserted E caller d s else Some s
       }
     }
     else if fmt (drives s d) = None then media_inserted E caller d s
     else Some s
   }"

definition handle_drive_change :: "'a fenv \<Rightarrow> nat \<Rightarrow> 'a fdc \<Rightarrow> 'a fdc option" where
  "handle_drive_change E d s =
     (if s_last_drive s = Some d then Some s
      else do {
        s \<leftarrow> (case s_last_drive s of None \<Rightarrow> Some s
              | Some l \<Rightarrow> dbg E (''drive changing from fd%i -> fd%i, calling reset_drive(fd%i)'' @ nl)
                  [ucast (num (drives s l)), ucast (num (drives s d)), ucast (num (drives s d))] s);
        s \<leftarrow> Some (s\<lparr>s_last_drive := Some d\<rparr>);
        dbg E (''resetting drive fd%i'' @ nl) [ucast (num (drives s d))] s })"

section \<open>Reading and writing cylinders\<close>

definition cmd_seek :: "'a fenv \<Rightarrow> nat \<Rightarrow> u8 \<Rightarrow> 'a fdc \<Rightarrow> ('a fdc \<times> int) option" where
  "cmd_seek E d c s = do {
     s \<leftarrow> check_media_changed E ''cmd_seek'' d s;
     s \<leftarrow> handle_drive_change E d s;
     if fmt (drives s d) = None then Some (s, -EIO)
     else cmd_seek_internal E d 0 c 10 s
   }"

text \<open>The results of the nine \<open>send_byte\<close> calls of a read or write command are ignored.\<close>

primrec send_bytes :: "'a fenv \<Rightarrow> nat \<Rightarrow> u8 list \<Rightarrow> 'a fdc \<Rightarrow> 'a fdc option" where
  "send_bytes E d [] s = Some s"
| "send_bytes E d (b # bs) s = do { (s, _) \<leftarrow> send_byte E d b s; send_bytes E d bs s }"

text \<open>
  The loop of \<open>do_handle_cylinder\<close> with \<open>n\<close> retries left. The message about a timeout has a conversion and
  no argument; \<open>fd_log\<close> gets the empty list.
\<close>

primrec cylinder_loop :: "'a fenv \<Rightarrow> nat \<Rightarrow> u8 \<Rightarrow> int \<Rightarrow> u8 \<Rightarrow> nat \<Rightarrow> 'a fdc \<Rightarrow> ('a fdc \<times> int) option" where
  "cylinder_loop E d c dir cmd 0 s = do {
     s \<leftarrow> fd_log E (''handle_cylinder exhausted %i retries'' @ nl) [of_nat HANDLE_CYLINDER_RETRIES] s;
     Some (s, -EIO)
   }"
| "cylinder_loop E d c dir cmd (Suc n) s = do {
     s \<leftarrow> motor_set E ''do_handle_cylinder'' d True s;
     f \<leftarrow> format_of d s;
     s \<leftarrow> Some (write_ccr d (datarate f) s);
     s \<leftarrow> dma_setup FDC_DMA_CHANNEL DMA_MODE_SINGLE (dma_buf - VIRT_OFFSET) (2 * ucast (sectors_per_track f) * 512) dir s;
     s \<leftarrow> fd_sleep E 1 s;
     f \<leftarrow> format_of d s;
     s \<leftarrow> dbg E (''trying '' @ [CHR 0x27] @ ''%s'' @ [CHR 0x27] @ nl @ ''cmd: %1h, num: %1h, cyl: %1h, head: %1h, sec: %1h, n: %1h, eot: %1h, gpl: %1h, dtl: %1h'' @ nl)
            [fd_str E (ff_name f), ucast cmd, ucast (num (drives s d)), ucast c, 0, 1, ucast (sector_size f), ucast (sectors_per_track f), ucast (gap_len f), 0xFF] s;
     s \<leftarrow> send_bytes E d [cmd, num (drives s d), c, 0, 1, sector_size f, sectors_per_track f, gap_len f, 0xFF] s;
     (s, ret) \<leftarrow> wait_irq E s;
     if ret \<noteq> 0 then do {
       s \<leftarrow> fd_log E (''handle_cylinder iter %i wait_irq() timed out'' @ nl) [] s;
       s \<leftarrow> motor_set E ''do_handle_cylinder'' d False s;
       Some (s, ret) }
     else do {
       (s, r) \<leftarrow> read_bytes E d 7 s;
       s \<leftarrow> motor_set E ''do_handle_cylinder'' d False s;
       s \<leftarrow> dbg E (''st0: %1h st1: %1h st2: %1h cyl: %1h head: %1h sec: %1h bps: %1h (%u)'' @ nl)
              (map ucast r @ [push_bit (unat (r ! 6) mod 32) 128]) s;
       (s, error) \<leftarrow> check_error E ''handle_cylinder'' d (r ! 0) (r ! 1) (r ! 2) (r ! 6) s;
       if error = 0 then Some (s\<lparr>dma_buf_cyl := sint c, dma_buf_drv := sint (num (drives s d))\<rparr>, 0)
       else if error > 1 then
         if dir = dma_dir_write then do { s \<leftarrow> dbg E (''handle_cylinder: not retrying..'' @ nl) [] s; Some (s, -2) } else None
       else cylinder_loop E d c dir cmd n s
     }
   }"

definition do_handle_cylinder :: "'a fenv \<Rightarrow> nat \<Rightarrow> u8 \<Rightarrow> int \<Rightarrow> 'a fdc \<Rightarrow> ('a fdc \<times> int) option" where
  "do_handle_cylinder E d c dir s =
     (if io_base (drives s d) = 0 then Some (s, -ENODEV)
      else if fmt (drives s d) = None then Some (s, -EIO)
      else do {
        cmd \<leftarrow> (if dir = dma_dir_read then Some (CMD_READ_DATA OR 0xC0)
                else if dir = dma_dir_write then Some (CMD_WRITE_DATA OR 0xC0) else None);
        (s, ret) \<leftarrow> cmd_seek E d c s;
        if ret \<noteq> 0 then do { s \<leftarrow> dbg E (''handle_cylinder cmd_seek failed'' @ nl) [] s; Some (s, ret) }
        else do {
          (s, ret) \<leftarrow> cmd_read_id E ''handle_cylinder'' d s;
          if ret \<noteq> 0 then do {
            s \<leftarrow> (if cyl (drives s d) \<noteq> c
                  then dbg E (''handle_cylinder: wrong cyl, expected %u but drive is at %u'' @ nl) [ucast c, ucast (cyl (drives s d))] s
                  else Some s);
            Some (s, -1) }
          else cylinder_loop E d c dir cmd HANDLE_CYLINDER_RETRIES s
        } })"

definition handle_cylinder :: "'a fenv \<Rightarrow> nat \<Rightarrow> u8 \<Rightarrow> int \<Rightarrow> 'a fdc \<Rightarrow> ('a fdc \<times> int) option" where
  "handle_cylinder E d c dir s = do {
     (s, ret) \<leftarrow> do_handle_cylinder E d c dir s;
     if ret = 0 then Some (s, ret)
     else do {
       (s, ret) \<leftarrow> detect_media E d s;
       if ret \<noteq> 0 then Some (s, ret) else do_handle_cylinder E d c dir s
     }
   }"

abbreviation read_cyl :: "'a fenv \<Rightarrow> nat \<Rightarrow> u8 \<Rightarrow> 'a fdc \<Rightarrow> ('a fdc \<times> int) option" where
  "read_cyl E d c s \<equiv> handle_cylinder E d c dma_dir_read s"

abbreviation write_cyl :: "'a fenv \<Rightarrow> nat \<Rightarrow> u8 \<Rightarrow> 'a fdc \<Rightarrow> ('a fdc \<times> int) option" where
  "write_cyl E d c s \<equiv> handle_cylinder E d c dma_dir_write s"

section \<open>The block device and its cache\<close>

definition flop_block_count :: "'a fenv \<Rightarrow> nat \<Rightarrow> 'a fdc \<Rightarrow> ('a fdc \<times> int) option" where
  "flop_block_count E d s = do {
     s \<leftarrow> dbg E (''flop_block_count('' @ [CHR 0x27] @ ''%s'' @ [CHR 0x27] @ '')'' @ nl)
            [fd_str E ([''fd0'', ''fd1'', ''fd2'', ''fd3''] ! unat (num (drives s d)))] s;
     s \<leftarrow> check_media_changed E ''flop_block_count'' d s;
     s \<leftarrow> handle_drive_change E d s;
     if fmt (drives s d) = None then Some (s, -EIO)
     else do { f \<leftarrow> format_of d s; Some (s, uint (cyls f) * uint (heads f) * uint (sectors_per_track f)) }
   }"

definition flop_block_size :: "'a fenv \<Rightarrow> nat \<Rightarrow> 'a fdc \<Rightarrow> ('a fdc \<times> int) option" where
  "flop_block_size E d s = do {
     s \<leftarrow> dbg E (''flop_block_size('' @ [CHR 0x27] @ ''%s'' @ [CHR 0x27] @ '')'' @ nl)
            [fd_str E ([''fd0'', ''fd1'', ''fd2'', ''fd3''] ! unat (num (drives s d)))] s;
     s \<leftarrow> check_media_changed E ''flop_block_count'' d s;
     s \<leftarrow> handle_drive_change E d s;
     if fmt (drives s d) = None then Some (s, -EIO)
     else do { f \<leftarrow> format_of d s; Some (s, 128 * 2 ^ unat (sector_size f)) }
   }"

text \<open>The addresses the allocator returns are not checked; a write through a null pointer stops the machine.\<close>

primrec cache_init_loop :: "'a fenv \<Rightarrow> u32 \<Rightarrow> nat \<Rightarrow> 'a fdc \<Rightarrow> 'a fdc option" where
  "cache_init_loop E c 0 s = Some s"
| "cache_init_loop E c (Suc n) s = do {
     (s, q) \<leftarrow> g_kmalloc (fd_purge E) SIZEOF_CYLINDER s;
     if q = 0 then None
     else do {
       s \<leftarrow> Some (upd_cyl q (\<lambda>_. \<lparr>cy_data = 0, cy_num = -1, cy_flags = 0\<rparr>) s);
       s \<leftarrow> Some (s\<lparr>cyl_caches := (cyl_caches s)(c := (cyl_caches s c)\<lparr>lru_cyls := lru_cyls (cyl_caches s c) @ [q]\<rparr>)\<rparr>);
       cache_init_loop E c n s
     }
   }"

definition cyl_cache_init :: "'a fenv \<Rightarrow> u32 \<Rightarrow> nat \<Rightarrow> 'a fdc \<Rightarrow> ('a fdc \<times> u32) option" where
  "cyl_cache_init E bytes n_cyls s = do {
     (s, c) \<leftarrow> g_kmalloc (fd_purge E) SIZEOF_CYL_CACHE s;
     if c = 0 then None
     else do {
       s \<leftarrow> Some (s\<lparr>cyl_caches := (cyl_caches s)(c := \<lparr>lru_cyls = [], cyl_size = ucast bytes\<rparr>)\<rparr>);
       s \<leftarrow> cache_init_loop E c n_cyls s;
       Some (s, c)
     }
   }"

primrec cache_destroy_loop :: "'a fenv \<Rightarrow> u32 list \<Rightarrow> 'a fdc \<Rightarrow> 'a fdc option" where
  "cache_destroy_loop E [] s = Some s"
| "cache_destroy_loop E (q # qs) s = do {
     s \<leftarrow> purgeable_free (fd_purge E) (cy_data (cylinders s q)) s;
     s \<leftarrow> g_kfree (fd_purge E) q s;
     cache_destroy_loop E qs s
   }"

definition cyl_cache_destroy :: "'a fenv \<Rightarrow> u32 \<Rightarrow> 'a fdc \<Rightarrow> 'a fdc option" where
  "cyl_cache_destroy E c s = do {
     s \<leftarrow> cache_destroy_loop E (lru_cyls (cyl_caches s c)) s;
     g_kfree (fd_purge E) c s
   }"

definition on_cyl_purge :: "'a fenv \<Rightarrow> u32 \<Rightarrow> 'a fdc \<Rightarrow> 'a fdc option" where
  "on_cyl_purge E c s =
     (if cy_num (cylinders s c) < 0 then None
      else do {
        s \<leftarrow> dbg E (''cylinder %i purged, invalidating'' @ nl) [of_int (cy_num (cylinders s c))] s;
        Some (upd_cyl c (\<lambda>r. r\<lparr>cy_num := -1\<rparr>) s) })"

text \<open>The search of the cache, from the most recently used cylinder; \<open>Some p\<close> is a hit with its locked buffer.\<close>

primrec cache_scan :: "'a fenv \<Rightarrow> u32 \<Rightarrow> int \<Rightarrow> u32 list \<Rightarrow> 'a fdc \<Rightarrow> ('a fdc \<times> u32 option) option" where
  "cache_scan E c n [] s = Some (s, None)"
| "cache_scan E c n (q # qs) s =
     (if cy_data (cylinders s q) \<noteq> 0 \<and> cy_num (cylinders s q) = n
      then do {
        (s, locked, purged) \<leftarrow> purgeable_get (fd_purge E) (cy_data (cylinders s q)) s;
        if purged
        then do {
          s \<leftarrow> fd_log E (''floppy: cache hit on purged cylinder!'' @ nl) [] s;
          if cy_num (cylinders s q) \<noteq> -1 then None
          else do { s \<leftarrow> purgeable_put locked s; cache_scan E c n qs s }
        }
        else do {
          s \<leftarrow> dbg E (''cyl_cache: hit on cyl %i'' @ nl) [of_int (cy_num (cylinders s q))] s;
          Some (s\<lparr>cyl_caches := (cyl_caches s)(c := (cyl_caches s c)\<lparr>lru_cyls := remove1 q (lru_cyls (cyl_caches s c)) @ [q]\<rparr>)\<rparr>, Some locked)
        }
      }
      else cache_scan E c n qs s)"

definition cyl_cache_read :: "'a fenv \<Rightarrow> nat \<Rightarrow> int \<Rightarrow> 'a fdc \<Rightarrow> ('a fdc \<times> int \<times> u32) option" where
  "cyl_cache_read E d n s =
     (if n < 0 then Some (s, -EINVAL, 0)
      else do {
        s \<leftarrow> check_media_changed E ''sector_cache_read'' d s;
        s \<leftarrow> handle_drive_change E d s;
        if fmt (drives s d) = None then Some (s, -EIO, 0)
        else do {
          (s, bsz) \<leftarrow> flop_block_size E d s;
          f \<leftarrow> format_of d s;
          bytes \<leftarrow> Some (of_int bsz * ucast (sectors_per_track f) * ucast (heads f) :: u32);
          s \<leftarrow> (if fd_cache (drives s d) = 0
                then do { (s, c) \<leftarrow> cyl_cache_init E bytes CYLINDER_CACHE_CYLS s; Some (upd_drive d (\<lambda>r. r\<lparr>fd_cache := c\<rparr>) s) }
                else Some s);
          s \<leftarrow> (if ucast (cyl_size (cyl_caches s (fd_cache (drives s d)))) \<noteq> bytes
                then do {
                  s \<leftarrow> cyl_cache_destroy E (fd_cache (drives s d)) s;
                  (s, c) \<leftarrow> cyl_cache_init E bytes CYLINDER_CACHE_CYLS s;
                  Some (upd_drive d (\<lambda>r. r\<lparr>fd_cache := c\<rparr>) s) }
                else Some s);
          c \<leftarrow> Some (fd_cache (drives s d));
          (s, hit) \<leftarrow> cache_scan E c n (rev (lru_cyls (cyl_caches s c))) s;
          case hit of Some locked \<Rightarrow> Some (s, 0, locked)
          | None \<Rightarrow>
            (case lru_cyls (cyl_caches s c) of [] \<Rightarrow> None
             | miss # _ \<Rightarrow>
               if cy_flags (cylinders s miss) AND CYL_DIRTY \<noteq> 0 \<and> cy_data (cylinders s miss) \<noteq> 0 then None
               else do {
                 s \<leftarrow> (if cy_data (cylinders s miss) = 0
                       then do {
                         (s, p) \<leftarrow> purgeable_alloc (fd_purge E) (ucast (cyl_size (cyl_caches s c))) (fd_on_purge E) miss s;
                         Some (upd_cyl miss (\<lambda>r. r\<lparr>cy_data := p\<rparr>) s) }
                       else Some s);
                 (s, ret) \<leftarrow> (if n \<noteq> dma_buf_cyl s \<or> uint (num (drives s d)) \<noteq> dma_buf_drv s
                   then do {
                     s \<leftarrow> dbg E (''cyl_cache_read: dma cyl: %i, drv: %i, updating dma_buf'' @ nl) [of_int (dma_buf_cyl s), of_int (dma_buf_drv s)] s;
                     read_cyl E d (of_int n) s }
                   else Some (s, 0));
                 if ret \<noteq> 0 then Some (s, ret, 0)
                 else do {
                   s \<leftarrow> Some (s\<lparr>cyl_caches := (cyl_caches s)(c := (cyl_caches s c)\<lparr>lru_cyls := remove1 miss (lru_cyls (cyl_caches s c)) @ [miss]\<rparr>)\<rparr>);
                   s \<leftarrow> dbg E (''cylinder_cache: reusing cyl %i -> %i, cylinder_size: %u'' @ nl)
                          [of_int (cy_num (cylinders s miss)), of_int n, ucast (cyl_size (cyl_caches s c))] s;
                   (s, dst, _) \<leftarrow> purgeable_get (fd_purge E) (cy_data (cylinders s miss)) s;
                   s \<leftarrow> Some (s\<lparr>kmem := memcpy (kmem s) dst dma_buf (ucast (cyl_size (cyl_caches s c)))\<rparr>);
                   Some (upd_cyl miss (\<lambda>r. r\<lparr>cy_num := n\<rparr>) s, 0, dst)
                 }
               })
        } })"

definition flop_block_read :: "'a fenv \<Rightarrow> nat \<Rightarrow> u32 \<Rightarrow> u32 \<Rightarrow> 'a fdc \<Rightarrow> ('a fdc \<times> int) option" where
  "flop_block_read E d lba out s = do {
     s \<leftarrow> dbg E (''flop_block_read('' @ [CHR 0x27] @ ''%s'' @ [CHR 0x27] @ '', %u)'' @ nl)
            [fd_str E ([''fd0'', ''fd1'', ''fd2'', ''fd3''] ! unat (num (drives s d))), lba] s;
     if out = 0 then Some (s, -EINVAL)
     else do {
       s \<leftarrow> check_media_changed E ''flop_block_read'' d s;
       s \<leftarrow> handle_drive_change E d s;
       if fmt (drives s d) = None then Some (s, -EIO)
       else do {
         f \<leftarrow> format_of d s;
         c \<leftarrow> lba_to_cyl f (ucast lba);
         h \<leftarrow> lba_to_head f (ucast lba);
         sec \<leftarrow> lba_to_sector f (ucast lba);
         (s, ret, locked_buf) \<leftarrow> cyl_cache_read E d (sint (ucast c :: u8)) s;
         if ret \<noteq> 0 then Some (s, -EIO)
         else if locked_buf = 0 then None
         else do {
           (s, bsz) \<leftarrow> flop_block_size E d s;
           secbytes \<leftarrow> Some (of_int bsz :: u16);
           f \<leftarrow> format_of d s;
           track_bytes \<leftarrow> Some (ucast (sectors_per_track f) * secbytes :: u16);
           s \<leftarrow> Some (s\<lparr>kmem := memcpy (kmem s) out
                  (locked_buf + (ucast h * ucast track_bytes + ucast (sec - 1) * ucast secbytes)) (ucast secbytes)\<rparr>);
           s \<leftarrow> purgeable_put locked_buf s;
           Some (s, 0)
         }
       }
     }
   }"

section \<open>Probing\<close>

definition reset_drive :: "'a fenv \<Rightarrow> nat \<Rightarrow> 'a fdc \<Rightarrow> ('a fdc \<times> int) option" where
  "reset_drive E d s = do {
     s \<leftarrow> Some (write_dor d 0x00 s);
     s \<leftarrow> Some (write_dor d 0x0C s);
     (s, ret) \<leftarrow> wait_irq E s;
     if ret \<noteq> 0 then do { s \<leftarrow> dbg E (''probe reset on drv %i timed out'' @ nl) [ucast (num (drives s d))] s; Some (s, ret) }
     else do {
       (s, ret) \<leftarrow> send_byte E d CMD_SENSE_INTERRUPT s;
       if ret \<noteq> 0 then do { s \<leftarrow> dbg E (''CMD_SENSE_INTERRUPT %i'' @ nl) [0] s; Some (s, ret) }
       else do {
         (s, r0) \<leftarrow> read_byte E d s;
         if r0 < 0 then do { s \<leftarrow> dbg E (''sense loop iter %i st0 read'' @ nl) [0] s; Some (s, r0) }
         else do {
           (s, c) \<leftarrow> read_byte E d s;
           if c < 0 then do { s \<leftarrow> dbg E (''sense loop iter %i cylinder read'' @ nl) [0] s; Some (s, c) }
           else do {
             s \<leftarrow> dbg E (''probe sense %i: st0: %1h, cyl: %1h'' @ nl) [0, of_int r0, of_int c] s;
             (s, ret) \<leftarrow> send_byte E d CMD_SPECIFY s;
             if ret \<noteq> 0 then do { s \<leftarrow> dbg E (''CMD_SPECIFY'' @ nl) [] s; Some (s, ret) }
             else do {
               p \<leftarrow> params_of d s;
               (s, ret) \<leftarrow> send_byte E d (push_bit 4 (step_rate_time p) OR head_unload_time p) s;
               if ret \<noteq> 0 then do { s \<leftarrow> dbg E (''CMD_SPECIFY byte0'' @ nl) [] s; Some (s, ret) }
               else do {
                 (s, ret) \<leftarrow> send_byte E d (push_bit 1 (head_load_time p)) s;
                 if ret \<noteq> 0 then do { s \<leftarrow> dbg E (''CMD_SPECIFY byte1'' @ nl) [] s; Some (s, ret) }
                 else do {
                   (s, ret) \<leftarrow> cmd_recalibrate E d s;
                   Some (s, if ret \<noteq> 0 then -1 else 0)
                 }
               }
             }
           }
         }
       }
     }
   }"

text \<open>
  One drive of the loop of \<open>probe\<close>. The loop over the controllers leaves in its first round, so only the
  port at 0x3F0 is tried. A drive type above 5 indexes past the end of the table of names.
\<close>

definition probe_drive :: "'a fenv \<Rightarrow> nat \<Rightarrow> 'a fdc \<Rightarrow> 'a fdc option" where
  "probe_drive E i s = do {
     (s, type) \<leftarrow> cmos_fd_type (fd_dev E) (of_nat i) s;
     if type = 0 then Some s
     else if 5 < type then None
     else do {
       s \<leftarrow> Some (upd_drive i (\<lambda>r. r\<lparr>fd_type := type, num := of_nat i, io_base := 0x3F0\<rparr>) s);
       (s, ret) \<leftarrow> reset_drive E i s;
       s \<leftarrow> Some (if ret \<noteq> 0 then upd_drive i (\<lambda>r. r\<lparr>io_base := 0\<rparr>) s else s);
       s \<leftarrow> fd_register E i s;
       if io_base (drives s i) = 0 then Some s
       else fd_log E (''floppy: /dev/%s: %s[%i] detected at %2h'' @ nl)
              [fd_str E ([''fd0'', ''fd1'', ''fd2'', ''fd3''] ! i), fd_str E ([''N/A'', ''5.25'' @ [CHR 0x22] @ '' 360K'',
                 ''5.25'' @ [CHR 0x22] @ '' 1.2M'', ''3.5'' @ [CHR 0x22] @ '' 720K'', ''3.5'' @ [CHR 0x22] @ '' 1.44M'',
                 ''3.5'' @ [CHR 0x22] @ '' 2.88M''] ! unat type), ucast type, ucast (io_base (drives s i))] s
     }
   }"

definition floppy_probe :: "'a fenv \<Rightarrow> 'a fdc \<Rightarrow> ('a fdc \<times> int) option" where
  "floppy_probe E s = do {
     s \<leftarrow> Some (s\<lparr>s_verbose := False\<rparr>);
     (s, ret) \<leftarrow> attach_irq (fd_alloc E) (IRQ0_OFFSET + 6) (fd_irq E) ''floppy'' s;
     if ret \<noteq> 0 \<and> \<not> s_debug_probe_run s
     then do { s \<leftarrow> fd_log E (''floppy: failed to attach irq %i'' @ nl) [IRQ0_OFFSET + 6] s; Some (s, ret) }
     else do {
       s \<leftarrow> Some (s\<lparr>s_debug_probe_run := True\<rparr>);
       s \<leftarrow> probe_drive E 0 s;
       s \<leftarrow> probe_drive E 1 s;
       Some (s, 0)
     }
   }"

end
