(* ===== verification/Fdc.thy ===== *)
theory Fdc
  imports Floppy
begin

text \<open>
  The commands of \<open>kernel/drivers/floppy.c\<close>: which controller status \<open>check_error\<close> accepts, and that a seek
  returns whatever the controller answers, because every wait is bounded and every loop has a retry count.
\<close>

section \<open>The status of a command\<close>

lemma and_or_zero: "(v :: u8) AND (a OR b) = 0 \<longleftrightarrow> v AND a = 0 \<and> v AND b = 0"
  by (auto simp: bit_eq_iff bit_simps)

lemma check_flag_quiet:
  "\<not> s_verbose s \<Longrightarrow> check_flag E v bits msg ok s = (if v AND bits = 0 \<or> ok then Some s else None)"
  by (simp add: check_flag_def dbg_def)

lemma bind_if_None: "((if P then Some x else None) \<bind> f) = (if P then f x else None)"
  by simp

lemma status_masks:
  "r1 AND 0xB7 = 0 \<longleftrightarrow> r1 AND 0x80 = 0 \<and> r1 AND 0x20 = 0 \<and> r1 AND 0x10 = 0 \<and> r1 AND 0x04 = 0 \<and> r1 AND 0x02 = 0 \<and> r1 AND (0x01 :: u8) = 0"
  "r2 AND 0x77 = 0 \<longleftrightarrow> r2 AND 0x40 = 0 \<and> r2 AND 0x20 = 0 \<and> r2 AND 0x10 = 0 \<and> r2 AND 0x04 = 0 \<and> r2 AND 0x02 = 0 \<and> r2 AND (0x01 :: u8) = 0"
proof -
  have "(0xB7 :: u8) = 0x80 OR 0x20 OR 0x10 OR 0x04 OR 0x02 OR 0x01" "(0x77 :: u8) = 0x40 OR 0x20 OR 0x10 OR 0x04 OR 0x02 OR 0x01"
    by simp_all
  then show
    "r1 AND 0xB7 = 0 \<longleftrightarrow> r1 AND 0x80 = 0 \<and> r1 AND 0x20 = 0 \<and> r1 AND 0x10 = 0 \<and> r1 AND 0x04 = 0 \<and> r1 AND 0x02 = 0 \<and> r1 AND (0x01 :: u8) = 0"
    "r2 AND 0x77 = 0 \<longleftrightarrow> r2 AND 0x40 = 0 \<and> r2 AND 0x20 = 0 \<and> r2 AND 0x10 = 0 \<and> r2 AND 0x04 = 0 \<and> r2 AND 0x02 = 0 \<and> r2 AND (0x01 :: u8) = 0"
    by (simp_all only: and_or_zero)
qed

text \<open>
  C0. \<open>check_error\<close> reports success for exactly the status bytes of a completed command: the normal interrupt
  code and a ready drive that is the one addressed, no error bit in ST1 or ST2, and the sector size of the detected
  format. It then changes nothing. Every other status is reported as an error or stops the machine.
\<close>

theorem check_error_ok:
  assumes "\<not> s_verbose s"
  shows "check_error E cmd d r0 r1 r2 ret_bps s = Some (s', 0) \<longleftrightarrow>
     s' = s \<and> (\<exists>f. format_of d s = Some f \<and> ret_bps = sector_size f) \<and>
     r0 AND 0xC0 = 0 \<and> r0 AND 0x08 = 0 \<and> r0 AND 0x03 = num (drives s d) \<and> r1 AND 0xB7 = 0 \<and> r2 AND 0x77 = 0"
proof -
  have dump: "dump_st0_status E cmd r0 s = Some s" using assms by (simp add: dump_st0_status_def dbg_def)
  have dbg: "dbg E m a s = Some s" for m a using assms by (simp add: dbg_def)
  show ?thesis
    unfolding check_error_def status_masks check_flag_quiet [OF assms] dump
    using assms
    by (cases "r0 AND 0xC0 = 0"; cases "r0 AND 0x08 = 0"; cases "r0 AND 0x03 = num (drives s d)"; cases "r1 AND 0x02 = 0"; cases "format_of d s";
        simp add: dbg check_flag_quiet bind_if_None; fastforce)
qed

text \<open>An environment in which nothing else runs.\<close>

definition fd_quiet :: "fdc_state fd_env" where
  "fd_quiet = \<lparr>fd_dev = \<lambda>_ _. 0, fd_sleep = \<lambda>_. Some, fd_log = \<lambda>_ _. Some, fd_str = \<lambda>_. 0,
     fd_purge = \<lparr>g_kmalloc = \<lambda>_ _. None, g_kfree = \<lambda>_ _. None, g_call = \<lambda>_ _ _. None, g_others = \<lambda>_. None\<rparr>,
     fd_spawn = \<lambda>_ _ s. Some (s, 1), fd_alloc = \<lambda>_. None, fd_register = \<lambda>_. Some, fd_on_purge = 0, fd_irq = Do_default\<rparr>"

abbreviation fd_144 :: floppy_drive where
  "fd_144 \<equiv> \<lparr>fd_type = 4, io_base = 0x3F0, motor_ms = 0, motor = fd_mot_off, fmt = Some 7, fd_cache = 0x1000,
     detect_idx = 0, num = 0, cyl = 5, st0 = 0, timer = 0\<rparr>"

theorem check_error_ok_witness:
  "\<forall>s :: fdc_state. check_error fd_quiet ''read'' 0 0x20 0 0 2 (s\<lparr>s_verbose := False, drives := \<lambda>_. fd_144\<rparr>) =
     Some (s\<lparr>s_verbose := False, drives := \<lambda>_. fd_144\<rparr>, 0)"
  by (intro allI, subst check_error_ok) (simp_all add: format_of_def floppy_formats_def)

section \<open>Commands return\<close>

text \<open>
  What the driver relies on: sleeping, logging and creating a task return, and what happens meanwhile
  (interrupts, the motor's task) leaves a drive alone except for the motor and its timer. \<open>ok\<close> is any
  property of the state that the driver's own steps keep.
\<close>

definition settled :: "floppy_drive \<Rightarrow> floppy_drive" where
  "settled r = r\<lparr>motor_ms := 0, motor := fd_mot_off, timer := 0\<rparr>"

definition same_drives :: "'a fdc \<Rightarrow> 'a fdc \<Rightarrow> bool" where
  "same_drives s s' \<longleftrightarrow> (\<forall>d. settled (drives s' d) = settled (drives s d))"

definition fd_services :: "'a fenv \<Rightarrow> ('a fdc \<Rightarrow> bool) \<Rightarrow> bool" where
  "fd_services E ok \<longleftrightarrow>
     (\<forall>ms s. ok s \<longrightarrow> (\<exists>s'. fd_sleep E ms s = Some s' \<and> ok s' \<and> same_drives s s')) \<and>
     (\<forall>m a s. ok s \<longrightarrow> (\<exists>s'. fd_log E m a s = Some s' \<and> ok s' \<and> same_drives s s')) \<and>
     (\<forall>d n s. ok s \<longrightarrow> (\<exists>s' t. fd_spawn E d n s = Some (s', t) \<and> ok s' \<and> same_drives s s')) \<and>
     (\<forall>s l. ok s \<longrightarrow> ok (s\<lparr>io_log := l\<rparr>)) \<and> (\<forall>s n. ok s \<longrightarrow> ok (s\<lparr>floppy_interrupts := n\<rparr>)) \<and>
     (\<forall>s f. ok s \<longrightarrow> ok (s\<lparr>drives := f\<rparr>))"

lemma same_drives_refl [simp]: "same_drives s s" "same_drives s (s\<lparr>io_log := l\<rparr>)" "same_drives s (s\<lparr>floppy_interrupts := n\<rparr>)"
  by (simp_all add: same_drives_def)

lemma same_drives_trans [trans]: "same_drives s t \<Longrightarrow> same_drives t u \<Longrightarrow> same_drives s u"
  by (simp add: same_drives_def)

lemma same_drives_fields:
  assumes "same_drives s s'"
  shows "fd_type (drives s' d) = fd_type (drives s d)" "num (drives s' d) = num (drives s d)" "fmt (drives s' d) = fmt (drives s d)"
    "cyl (drives s' d) = cyl (drives s d)" "st0 (drives s' d) = st0 (drives s d)" "io_base (drives s' d) = io_base (drives s d)"
proof -
  have e: "settled (drives s' d) = settled (drives s d)" using assms by (simp add: same_drives_def)
  show "fd_type (drives s' d) = fd_type (drives s d)" using arg_cong [OF e, of fd_type] by (simp add: settled_def)
  show "num (drives s' d) = num (drives s d)" using arg_cong [OF e, of num] by (simp add: settled_def)
  show "fmt (drives s' d) = fmt (drives s d)" using arg_cong [OF e, of fmt] by (simp add: settled_def)
  show "cyl (drives s' d) = cyl (drives s d)" using arg_cong [OF e, of cyl] by (simp add: settled_def)
  show "st0 (drives s' d) = st0 (drives s d)" using arg_cong [OF e, of st0] by (simp add: settled_def)
  show "io_base (drives s' d) = io_base (drives s d)" using arg_cong [OF e, of io_base] by (simp add: settled_def)
qed

lemma sleeps: "fd_services E ok \<Longrightarrow> ok s \<Longrightarrow> \<exists>s'. fd_sleep E ms s = Some s' \<and> ok s' \<and> same_drives s s'"
  unfolding fd_services_def by blast

lemma logs: "fd_services E ok \<Longrightarrow> ok s \<Longrightarrow> \<exists>s'. fd_log E m a s = Some s' \<and> ok s' \<and> same_drives s s'"
  unfolding fd_services_def by blast

lemma spawns: "fd_services E ok \<Longrightarrow> ok s \<Longrightarrow> \<exists>s' t. fd_spawn E d n s = Some (s', t) \<and> ok s' \<and> same_drives s s'"
  unfolding fd_services_def by blast

lemma ok_steps:
  assumes "fd_services E ok" "ok s"
  shows "ok (s\<lparr>io_log := l\<rparr>)" "ok (s\<lparr>floppy_interrupts := n\<rparr>)" "ok (s\<lparr>drives := f\<rparr>)"
  using assms unfolding fd_services_def by blast+

lemma ports:
  assumes "fd_services E ok" "ok s"
  shows "ok (io_out8 p v s)" "ok (io_wait s)" "same_drives s (io_out8 p v s)" "same_drives s (io_wait s)"
  using ok_steps(1) [OF assms] by (simp_all add: io_out8_def io_wait_def)

lemma dbg_returns: "fd_services E ok \<Longrightarrow> ok s \<Longrightarrow> \<exists>s'. dbg E m a s = Some s' \<and> ok s' \<and> same_drives s s'"
  using logs by (auto simp: dbg_def)

lemma wait_irq_returns:
  "fd_services E ok \<Longrightarrow> ok s \<Longrightarrow> \<exists>s' r. wait_irq_loop E n s = Some (s', r) \<and> ok s' \<and> same_drives s s'"
proof (induction n arbitrary: s)
  case (Suc n)
  obtain t where t: "fd_sleep E 10 s = Some t" "ok t" "same_drives s t" using sleeps [OF Suc.prems] by blast
  show ?case
  proof (cases "floppy_interrupts s \<le> 0 \<and> n \<noteq> 0")
    case True
    from Suc.IH [OF Suc.prems(1) t(2)] show ?thesis using t same_drives_trans [OF t(3)] True by auto
  next
    case False
    then show ?thesis using t ok_steps(2) [OF Suc.prems] Suc.prems(2) by auto
  qed
qed simp

lemma in8_frame:
  assumes "fd_services E ok" "ok s"
  shows "ok (fst (io_in8 dev p s))" "same_drives s (fst (io_in8 dev p s))" "drives (fst (io_in8 dev p s)) = drives s"
  using ok_steps(1) [OF assms] by (simp_all add: io_in8_def Let_def)

lemma wait_for_ready_returns:
  "fd_services E ok \<Longrightarrow> ok s \<Longrightarrow> \<exists>s' r. wait_for_ready E d w n s = Some (s', r) \<and> ok s' \<and> same_drives s s'"
proof (induction n arbitrary: s)
  case (Suc n)
  obtain i v where i: "io_in8 (fd_dev E) (io_base (drives s d) + IO_OFF_MSR) s = (i, v)" by (cases "io_in8 (fd_dev E) (io_base (drives s d) + IO_OFF_MSR) s")
  note f = in8_frame(1,2) [OF Suc.prems, of "fd_dev E" "io_base (drives s d) + IO_OFF_MSR", unfolded i fst_conv]
  obtain t where t: "fd_sleep E 10 i = Some t" "ok t" "same_drives i t" using sleeps [OF Suc.prems(1) f(1)] by blast
  show ?case
  proof (cases "v AND 0xC0 = w")
    case False
    obtain u r where u: "wait_for_ready E d w n t = Some (u, r)" "ok u" "same_drives t u" using Suc.IH [OF Suc.prems(1) t(2)] by blast
    have "same_drives s u" by (rule same_drives_trans [OF same_drives_trans [OF f(2) t(3)] u(3)])
    then show ?thesis using i False t u by auto
  qed (use i f in auto)
qed simp

lemma send_byte_returns:
  assumes "fd_services E ok" "ok s"
  shows "\<exists>s' r. send_byte E d b s = Some (s', r) \<and> ok s' \<and> same_drives s s'"
proof -
  obtain t r where t: "wait_for_ready_write E d s = Some (t, r)" "ok t" "same_drives s t" using wait_for_ready_returns [OF assms] by blast
  obtain u where u: "dbg E (''send was never ready'' @ nl) [] t = Some u" "ok u" "same_drives t u" using dbg_returns [OF assms(1) t(2)] by blast
  let ?o = "io_out8 (io_base (drives t d) + IO_OFF_FIFO) b t"
  note o = ports(1,3) [OF assms(1) t(2), of "io_base (drives t d) + IO_OFF_FIFO" b]
  note w = ports(2,4) [OF assms(1) o(1)]
  show ?thesis
    using t(1) u(1,2) w(1) same_drives_trans [OF t(3) u(3)] same_drives_trans [OF same_drives_trans [OF t(3) o(2)] w(2)]
    by (cases "r < 0") (auto simp: send_byte_def)
qed

lemma read_byte_returns:
  assumes "fd_services E ok" "ok s"
  shows "\<exists>s' r. read_byte E d s = Some (s', r) \<and> ok s' \<and> same_drives s s'"
proof -
  obtain t r where t: "wait_for_ready_read E d s = Some (t, r)" "ok t" "same_drives s t" using wait_for_ready_returns [OF assms] by blast
  obtain u where u: "dbg E (''read was never ready'' @ nl) [] t = Some u" "ok u" "same_drives t u" using dbg_returns [OF assms(1) t(2)] by blast
  obtain i v where i: "io_in8 (fd_dev E) (io_base (drives t d) + IO_OFF_FIFO) t = (i, v)" by (cases "io_in8 (fd_dev E) (io_base (drives t d) + IO_OFF_FIFO) t")
  note f = in8_frame(1,2) [OF assms(1) t(2), of "fd_dev E" "io_base (drives t d) + IO_OFF_FIFO", unfolded i fst_conv]
  note w = ports(2,4) [OF assms(1) f(1)]
  show ?thesis
    using t(1) u(1,2) i w(1) same_drives_trans [OF t(3) u(3)] same_drives_trans [OF same_drives_trans [OF t(3) f(2)] w(2)]
    by (cases "r < 0") (auto simp: read_byte_def)
qed

text \<open>A drive the motor commands accept.\<close>

definition drive_ok :: "nat \<Rightarrow> 'a fdc \<Rightarrow> bool" where
  "drive_ok d s \<longleftrightarrow> num (drives s d) < 2 \<and> fd_type (drives s d) < 6"

lemma drive_ok_same: "same_drives s s' \<Longrightarrow> drive_ok d s' = drive_ok d s"
  by (simp add: drive_ok_def same_drives_fields)

lemma params_defined: "drive_ok d s \<Longrightarrow> params_of d s = Some (drive_types ! unat (fd_type (drives s d)))"
  by (simp add: drive_ok_def params_of_def drive_types_def word_less_nat_alt)

lemma drive_num: "drive_ok d s \<Longrightarrow> num (drives s d) = 0 \<or> num (drives s d) = 1"
proof -
  assume "drive_ok d s"
  then have "unat (num (drives s d)) = 0 \<or> unat (num (drives s d)) = 1" by (auto simp: drive_ok_def word_less_nat_alt)
  then show ?thesis by (metis unat_0 unat_1 word_unat_eq_iff)
qed

lemma motor_direct_returns:
  assumes "fd_services E ok" "ok s" "drive_ok d s"
  shows "\<exists>s'. motor_set_direct d on s = Some s' \<and> ok s' \<and> same_drives s s'"
proof -
  have "ok (write_dor d b s) \<and> same_drives s (write_dor d b s)" for b
    using ports(1,3) [OF assms(1,2), of "io_base (drives s d) + IO_OFF_DOR" b] ports(2,4) [OF assms(1)] same_drives_trans by blast
  then show ?thesis using drive_num [OF assms(3)] by (auto simp: motor_set_direct_def)
qed

lemma same_drives_motor:
  assumes "\<And>r. settled (f r) = settled r"
  shows "same_drives s (upd_drive d f s)"
  using assms by (simp add: same_drives_def)

lemma motor_on_returns:
  assumes "fd_services E ok" "ok s" "drive_ok d s"
  shows "\<exists>s'. motor_set E c d True s = Some s' \<and> ok s' \<and> same_drives s s'"
proof -
  obtain t where t: "motor_set_direct d True s = Some t" "ok t" "same_drives s t" using motor_direct_returns [OF assms] by blast
  have p: "params_of d t = Some (drive_types ! unat (fd_type (drives t d)))"
    using params_defined drive_ok_same [OF t(3)] assms(3) by blast
  obtain u where u: "fd_sleep E (ucast (spinup_ms (drive_types ! unat (fd_type (drives t d))))) t = Some u" "ok u" "same_drives t u"
    using sleeps [OF assms(1) t(2)] by blast
  have on: "ok (upd_drive d (\<lambda>r. r\<lparr>motor := fd_mot_on\<rparr>) v) \<and> same_drives v (upd_drive d (\<lambda>r. r\<lparr>motor := fd_mot_on\<rparr>) v)" if "ok v" for v
    using ok_steps(3) [OF assms(1) that] same_drives_motor [of "\<lambda>r. r\<lparr>motor := fd_mot_on\<rparr>"] by (simp add: settled_def)
  show ?thesis
    using on [OF u(2)] on [OF assms(2)] t(1) p u(1) same_drives_trans [OF same_drives_trans [OF t(3) u(3)]]
    by (cases "motor (drives s d) = fd_mot_off") (auto simp: motor_set_def)
qed

lemma motor_off_returns:
  assumes "fd_services E ok" "ok s" "drive_ok d s"
  shows "\<exists>s'. motor_set E c d False s = Some s' \<and> ok s' \<and> same_drives s s'"
proof -
  obtain t where t: "(if motor (drives s d) = fd_mot_timeout
        then fd_log E (''%s tried turning drive %i motor off while it was timing out'' @ nl) [fd_str E c, ucast (num (drives s d))] s
        else Some s) = Some t" "ok t" "same_drives s t"
    using logs [OF assms(1,2)] assms(2) by (cases "motor (drives s d) = fd_mot_timeout") auto
  define p where "p = drive_types ! unat (fd_type (drives t d))"
  have p: "params_of d t = Some p" unfolding p_def using params_defined drive_ok_same [OF t(3)] assms(3) by blast
  define u where "u = upd_drive d (\<lambda>r. r\<lparr>motor_ms := motor_timeout_ms p, motor := fd_mot_timeout\<rparr>) t"
  have u: "ok u" "same_drives t u"
    using ok_steps(3) [OF assms(1) t(2)] same_drives_motor [of "\<lambda>r. r\<lparr>motor_ms := motor_timeout_ms p, motor := fd_mot_timeout\<rparr>"]
    by (simp_all add: u_def settled_def)
  have tm: "timer (drives t d) = timer (drives u d)" by (simp add: u_def)
  have n: "unat (num (drives u d)) < 4" using drive_num [of d s] assms(3) t(3) u(2) by (auto simp: same_drives_fields)
  obtain v i where v: "fd_spawn E d ([''fd0_timeout'', ''fd1_timeout'', ''fd2_timeout'', ''fd3_timeout''] ! unat (num (drives u d))) u = Some (v, i)"
    "ok v" "same_drives u v" using spawns [OF assms(1) u(1)] by blast
  have w: "ok (upd_drive d (\<lambda>r. r\<lparr>timer := i\<rparr>) v)" "same_drives v (upd_drive d (\<lambda>r. r\<lparr>timer := i\<rparr>) v)"
    using ok_steps(3) [OF assms(1) v(2)] same_drives_motor [of "\<lambda>r. r\<lparr>timer := i\<rparr>"] by (simp_all add: settled_def)
  have "motor_set E c d False s = (if timer (drives u d) = 0 then Some (upd_drive d (\<lambda>r. r\<lparr>timer := i\<rparr>) v) else Some u)"
    unfolding motor_set_def using t(1) p n v(1) tm by (simp add: u_def [symmetric])
  then show ?thesis
    using u(1) w(1) same_drives_trans [OF t(3) u(2)] same_drives_trans [OF same_drives_trans [OF same_drives_trans [OF t(3) u(2)] v(3)] w(2)]
    by (cases "timer (drives u d) = 0") auto
qed

text \<open>A command on drive \<open>d\<close> changes its position and status, and nothing else but motors.\<close>

definition kept :: "nat \<Rightarrow> 'a fdc \<Rightarrow> 'a fdc \<Rightarrow> bool" where
  "kept d s s' \<longleftrightarrow> (\<forall>e. settled (drives s' e)\<lparr>cyl := (if e = d then 0 else cyl (drives s' e)), st0 := (if e = d then 0 else st0 (drives s' e))\<rparr>
     = settled (drives s e)\<lparr>cyl := (if e = d then 0 else cyl (drives s e)), st0 := (if e = d then 0 else st0 (drives s e))\<rparr>)"

lemma kept_same: "same_drives s s' \<Longrightarrow> kept d s s'"
  unfolding kept_def by (simp add: same_drives_fields) (simp add: same_drives_def)

lemma kept_trans [trans]: "kept d s t \<Longrightarrow> kept d t u \<Longrightarrow> kept d s u"
  by (simp add: kept_def)

lemma kept_position: "kept d s (upd_drive d (\<lambda>r. r\<lparr>cyl := c\<rparr>) s)" "kept d s (upd_drive d (\<lambda>r. r\<lparr>st0 := c\<rparr>) s)"
  by (simp_all add: kept_def settled_def)

lemma kept_fields:
  assumes "kept d s s'"
  shows "fd_type (drives s' d) = fd_type (drives s d)" "num (drives s' d) = num (drives s d)" "fmt (drives s' d) = fmt (drives s d)"
proof -
  have e: "settled (drives s' d)\<lparr>cyl := 0, st0 := 0\<rparr> = settled (drives s d)\<lparr>cyl := 0, st0 := 0\<rparr>"
    using assms [unfolded kept_def, rule_format, of d] by simp
  show "fd_type (drives s' d) = fd_type (drives s d)" using arg_cong [OF e, of fd_type] by (simp add: settled_def)
  show "num (drives s' d) = num (drives s d)" using arg_cong [OF e, of num] by (simp add: settled_def)
  show "fmt (drives s' d) = fmt (drives s d)" using arg_cong [OF e, of fmt] by (simp add: settled_def)
qed

lemma drive_ok_kept: "kept d s s' \<Longrightarrow> drive_ok d s' = drive_ok d s"
  by (simp add: drive_ok_def kept_fields)

lemma sense_returns:
  assumes "fd_services E ok" "ok s"
  shows "\<exists>s'. cmd_sense_interrupt E c d s = Some s' \<and> ok s' \<and> kept d s s'"
proof -
  obtain t r where t: "send_byte E d CMD_SENSE_INTERRUPT s = Some (t, r)" "ok t" "kept d s t"
    using send_byte_returns [OF assms] kept_same by blast
  obtain t' where t': "dbg E (''%s sense_interrupt: CMD_SENSE_INTERRUPT'' @ nl) [fd_str E c] t = Some t'" "ok t'" "kept d t t'"
    using dbg_returns [OF assms(1) t(2)] kept_same by blast
  obtain u v where u: "read_byte E d t = Some (u, v)" "ok u" "kept d t u"
    using read_byte_returns [OF assms(1) t(2)] kept_same by blast
  obtain u' where u': "dbg E (''%s: sense_interrupt read st0 returned %i'' @ nl) [fd_str E c, of_int v] u = Some u'" "ok u'" "kept d u u'"
    using dbg_returns [OF assms(1) u(2)] kept_same by blast
  let ?w = "upd_drive d (\<lambda>r. r\<lparr>st0 := of_int v\<rparr>) u"
  have w: "ok ?w" "kept d u ?w" using ok_steps(3) [OF assms(1) u(2)] kept_position(2) by blast+
  obtain x y where x: "read_byte E d ?w = Some (x, y)" "ok x" "kept d ?w x"
    using read_byte_returns [OF assms(1) w(1)] kept_same by blast
  obtain x' where x': "dbg E (''%s: sense_interrupt: read pcn returned %i'' @ nl) [fd_str E c, of_int y] x = Some x'" "ok x'" "kept d x x'"
    using dbg_returns [OF assms(1) x(2)] kept_same by blast
  let ?z = "upd_drive d (\<lambda>r. r\<lparr>cyl := of_int y\<rparr>) x"
  have z: "ok ?z" "kept d x ?z" using ok_steps(3) [OF assms(1) x(2)] kept_position(1) by blast+
  note ku = kept_trans [OF t(3) u(3)]
  note kx = kept_trans [OF kept_trans [OF ku w(2)] x(3)]
  consider "r \<noteq> 0" | "r = 0" "v < 0" | "r = 0" "\<not> v < 0" "y < 0" | "r = 0" "\<not> v < 0" "\<not> y < 0" by blast
  then show ?thesis
  proof cases
    case 1 then show ?thesis using t t' kept_trans [OF t(3) t'(3)] by (simp add: cmd_sense_interrupt_def)
  next
    case 2 then show ?thesis using t u u' kept_trans [OF ku u'(3)] by (simp add: cmd_sense_interrupt_def)
  next
    case 3 then show ?thesis using t u x x' kept_trans [OF kx x'(3)] by (simp add: cmd_sense_interrupt_def)
  next
    case 4 then show ?thesis using t u x z kept_trans [OF kx z(2)] by (simp add: cmd_sense_interrupt_def)
  qed
qed

lemma dump_returns: "fd_services E ok \<Longrightarrow> ok s \<Longrightarrow> \<exists>s'. dump_st0_status E c v s = Some s' \<and> ok s' \<and> same_drives s s'"
  using dbg_returns by (auto simp: dump_st0_status_def)

text \<open>A failed step of a command stops the motor and returns the error.\<close>

lemma fail_returns:
  assumes "fd_services E ok" "ok s" "drive_ok d s"
  obtains v where "dbg E m a s \<bind> (\<lambda>s. motor_set E c d False s \<bind> (\<lambda>s. Some (s, r))) = Some (v, r)" "ok v" "kept d s v"
proof -
  obtain t where t: "dbg E m a s = Some t" "ok t" "same_drives s t" using dbg_returns [OF assms(1,2)] by blast
  obtain u where u: "motor_set E c d False t = Some u" "ok u" "same_drives t u"
    using motor_off_returns [OF assms(1) t(2)] drive_ok_same [OF t(3)] assms(3) by blast
  show ?thesis using t u kept_same [OF same_drives_trans [OF t(3) u(3)]] by (intro that [of u]) simp_all
qed

lemma send_byte_kept:
  assumes "fd_services E ok" "ok s" "drive_ok d s"
  obtains t r where "send_byte E d b s = Some (t, r)" "ok t" "kept d s t" "drive_ok d t"
  using send_byte_returns [OF assms(1,2)] kept_same drive_ok_same assms(3) by blast

lemma wait_irq_kept:
  assumes "fd_services E ok" "ok s" "drive_ok d s"
  obtains t r where "wait_irq E s = Some (t, r)" "ok t" "kept d s t" "drive_ok d t"
  using wait_irq_returns [OF assms(1,2)] kept_same drive_ok_same assms(3) by blast

lemma sense_kept:
  assumes "fd_services E ok" "ok s" "drive_ok d s"
  obtains t u where "cmd_sense_interrupt E c d s = Some t" "dump_st0_status E c' (st0 (drives t d)) t = Some u" "ok u" "kept d s u"
    "drive_ok d u" "st0 (drives u d) = st0 (drives t d)"
proof -
  obtain t where t: "cmd_sense_interrupt E c d s = Some t" "ok t" "kept d s t" using sense_returns [OF assms(1,2)] by blast
  obtain u where u: "dump_st0_status E c' (st0 (drives t d)) t = Some u" "ok u" "same_drives t u" using dump_returns [OF assms(1) t(2)] by blast
  have k: "kept d s u" by (rule kept_trans [OF t(3) kept_same [OF u(3)]])
  show ?thesis using that [OF t(1) u(1,2) k] drive_ok_kept [OF k] assms(3) same_drives_fields(5) [OF u(3)] by blast
qed

text \<open>One round of a seek: an error, or a new position.\<close>

lemma seek_round:
  assumes sv: "fd_services E ok" and "ok s" "drive_ok d s"
  shows "(\<exists>v r. r \<noteq> 0 \<and> seek_loop E d h c rt (Suc n) s = Some (v, r) \<and> ok v \<and> kept d s v) \<or>
    (\<exists>t. ok t \<and> kept d s t \<and> drive_ok d t \<and> seek_loop E d h c rt (Suc n) s =
       (if st0 (drives t d) AND 0xC0 \<noteq> 0 then seek_loop E d h c rt n t
        else if cyl (drives t d) = c then motor_set E ''cmd_seek_internal'' d False t \<bind> (\<lambda>s. Some (s, 0))
        else seek_loop E d h c rt n t))"
proof -
  obtain t0 r0 where t0: "send_byte E d CMD_SEEK s = Some (t0, r0)" "ok t0" "kept d s t0" "drive_ok d t0"
    by (rule send_byte_kept [OF assms])
  obtain t1 r1 where t1: "send_byte E d (push_bit 2 h OR num (drives t0 d)) t0 = Some (t1, r1)" "ok t1" "kept d t0 t1" "drive_ok d t1"
    by (rule send_byte_kept [OF sv t0(2,4)])
  obtain t2 r2 where t2: "send_byte E d c t1 = Some (t2, r2)" "ok t2" "kept d t1 t2" "drive_ok d t2"
    by (rule send_byte_kept [OF sv t1(2,4)])
  obtain t3 r3 where t3: "wait_irq E t2 = Some (t3, r3)" "ok t3" "kept d t2 t3" "drive_ok d t3"
    by (rule wait_irq_kept [OF sv t2(2,4)])
  obtain t4 t5 where t5: "cmd_sense_interrupt E ''cmd_seek'' d t3 = Some t4" "dump_st0_status E ''seek_internal'' (st0 (drives t4 d)) t4 = Some t5"
    "ok t5" "kept d t3 t5" "drive_ok d t5" "st0 (drives t5 d) = st0 (drives t4 d)" by (rule sense_kept [OF sv t3(2,4)])
  obtain v0 where v0: "dbg E (''CMD_SEEK returned %i'' @ nl) [of_int r0] t0 \<bind> (\<lambda>s. motor_set E ''cmd_seek_internal'' d False s \<bind> (\<lambda>s. Some (s, r0))) = Some (v0, r0)"
    "ok v0" "kept d t0 v0" by (rule fail_returns [OF sv t0(2,4)])
  obtain v1 where v1: "dbg E (''head+drivenum returned %i'' @ nl) [of_int r1] t1 \<bind> (\<lambda>s. motor_set E ''cmd_seek_internal'' d False s \<bind> (\<lambda>s. Some (s, r1))) = Some (v1, r1)"
    "ok v1" "kept d t1 v1" by (rule fail_returns [OF sv t1(2,4)])
  obtain v2 where v2: "dbg E (''cyl returned %i'' @ nl) [of_int r2] t2 \<bind> (\<lambda>s. motor_set E ''cmd_seek_internal'' d False s \<bind> (\<lambda>s. Some (s, r2))) = Some (v2, r2)"
    "ok v2" "kept d t2 v2" by (rule fail_returns [OF sv t2(2,4)])
  obtain v3 where v3: "dbg E (''cmd_seek wait_irq() returned %i'' @ nl) [of_int r3] t3 \<bind> (\<lambda>s. motor_set E ''cmd_seek_internal'' d False s \<bind> (\<lambda>s. Some (s, r3))) = Some (v3, r3)"
    "ok v3" "kept d t3 v3" by (rule fail_returns [OF sv t3(2,4)])
  note k = t0(3) kept_trans [OF t0(3) t1(3)]
  note k = k kept_trans [OF k(2) t2(3)]
  note k = k kept_trans [OF k(3) t3(3)]
  note e = kept_trans [OF k(1) v0(3)] kept_trans [OF k(2) v1(3)] kept_trans [OF k(3) v2(3)] kept_trans [OF k(4) v3(3)]
  consider "r0 \<noteq> 0" | "r0 = 0" "r1 \<noteq> 0" | "r0 = 0" "r1 = 0" "r2 \<noteq> 0" | "r0 = 0" "r1 = 0" "r2 = 0" "r3 \<noteq> 0" | "r0 = 0" "r1 = 0" "r2 = 0" "r3 = 0" by blast
  then show ?thesis
  proof cases
    case 1 show ?thesis by (intro disjI1 exI [of _ v0] exI [of _ r0]) (use 1 t0(1) v0 e(1) in simp)
  next
    case 2 show ?thesis by (intro disjI1 exI [of _ v1] exI [of _ r1]) (use 2 t0(1) t1(1) v1 e(2) in simp)
  next
    case 3 show ?thesis by (intro disjI1 exI [of _ v2] exI [of _ r2]) (use 3 t0(1) t1(1) t2(1) v2 e(3) in simp)
  next
    case 4 show ?thesis by (intro disjI1 exI [of _ v3] exI [of _ r3]) (use 4 t0(1) t1(1) t2(1) t3(1) v3 e(4) in simp)
  next
    case 5 show ?thesis
      by (intro disjI2 exI [of _ t5]) (use 5 t0(1) t1(1) t2(1) t3(1) t5 kept_trans [OF k(4) t5(4)] in simp)
  qed
qed

lemma seek_loop_returns:
  assumes sv: "fd_services E ok" and "ok s" "drive_ok d s"
  shows "\<exists>s' r. seek_loop E d h c rt n s = Some (s', r) \<and> ok s' \<and> kept d s s' \<and> (r = 0 \<longrightarrow> cyl (drives s' d) = c)"
  using assms(2,3)
proof (induction n arbitrary: s)
  case 0
  obtain t where t: "fd_log E (''cmd_seek exhausted %i retries'' @ nl) [ucast rt] s = Some t" "ok t" "same_drives s t" using logs [OF sv 0(1)] by blast
  obtain u where u: "motor_set E ''cmd_seek_internal'' d False t = Some u" "ok u" "same_drives t u"
    using motor_off_returns [OF sv t(2)] drive_ok_same [OF t(3)] 0(2) by blast
  show ?case using t u kept_same [OF same_drives_trans [OF t(3) u(3)]] by simp
next
  case (Suc n)
  from seek_round [OF sv Suc.prems, of h c rt n] show ?case
  proof (elim disjE exE conjE)
    fix t assume t: "ok t" "kept d s t" "drive_ok d t" "seek_loop E d h c rt (Suc n) s =
       (if st0 (drives t d) AND 0xC0 \<noteq> 0 then seek_loop E d h c rt n t
        else if cyl (drives t d) = c then motor_set E ''cmd_seek_internal'' d False t \<bind> (\<lambda>s. Some (s, 0))
        else seek_loop E d h c rt n t)"
    obtain u where u: "motor_set E ''cmd_seek_internal'' d False t = Some u" "ok u" "same_drives t u"
      using motor_off_returns [OF sv t(1,3)] by blast
    obtain v r where v: "seek_loop E d h c rt n t = Some (v, r)" "ok v" "kept d t v" "r = 0 \<longrightarrow> cyl (drives v d) = c"
      using Suc.IH [OF t(1,3)] by blast
    show ?thesis
      unfolding t(4) using u v kept_trans [OF t(2) v(3)] kept_trans [OF t(2) kept_same [OF u(3)]] same_drives_fields(4) [OF u(3), of d]
      by (simp split: if_split)
  qed blast
qed

text \<open>The cylinder a seek goes to: one past the last of the disk's format is the last.\<close>

definition seek_target :: "nat \<Rightarrow> u8 \<Rightarrow> 'a fdc \<Rightarrow> u8" where
  "seek_target d c s = (case fmt (drives s d) of None \<Rightarrow> c
     | Some k \<Rightarrow> if cyl (drives s d) \<noteq> c \<and> uint c > uint (cyls (floppy_formats ! k)) - 1 then cyls (floppy_formats ! k) - 1 else c)"

text \<open>
  C0. A seek returns, whatever the controller answers and whether or not it ever raises its interrupt, provided that
  sleeping, logging and starting the motor's task return. When it reports success, the drive stands on the cylinder
  asked for, or on the last one when the disk has fewer. The drive's format, type and cache are kept, and so are all
  other drives; only motors may change besides.
\<close>

theorem seek_returns:
  assumes "fd_services E ok" "ok s" "drive_ok d s" "\<forall>k. fmt (drives s d) = Some k \<longrightarrow> k < length floppy_formats"
  shows "\<exists>s' r. cmd_seek_internal E d head c retries s = Some (s', r) \<and> ok s' \<and> kept d s s' \<and>
    (r = 0 \<longrightarrow> cyl (drives s' d) = seek_target d c s)"
proof (cases "cyl (drives s d) = c")
  case True
  then show ?thesis using assms(2) kept_same [of s s d] by (auto simp: cmd_seek_internal_def seek_target_def split: option.splits)
next
  case False
  obtain t where t: "motor_set E ''cmd_seek_internal'' d True s = Some t" "ok t" "same_drives s t"
    using motor_on_returns [OF assms(1-3)] by blast
  obtain u r where u: "seek_loop E d head (seek_target d c s) retries (unat retries) t = Some (u, r)" "ok u" "kept d t u"
    "r = 0 \<longrightarrow> cyl (drives u d) = seek_target d c s"
    using seek_loop_returns [OF assms(1) t(2)] drive_ok_same [OF t(3)] assms(3) by blast
  have "cmd_seek_internal E d head c retries s = Some (u, r)"
    using False assms(4) t(1) u(1) by (cases "fmt (drives s d)") (auto simp: cmd_seek_internal_def seek_target_def format_of_def)
  then show ?thesis using u kept_trans [OF kept_same [OF t(3)] u(3)] by blast
qed

theorem seek_returns_witness:
  "\<forall>s :: fdc_state. \<exists>s' r. cmd_seek_internal fd_quiet 0 0 200 10 (s\<lparr>drives := \<lambda>_. fd_144\<rparr>) = Some (s', r) \<and>
     (r = 0 \<longrightarrow> cyl (drives s' 0) = 79)"
proof
  fix s :: fdc_state
  let ?s = "s\<lparr>drives := \<lambda>_. fd_144\<rparr>"
  have sv: "fd_services fd_quiet (\<lambda>_. True)" by (simp add: fd_services_def fd_quiet_def)
  have "drive_ok 0 ?s" by (simp add: drive_ok_def)
  moreover have "seek_target 0 200 ?s = 79" by (simp add: seek_target_def floppy_formats_def)
  ultimately show "\<exists>s' r. cmd_seek_internal fd_quiet 0 0 200 10 ?s = Some (s', r) \<and> (r = 0 \<longrightarrow> cyl (drives s' 0) = 79)"
    using seek_returns [OF sv, where s = ?s and d = 0 and head = 0 and c = 200 and retries = 10] by (auto simp: floppy_formats_def)
qed

end
