(* ===== verification/Fdcache.thy ===== *)
theory Fdcache
  imports Fdc
begin

text \<open>
  The block device of \<open>kernel/drivers/floppy.c\<close> on top of its cylinder cache.
\<close>

section \<open>While the disk stays in the drive\<close>

text \<open>The log is quiet, the drive has a known format, and its disk-change line is not raised.\<close>

definition loaded :: "'a fenv \<Rightarrow> nat \<Rightarrow> nat \<Rightarrow> 'a fdc \<Rightarrow> bool" where
  "loaded E d k s \<longleftrightarrow> \<not> s_verbose s \<and> num (drives s d) < 2 \<and> fmt (drives s d) = Some k \<and> 1 \<le> k \<and> k < length floppy_formats \<and>
     (\<forall>log. fd_dev E log (io_base (drives s d) + IO_OFF_DIR) AND 0x80 = 0)"

text \<open>The checks before each operation only look at the drive.\<close>

definition looked :: "nat \<Rightarrow> 'a fdc \<Rightarrow> 'a fdc \<Rightarrow> bool" where
  "looked d s s' \<longleftrightarrow> (\<exists>l. s' = s\<lparr>io_log := l, s_last_drive := Some d\<rparr>)"

lemma motor_direct_looks:
  assumes "num (drives s d) < 2"
  shows "\<exists>l. motor_set_direct d on s = Some (s\<lparr>io_log := l\<rparr>)"
proof -
  have "unat (num (drives s d)) = 0 \<or> unat (num (drives s d)) = 1" using assms by (auto simp: word_less_nat_alt)
  then have "num (drives s d) = 0 \<or> num (drives s d) = 1" by (metis unat_0 unat_1 word_unat_eq_iff)
  then obtain v where "motor_set_direct d on s = Some (write_dor d v s)" by (auto simp: motor_set_direct_def)
  moreover have "write_dor d v s = s\<lparr>io_log := io_log s @ [Out8 (io_base (drives s d) + IO_OFF_DOR) v, Out8 0x80 0]\<rparr>"
    by (simp add: io_out8_def io_wait_def)
  ultimately show ?thesis by (simp only:) blast
qed

lemma read_dir_looks:
  assumes "loaded E d k s"
  shows "\<exists>l v. read_dir E d s = Some (s\<lparr>io_log := l\<rparr>, v) \<and> v AND 0x80 = 0"
proof -
  have n: "num (drives s d) < 2" and dev: "\<And>log. fd_dev E log (io_base (drives s d) + IO_OFF_DIR) AND 0x80 = 0"
    using assms by (auto simp: loaded_def)
  obtain l where l: "motor_set_direct d True s = Some (s\<lparr>io_log := l\<rparr>)" using motor_direct_looks [OF n] by blast
  let ?v = "fd_dev E l (io_base (drives s d) + IO_OFF_DIR)"
  let ?t = "s\<lparr>io_log := l @ [In8 (io_base (drives s d) + IO_OFF_DIR) ?v]\<rparr>"
  obtain m where m: "motor_set_direct d (motor (drives s d) \<noteq> fd_mot_off) ?t = Some (?t\<lparr>io_log := m\<rparr>)"
    using motor_direct_looks [of ?t d] n by auto
  then have "read_dir E d s = Some (s\<lparr>io_log := m\<rparr>, ?v)" using l by (simp add: read_dir_def io_in8_def Let_def)
  then show ?thesis using dev by blast
qed

lemma check_media_looks:
  assumes "loaded E d k s"
  shows "\<exists>l. check_media_changed E c d s = Some (s\<lparr>io_log := l\<rparr>)"
proof -
  obtain l v where "read_dir E d s = Some (s\<lparr>io_log := l\<rparr>, v)" "v AND 0x80 = 0" using read_dir_looks [OF assms] by blast
  then show ?thesis using assms by (subst check_media_changed.simps) (auto simp: loaded_def)
qed

lemma drive_change_looks: "\<not> s_verbose s \<Longrightarrow> handle_drive_change E d s = Some (s\<lparr>s_last_drive := Some d\<rparr>)"
  by (auto simp: handle_drive_change_def dbg_def split: option.splits)

lemma checks_look:
  assumes "loaded E d k s"
  obtains a t where "check_media_changed E c d s = Some a" "handle_drive_change E d a = Some t" "looked d s t"
proof -
  obtain l where l: "check_media_changed E c d s = Some (s\<lparr>io_log := l\<rparr>)" using check_media_looks [OF assms] by blast
  have h: "handle_drive_change E d (s\<lparr>io_log := l\<rparr>) = Some (s\<lparr>io_log := l, s_last_drive := Some d\<rparr>)"
    using assms by (intro drive_change_looks) (simp add: loaded_def)
  show ?thesis by (rule that [OF l h]) (auto simp: looked_def)
qed

lemma looked_trans [trans]: "looked d s t \<Longrightarrow> looked d t u \<Longrightarrow> looked d s u"
  by (auto simp: looked_def)

lemma loaded_looked: "looked d s t \<Longrightarrow> loaded E d k t = loaded E d k s"
  by (auto simp: looked_def loaded_def)

lemma looked_fields:
  assumes "looked d s t"
  shows "drives t = drives s" "cyl_caches t = cyl_caches s" "cylinders t = cylinders s" "kmem t = kmem s" "sems t = sems s"
    "purgeables t = purgeables s" "s_purgeable t = s_purgeable s" "s_verbose t = s_verbose s"
  using assms by (auto simp: looked_def)

lemma format_loaded: "loaded E d k s \<Longrightarrow> format_of d s = Some (floppy_formats ! k)"
  by (simp add: loaded_def format_of_def)

lemma all_sectors_512: "1 \<le> k \<Longrightarrow> k < length floppy_formats \<Longrightarrow> sector_size (floppy_formats ! k) = 2"
proof -
  assume "1 \<le> k" "k < length floppy_formats"
  then have "k \<in> {1, 2, 3, 4, 5, 6, 7, 8}" by (auto simp: floppy_formats_def)
  then show ?thesis by (auto simp: floppy_formats_def)
qed

lemma block_size_looks:
  assumes "loaded E d k s"
  obtains t where "flop_block_size E d s = Some (t, 512)" "looked d s t"
proof -
  obtain a t where t: "check_media_changed E ''flop_block_count'' d s = Some a" "handle_drive_change E d a = Some t" "looked d s t"
    by (rule checks_look [OF assms])
  have lt: "loaded E d k t" using loaded_looked [OF t(3)] assms by blast
  then have "fmt (drives t d) = Some k" "sector_size (floppy_formats ! k) = 2" by (auto simp: loaded_def all_sectors_512)
  moreover have "\<not> s_verbose s" using assms by (simp add: loaded_def)
  ultimately have "flop_block_size E d s = Some (t, 512)" using t(1,2) format_loaded [OF lt] by (simp add: flop_block_size_def dbg_def)
  then show ?thesis using t(3) by (rule that)
qed

section \<open>Geometry\<close>

lemma unat_ucast16: "unat (ucast (w :: u8) :: u16) = unat w"
  using unat_lt8 [of w] by (simp add: unsigned_ucast_eq take_bit_eq_mod)

lemma lba_parts:
  assumes f: "0 < heads f" "0 < sectors_per_track f" and l: "unat lba < 65536"
  defines "H \<equiv> unat (heads f)" and "S \<equiv> unat (sectors_per_track f)"
  shows "lba_to_cyl f (ucast (lba :: u32)) = Some (of_nat (unat lba div (H * S)))"
    "lba_to_head f (ucast lba) = Some (of_nat (unat lba div S mod H))"
    "lba_to_sector f (ucast lba) = Some (of_nat (unat lba mod S) + 1)"
proof -
  have u: "unat (ucast lba :: u16) = unat lba" using l by (simp add: unsigned_ucast_eq take_bit_eq_mod)
  have "H * S \<le> 255 * 255" unfolding H_def S_def using unat_lt8 [of "heads f"] unat_lt8 [of "sectors_per_track f"] by (intro mult_le_mono) simp_all
  then have p: "unat (ucast (heads f) * ucast (sectors_per_track f) :: u16) = H * S"
    unfolding H_def S_def by (subst unat_mult_small) (simp_all add: unat_ucast16)
  have nz: "heads f \<noteq> 0" "sectors_per_track f \<noteq> 0" using f by auto
  have w: "x = of_nat n" if "unat x = n" for x :: u16 and n using that by auto
  have c: "ucast lba div (ucast (heads f) * ucast (sectors_per_track f)) = (of_nat (unat lba div (H * S)) :: u16)"
    by (rule w) (simp only: unat_div_distrib u p)
  have h: "ucast lba div ucast (sectors_per_track f) mod ucast (heads f) = (of_nat (unat lba div S mod H) :: u16)"
    by (rule w) (simp only: unat_div_distrib unat_mod_distrib u unat_ucast16 H_def S_def)
  have s: "ucast lba mod ucast (sectors_per_track f) = (of_nat (unat lba mod S) :: u16)"
    by (rule w) (simp only: unat_mod_distrib u unat_ucast16 S_def)
  show "lba_to_cyl f (ucast lba) = Some (of_nat (unat lba div (H * S)))" unfolding lba_to_cyl_def c using nz by simp
  show "lba_to_head f (ucast lba) = Some (of_nat (unat lba div S mod H))" unfolding lba_to_head_def h using nz by simp
  show "lba_to_sector f (ucast lba) = Some (of_nat (unat lba mod S) + 1)" unfolding lba_to_sector_def s using nz by simp
qed

text \<open>The offset of a block inside its cylinder.\<close>

lemma cylinder_offset: "(l div S mod H) * (S * 512) + (l mod S) * 512 = (l mod (H * S)) * (512 :: nat)"
proof -
  have "l mod (H * S) = S * (l div S mod H) + l mod S" unfolding mult.commute [of H S] by (rule mod_mult2_eq)
  then show ?thesis by (simp add: add_mult_distrib mult_ac)
qed

section \<open>Reading a block of a cached cylinder\<close>

definition cached :: "nat \<Rightarrow> int \<Rightarrow> u32 \<Rightarrow> u32 \<Rightarrow> 'a fdc \<Rightarrow> bool" where
  "cached d n p buf s \<longleftrightarrow>
     (let c = fd_cache (drives s d)
      in c \<noteq> 0 \<and> (\<exists>pre q post. rev (lru_cyls (cyl_caches s c)) = pre @ q # post \<and>
           (\<forall>x \<in> set pre. cy_data (cylinders s x) = 0 \<or> cy_num (cylinders s x) \<noteq> n) \<and>
           cy_data (cylinders s q) = p \<and> cy_num (cylinders s q) = n)) \<and>
     p \<noteq> 0 \<and> buf \<noteq> 0 \<and> pg_buf (purgeables s p) = buf \<and> sem_count (sems s (pg_lock p)) \<noteq> 0"

lemma cache_scan_skips:
  "\<forall>x \<in> set pre. cy_data (cylinders s x) = 0 \<or> cy_num (cylinders s x) \<noteq> n \<Longrightarrow> cache_scan E c n (pre @ qs) s = cache_scan E c n qs s"
  by (induction pre) auto

lemma cache_scan_hits:
  assumes "cached d n p buf s" "\<not> s_verbose s"
  shows "\<exists>t. cache_scan E (fd_cache (drives s d)) n (rev (lru_cyls (cyl_caches s (fd_cache (drives s d))))) s = Some (t, Some buf) \<and>
    kmem t = kmem s \<and> drives t = drives s \<and> s_verbose t = s_verbose s"
proof -
  let ?c = "fd_cache (drives s d)"
  obtain pre q post where q: "rev (lru_cyls (cyl_caches s ?c)) = pre @ q # post" "\<forall>x \<in> set pre. cy_data (cylinders s x) = 0 \<or> cy_num (cylinders s x) \<noteq> n"
    "cy_data (cylinders s q) = p" "cy_num (cylinders s q) = n" using assms(1) unfolding cached_def Let_def by blast
  have p: "p \<noteq> 0" "buf \<noteq> 0" "pg_buf (purgeables s p) = buf" "sem_count (sems s (pg_lock p)) \<noteq> 0" using assms(1) by (simp_all add: cached_def)
  show ?thesis
    unfolding q(1) cache_scan_skips [OF q(2)]
    using p q(3,4) assms(2) by (simp add: purgeable_get_def sem_pend_available dbg_def upd_sem_def)
qed

lemma cached_looked: "looked d s t \<Longrightarrow> cached d n p buf t = cached d n p buf s"
  unfolding cached_def by (simp add: looked_fields)

lemma cyl_cache_read_hits:
  assumes ld: "loaded E d k s" and ca: "cached d n p buf s" and n: "0 \<le> n"
    and sz: "ucast (cyl_size (cyl_caches s (fd_cache (drives s d)))) =
      (512 * ucast (sectors_per_track (floppy_formats ! k)) * ucast (heads (floppy_formats ! k)) :: u32)"
  obtains t where "cyl_cache_read E d n s = Some (t, 0, buf)" "kmem t = kmem s" "drives t = drives s" "\<not> s_verbose t"
proof -
  obtain a t1 where t1: "check_media_changed E ''sector_cache_read'' d s = Some a" "handle_drive_change E d a = Some t1" "looked d s t1"
    by (rule checks_look [OF ld])
  have l1: "loaded E d k t1" using loaded_looked [OF t1(3)] ld by blast
  obtain t2 where t2: "flop_block_size E d t1 = Some (t2, 512)" "looked d t1 t2" by (rule block_size_looks [OF l1])
  note k2 = looked_trans [OF t1(3) t2(2)]
  have l2: "loaded E d k t2" using loaded_looked [OF k2] ld by blast
  have c2: "cached d n p buf t2" using cached_looked [OF k2] ca by blast
  have q: "\<not> s_verbose t2" "fmt (drives t1 d) = Some k" "fd_cache (drives t2 d) \<noteq> 0"
    using l2 l1 c2 by (auto simp: loaded_def cached_def Let_def)
  obtain t where t: "cache_scan E (fd_cache (drives t2 d)) n (rev (lru_cyls (cyl_caches t2 (fd_cache (drives t2 d))))) t2 = Some (t, Some buf)"
    "kmem t = kmem t2" "drives t = drives t2" "s_verbose t = s_verbose t2" using cache_scan_hits [OF c2 q(1)] by blast
  have sz2: "ucast (cyl_size (cyl_caches t2 (fd_cache (drives t2 d)))) =
      (512 * ucast (sectors_per_track (floppy_formats ! k)) * ucast (heads (floppy_formats ! k)) :: u32)"
    using sz by (simp add: looked_fields [OF k2])
  have "cyl_cache_read E d n s = Some (t, 0, buf)"
    using n t1(1,2) q(2,3) t2(1) format_loaded [OF l2] sz2 t(1) by (simp add: cyl_cache_read_def)
  then show ?thesis using t(2-4) q(1) looked_fields [OF k2] by (intro that [of t]) simp_all
qed

lemma put_returns: "ptr \<noteq> 0 \<Longrightarrow> \<exists>t. purgeable_put ptr s = Some t \<and> kmem t = kmem s"
  by (auto simp: purgeable_put_def sem_post_def upd_sem_def upd_task_def Let_def split: option.splits list.splits)

lemma ucast_of_nat16: "n < 65536 \<Longrightarrow> (ucast (of_nat n :: u16) :: u32) = of_nat n"
  by (simp add: word_unat_eq_iff unsigned_ucast_eq take_bit_eq_mod)

lemma cylinder_number:
  assumes "n < 128"
  shows "sint (ucast (of_nat n :: u16) :: u8) = int n"
proof -
  have u: "unat (ucast (of_nat n :: u16) :: u8) = n" using assms by (simp add: unsigned_ucast_eq take_bit_eq_mod)
  have "uint (ucast (of_nat n :: u16) :: u8) = int n" using arg_cong [OF u, of int] by (simp only: uint_nat)
  then show ?thesis using assms by (simp only: sint_uint) (simp add: signed_take_bit_int_eq_self)
qed

text \<open>Where \<open>flop_block_read\<close> finds a block.\<close>

lemma block_source:
  assumes "S \<le> 36" "H \<le> 2" "0 < H" "0 < S"
  shows "ucast (of_nat (l div S mod H) :: u16) * ucast (of_nat S * 512 :: u16) + ucast (of_nat (l mod S) :: u16) * 512
    = 512 * (of_nat (l mod (H * S)) :: u32)"
proof -
  have "l div S mod H < H" "l mod S < S" using assms(3,4) by simp_all
  then have lt: "l div S mod H < 65536" "l mod S < 65536" "S * 512 < 65536" using assms(1,2) by linarith+
  have e: "of_nat S * 512 = (of_nat (S * 512) :: u16)" by simp
  have "ucast (of_nat (l div S mod H) :: u16) * ucast (of_nat S * 512 :: u16) + ucast (of_nat (l mod S) :: u16) * 512
    = (of_nat (l div S mod H) * of_nat (S * 512) + of_nat (l mod S) * 512 :: u32)"
    unfolding e ucast_of_nat16 [OF lt(1)] ucast_of_nat16 [OF lt(2)] ucast_of_nat16 [OF lt(3)] ..
  also have "\<dots> = of_nat ((l div S mod H) * (S * 512) + (l mod S) * 512)" by (simp only: of_nat_add of_nat_mult of_nat_numeral)
  also have "\<dots> = 512 * of_nat (l mod (H * S))" unfolding cylinder_offset by (simp only: of_nat_mult of_nat_numeral mult.commute)
  finally show ?thesis .
qed

text \<open>
  C0. While the disk stays in the drive, reading block \<open>lba\<close> of a cylinder that is in the cache returns exactly the
  512 bytes of that block: those at the block's place, \<open>lba mod (heads * sectors_per_track)\<close>, in the cached copy of
  cylinder \<open>lba div (heads * sectors_per_track)\<close>. Memory outside the caller's buffer does not change.
\<close>

theorem cached_block_read:
  fixes s :: "'a fdc"
  assumes ld: "loaded E d k s"
    and l: "unat lba < unat (cyls (floppy_formats ! k)) * (unat (heads (floppy_formats ! k)) * unat (sectors_per_track (floppy_formats ! k)))"
    and ca: "cached d (int (unat lba div (unat (heads (floppy_formats ! k)) * unat (sectors_per_track (floppy_formats ! k))))) p buf s"
    and sz: "ucast (cyl_size (cyl_caches s (fd_cache (drives s d)))) =
      (512 * ucast (sectors_per_track (floppy_formats ! k)) * ucast (heads (floppy_formats ! k)) :: u32)"
    and o: "out \<noteq> 0" "512 \<le> out - (buf + 512 * of_nat (unat lba mod (unat (heads (floppy_formats ! k)) * unat (sectors_per_track (floppy_formats ! k)))))"
  shows "\<exists>s'. flop_block_read E d lba out s = Some (s', 0) \<and>
    kmem s' = (\<lambda>a. if a - out < 512
      then kmem s (buf + 512 * of_nat (unat lba mod (unat (heads (floppy_formats ! k)) * unat (sectors_per_track (floppy_formats ! k)))) + (a - out))
      else kmem s a)"
proof -
  define f H S where "f = floppy_formats ! k" "H = unat (heads f)" "S = unat (sectors_per_track f)"
  have k: "k \<in> {1, 2, 3, 4, 5, 6, 7, 8}" using ld by (auto simp: loaded_def floppy_formats_def)
  have geo: "0 < heads f" "0 < sectors_per_track f" "unat (cyls f) \<le> 80" "H * S \<le> 72" "H \<le> 2" "S \<le> 36"
    using k unfolding f_H_S_def by (auto simp: floppy_formats_def)
  define n where "n = unat lba div (H * S)"
  have l': "unat lba < 65536" "n < 128"
  proof -
    have "unat (cyls f) * (H * S) \<le> 80 * 72" using geo by (intro mult_le_mono)
    then show "unat lba < 65536" using l unfolding f_H_S_def by linarith
    have "n < unat (cyls f)" using l unfolding n_def f_H_S_def by (rule less_mult_imp_div_less)
    then show "n < 128" using geo(3) by linarith
  qed
  note parts = lba_parts [OF geo(1,2) l'(1), folded f_H_S_def(2,3)]
  have q: "\<not> s_verbose s" using ld by (simp add: loaded_def)
  obtain a t1 where t1: "check_media_changed E ''flop_block_read'' d s = Some a" "handle_drive_change E d a = Some t1" "looked d s t1"
    by (rule checks_look [OF ld])
  note l1 = loaded_looked [OF t1(3), of E k, THEN iffD2, OF ld]
  have c1: "cached d (int n) p buf t1" using cached_looked [OF t1(3)] ca unfolding n_def f_H_S_def by blast
  obtain t2 where t2: "cyl_cache_read E d (int n) t1 = Some (t2, 0, buf)" "kmem t2 = kmem t1" "drives t2 = drives t1" "\<not> s_verbose t2"
    using cyl_cache_read_hits [OF l1 c1] sz by (auto simp: looked_fields [OF t1(3)])
  have l2: "loaded E d k t2" using l1 t2(3,4) by (simp add: loaded_def)
  obtain t3 where t3: "flop_block_size E d t2 = Some (t3, 512)" "looked d t2 t3" by (rule block_size_looks [OF l2])
  note l3 = loaded_looked [OF t3(2), of E k, THEN iffD2, OF l2]
  have m: "kmem t3 = kmem s" using looked_fields(4) [OF t3(2)] looked_fields(4) [OF t1(3)] t2(2) by simp
  let ?src = "buf + 512 * of_nat (unat lba mod (H * S))"
  define t4 where "t4 = t3\<lparr>kmem := memcpy (kmem t3) out ?src 512\<rparr>"
  have b: "buf \<noteq> 0" using ca by (simp add: cached_def)
  obtain t5 where t5: "purgeable_put buf t4 = Some t5" "kmem t5 = kmem t4" using put_returns [OF b] by blast
  have "0 < H" "0 < S" using geo(1,2) unfolding f_H_S_def by (simp_all add: unat_gt_0)
  note src = block_source [OF geo(6,5) this, of "unat lba"]
  have sp: "ucast (sectors_per_track f) = (of_nat S :: u16)" by (simp add: word_unat_eq_iff unat_ucast16 f_H_S_def)
  note fmt1 = format_loaded [OF l1, folded f_H_S_def(1)] and fmt3 = format_loaded [OF l3, folded f_H_S_def(1)]
  have k1: "fmt (drives t1 d) = Some k" using l1 by (simp add: loaded_def)
  have w: "of_int 512 = (512 :: u16)" "ucast (512 :: u16) = (512 :: u32)" by simp_all
  have "flop_block_read E d lba out s = Some (t5, 0)"
    unfolding flop_block_read_def dbg_def using q o(1) t1(1,2) k1 fmt1 parts b t3(1) fmt3 t5(1) t2(1)
    by (simp add: cylinder_number [OF l'(2)] n_def [symmetric] sp w src t4_def)
  then show ?thesis using t5(2) o(2) by (simp add: t4_def m memcpy_eq f_H_S_def)
qed

text \<open>Block 100 of a 1.44M disk is the block 28 of cylinder 2, cached at 0x20000.\<close>

definition fd_start :: "fdc_state \<Rightarrow> fdc_state" where
  "fd_start s = s\<lparr>s_verbose := False, drives := \<lambda>_. fd_144, cyl_caches := \<lambda>_. \<lparr>lru_cyls = [0x2000, 0x2010], cyl_size = 18432\<rparr>,
     cylinders := (\<lambda>_. \<lparr>cy_data = 0, cy_num = -1, cy_flags = 0\<rparr>)(0x2000 := \<lparr>cy_data = 0x3000, cy_num = 2, cy_flags = 0\<rparr>),
     purgeables := \<lambda>_. \<lparr>pg_buf = 0x20000, pg_bytes = 18432, pg_on_purge = 0, pg_on_purge_ctx = 0\<rparr>,
     sems := \<lambda>_. \<lparr>sem_count = 1, sem_waiters = []\<rparr>\<rparr>"

theorem cached_block_read_witness:
  "\<forall>s. \<exists>s'. flop_block_read fd_quiet 0 100 0x90000 (fd_start s) = Some (s', 0) \<and>
     kmem s' 0x90003 = kmem s 0x23803 \<and> kmem s' 0x90200 = kmem s 0x90200"
proof
  fix s
  let ?s = "fd_start s"
  have f: "floppy_formats ! 7 = \<lparr>cyls = 80, heads = 2, sectors_per_track = 18, sector_size = 2, gap_len = 0x1B, datarate = 0,
    ff_name = ''1.44M 3.5'' @ [CHR 0x22]\<rparr>" by (simp add: floppy_formats_def)
  have ld: "loaded fd_quiet 0 7 ?s" by (simp add: loaded_def fd_start_def fd_quiet_def floppy_formats_def)
  have ca: "cached 0 2 0x3000 0x20000 ?s"
    unfolding cached_def Let_def by (simp add: fd_start_def) (rule exI [of _ "[0x2010]"], simp)
  have g: "unat (cyls (floppy_formats ! 7)) = 80" "unat (heads (floppy_formats ! 7)) = 2" "unat (sectors_per_track (floppy_formats ! 7)) = 18"
    unfolding f by simp_all
  have sz: "ucast (cyl_size (cyl_caches ?s (fd_cache (drives ?s 0)))) =
    (512 * ucast (sectors_per_track (floppy_formats ! 7)) * ucast (heads (floppy_formats ! 7)) :: u32)"
    unfolding f by (simp add: fd_start_def)
  have "\<exists>s'. flop_block_read fd_quiet 0 100 0x90000 ?s = Some (s', 0) \<and> kmem s' = (\<lambda>a. if a - 0x90000 < 512
      then kmem ?s (0x20000 + 512 * of_nat (unat (100 :: u32) mod (2 * 18)) + (a - 0x90000)) else kmem ?s a)"
    by (rule cached_block_read [OF ld, of 100 "0x3000" "0x20000" "0x90000", unfolded g, OF _ _ sz]) (use ca in simp_all)
  then obtain s' where "flop_block_read fd_quiet 0 100 0x90000 ?s = Some (s', 0)" "kmem s' = (\<lambda>a. if a - 0x90000 < 512
      then kmem ?s (0x20000 + 512 * of_nat (unat (100 :: u32) mod (2 * 18)) + (a - 0x90000)) else kmem ?s a)" by blast
  then show "\<exists>s'. flop_block_read fd_quiet 0 100 0x90000 ?s = Some (s', 0) \<and>
     kmem s' 0x90003 = kmem s 0x23803 \<and> kmem s' 0x90200 = kmem s 0x90200"
    by (auto simp: fd_start_def)
qed

end
