(* ===== verification/Spec2Isabelle.thy ===== *)
theory Spec2Isabelle
  imports Prelude Cstring Vlib Ilist X86 Wordmem Pfa Slab Sched Sync Timer Vma Paging Vfs Memfs Kheap Memfile Devfs Ringbuf Purge Drv Portio Terminal Kprintf Idt Kbd Ext2 Ext2tree Floppy Fdc Fdcache
begin

text \<open>Verification of the minima kernel.\<close>

end
